(* ===== verification/Prelude.thy ===== *)
theory Prelude
  imports Main "HOL-Library.Word"
begin

text \<open>
  What every component of the development shares: the machine integer types of the C code,
  the outcome of a C call (it returns, it blocks for ever, or it leaves defined behaviour),
  bounded memory copies, and the lemmas on lists and words that the component proofs use.
\<close>

unbundle bit_operations_syntax

named_theorems c_simps \<open>rewrite rules for outcomes and bounded copies\<close>

section \<open>Machine integers\<close>

type_synonym u8 = "8 word"
type_synonym u16 = "16 word"
type_synonym u32 = "32 word"
type_synonym bytes = "8 word list"

section \<open>Outcomes of C calls\<close>

text \<open>
  \<open>Fault\<close> is an access outside the object, a division by zero or any other undefined
  behaviour; \<open>Blocked\<close> is a call that never comes back (a mutex that nobody releases).
\<close>

datatype 'a outcome = Ret 'a | Fault | Blocked

fun bindO :: "'a outcome \<Rightarrow> ('a \<Rightarrow> 'b outcome) \<Rightarrow> 'b outcome" where
  "bindO (Ret x) k = k x"
| "bindO Fault k = Fault"
| "bindO Blocked k = Blocked"

declare bindO.simps [c_simps]

lemma bindO_eq_Ret [simp]: "bindO m k = Ret y \<longleftrightarrow> (\<exists>x. m = Ret x \<and> k x = Ret y)"
  by (cases m) auto

lemma bindO_assoc: "bindO (bindO m k) h = bindO m (\<lambda>x. bindO (k x) h)"
  by (cases m) auto

lemma bindO_cong [fundef_cong]:
  "m = m' \<Longrightarrow> (\<And>x. m' = Ret x \<Longrightarrow> k x = k' x) \<Longrightarrow> bindO m k = bindO m' k'"
  by (cases m') auto

section \<open>Bounded memory\<close>

text \<open>
  An object of \<open>n\<close> cells is a list of length \<open>n\<close>; an index is the C value, which may be
  negative. Reading or copying outside the list is a \<open>Fault\<close>.
\<close>

definition rd :: "'a list \<Rightarrow> int \<Rightarrow> 'a outcome" where
  "rd m i = (if 0 \<le> i \<and> i < int (length m) then Ret (m ! nat i) else Fault)"

definition copy_out :: "'a list \<Rightarrow> int \<Rightarrow> nat \<Rightarrow> 'a list outcome" where
  "copy_out m i n =
     (if 0 \<le> i \<and> i + int n \<le> int (length m) then Ret (take n (drop (nat i) m)) else Fault)"

definition copy_in :: "'a list \<Rightarrow> int \<Rightarrow> 'a list \<Rightarrow> 'a list outcome" where
  "copy_in m i xs =
     (if 0 \<le> i \<and> i + int (length xs) \<le> int (length m)
      then Ret (take (nat i) m @ xs @ drop (nat i + length xs) m) else Fault)"

lemma rd_nat [c_simps]: "i < length m \<Longrightarrow> rd m (int i) = Ret (m ! i)"
  by (simp add: rd_def)

lemma copy_out_nat [c_simps]:
  "i + n \<le> length m \<Longrightarrow> copy_out m (int i) n = Ret (take n (drop i m))"
  by (simp add: copy_out_def)

lemma copy_out_0 [c_simps]: "n \<le> length m \<Longrightarrow> copy_out m 0 n = Ret (take n m)"
  by (simp add: copy_out_def)

lemma copy_in_nat [c_simps]:
  "i + length xs \<le> length m \<Longrightarrow>
   copy_in m (int i) xs = Ret (take i m @ xs @ drop (i + length xs) m)"
  by (simp add: copy_in_def)

lemma copy_in_0 [c_simps]:
  "length xs \<le> length m \<Longrightarrow> copy_in m 0 xs = Ret (xs @ drop (length xs) m)"
  by (simp add: copy_in_def)

lemma length_copy_in: "copy_in m i xs = Ret m' \<Longrightarrow> length m' = length m"
  by (auto simp: copy_in_def split: if_splits)

lemma length_copy_out: "copy_out m i n = Ret xs \<Longrightarrow> length xs = n"
  by (auto simp: copy_out_def split: if_splits)

lemma copy_out_append_left:
  "copy_out m i n = Ret xs \<Longrightarrow> copy_out (m @ m') i n = Ret xs"
  by (auto simp: copy_out_def split: if_splits)

section \<open>Little-endian integers in memory\<close>

text \<open>
  \<open>memcpy\<close> of a 16 or 32 bit integer on the little-endian ARM926 (NUC977) of the gateway.
\<close>

definition le16 :: "u16 \<Rightarrow> bytes" where
  "le16 w = [ucast w, ucast (drop_bit 8 w)]"

definition le32 :: "u32 \<Rightarrow> bytes" where
  "le32 w = [ucast w, ucast (drop_bit 8 w), ucast (drop_bit 16 w), ucast (drop_bit 24 w)]"

fun of_le16 :: "bytes \<Rightarrow> u16" where
  "of_le16 (a # b # _) = ucast a + push_bit 8 (ucast b)"
| "of_le16 _ = 0"

fun of_le32 :: "bytes \<Rightarrow> u32" where
  "of_le32 (a # b # c # d # _) =
     ucast a + push_bit 8 (ucast b) + push_bit 16 (ucast c) + push_bit 24 (ucast d)"
| "of_le32 _ = 0"

lemma length_le16 [simp]: "length (le16 w) = 2"
  by (simp add: le16_def)

lemma length_le32 [simp]: "length (le32 w) = 4"
  by (simp add: le32_def)

text \<open>The value of four bytes as a natural number, and the two directions.\<close>

lemma of_le32_nat:
  "of_le32 [a, b, c, d] =
     of_nat (unat a + 2 ^ 8 * unat b + 2 ^ 16 * unat c + 2 ^ 24 * unat d)"
  by (simp add: push_bit_eq_mult mult.commute)

lemma le32_of_le32: "length bs = 4 \<Longrightarrow> le32 (of_le32 bs) = bs"
proof -
  assume "length bs = 4"
  then obtain a b c d where bs: "bs = [a, b, c, d]"
    by (auto simp: numeral_eq_Suc length_Suc_conv)
  have disj: "of_le32 bs = ucast a OR push_bit 8 (ucast b) OR push_bit 16 (ucast c) OR push_bit 24 (ucast d)"
    unfolding bs of_le32.simps
    by (subst disjunctive_add, fastforce simp: bit_simps dest: bit_imp_le_length)+
       (simp only: or.assoc)
  show ?thesis
    unfolding bs le32_def disj [unfolded bs]
    by (simp; intro conjI; rule bit_eqI; auto simp: bit_simps dest: bit_imp_le_length)
qed

lemma of_le32_le32: "of_le32 (le32 w) = w"
proof -
  have "of_le32 (le32 w) = ucast (ucast w :: u8) OR push_bit 8 (ucast (ucast (drop_bit 8 w) :: u8)) OR
      push_bit 16 (ucast (ucast (drop_bit 16 w) :: u8)) OR push_bit 24 (ucast (ucast (drop_bit 24 w) :: u8))"
    unfolding le32_def of_le32.simps
    by (subst disjunctive_add, fastforce simp: bit_simps dest: bit_imp_le_length)+
       (simp only: or.assoc)
  also have "\<dots> = w"
  proof (rule bit_eqI)
    fix n
    show "bit (ucast (ucast w :: u8) OR push_bit 8 (ucast (ucast (drop_bit 8 w) :: u8)) OR
      push_bit 16 (ucast (ucast (drop_bit 16 w) :: u8)) OR
      push_bit 24 (ucast (ucast (drop_bit 24 w) :: u8)) :: u32) n = bit w n"
      by (cases "n < 8"; cases "n < 16"; cases "n < 24") (auto simp: bit_simps dest: bit_imp_le_length)
  qed
  finally show ?thesis .
qed

lemma unat_of_nat_small': "n < 2 ^ LENGTH('a) \<Longrightarrow> unat (of_nat n :: 'a::len word) = n"
  by (simp add: unat_of_nat take_bit_nat_eq_self)

text \<open>Accesses inside an object succeed.\<close>

lemma rd_ok: "0 \<le> i \<Longrightarrow> i < int (length m) \<Longrightarrow> \<exists>x. rd m i = Ret x"
  by (simp add: rd_def)

lemma copy_out_ok: "0 \<le> i \<Longrightarrow> i + int n \<le> int (length m) \<Longrightarrow> \<exists>xs. copy_out m i n = Ret xs \<and> length xs = n"
  by (auto simp: copy_out_def)

lemma copy_in_ok:
  "0 \<le> i \<Longrightarrow> i + int (length xs) \<le> int (length m) \<Longrightarrow> \<exists>m'. copy_in m i xs = Ret m' \<and> length m' = length m"
  by (auto simp: copy_in_def)

lemma of_le16_nat: "of_le16 [a, b] = of_nat (unat a + 2 ^ 8 * unat b)"
  by (simp add: push_bit_eq_mult mult.commute)

lemma le16_of_le16: "length bs = 2 \<Longrightarrow> le16 (of_le16 bs) = bs"
proof -
  assume "length bs = 2"
  then obtain a b where bs: "bs = [a, b]" by (auto simp: numeral_eq_Suc length_Suc_conv)
  have disj: "of_le16 bs = ucast a OR push_bit 8 (ucast b)"
    unfolding bs of_le16.simps
    by (subst disjunctive_add, fastforce simp: bit_simps dest: bit_imp_le_length) (rule refl)
  show ?thesis
    unfolding bs le16_def disj [unfolded bs]
    by (simp; intro conjI; rule bit_eqI; auto simp: bit_simps dest: bit_imp_le_length)
qed

lemma of_le16_le16: "of_le16 (le16 w) = w"
proof -
  have "of_le16 (le16 w) = ucast (ucast w :: u8) OR push_bit 8 (ucast (ucast (drop_bit 8 w) :: u8))"
    unfolding le16_def of_le16.simps
    by (subst disjunctive_add, fastforce simp: bit_simps dest: bit_imp_le_length) (rule refl)
  also have "\<dots> = w"
  proof (rule bit_eqI)
    fix n
    show "bit (ucast (ucast w :: u8) OR push_bit 8 (ucast (ucast (drop_bit 8 w) :: u8)) :: u16) n = bit w n"
      by (cases "n < 8") (auto simp: bit_simps dest: bit_imp_le_length)
  qed
  finally show ?thesis .
qed

end
