(* ===== verification/Ring.thy ===== *)
theory Ring
  imports Prelude
begin

text \<open>
  Arithmetic of ring buffers: the cells of a ring of \<open>n\<close> slots read from a start position as
  a list, a write in two pieces (up to the end, then from slot 0), and why a free-running
  machine counter modulo the ring size is a position only when the size divides the counter's
  range.  Used by the byte fifo and by the message queue.
\<close>

section \<open>Counters of finite width\<close>

lemma unat_add_mod_dvd:
  fixes a b :: "'a::len word"
  assumes "n dvd 2 ^ LENGTH('a)"
  shows "unat (a + b) mod n = (unat a + unat b) mod n"
  using assms by (simp add: unat_word_ariths mod_mod_cancel)

lemma unat_add_mod_nowrap:
  fixes a b :: "'a::len word"
  assumes "unat a + unat b < 2 ^ LENGTH('a)"
  shows "unat (a + b) = unat a + unat b"
  using assms by (simp add: unat_word_ariths)

lemma unat_sub_if_le:
  fixes a b :: "'a::len word"
  shows "unat b \<le> unat a \<Longrightarrow> unat (a - b) = unat a - unat b"
  by (simp add: unat_sub word_le_nat_alt)

lemma unat_diff_bound:
  fixes a b s :: "'a::len word"
  assumes "unat (a - b) \<le> unat s"
  shows "unat (s - a + b) = unat s - unat (a - b)"
proof -
  have "s - a + b = s - (a - b)" by simp
  with assms show ?thesis by (simp only: unat_sub_if_le)
qed

lemma unat_min: "unat (min a b :: 'a::len word) = min (unat a) (unat b)"
  by (simp add: min_def word_le_nat_alt)

lemma unat_of_nat_small: "n < 2 ^ LENGTH('a) \<Longrightarrow> unat (of_nat n :: 'a::len word) = n"
  by (simp add: unat_of_nat take_bit_nat_eq_self)

lemma sint_small:
  fixes w :: "'a::len word"
  assumes "unat w < 2 ^ (LENGTH('a) - 1)"
  shows "sint w = int (unat w)"
proof -
  have "int (unat w) < int (2 ^ (LENGTH('a) - 1))"
    using assms by (simp only: of_nat_less_iff)
  then have "uint w < 2 ^ (LENGTH('a) - 1)" by simp
  moreover have "- (2 ^ (LENGTH('a) - 1)) \<le> uint w"
    by (rule order_trans [of _ 0]) simp_all
  ultimately have "sint w = uint w"
    by (simp add: sint_uint signed_take_bit_int_eq_self)
  then show ?thesis by simp
qed

section \<open>Reading and writing a ring\<close>

definition ring_read :: "'a list \<Rightarrow> nat \<Rightarrow> nat \<Rightarrow> 'a list" where
  "ring_read buf s c = map (\<lambda>i. buf ! ((s + i) mod length buf)) [0..<c]"

definition ring_write :: "'a list \<Rightarrow> nat \<Rightarrow> 'a list \<Rightarrow> 'a list" where
  "ring_write buf p xs =
     (let l = min (length xs) (length buf - p);
          buf1 = take p buf @ take l xs @ drop (p + l) buf
      in drop l xs @ drop (length xs - l) buf1)"

lemma length_ring_read [simp]: "length (ring_read buf s c) = c"
  by (simp add: ring_read_def)

lemma ring_read_0 [simp]: "ring_read buf s 0 = []"
  by (simp add: ring_read_def)

lemma nth_ring_read [simp]:
  "i < c \<Longrightarrow> ring_read buf s c ! i = buf ! ((s + i) mod length buf)"
  by (simp add: ring_read_def)

lemma ring_read_mod: "ring_read buf (s mod length buf) c = ring_read buf s c"
  by (simp add: ring_read_def mod_add_left_eq)

lemma ring_read_add:
  "ring_read buf s (c + d) = ring_read buf s c @ ring_read buf (s + c) d"
proof (rule nth_equalityI)
  fix i
  assume "i < length (ring_read buf s (c + d))"
  then show "ring_read buf s (c + d) ! i = (ring_read buf s c @ ring_read buf (s + c) d) ! i"
    by (simp add: nth_append add.assoc)
qed simp

lemma take_ring_read: "k \<le> c \<Longrightarrow> take k (ring_read buf s c) = ring_read buf s k"
  using ring_read_add [of buf s k "c - k"] by simp

lemma drop_ring_read: "k \<le> c \<Longrightarrow> drop k (ring_read buf s c) = ring_read buf (s + k) (c - k)"
  using ring_read_add [of buf s k "c - k"] by simp

text \<open>A read that does not pass the end is a slice; one that does is two slices.\<close>

lemma ring_read_slice:
  assumes "p + c \<le> length buf"
  shows "ring_read buf p c = take c (drop p buf)"
proof (rule nth_equalityI)
  show "length (ring_read buf p c) = length (take c (drop p buf))" using assms by simp
  fix i assume "i < length (ring_read buf p c)"
  with assms show "ring_read buf p c ! i = take c (drop p buf) ! i" by simp
qed

lemma ring_read_shift: "ring_read buf (length buf + p) c = ring_read buf p c"
  by (simp add: ring_read_def add.assoc)

lemma ring_read_two_slices:
  assumes p: "p < length buf" and c: "c \<le> length buf"
    and l: "l = min c (length buf - p)"
  shows "ring_read buf p c = take l (drop p buf) @ take (c - l) buf"
proof (cases "p + c \<le> length buf")
  case True
  with l have "l = c" by simp
  with True show ?thesis by (simp add: ring_read_slice)
next
  case False
  with l p have l': "l = length buf - p" and lc: "l \<le> c" by simp_all
  have "ring_read buf p c = ring_read buf p l @ ring_read buf (p + l) (c - l)"
    using ring_read_add [of buf p l "c - l"] lc by simp
  moreover have "ring_read buf p l = take l (drop p buf)"
    using p l' by (intro ring_read_slice) simp
  moreover have "ring_read buf (p + l) (c - l) = take (c - l) buf"
  proof -
    have "p + l = length buf + 0" using p l' by simp
    then have "ring_read buf (p + l) (c - l) = ring_read buf 0 (c - l)"
      by (metis ring_read_shift)
    also have "\<dots> = take (c - l) buf" using c by (simp add: ring_read_slice)
    finally show ?thesis .
  qed
  ultimately show ?thesis by simp
qed

lemma ring_read_cong_mod:
  "s mod length buf = t mod length buf \<Longrightarrow> ring_read buf s c = ring_read buf t c"
  by (metis ring_read_mod)

lemma ring_read_all:
  "p < length buf \<Longrightarrow> ring_read buf p (length buf) = drop p buf @ take p buf"
  by (simp add: ring_read_two_slices)

lemma length_ring_write:
  "p < length buf \<Longrightarrow> length xs \<le> length buf \<Longrightarrow> length (ring_write buf p xs) = length buf"
  by (auto simp: ring_write_def Let_def min_def)

text \<open>
  What the whole ring holds after a write at \<open>p\<close>, seen from \<open>p\<close>: the new cells, then the
  cells the write did not reach.
\<close>

lemma ring_read_write_all:
  assumes p: "p < length buf" and xs: "length xs \<le> length buf"
  shows "ring_read (ring_write buf p xs) p (length buf) =
         xs @ ring_read buf (p + length xs) (length buf - length xs)"
proof (cases "p + length xs \<le> length buf")
  case True
  then have "ring_write buf p xs = take p buf @ xs @ drop (p + length xs) buf"
    by (simp add: ring_write_def Let_def)
  moreover have "ring_read buf (p + length xs) (length buf - length xs) =
      drop (p + length xs) buf @ take p buf"
  proof (cases "p + length xs = length buf")
    case True
    then have "length buf - length xs = p" by simp
    with True p show ?thesis
      using ring_read_shift [of buf 0 p] by (simp add: ring_read_slice)
  next
    case False
    with True show ?thesis by (simp add: ring_read_two_slices)
  qed
  ultimately show ?thesis
    using p True length_ring_write [OF p xs] ring_read_all [of p "ring_write buf p xs"] by simp
next
  case False
  define l where "l = length buf - p"
  have l: "l < length xs" "length xs - l \<le> p" "p + l = length buf"
    using False p xs by (auto simp: l_def)
  have W: "ring_write buf p xs = drop l xs @ drop (length xs - l) (take p buf) @ take l xs"
    using l by (simp add: ring_write_def Let_def flip: l_def)
  have "ring_read buf (p + length xs) (length buf - length xs) =
        ring_read buf (length xs - l) (length buf - length xs)"
    using l ring_read_shift [of buf "length xs - l" "length buf - length xs"]
    by (simp flip: l(3))
  also have "\<dots> = drop (length xs - l) (take p buf)"
    using l xs by (subst ring_read_slice) (auto simp: drop_take simp flip: l(3))
  finally show ?thesis
    using p l xs length_ring_write [OF p xs] ring_read_all [of p "ring_write buf p xs"]
    by (simp add: W)
qed

text \<open>The ring holds \<open>c\<close> cells from \<open>s\<close>; a write right after them appends.\<close>

lemma ring_read_write_append:
  assumes n: "0 < length buf" and fits: "c + length xs \<le> length buf"
  shows "ring_read (ring_write buf ((s + c) mod length buf) xs) s (c + length xs) =
         ring_read buf s c @ xs"
proof -
  define n p W where "n = length buf" and "p = (s + c) mod n" and "W = ring_write buf p xs"
  have p: "p < length buf" and xs: "length xs \<le> length buf"
    using n fits by (simp_all add: p_def n_def)
  have lW: "length W = n" using length_ring_write [OF p xs] by (simp add: W_def n_def)
  have all: "ring_read W p n = xs @ ring_read buf (p + length xs) (n - length xs)"
    using ring_read_write_all [OF p xs] by (simp add: W_def n_def)
  have "ring_read W (s + c) (length xs) = ring_read W p (length xs)"
    by (rule ring_read_cong_mod) (simp add: lW p_def)
  also have "\<dots> = take (length xs) (ring_read W p n)"
    using xs by (simp add: take_ring_read n_def)
  finally have new: "ring_read W (s + c) (length xs) = xs" by (simp add: all)
  have turn: "(p + (n - c)) mod n = s mod n"
  proof -
    have "(p + (n - c)) mod n = ((s + c) + (n - c)) mod n"
      unfolding p_def by (rule mod_add_left_eq)
    also have "(s + c) + (n - c) = s + n" using fits by (simp add: n_def)
    finally show ?thesis by simp
  qed
  have "ring_read W s c = ring_read W (p + (n - c)) c"
    by (rule ring_read_cong_mod) (simp add: lW turn)
  also have "\<dots> = drop (n - c) (ring_read W p n)"
    using fits by (simp add: drop_ring_read n_def)
  also have "\<dots> = drop (n - c - length xs) (ring_read buf (p + length xs) (n - length xs))"
    using fits all by (simp add: n_def)
  also have "\<dots> = ring_read buf (p + (n - c)) c"
    using fits by (simp add: drop_ring_read n_def)
  also have "\<dots> = ring_read buf s c"
    by (rule ring_read_cong_mod) (simp add: turn flip: n_def)
  finally show ?thesis
    using new by (simp add: ring_read_add W_def p_def n_def)
qed

text \<open>
  The code's two guarded copies (\<open>if (l > 0)\<close> to the end, \<open>if (len > l)\<close> from slot 0) are
  \<open>ring_write\<close> and \<open>ring_read\<close>, and neither leaves its buffer.
\<close>

lemma ring_copy_in:
  assumes p: "p < length buf" and n: "n \<le> length buf" "n \<le> length data"
    and l: "l = min n (length buf - p)"
  shows "bindO (if 0 < l then bindO (copy_out data 0 l) (copy_in buf (int p)) else Ret buf)
           (\<lambda>b1. if l < n then bindO (copy_out data (int l) (n - l)) (copy_in b1 0) else Ret b1) =
         Ret (ring_write buf p (take n data))"
proof -
  define b1 where "b1 = take p buf @ take l data @ drop (p + l) buf"
  have "(if 0 < l then bindO (copy_out data 0 l) (copy_in buf (int p)) else Ret buf) = Ret b1"
    using assms by (auto simp: c_simps b1_def)
  moreover have "(if l < n then bindO (copy_out data (int l) (n - l)) (copy_in b1 0) else Ret b1) =
      Ret (take (n - l) (drop l data) @ drop (n - l) b1)"
  proof (cases "l < n")
    case True
    have "copy_out data (int l) (n - l) = Ret (take (n - l) (drop l data))"
      using True n by (intro copy_out_nat) simp
    moreover have "length (take (n - l) (drop l data)) = n - l" "n - l \<le> length b1"
      using True n l p by (simp_all add: b1_def)
    ultimately show ?thesis using True by (simp add: c_simps)
  qed (use l in simp)
  moreover have "take (n - l) (drop l data) @ drop (n - l) b1 = ring_write buf p (take n data)"
    using assms by (simp add: ring_write_def Let_def b1_def drop_take min.absorb1 min.commute)
  ultimately show ?thesis by simp
qed

lemma ring_copy_out:
  assumes p: "p < length buf" and n: "n \<le> length buf" and l: "l = min n (length buf - p)"
  shows "bindO (if 0 < l then copy_out buf (int p) l else Ret [])
           (\<lambda>d1. bindO (if l < n then copy_out buf 0 (n - l) else Ret []) (\<lambda>d2. Ret (d1 @ d2))) =
         Ret (ring_read buf p n)"
  using assms by (auto simp: c_simps ring_read_two_slices [OF p n l])

end
