(* ===== verification/Queue_Interface.thy ===== *)
theory Queue_Interface
  imports Prelude
begin

text \<open>
  The contract of the two bounded queues of the gateway (the byte fifo of \<open>bfifo.c\<close> and the
  message queue of \<open>block_msg_queue.c\<close>): what a queue holds is a list, an enqueue appends what
  it accepts, a dequeue removes what it delivers from the front, and nothing else touches the
  contents.  Everything that follows from the contract alone is proved here once.
\<close>

text \<open>One call of a client: an enqueue request or a dequeue request.\<close>

datatype ('i, 'j) queue_op = Enq 'i | Deq 'j

text \<open>A run of a client: what the queue accepted and what it delivered, in order.\<close>

fun queue_run ::
  "('i \<Rightarrow> 'q \<Rightarrow> 'a list \<times> 'q) \<Rightarrow> ('j \<Rightarrow> 'q \<Rightarrow> 'a list \<times> 'q) \<Rightarrow>
   ('i, 'j) queue_op list \<Rightarrow> 'q \<Rightarrow> 'a list \<times> 'a list \<times> 'q" where
  "queue_run enq deq [] q = ([], [], q)"
| "queue_run enq deq (Enq i # ops) q =
     (let (xs, q1) = enq i q; (ins, outs, q') = queue_run enq deq ops q1 in (xs @ ins, outs, q'))"
| "queue_run enq deq (Deq j # ops) q =
     (let (xs, q1) = deq j q; (ins, outs, q') = queue_run enq deq ops q1 in (ins, xs @ outs, q'))"

locale lossless_queue =
  fixes inv :: "'q \<Rightarrow> bool"
    and contents :: "'q \<Rightarrow> 'a list"
    and cap :: "'q \<Rightarrow> nat"
    and enq :: "'i \<Rightarrow> 'q \<Rightarrow> 'a list \<times> 'q"
    and deq :: "'j \<Rightarrow> 'q \<Rightarrow> 'a list \<times> 'q"
  assumes enq_contents: "inv q \<Longrightarrow> enq i q = (xs, q') \<Longrightarrow> contents q' = contents q @ xs"
    and enq_inv: "inv q \<Longrightarrow> enq i q = (xs, q') \<Longrightarrow> inv q' \<and> cap q' = cap q"
    and deq_contents: "inv q \<Longrightarrow> deq j q = (xs, q') \<Longrightarrow> contents q = xs @ contents q'"
    and deq_inv: "inv q \<Longrightarrow> deq j q = (xs, q') \<Longrightarrow> inv q' \<and> cap q' = cap q"
    and bounded: "inv q \<Longrightarrow> length (contents q) \<le> cap q"
begin

abbreviation run :: "('i, 'j) queue_op list \<Rightarrow> 'q \<Rightarrow> 'a list \<times> 'a list \<times> 'q" where
  "run \<equiv> queue_run enq deq"

lemma run_inv: "inv q \<Longrightarrow> run ops q = (ins, outs, q') \<Longrightarrow> inv q' \<and> cap q' = cap q"
proof (induction ops arbitrary: q ins outs)
  case (Cons x ops)
  show ?case
  proof (cases x)
    case (Enq i)
    obtain xs q1 where e: "enq i q = (xs, q1)" by fastforce
    with Cons Enq enq_inv [OF \<open>inv q\<close> e] show ?thesis by (fastforce split: prod.splits)
  next
    case (Deq j)
    obtain xs q1 where d: "deq j q = (xs, q1)" by fastforce
    with Cons Deq deq_inv [OF \<open>inv q\<close> d] show ?thesis by (fastforce split: prod.splits)
  qed
qed simp

text \<open>
  First in, first out, nothing lost, nothing invented: what was there plus what was accepted
  is what was delivered plus what is left.
\<close>

lemma run_fifo:
  "inv q \<Longrightarrow> run ops q = (ins, outs, q') \<Longrightarrow> contents q @ ins = outs @ contents q'"
proof (induction ops arbitrary: q ins outs)
  case (Cons x ops)
  show ?case
  proof (cases x)
    case (Enq i)
    obtain xs q1 where e: "enq i q = (xs, q1)" by fastforce
    with Cons Enq enq_inv [OF \<open>inv q\<close> e] enq_contents [OF \<open>inv q\<close> e] show ?thesis
      by (fastforce split: prod.splits)
  next
    case (Deq j)
    obtain xs q1 where d: "deq j q = (xs, q1)" by fastforce
    with Cons Deq deq_inv [OF \<open>inv q\<close> d] deq_contents [OF \<open>inv q\<close> d] show ?thesis
      by (fastforce split: prod.splits)
  qed
qed simp

lemma run_in_flight:
  assumes "inv q" and "contents q = []" and "run ops q = (ins, outs, q')"
  shows "\<exists>rest. ins = outs @ rest \<and> length rest \<le> cap q"
proof -
  from run_fifo [OF assms(1,3)] assms(2) have "ins = outs @ contents q'" by simp
  moreover from run_inv [OF assms(1,3)] bounded [of q'] have "length (contents q') \<le> cap q"
    by simp
  ultimately show ?thesis by blast
qed

end

end
