(* ===== verification/Bfifo.thy ===== *)
theory Bfifo
  imports Ring Queue_Interface
begin

text \<open>
  The byte fifo of \<open>sdccp/bfifo.c\<close>: a ring of \<open>size\<close> bytes with two free-running 32 bit
  counters \<open>in\<close> and \<open>out\<close>, one mutex and two condition variables.  A record holds the fields
  of \<open>struct bfifo\<close>; every operation takes and returns it.  The code that runs in the other
  threads while a caller waits on a condition variable is a parameter (the \<open>w_wake\<close> of
  \<open>wait_env\<close>), and so are the clock and what \<open>malloc\<close> returns.
\<close>

section \<open>State\<close>

text \<open>A pthread mutex (none if its allocation failed), seen by the thread that calls.\<close>

datatype mutex = NoMutex | Free | Held

text \<open>A signal sent on one of the two condition variables: a log, the code keeps no such field.\<close>

datatype fifo_signal = Sig_not_empty | Sig_not_full

record bfifo =
  f_in :: u32
  f_out :: u32
  f_size :: u32
  f_lock :: mutex
  f_c_not_empty :: bool
  f_c_not_full :: bool
  f_buffer :: bytes
  f_signals :: "fifo_signal list"

text \<open>
  \<open>w_now\<close> is what \<open>clock_gettime\<close> returns (seconds and nanoseconds); \<open>w_wake\<close> is
  \<open>pthread_cond_timedwait\<close> (with a deadline) or \<open>pthread_cond_wait\<close> (without): it gets the fifo
  with the mutex released, and returns whether the call returned 0 together with the fifo as the
  other threads left it.
\<close>

record wait_env =
  w_now :: "int \<times> int"
  w_wake :: "(int \<times> int) option \<Rightarrow> bfifo \<Rightarrow> (bool \<times> bfifo) outcome"

section \<open>Operations\<close>

definition fifo_unlock :: "bfifo \<Rightarrow> bfifo" where
  "fifo_unlock f = f\<lparr>f_lock := Free\<rparr>"

text \<open>
  \<open>if (f && __fifo_lock(f->lock))\<close>: a null fifo or a fifo without a mutex gives \<open>fail\<close>; a mutex
  that an earlier call never released blocks the caller.
\<close>

definition with_fifo_lock ::
  "bfifo option \<Rightarrow> 'r \<Rightarrow> (bfifo \<Rightarrow> ('r \<times> bfifo) outcome) \<Rightarrow> ('r \<times> bfifo option) outcome" where
  "with_fifo_lock fo fail body =
     (case fo of
        None \<Rightarrow> Ret (fail, None)
      | Some f \<Rightarrow>
          (case f_lock f of
             NoMutex \<Rightarrow> Ret (fail, Some f)
           | Held \<Rightarrow> Blocked
           | Free \<Rightarrow> bindO (body (f\<lparr>f_lock := Held\<rparr>)) (\<lambda>(r, f'). Ret (r, Some f'))))"

definition fifo_cond_signal :: "fifo_signal \<Rightarrow> bfifo \<Rightarrow> bfifo" where
  "fifo_cond_signal s f =
     (if (case s of Sig_not_empty \<Rightarrow> f_c_not_empty f | Sig_not_full \<Rightarrow> f_c_not_full f)
      then f\<lparr>f_signals := f_signals f @ [s]\<rparr> else f)"

text \<open>The absolute deadline of a wait of \<open>timeout\<close> microseconds (\<open>timeout > 0\<close>).\<close>

definition fifo_deadline :: "int \<times> int \<Rightarrow> int \<Rightarrow> int \<times> int" where
  "fifo_deadline now timeout =
     (let nsec = snd now + (timeout mod 1000000) * 1000
      in (fst now + nsec div 1000000000 + timeout div 1000000, nsec mod 1000000000))"

definition fifo_cond_timedwait ::
  "wait_env \<Rightarrow> bool \<Rightarrow> int \<Rightarrow> bfifo \<Rightarrow> (bool \<times> bfifo) outcome" where
  "fifo_cond_timedwait w cond timeout f =
     (if f_lock f \<noteq> NoMutex \<and> cond then
        bindO (w_wake w (if 0 < timeout then Some (fifo_deadline (w_now w) timeout) else None)
                 (f\<lparr>f_lock := Free\<rparr>))
          (\<lambda>(ok, f'). Ret (ok, f'\<lparr>f_lock := Held\<rparr>))
      else Ret (False, f))"

text \<open>
  \<open>malloc\<close> gives a block of unspecified bytes or fails: \<open>mem\<close> is the block for
  \<open>sizeof(struct bfifo) + size\<close>, the flags say whether the mutex and the two condition variables
  could be allocated.
\<close>

definition bfifo_init ::
  "bfifo option \<Rightarrow> int \<Rightarrow> bool \<times> bool \<times> bool \<Rightarrow> int \<times> bfifo option" where
  "bfifo_init fo sz alloc =
     (case (fo, alloc) of
        (None, _) \<Rightarrow> (- 1, None)
      | (Some f, (m, ce, cf)) \<Rightarrow>
        (0, Some (f\<lparr>f_in := 0, f_out := 0, f_size := word_of_int sz,
             f_lock := (if m then Free else NoMutex), f_c_not_empty := ce, f_c_not_full := cf\<rparr>)))"

definition bfifo_create :: "bfifo option \<Rightarrow> int \<Rightarrow> bool \<times> bool \<times> bool \<Rightarrow> bfifo option" where
  "bfifo_create mem sz alloc =
     (case mem of None \<Rightarrow> None | Some f \<Rightarrow> snd (bfifo_init (Some f) sz alloc))"

definition bfifo_reset :: "bfifo option \<Rightarrow> (int \<times> bfifo option) outcome" where
  "bfifo_reset fo = with_fifo_lock fo (- 1) (\<lambda>f.
     let f1 = fifo_cond_signal Sig_not_empty f;
         f2 = fifo_cond_signal Sig_not_full f1
     in Ret (0, fifo_unlock (f2\<lparr>f_in := 0, f_out := 0\<rparr>)))"

text \<open>The wait both push operations start with, and the one both pull operations start with.\<close>

definition await_space :: "wait_env \<Rightarrow> int \<Rightarrow> bfifo \<Rightarrow> (bool \<times> bfifo) outcome" where
  "await_space w timeout f =
     (if f_size f = f_in f - f_out f then
        (if timeout = 0 then Ret (False, f)
         else fifo_cond_timedwait w (f_c_not_full f) timeout f)
      else Ret (True, f))"

definition await_data :: "wait_env \<Rightarrow> int \<Rightarrow> bfifo \<Rightarrow> (bool \<times> bfifo) outcome" where
  "await_data w timeout f =
     (if f_in f = f_out f then
        (if timeout = 0 then Ret (False, f)
         else fifo_cond_timedwait w (f_c_not_empty f) timeout f)
      else Ret (True, f))"

definition bfifo_push_wait ::
  "wait_env \<Rightarrow> bfifo option \<Rightarrow> int \<Rightarrow> (int \<times> bfifo option) outcome" where
  "bfifo_push_wait w fo timeout = with_fifo_lock fo (- 1) (\<lambda>f.
     bindO (await_space w timeout f) (\<lambda>(push_flag, f1).
       Ret (if push_flag then 1 else 0, fifo_unlock f1)))"

text \<open>
  \<open>int pos = f->in % f->size\<close> is signed; the lengths are unsigned, so \<open>f->size - pos\<close> and
  \<open>f->size - f->in + f->out\<close> wrap.  \<open>data\<close> is the caller's buffer.
\<close>

definition push_bytes :: "bfifo \<Rightarrow> bytes \<Rightarrow> u32 \<Rightarrow> (u32 \<times> bfifo) outcome" where
  "push_bytes f data len0 =
     (if f_size f = 0 then Fault else
      let pos = sint (f_in f mod f_size f);
          len = min len0 (f_size f - f_in f + f_out f);
          l = min len (f_size f - word_of_int pos)
      in bindO (if 0 < l then bindO (copy_out data 0 (unat l)) (copy_in (f_buffer f) pos)
                else Ret (f_buffer f)) (\<lambda>b1.
         bindO (if l < len then bindO (copy_out data (uint l) (unat (len - l))) (copy_in b1 0)
                else Ret b1) (\<lambda>b2.
         let f1 = f\<lparr>f_buffer := b2, f_in := f_in f + len\<rparr>
         in Ret (len, if 0 < len then fifo_cond_signal Sig_not_empty f1 else f1))))"

definition bfifo_push ::
  "wait_env \<Rightarrow> bfifo option \<Rightarrow> bytes \<Rightarrow> u32 \<Rightarrow> int \<Rightarrow> (int \<times> bfifo option) outcome" where
  "bfifo_push w fo data len timeout = with_fifo_lock fo (- 1) (\<lambda>f.
     bindO (await_space w timeout f) (\<lambda>(push_flag, f1).
       if push_flag then
         bindO (push_bytes f1 data len) (\<lambda>(n, f2). Ret (sint n, fifo_unlock f2))
       else Ret (0, fifo_unlock f1)))"

definition bfifo_pull_wait ::
  "wait_env \<Rightarrow> bfifo option \<Rightarrow> int \<Rightarrow> (int \<times> bfifo option) outcome" where
  "bfifo_pull_wait w fo timeout = with_fifo_lock fo (- 1) (\<lambda>f.
     bindO (await_data w timeout f) (\<lambda>(pull_flag, f1).
       Ret (if pull_flag then 1 else 0, fifo_unlock f1)))"

text \<open>What pull and peek copy to the caller's buffer: the bytes they write from its start.\<close>

definition peek_bytes :: "bfifo \<Rightarrow> u32 \<Rightarrow> (u32 \<times> bytes) outcome" where
  "peek_bytes f len0 =
     (if f_size f = 0 then Fault else
      let pos = sint (f_out f mod f_size f);
          len = min len0 (f_in f - f_out f);
          l = min len (f_size f - word_of_int pos)
      in bindO (if 0 < l then copy_out (f_buffer f) pos (unat l) else Ret []) (\<lambda>d1.
         bindO (if l < len then copy_out (f_buffer f) 0 (unat (len - l)) else Ret []) (\<lambda>d2.
         Ret (len, d1 @ d2))))"

definition pull_bytes :: "bfifo \<Rightarrow> u32 \<Rightarrow> ((u32 \<times> bytes) \<times> bfifo) outcome" where
  "pull_bytes f len0 =
     bindO (peek_bytes f len0) (\<lambda>(len, d).
       let f1 = f\<lparr>f_out := f_out f + len\<rparr>
       in Ret ((len, d), if 0 < len then fifo_cond_signal Sig_not_full f1 else f1))"

definition bfifo_pull ::
  "wait_env \<Rightarrow> bfifo option \<Rightarrow> u32 \<Rightarrow> int \<Rightarrow> ((int \<times> bytes) \<times> bfifo option) outcome" where
  "bfifo_pull w fo len timeout = with_fifo_lock fo (- 1, []) (\<lambda>f.
     bindO (await_data w timeout f) (\<lambda>(pull_flag, f1).
       if pull_flag then
         bindO (pull_bytes f1 len) (\<lambda>((n, d), f2). Ret ((sint n, d), fifo_unlock f2))
       else Ret ((0, []), fifo_unlock f1)))"

text \<open>The branch for an empty fifo leaves the function with the mutex still locked.\<close>

definition bfifo_peek :: "bfifo option \<Rightarrow> u32 \<Rightarrow> ((int \<times> bytes) \<times> bfifo option) outcome" where
  "bfifo_peek fo len = with_fifo_lock fo (0, []) (\<lambda>f.
     if f_in f = f_out f then Ret ((0, []), f)
     else bindO (peek_bytes f len) (\<lambda>(n, d). Ret ((sint n, d), fifo_unlock f)))"

definition bfifo_count :: "bfifo option \<Rightarrow> (int \<times> bfifo option) outcome" where
  "bfifo_count fo = with_fifo_lock fo (- 1) (\<lambda>f. Ret (sint (f_in f - f_out f), fifo_unlock f))"

section \<open>Invariant and abstraction\<close>

text \<open>
  A fifo holds the bytes between \<open>out\<close> and \<open>in\<close>.  The counters run freely over 32 bits, so a
  counter modulo the size is a position only when the size divides \<open>2 ^ 32\<close>.
\<close>

definition fifo_count :: "bfifo \<Rightarrow> nat" where
  "fifo_count f = unat (f_in f - f_out f)"

definition fifo_contents :: "bfifo \<Rightarrow> bytes" where
  "fifo_contents f = ring_read (f_buffer f) (unat (f_out f)) (fifo_count f)"

definition fifo_cap :: "bfifo \<Rightarrow> nat" where
  "fifo_cap f = unat (f_size f)"

definition fifo_ok :: "bfifo \<Rightarrow> bool" where
  "fifo_ok f \<longleftrightarrow> 0 < fifo_cap f \<and> fifo_cap f < 2 ^ 31 \<and> fifo_cap f dvd 2 ^ 32 \<and>
     length (f_buffer f) = fifo_cap f \<and> fifo_count f \<le> fifo_cap f"

text \<open>A fifo between two calls: its mutex exists and nobody holds it.\<close>

definition fifo_wf :: "bfifo \<Rightarrow> bool" where
  "fifo_wf f \<longleftrightarrow> fifo_ok f \<and> f_lock f = Free"

lemma length_fifo_contents [simp]: "length (fifo_contents f) = fifo_count f"
  by (simp add: fifo_contents_def)

lemma fifo_simps [simp]:
  "fifo_count (f\<lparr>f_lock := m\<rparr>) = fifo_count f"
  "fifo_contents (f\<lparr>f_lock := m\<rparr>) = fifo_contents f"
  "fifo_cap (f\<lparr>f_lock := m\<rparr>) = fifo_cap f"
  "fifo_ok (f\<lparr>f_lock := m\<rparr>) = fifo_ok f"
  "fifo_count (fifo_unlock f) = fifo_count f"
  "fifo_contents (fifo_unlock f) = fifo_contents f"
  "fifo_cap (fifo_unlock f) = fifo_cap f"
  "fifo_ok (fifo_unlock f) = fifo_ok f"
  "f_lock (fifo_unlock f) = Free"
  "fifo_count (fifo_cond_signal s f) = fifo_count f"
  "fifo_contents (fifo_cond_signal s f) = fifo_contents f"
  "fifo_cap (fifo_cond_signal s f) = fifo_cap f"
  "fifo_ok (fifo_cond_signal s f) = fifo_ok f"
  "f_lock (fifo_cond_signal s f) = f_lock f"
  by (simp_all add: fifo_count_def fifo_contents_def fifo_cap_def fifo_ok_def
      fifo_unlock_def fifo_cond_signal_def)

lemma fifo_size_pos: "fifo_ok f \<Longrightarrow> f_size f \<noteq> 0"
  by (auto simp: fifo_ok_def fifo_cap_def)

text \<open>The position of a counter, as the code computes it.\<close>

lemma fifo_pos:
  assumes "fifo_ok f"
  shows "sint (c mod f_size f) = int (unat c mod fifo_cap f)"
    and "f_size f - word_of_int (sint (c mod f_size f)) = f_size f - c mod f_size f"
    and "unat (f_size f - c mod f_size f) = fifo_cap f - unat c mod fifo_cap f"
proof -
  have lt: "unat (c mod f_size f) < 2 ^ 31" and le: "unat (c mod f_size f) \<le> unat (f_size f)"
    using assms by (auto simp: fifo_ok_def fifo_cap_def unat_mod intro: less_trans
        [OF mod_less_divisor] mod_le_divisor)
  then show "sint (c mod f_size f) = int (unat c mod fifo_cap f)"
    by (simp add: fifo_cap_def unat_mod sint_small)
  show "f_size f - word_of_int (sint (c mod f_size f)) = f_size f - c mod f_size f"
    by simp
  show "unat (f_size f - c mod f_size f) = fifo_cap f - unat c mod fifo_cap f"
    using le by (simp add: unat_sub_if_le fifo_cap_def unat_mod)
qed

lemma fifo_space:
  assumes "fifo_ok f"
  shows "unat (f_size f - f_in f + f_out f) = fifo_cap f - fifo_count f"
  using assms by (simp add: unat_diff_bound fifo_ok_def fifo_cap_def fifo_count_def)

lemma fifo_full_iff: "fifo_ok f \<Longrightarrow> f_size f = f_in f - f_out f \<longleftrightarrow> fifo_count f = fifo_cap f"
  by (auto simp: fifo_count_def fifo_cap_def word_unat_eq_iff)

lemma fifo_empty_iff: "f_in f = f_out f \<longleftrightarrow> fifo_count f = 0"
  by (auto simp: fifo_count_def unat_eq_zero)

section \<open>What the byte copies do\<close>

lemma bindO_if_Ret: "(if b then bindO m Ret else Ret x) = bindO (if b then m else Ret x) Ret"
  by simp

lemma fifo_ok_lt: "fifo_ok f \<Longrightarrow> n \<le> fifo_cap f \<Longrightarrow> n < 2 ^ 32"
  by (simp add: fifo_ok_def)

lemma push_bytes_eq:
  assumes ok: "fifo_ok f" and len: "unat len0 \<le> length data"
    and n: "n = min (unat len0) (fifo_cap f - fifo_count f)"
  shows "push_bytes f data len0 =
    (let f1 = f\<lparr>f_buffer := ring_write (f_buffer f) (unat (f_in f) mod fifo_cap f) (take n data),
                f_in := f_in f + of_nat n\<rparr>
     in Ret (of_nat n, if 0 < n then fifo_cond_signal Sig_not_empty f1 else f1))"
proof -
  define p len where "p = unat (f_in f) mod fifo_cap f"
    and "len = min len0 (f_size f - f_in f + f_out f)"
  define l where "l = min len (f_size f - f_in f mod f_size f)"
  have buf: "length (f_buffer f) = fifo_cap f" and p: "p < fifo_cap f"
    using ok by (simp_all add: fifo_ok_def p_def)
  have len': "unat len = n" by (simp add: len_def unat_min fifo_space [OF ok] n)
  then have len_nat: "len = of_nat n" by auto
  have l': "unat l = min n (fifo_cap f - p)"
    by (simp add: l_def unat_min len' fifo_pos [OF ok] p_def)
  have sub: "unat (len - l) = n - unat l"
    using len' l' by (subst unat_sub_if_le) simp_all
  have "of_nat (unat (f_in f mod f_size f)) = f_in f mod f_size f" by simp
  then have lw: "min len (f_size f - of_nat p) = l"
    by (simp add: l_def p_def fifo_cap_def unat_mod)
  have pos: "0 < l \<longleftrightarrow> 0 < unat l" "l < len \<longleftrightarrow> unat l < n" "0 < len \<longleftrightarrow> 0 < n"
    by (simp_all add: word_less_nat_alt len')
  have copies: "bindO (if 0 < unat l then bindO (copy_out data 0 (unat l)) (copy_in (f_buffer f) (int p))
                       else Ret (f_buffer f))
      (\<lambda>b1. if unat l < n then bindO (copy_out data (int (unat l)) (n - unat l)) (copy_in b1 0)
            else Ret b1) = Ret (ring_write (f_buffer f) p (take n data))"
    using p len n l' by (intro ring_copy_in) (simp_all add: buf)
  have "push_bytes f data len0 = bindO (bindO
      (if 0 < unat l then bindO (copy_out data 0 (unat l)) (copy_in (f_buffer f) (int p))
       else Ret (f_buffer f))
      (\<lambda>b1. if unat l < n then bindO (copy_out data (int (unat l)) (n - unat l)) (copy_in b1 0)
            else Ret b1))
      (\<lambda>b2. let f1 = f\<lparr>f_buffer := b2, f_in := f_in f + len\<rparr>
            in Ret (len, if 0 < n then fifo_cond_signal Sig_not_empty f1 else f1))"
    using fifo_size_pos [OF ok]
    by (simp add: push_bytes_def Let_def bindO_assoc fifo_pos [OF ok] sub pos lw del: min_less_iff_conj cong: if_cong
        flip: len_def p_def)
  then show ?thesis by (simp add: copies len_nat p_def Let_def)
qed

lemma fifo_push_state:
  assumes ok: "fifo_ok f" and n: "n \<le> fifo_cap f - fifo_count f" "n \<le> length data"
    and g: "g = f\<lparr>f_buffer := ring_write (f_buffer f) (unat (f_in f) mod fifo_cap f) (take n data),
                  f_in := f_in f + of_nat n\<rparr>"
  shows "fifo_ok g" and "fifo_cap g = fifo_cap f"
    and "fifo_contents g = fifo_contents f @ take n data"
proof -
  have fc: "fifo_count f \<le> fifo_cap f" "length (f_buffer f) = fifo_cap f" "0 < fifo_cap f"
      "fifo_cap f dvd 2 ^ 32" "fifo_cap f < 2 ^ 31"
    using ok by (simp_all add: fifo_ok_def)
  show cap: "fifo_cap g = fifo_cap f" by (simp add: g fifo_cap_def)
  have cnt: "fifo_count g = fifo_count f + n"
  proof -
    have "f_in g - f_out g = (f_in f - f_out f) + of_nat n" by (simp add: g)
    moreover have "unat (of_nat n :: u32) = n" using n fc by (intro unat_of_nat_small) simp
    ultimately show ?thesis
      using n fc by (simp add: fifo_count_def unat_add_mod_nowrap)
  qed
  have len: "length (f_buffer g) = fifo_cap f"
    using n fc by (simp add: g length_ring_write)
  with cap cnt n fc show "fifo_ok g" by (simp add: fifo_ok_def)
  have "unat (f_in f) mod fifo_cap f = (unat (f_out f) + fifo_count f) mod fifo_cap f"
    using fc unat_add_mod_dvd [of "fifo_cap f" "f_out f" "f_in f - f_out f"]
    by (simp add: fifo_count_def)
  then have "f_buffer g =
      ring_write (f_buffer f) ((unat (f_out f) + fifo_count f) mod length (f_buffer f)) (take n data)"
    by (simp add: g fc)
  moreover have "fifo_count f + length (take n data) \<le> length (f_buffer f)"
    using n fc by simp
  moreover have "unat (f_out g) = unat (f_out f)" by (simp add: g)
  ultimately show "fifo_contents g = fifo_contents f @ take n data"
    using ring_read_write_append [of "f_buffer f" "fifo_count f" "take n data" "unat (f_out f)"]
      n fc by (simp add: fifo_contents_def cnt min.absorb2)
qed

lemma peek_bytes_eq:
  assumes ok: "fifo_ok f" and n: "n = min (unat len0) (fifo_count f)"
  shows "peek_bytes f len0 = Ret (of_nat n, take n (fifo_contents f))"
proof -
  define p len where "p = unat (f_out f) mod fifo_cap f" and "len = min len0 (f_in f - f_out f)"
  define l where "l = min len (f_size f - f_out f mod f_size f)"
  have buf: "length (f_buffer f) = fifo_cap f" and p: "p < fifo_cap f"
    and cnt: "fifo_count f \<le> fifo_cap f"
    using ok by (simp_all add: fifo_ok_def p_def)
  have len': "unat len = n" by (simp add: len_def unat_min n fifo_count_def)
  then have len_nat: "len = of_nat n" by auto
  have l': "unat l = min n (fifo_cap f - p)"
    by (simp add: l_def unat_min len' fifo_pos [OF ok] p_def)
  have sub: "unat (len - l) = n - unat l"
    using len' l' by (subst unat_sub_if_le) simp_all
  have "of_nat (unat (f_out f mod f_size f)) = f_out f mod f_size f" by simp
  then have lw: "min len (f_size f - of_nat p) = l"
    by (simp add: l_def p_def fifo_cap_def unat_mod)
  have pos: "0 < l \<longleftrightarrow> 0 < unat l" "l < len \<longleftrightarrow> unat l < n"
    by (simp_all add: word_less_nat_alt len')
  have copies: "bindO (if 0 < unat l then copy_out (f_buffer f) (int p) (unat l) else Ret [])
      (\<lambda>d1. bindO (if unat l < n then copy_out (f_buffer f) 0 (n - unat l) else Ret [])
        (\<lambda>d2. Ret (d1 @ d2))) = Ret (ring_read (f_buffer f) p n)"
    using p n l' cnt by (intro ring_copy_out) (simp_all add: buf)
  have "peek_bytes f len0 = bindO
      (bindO (if 0 < unat l then copy_out (f_buffer f) (int p) (unat l) else Ret [])
        (\<lambda>d1. bindO (if unat l < n then copy_out (f_buffer f) 0 (n - unat l) else Ret [])
          (\<lambda>d2. Ret (d1 @ d2)))) (\<lambda>d. Ret (len, d))"
    using fifo_size_pos [OF ok]
    by (simp add: peek_bytes_def Let_def bindO_assoc fifo_pos [OF ok] sub pos lw del: min_less_iff_conj cong: if_cong
        flip: len_def p_def)
  moreover have "ring_read (f_buffer f) p n = take n (fifo_contents f)"
    using n by (simp add: fifo_contents_def take_ring_read p_def ring_read_mod flip: buf)
  ultimately show ?thesis by (simp add: copies len_nat)
qed

lemma fifo_pull_state:
  assumes ok: "fifo_ok f" and n: "n \<le> fifo_count f" and g: "g = f\<lparr>f_out := f_out f + of_nat n\<rparr>"
  shows "fifo_ok g" and "fifo_cap g = fifo_cap f"
    and "fifo_contents g = drop n (fifo_contents f)"
proof -
  have fc: "fifo_count f \<le> fifo_cap f" "length (f_buffer f) = fifo_cap f" "0 < fifo_cap f"
      "fifo_cap f dvd 2 ^ 32" "fifo_cap f < 2 ^ 31"
    using ok by (simp_all add: fifo_ok_def)
  have nn: "unat (of_nat n :: u32) = n" using n fc by (intro unat_of_nat_small) simp
  show cap: "fifo_cap g = fifo_cap f" by (simp add: g fifo_cap_def)
  have "f_in g - f_out g = (f_in f - f_out f) - of_nat n" by (simp add: g)
  then have cnt: "fifo_count g = fifo_count f - n"
    using n nn by (simp add: fifo_count_def unat_sub_if_le)
  with cap fc show "fifo_ok g" by (simp add: fifo_ok_def g)
  have "unat (f_out g) mod fifo_cap f = (unat (f_out f) + n) mod fifo_cap f"
    using fc nn unat_add_mod_dvd [of "fifo_cap f" "f_out f" "of_nat n"] by (simp add: g)
  then have "ring_read (f_buffer f) (unat (f_out g)) (fifo_count f - n) =
      ring_read (f_buffer f) (unat (f_out f) + n) (fifo_count f - n)"
    using fc by (intro ring_read_cong_mod) simp
  moreover have "f_buffer g = f_buffer f" by (simp add: g)
  ultimately have "fifo_contents g = ring_read (f_buffer f) (unat (f_out f) + n) (fifo_count f - n)"
    by (simp only: fifo_contents_def cnt)
  then show "fifo_contents g = drop n (fifo_contents f)"
    using n by (simp add: fifo_contents_def drop_ring_read)
qed

section \<open>The other threads\<close>

text \<open>
  What a wait may assume of the rest of the program: while the mutex is free the other threads
  keep the fifo well formed, as every operation below does, and they do not replace it.
\<close>

definition wake_keeps :: "wait_env \<Rightarrow> bool" where
  "wake_keeps w \<longleftrightarrow> (\<forall>d g. fifo_wf g \<longrightarrow>
     (case w_wake w d g of
        Ret (ok, g') \<Rightarrow> fifo_wf g' \<and> fifo_cap g' = fifo_cap g
      | Fault \<Rightarrow> False
      | Blocked \<Rightarrow> True))"

lemma wake_keepsD:
  assumes "wake_keeps w" and "fifo_wf g"
  obtains "w_wake w d g = Blocked"
  | ok g' where "w_wake w d g = Ret (ok, g')" "fifo_wf g'" "fifo_cap g' = fifo_cap g"
proof (cases "w_wake w d g")
  case (Ret r)
  obtain ok g' where r: "r = (ok, g')" by fastforce
  from assms have "case w_wake w d g of
      Ret (ok, g') \<Rightarrow> fifo_wf g' \<and> fifo_cap g' = fifo_cap g
    | Fault \<Rightarrow> False | Blocked \<Rightarrow> True"
    unfolding wake_keeps_def by blast
  with Ret r have "fifo_wf g' \<and> fifo_cap g' = fifo_cap g" by simp
  with Ret r that(2) show thesis by blast
next
  case Fault
  from assms have "case w_wake w d g of
      Ret (ok, g') \<Rightarrow> fifo_wf g' \<and> fifo_cap g' = fifo_cap g
    | Fault \<Rightarrow> False | Blocked \<Rightarrow> True"
    unfolding wake_keeps_def by blast
  with Fault show thesis by simp
qed (rule that(1))

text \<open>
  The fifo a push or a pull works on, after its wait: locked again by the caller, as the other
  threads left it; the flag says whether the operation goes on.
\<close>

definition fifo_held :: "bfifo \<Rightarrow> bool" where
  "fifo_held f \<longleftrightarrow> fifo_ok f \<and> f_lock f = Held"

lemma fifo_held_lock: "fifo_wf f \<Longrightarrow> fifo_held (f\<lparr>f_lock := Held\<rparr>)"
  by (simp add: fifo_wf_def fifo_held_def)

lemma fifo_held_unlock: "fifo_held f \<Longrightarrow> fifo_wf (fifo_unlock f)"
  by (simp add: fifo_wf_def fifo_held_def)

lemma timedwait_cases:
  assumes w: "wake_keeps w" and f: "fifo_held f"
  obtains "fifo_cond_timedwait w c t f = Blocked"
  | ok f' where "fifo_cond_timedwait w c t f = Ret (ok, f')" "fifo_held f'" "fifo_cap f' = fifo_cap f"
proof (cases c)
  case False
  then show thesis using f that(2) [of False f] by (simp add: fifo_cond_timedwait_def)
next
  case True
  have wf: "fifo_wf (f\<lparr>f_lock := Free\<rparr>)" using f by (simp add: fifo_held_def fifo_wf_def)
  define d where "d = (if 0 < t then Some (fifo_deadline (w_now w) t) else None)"
  show thesis
  proof (rule wake_keepsD [OF w wf, of d])
    assume "w_wake w d (f\<lparr>f_lock := Free\<rparr>) = Blocked"
    then have "fifo_cond_timedwait w c t f = Blocked"
      using True f by (simp add: fifo_cond_timedwait_def fifo_held_def flip: d_def)
    then show thesis by (rule that(1))
  next
    fix ok g'
    assume g: "w_wake w d (f\<lparr>f_lock := Free\<rparr>) = Ret (ok, g')" "fifo_wf g'"
      "fifo_cap g' = fifo_cap (f\<lparr>f_lock := Free\<rparr>)"
    then have "fifo_cond_timedwait w c t f = Ret (ok, g'\<lparr>f_lock := Held\<rparr>)"
      using True f by (simp add: fifo_cond_timedwait_def fifo_held_def flip: d_def)
    moreover have "fifo_held (g'\<lparr>f_lock := Held\<rparr>)" using g by (simp add: fifo_held_lock)
    ultimately show thesis using g that(2) by simp
  qed
qed

lemma await_space_cases:
  assumes w: "wake_keeps w" and f: "fifo_held f"
  obtains "await_space w t f = Blocked"
  | ok f' where "await_space w t f = Ret (ok, f')" "fifo_held f'" "fifo_cap f' = fifo_cap f"
proof (cases "f_size f = f_in f - f_out f \<and> t \<noteq> 0")
  case True
  then have "await_space w t f = fifo_cond_timedwait w (f_c_not_full f) t f"
    by (simp add: await_space_def)
  with that show thesis by (metis timedwait_cases [OF w f])
next
  case False
  then have "\<exists>ok. await_space w t f = Ret (ok, f)" by (auto simp: await_space_def)
  with that(2) f show thesis by blast
qed

lemma await_data_cases:
  assumes w: "wake_keeps w" and f: "fifo_held f"
  obtains "await_data w t f = Blocked"
  | ok f' where "await_data w t f = Ret (ok, f')" "fifo_held f'" "fifo_cap f' = fifo_cap f"
proof (cases "f_in f = f_out f \<and> t \<noteq> 0")
  case True
  then have "await_data w t f = fifo_cond_timedwait w (f_c_not_empty f) t f"
    by (simp add: await_data_def)
  with that show thesis by (metis timedwait_cases [OF w f])
next
  case False
  then have "\<exists>ok. await_data w t f = Ret (ok, f)" by (auto simp: await_data_def)
  with that(2) f show thesis by blast
qed

section \<open>What the operations do\<close>

lemma with_fifo_lock_wf:
  "fifo_wf f \<Longrightarrow> with_fifo_lock (Some f) fail body =
     bindO (body (f\<lparr>f_lock := Held\<rparr>)) (\<lambda>(r, f'). Ret (r, Some f'))"
  by (simp add: with_fifo_lock_def fifo_wf_def)

lemma sint_of_nat_count: "fifo_ok f \<Longrightarrow> n \<le> fifo_cap f \<Longrightarrow> sint (of_nat n :: u32) = int n"
  by (subst sint_small) (auto simp: fifo_ok_def unat_of_nat_small)

text \<open>
  A push after its wait: it takes as many bytes as fit, appends them, wakes a reader and gives
  the mutex back.
\<close>

definition fifo_pushed :: "bfifo \<Rightarrow> bytes \<Rightarrow> nat \<Rightarrow> bfifo \<Rightarrow> bool" where
  "fifo_pushed f1 data n f' \<longleftrightarrow>
     fifo_wf f' \<and> fifo_cap f' = fifo_cap f1 \<and> fifo_contents f' = fifo_contents f1 @ take n data \<and>
     f_signals f' = f_signals f1 @ (if 0 < n \<and> f_c_not_empty f1 then [Sig_not_empty] else [])"

definition fifo_pulled :: "bfifo \<Rightarrow> nat \<Rightarrow> bfifo \<Rightarrow> bool" where
  "fifo_pulled f1 n f' \<longleftrightarrow>
     fifo_wf f' \<and> fifo_cap f' = fifo_cap f1 \<and> fifo_contents f' = drop n (fifo_contents f1) \<and>
     f_signals f' = f_signals f1 @ (if 0 < n \<and> f_c_not_full f1 then [Sig_not_full] else [])"

lemma push_bytes_pushed:
  assumes f: "fifo_held f" and len: "unat len \<le> length data"
    and n: "n = min (unat len) (fifo_cap f - fifo_count f)"
  obtains f' where "push_bytes f data len = Ret (of_nat n, f')" "fifo_pushed f data n (fifo_unlock f')"
proof -
  have ok: "fifo_ok f" using f by (simp add: fifo_held_def)
  define g where "g = f\<lparr>f_buffer := ring_write (f_buffer f) (unat (f_in f) mod fifo_cap f) (take n data),
                        f_in := f_in f + of_nat n\<rparr>"
  have "n \<le> fifo_cap f - fifo_count f" "n \<le> length data" using n len by simp_all
  note st = fifo_push_state [OF ok this g_def]
  have same: "f_signals g = f_signals f" "f_c_not_empty g = f_c_not_empty f" by (simp_all add: g_def)
  define f' where "f' = (if 0 < n then fifo_cond_signal Sig_not_empty g else g)"
  have "push_bytes f data len = Ret (of_nat n, f')"
    using push_bytes_eq [OF ok len n] by (simp only: Let_def g_def f'_def)
  moreover have "f_signals (fifo_unlock f') =
      f_signals f @ (if 0 < n \<and> f_c_not_empty f then [Sig_not_empty] else [])"
    using same by (simp add: f'_def fifo_cond_signal_def fifo_unlock_def)
  then have "fifo_pushed f data n (fifo_unlock f')"
    using st by (simp add: fifo_pushed_def fifo_wf_def f'_def)
  ultimately show thesis by (rule that)
qed

lemma pull_bytes_pulled:
  assumes f: "fifo_held f" and n: "n = min (unat len) (fifo_count f)"
  obtains f' where "pull_bytes f len = Ret ((of_nat n, take n (fifo_contents f)), f')"
    "fifo_pulled f n (fifo_unlock f')"
proof -
  have ok: "fifo_ok f" using f by (simp add: fifo_held_def)
  define g where "g = f\<lparr>f_out := f_out f + of_nat n\<rparr>"
  have le: "n \<le> fifo_count f" using n by simp
  note st = fifo_pull_state [OF ok le g_def]
  have same: "f_signals g = f_signals f" "f_c_not_full g = f_c_not_full f" by (simp_all add: g_def)
  have nz: "0 < (of_nat n :: u32) \<longleftrightarrow> 0 < n"
  proof -
    have "unat (of_nat n :: u32) = n"
      using le fifo_ok_lt [OF ok] ok by (intro unat_of_nat_small) (simp add: fifo_ok_def)
    then show ?thesis by (simp add: word_less_nat_alt)
  qed
  define f' where "f' = (if 0 < n then fifo_cond_signal Sig_not_full g else g)"
  have "pull_bytes f len = Ret ((of_nat n, take n (fifo_contents f)), f')"
    by (cases "n = 0") (simp_all add: pull_bytes_def peek_bytes_eq [OF ok n] Let_def nz f'_def g_def)
  moreover have "f_signals (fifo_unlock f') =
      f_signals f @ (if 0 < n \<and> f_c_not_full f then [Sig_not_full] else [])"
    using same by (simp add: f'_def fifo_cond_signal_def fifo_unlock_def)
  then have "fifo_pulled f n (fifo_unlock f')"
    using st by (simp add: fifo_pulled_def fifo_wf_def f'_def)
  ultimately show thesis by (rule that)
qed

lemma push_after_wait:
  assumes f: "fifo_wf f" and g: "fifo_held f1" and len: "unat len \<le> length data"
    and wait: "await_space w t (f\<lparr>f_lock := Held\<rparr>) = Ret (go, f1)"
    and n: "n = (if go then min (unat len) (fifo_cap f1 - fifo_count f1) else 0)"
  shows "\<exists>f'. bfifo_push w (Some f) data len t = Ret (int n, Some f') \<and> fifo_pushed f1 data n f'"
proof (cases go)
  case True
  then have n': "n = min (unat len) (fifo_cap f1 - fifo_count f1)" using n by simp
  obtain f' where f': "push_bytes f1 data len = Ret (of_nat n, f')"
      "fifo_pushed f1 data n (fifo_unlock f')"
    using push_bytes_pushed [OF g len n'] .
  have "sint (of_nat n :: u32) = int n"
    using g n' by (intro sint_of_nat_count [of f1]) (simp_all add: fifo_held_def)
  with f' True show ?thesis
    by (simp add: bfifo_push_def with_fifo_lock_wf [OF f] wait)
next
  case False
  have "fifo_pushed f1 data 0 (fifo_unlock f1)"
    using g fifo_held_unlock [OF g] by (simp add: fifo_pushed_def) (simp add: fifo_unlock_def)
  with False n show ?thesis
    by (simp add: bfifo_push_def with_fifo_lock_wf [OF f] wait)
qed

lemma pull_after_wait:
  assumes f: "fifo_wf f" and g: "fifo_held f1"
    and wait: "await_data w t (f\<lparr>f_lock := Held\<rparr>) = Ret (go, f1)"
    and n: "n = (if go then min (unat len) (fifo_count f1) else 0)"
  shows "\<exists>f'. bfifo_pull w (Some f) len t = Ret ((int n, take n (fifo_contents f1)), Some f') \<and>
    fifo_pulled f1 n f'"
proof (cases go)
  case True
  then have n': "n = min (unat len) (fifo_count f1)" using n by simp
  obtain f' where f': "pull_bytes f1 len = Ret ((of_nat n, take n (fifo_contents f1)), f')"
      "fifo_pulled f1 n (fifo_unlock f')"
    using pull_bytes_pulled [OF g n'] .
  have "fifo_count f1 \<le> fifo_cap f1" using g by (simp add: fifo_held_def fifo_ok_def)
  then have "sint (of_nat n :: u32) = int n"
    using g n' by (intro sint_of_nat_count [of f1]) (simp_all add: fifo_held_def)
  with f' True show ?thesis
    by (simp add: bfifo_pull_def with_fifo_lock_wf [OF f] wait)
next
  case False
  have "fifo_pulled f1 0 (fifo_unlock f1)"
    using g fifo_held_unlock [OF g] by (simp add: fifo_pulled_def) (simp add: fifo_unlock_def)
  with False n show ?thesis
    by (simp add: bfifo_pull_def with_fifo_lock_wf [OF f] wait)
qed

section \<open>The fifo as a lossless queue\<close>

text \<open>
  Two clients that never wait: a writer that offers bytes and keeps what the fifo refused, and
  a reader that asks for at most \<open>n\<close> bytes.
\<close>

definition fifo_enq :: "wait_env \<Rightarrow> bytes \<Rightarrow> bfifo \<Rightarrow> bytes \<times> bfifo" where
  "fifo_enq w data f =
     (case bfifo_push w (Some f) data (of_nat (length data)) 0 of
        Ret (n, Some f') \<Rightarrow> (take (nat n) data, f') | _ \<Rightarrow> ([], f))"

definition fifo_deq :: "wait_env \<Rightarrow> u32 \<Rightarrow> bfifo \<Rightarrow> bytes \<times> bfifo" where
  "fifo_deq w len f =
     (case bfifo_pull w (Some f) len 0 of Ret ((n, d), Some f') \<Rightarrow> (d, f') | _ \<Rightarrow> ([], f))"

lemma push_nowait:
  assumes f: "fifo_wf f" and len: "unat len \<le> length data"
    and n: "n = min (unat len) (fifo_cap f - fifo_count f)"
  shows "\<exists>f'. bfifo_push w (Some f) data len 0 = Ret (int n, Some f') \<and> fifo_pushed f data n f'"
proof -
  let ?f = "f\<lparr>f_lock := Held\<rparr>"
  define go where "go = (fifo_count f \<noteq> fifo_cap f)"
  have "await_space w 0 ?f = Ret (go, ?f)"
    using f by (simp add: await_space_def go_def fifo_full_iff fifo_wf_def)
  moreover have "n = (if go then min (unat len) (fifo_cap ?f - fifo_count ?f) else 0)"
    using n by (auto simp: go_def)
  moreover have "fifo_pushed ?f data n = fifo_pushed f data n"
    by (auto simp: fifo_pushed_def)
  ultimately show ?thesis using push_after_wait [OF f fifo_held_lock [OF f] len] by metis
qed

lemma pull_nowait:
  assumes f: "fifo_wf f" and n: "n = min (unat len) (fifo_count f)"
  shows "\<exists>f'. bfifo_pull w (Some f) len 0 = Ret ((int n, take n (fifo_contents f)), Some f') \<and>
    fifo_pulled f n f'"
proof -
  let ?f = "f\<lparr>f_lock := Held\<rparr>"
  define go where "go = (fifo_count f \<noteq> 0)"
  have "await_data w 0 ?f = Ret (go, ?f)"
    by (simp add: await_data_def go_def fifo_empty_iff)
  moreover have "n = (if go then min (unat len) (fifo_count ?f) else 0)"
    using n by (auto simp: go_def)
  moreover have "fifo_pulled ?f n = fifo_pulled f n" by (auto simp: fifo_pulled_def)
  ultimately show ?thesis
    using pull_after_wait [OF f fifo_held_lock [OF f], of w 0 go n len] by simp
qed

lemma fifo_enq_push:
  assumes "fifo_wf f"
  obtains n where "fifo_pushed f data n (snd (fifo_enq w data f))" "fst (fifo_enq w data f) = take n data"
proof -
  have "unat (of_nat (length data) :: u32) \<le> length data"
    by (simp add: unat_of_nat take_bit_nat_less_eq_self)
  then obtain n f' where "bfifo_push w (Some f) data (of_nat (length data)) 0 = Ret (int n, Some f')"
    "fifo_pushed f data n f'"
    using push_nowait [OF assms _ refl] by blast
  then show thesis by (intro that [of n]) (simp_all add: fifo_enq_def)
qed

lemma fifo_deq_pull:
  assumes "fifo_wf f"
  obtains n where "fifo_pulled f n (snd (fifo_deq w len f))"
    "fst (fifo_deq w len f) = take n (fifo_contents f)"
proof -
  obtain n f' where "bfifo_pull w (Some f) len 0 = Ret ((int n, take n (fifo_contents f)), Some f')"
    "fifo_pulled f n f'"
    using pull_nowait [OF assms refl] by blast
  then show thesis by (intro that [of n]) (simp_all add: fifo_deq_def)
qed

interpretation bfifo: lossless_queue fifo_wf fifo_contents fifo_cap "fifo_enq w" "fifo_deq w" for w
proof
  fix f f' and data :: bytes and xs and len :: u32
  assume f: "fifo_wf f"
  {
    assume "fifo_enq w data f = (xs, f')"
    with fifo_enq_push [OF f, of data w] obtain n
      where n: "fifo_pushed f data n f'" "xs = take n data" by (metis fst_conv snd_conv)
    then show "fifo_contents f' = fifo_contents f @ xs" by (simp add: fifo_pushed_def)
    from n show "fifo_wf f' \<and> fifo_cap f' = fifo_cap f" by (simp add: fifo_pushed_def)
  }
  {
    assume "fifo_deq w len f = (xs, f')"
    with fifo_deq_pull [OF f, of w len] obtain n
      where n: "fifo_pulled f n f'" "xs = take n (fifo_contents f)" by (metis fst_conv snd_conv)
    then show "fifo_contents f = xs @ fifo_contents f'" by (simp add: fifo_pulled_def)
    from n show "fifo_wf f' \<and> fifo_cap f' = fifo_cap f" by (simp add: fifo_pulled_def)
  }
  show "length (fifo_contents f) \<le> fifo_cap f" using f by (simp add: fifo_wf_def fifo_ok_def)
qed

section \<open>Properties\<close>

text \<open>Nobody else runs: a wait always ends by its timeout.\<close>

definition no_threads :: wait_env where
  "no_threads = \<lparr>w_now = (0, 0), w_wake = (\<lambda>_ f. Ret (False, f))\<rparr>"

lemma no_threads_keeps: "wake_keeps no_threads"
  by (simp add: wake_keeps_def no_threads_def)

text \<open>A fifo of four bytes made by \<open>bfifo_create\<close>, with its counters just before they wrap.\<close>

definition fifo_block :: "bytes \<Rightarrow> bfifo" where
  "fifo_block b = \<lparr>f_in = 0, f_out = 0, f_size = 0, f_lock = NoMutex, f_c_not_empty = False,
     f_c_not_full = False, f_buffer = b, f_signals = []\<rparr>"

definition demo_fifo :: bfifo where
  "demo_fifo = (the (bfifo_create (Some (fifo_block [0, 0, 0, 0])) 4 (True, True, True)))
     \<lparr>f_in := 0xFFFFFFFE, f_out := 0xFFFFFFFE\<rparr>"

lemma demo_fifo_wf: "fifo_wf demo_fifo"
  by (simp add: demo_fifo_def fifo_block_def bfifo_create_def bfifo_init_def fifo_wf_def fifo_ok_def
      fifo_cap_def fifo_count_def)

lemma demo_fifo_empty: "fifo_contents demo_fifo = []"
  by (simp add: demo_fifo_def fifo_block_def bfifo_create_def bfifo_init_def
      fifo_contents_def fifo_count_def)



text \<open>
  Claim C22.  \<open>bfifo_push\<close>, with whatever timeout and whatever the other threads do during its
  wait, never leaves its buffers: it waits for ever only on a full fifo with a timeout, otherwise
  it appends the longest prefix of its data that fits to what the fifo holds after the wait (a
  wake-up without space stores nothing), returns the length of that prefix, signals a reader
  exactly when it stored something, and releases the mutex.
\<close>

theorem bfifo_push_spec:
  assumes "wake_keeps w" and "fifo_wf f" and "unat len \<le> length data"
  shows "await_space w t (f\<lparr>f_lock := Held\<rparr>) = Blocked \<and>
      bfifo_push w (Some f) data len t = Blocked \<and> fifo_count f = fifo_cap f \<and> t \<noteq> 0 \<or>
    (\<exists>go f1 n f'. await_space w t (f\<lparr>f_lock := Held\<rparr>) = Ret (go, f1) \<and> fifo_cap f1 = fifo_cap f \<and>
       n = (if go then min (unat len) (fifo_cap f - fifo_count f1) else 0) \<and>
       bfifo_push w (Some f) data len t = Ret (int n, Some f') \<and> fifo_pushed f1 data n f')"
proof (rule await_space_cases [OF assms(1) fifo_held_lock [OF assms(2)], of t])
  assume b: "await_space w t (f\<lparr>f_lock := Held\<rparr>) = Blocked"
  then have "fifo_count f = fifo_cap f \<and> t \<noteq> 0"
    using assms(2) fifo_full_iff [of f] by (auto simp: await_space_def fifo_wf_def split: if_splits)
  with b show ?thesis by (simp add: bfifo_push_def with_fifo_lock_wf [OF assms(2)])
next
  fix go f1
  assume r: "await_space w t (f\<lparr>f_lock := Held\<rparr>) = Ret (go, f1)" "fifo_held f1"
    "fifo_cap f1 = fifo_cap (f\<lparr>f_lock := Held\<rparr>)"
  with push_after_wait [OF assms(2) r(2) assms(3) r(1) refl] show ?thesis by auto
qed

theorem bfifo_push_spec_witness:
  "\<exists>f'. bfifo_push no_threads (Some demo_fifo) [1, 2, 3, 4, 5] 5 7 = Ret (4, Some f') \<and>
    fifo_contents f' = [1, 2, 3, 4]"
proof -
  have a: "await_space no_threads 7 (demo_fifo\<lparr>f_lock := Held\<rparr>) =
      Ret (True, demo_fifo\<lparr>f_lock := Held\<rparr>)"
    by (simp add: await_space_def demo_fifo_def fifo_block_def bfifo_create_def bfifo_init_def)
  have c: "fifo_count demo_fifo = 0" "fifo_cap demo_fifo = 4"
    by (simp_all add: demo_fifo_def fifo_block_def bfifo_create_def bfifo_init_def
        fifo_cap_def fifo_count_def)
  show ?thesis
    using bfifo_push_spec [OF no_threads_keeps demo_fifo_wf, of 5 "[1, 2, 3, 4, 5]" 7]
    by (auto simp: a c demo_fifo_empty fifo_pushed_def)
qed

text \<open>
  Claim C23.  \<open>bfifo_pull\<close>, with whatever timeout and whatever the other threads do during its
  wait, waits for ever only on an empty fifo with a timeout; otherwise it delivers the oldest
  bytes the fifo holds after the wait (as many as asked for or all), removes exactly these,
  signals a writer exactly when it removed something, and releases the mutex.
\<close>

theorem bfifo_pull_spec:
  assumes "wake_keeps w" and "fifo_wf f"
  shows "await_data w t (f\<lparr>f_lock := Held\<rparr>) = Blocked \<and>
      bfifo_pull w (Some f) len t = Blocked \<and> fifo_count f = 0 \<and> t \<noteq> 0 \<or>
    (\<exists>go f1 n f'. await_data w t (f\<lparr>f_lock := Held\<rparr>) = Ret (go, f1) \<and> fifo_cap f1 = fifo_cap f \<and>
       n = (if go then min (unat len) (fifo_count f1) else 0) \<and>
       bfifo_pull w (Some f) len t = Ret ((int n, take n (fifo_contents f1)), Some f') \<and>
       fifo_pulled f1 n f')"
proof (rule await_data_cases [OF assms(1) fifo_held_lock [OF assms(2)], of t])
  assume b: "await_data w t (f\<lparr>f_lock := Held\<rparr>) = Blocked"
  then have "fifo_count f = 0 \<and> t \<noteq> 0"
    using fifo_empty_iff [of f] by (auto simp: await_data_def split: if_splits)
  with b show ?thesis by (simp add: bfifo_pull_def with_fifo_lock_wf [OF assms(2)])
next
  fix go f1
  assume r: "await_data w t (f\<lparr>f_lock := Held\<rparr>) = Ret (go, f1)" "fifo_held f1"
    "fifo_cap f1 = fifo_cap (f\<lparr>f_lock := Held\<rparr>)"
  with pull_after_wait [OF assms(2) r(2) r(1) refl, of len] show ?thesis by auto
qed

theorem bfifo_pull_spec_witness:
  "\<exists>f'. bfifo_pull no_threads (Some demo_fifo) 3 9 = Ret ((0, []), Some f') \<and> fifo_contents f' = []"
proof -
  have c: "fifo_count demo_fifo = 0"
    by (simp add: demo_fifo_def fifo_block_def bfifo_create_def bfifo_init_def fifo_count_def)
  have "demo_fifo \<lparr>f_lock := Free\<rparr> = demo_fifo"
    by (simp add: demo_fifo_def fifo_block_def bfifo_create_def bfifo_init_def)
  then have a: "await_data no_threads 9 (demo_fifo\<lparr>f_lock := Held\<rparr>) =
      Ret (False, demo_fifo\<lparr>f_lock := Held\<rparr>)"
    by (simp add: await_data_def fifo_cond_timedwait_def no_threads_def fifo_empty_iff
        demo_fifo_def fifo_block_def bfifo_create_def bfifo_init_def)
  show ?thesis
    using bfifo_pull_spec [OF no_threads_keeps demo_fifo_wf, of 9 3]
    by (auto simp: a c demo_fifo_empty fifo_pulled_def)
qed

text \<open>
  Claim C40.  \<open>bfifo_peek\<close> on a fifo with bytes returns what \<open>bfifo_pull\<close> would deliver and
  leaves the fifo as it was, mutex released; on an empty fifo it returns 0 with the mutex still
  locked, and every later operation on that fifo (push, pull, count, reset, another peek) blocks
  for ever.
\<close>

theorem bfifo_peek_spec:
  assumes "fifo_wf f"
  shows "if fifo_count f = 0
    then \<exists>f'. bfifo_peek (Some f) len = Ret ((0, []), Some f') \<and>
      bfifo_push w (Some f') data len t = Blocked \<and> bfifo_pull w (Some f') len t = Blocked \<and>
      bfifo_count (Some f') = Blocked \<and> bfifo_reset (Some f') = Blocked \<and>
      bfifo_peek (Some f') len = Blocked
    else bfifo_peek (Some f) len =
      Ret ((int (min (unat len) (fifo_count f)), take (unat len) (fifo_contents f)), Some f)"
proof (cases "fifo_count f = 0")
  case True
  then have "bfifo_peek (Some f) len = Ret ((0, []), Some (f\<lparr>f_lock := Held\<rparr>))"
    by (simp add: bfifo_peek_def with_fifo_lock_wf [OF assms] fifo_empty_iff)
  moreover have "with_fifo_lock (Some (f\<lparr>f_lock := Held\<rparr>)) r b = Blocked" for r :: 'b and b
    by (simp add: with_fifo_lock_def)
  ultimately show ?thesis
    using True by (simp add: bfifo_push_def bfifo_pull_def bfifo_count_def bfifo_reset_def
        bfifo_peek_def with_fifo_lock_def)
next
  case False
  let ?f = "f\<lparr>f_lock := Held\<rparr>" and ?n = "min (unat len) (fifo_count f)"
  have ok: "fifo_ok ?f" and cap: "fifo_count f \<le> fifo_cap f" and same: "fifo_unlock ?f = f"
    using assms by (simp_all add: fifo_wf_def fifo_ok_def fifo_unlock_def)
  have "peek_bytes ?f len = Ret (of_nat ?n, take ?n (fifo_contents f))"
    using peek_bytes_eq [OF ok, of ?n len] by simp
  moreover have "sint (of_nat ?n :: u32) = int ?n"
    using cap assms by (intro sint_of_nat_count [of f]) (simp_all add: fifo_wf_def min_le_iff_disj)
  moreover have "take ?n (fifo_contents f) = take (unat len) (fifo_contents f)"
    by (simp add: min_def)
  ultimately show ?thesis
    using False same by (simp add: bfifo_peek_def with_fifo_lock_wf [OF assms] fifo_empty_iff)
qed

theorem bfifo_peek_spec_witness:
  "\<exists>f'. bfifo_peek (Some demo_fifo) 2 = Ret ((0, []), Some f') \<and> bfifo_count (Some f') = Blocked"
proof -
  have "fifo_count demo_fifo = 0" using demo_fifo_empty by (metis length_fifo_contents list.size(3))
  then show ?thesis
    using bfifo_peek_spec [OF demo_fifo_wf, of 2 no_threads "[]" 0] by auto
qed

text \<open>One byte in, and two bytes out, whatever the size.\<close>

lemma push_one:
  assumes s: "0 < fifo_cap f" "fifo_cap f < 2 ^ 31" "length (f_buffer f) = fifo_cap f"
    and c: "fifo_count f < fifo_cap f" and l: "f_lock f = Free"
  shows "\<exists>sg. bfifo_push w (Some f) [a] 1 0 = Ret (1, Some (f\<lparr>f_in := f_in f + 1,
    f_buffer := (f_buffer f)[unat (f_in f) mod fifo_cap f := a], f_signals := sg\<rparr>))"
proof -
  define p where "p = unat (f_in f) mod fifo_cap f"
  let ?f = "f\<lparr>f_lock := Held\<rparr>"
  have nz: "f_size f \<noteq> 0" using s by (auto simp: fifo_cap_def)
  have p: "p < fifo_cap f" "p < 2 ^ 31" using s by (auto simp: p_def intro: less_trans [OF mod_less_divisor])
  have up: "unat (f_in f mod f_size f) = p" by (simp add: p_def fifo_cap_def unat_mod)
  then have pos: "sint (f_in f mod f_size f) = int p" using p by (simp add: sint_small)
  have "unat (f_size f - f_in f + f_out f) = fifo_cap f - fifo_count f"
    using c by (simp add: unat_diff_bound fifo_cap_def fifo_count_def)
  with c have len: "min 1 (f_size f - f_in f + f_out f) = 1"
    by (simp add: word_unat_eq_iff unat_min)
  have "of_nat p = f_in f mod f_size f" by (simp flip: up)
  then have "unat (f_size f - of_nat p) = fifo_cap f - p"
    using up p by (simp add: unat_sub_if_le fifo_cap_def)
  with p have l: "min 1 (f_size f - of_nat p) = 1" by (simp add: word_unat_eq_iff unat_min)
  have space: "f_size f \<noteq> f_in f - f_out f" using c by (auto simp: fifo_cap_def fifo_count_def)
  have upd: "copy_in (f_buffer f) (int p) [a] = Ret ((f_buffer f)[p := a])"
    using p s by (simp add: copy_in_nat upd_conv_take_nth_drop)
  define sg where "sg = (if f_c_not_empty f then f_signals f @ [Sig_not_empty] else f_signals f)"
  define g where "g = f\<lparr>f_in := f_in f + 1, f_buffer := (f_buffer f)[p := a], f_signals := sg\<rparr>"
  have "push_bytes ?f [a] 1 = Ret (1, g\<lparr>f_lock := Held\<rparr>)"
    using nz by (simp add: push_bytes_def Let_def pos len l copy_out_0 upd fifo_cond_signal_def
        g_def sg_def del: min_less_iff_conj flip: p_def)
  moreover have "fifo_unlock (g\<lparr>f_lock := Held\<rparr>) = g"
    using \<open>f_lock f = Free\<close> by (simp add: g_def fifo_unlock_def)
  ultimately have "bfifo_push w (Some f) [a] 1 0 = Ret (1, Some g)"
    using \<open>f_lock f = Free\<close>
    by (simp add: bfifo_push_def with_fifo_lock_def await_space_def space)
  then show ?thesis unfolding g_def p_def by blast
qed

text \<open>
  The hypothesis of the invariant that the size divides \<open>2 ^ 32\<close> is needed: with any
  other size, two bytes pushed one after the other while the counter \<open>in\<close> wraps are both
  accepted, but the reader gets a stale byte of the buffer instead of the second one.
\<close>

theorem bfifo_wrap_corrupts:
  assumes cap: "1 < fifo_cap f" "fifo_cap f < 2 ^ 31" "\<not> fifo_cap f dvd 2 ^ 32"
    and buf: "length (f_buffer f) = fifo_cap f" and lock: "f_lock f = Free"
    and wrap: "f_in f = - 1" "f_out f = - 1"
  shows "\<exists>f1 f2 f3 x. bfifo_push w (Some f) [a] 1 0 = Ret (1, Some f1) \<and>
    bfifo_push w (Some f1) [b] 1 0 = Ret (1, Some f2) \<and>
    bfifo_pull w (Some f2) 2 0 =
      Ret ((2, [x, f_buffer f ! ((2 ^ 32 - 1) mod fifo_cap f + 1)]), Some f3)"
proof -
  define s p where "s = fifo_cap f" and "p = (2 ^ 32 - 1 :: nat) mod s"
  have "Suc p < s"
  proof (rule ccontr)
    assume "\<not> Suc p < s"
    moreover have "p < s" using cap by (simp add: p_def s_def)
    ultimately have "Suc p = s" by simp
    then have "Suc (2 ^ 32 - 1) mod s = 0" unfolding p_def by (subst mod_Suc) simp
    with cap show False by (simp add: s_def dvd_eq_mod_eq_0)
  qed
  note p = this
  have un: "unat (- 1 :: u32) = 2 ^ 32 - 1"
    by (transfer, simp add: take_bit_minus_one_eq_mask mask_eq_exp_minus_1)
  obtain sg1 where f1: "bfifo_push w (Some f) [a] 1 0 = Ret (1, Some (f\<lparr>f_in := 0,
      f_buffer := (f_buffer f)[p := a], f_signals := sg1\<rparr>))" (is "_ = Ret (1, Some ?f1)")
    using push_one [of f w a] cap buf lock wrap un by (auto simp: fifo_count_def p_def s_def)
  have "fifo_count ?f1 = 1" "fifo_cap ?f1 = s" using wrap by (simp_all add: fifo_count_def fifo_cap_def s_def)
  then obtain sg2 where f2: "bfifo_push w (Some ?f1) [b] 1 0 = Ret (1, Some (f\<lparr>f_in := 1,
      f_buffer := (f_buffer f)[p := a, 0 := b], f_signals := sg2\<rparr>))" (is "_ = Ret (1, Some ?f2)")
    using push_one [of ?f1 w b] cap buf lock by (auto simp: s_def)
  have us: "unat (f_size f) = s" by (simp add: s_def fifo_cap_def)
  have nz: "f_size f \<noteq> 0" using p us by auto
  have up: "unat (- 1 mod f_size f) = p" using un us by (simp add: unat_mod p_def)
  then have pos: "sint (- 1 mod f_size f) = int p" using p cap by (simp add: sint_small s_def)
  have "of_nat p = - 1 mod f_size f" by (simp flip: up)
  then have "unat (f_size f - of_nat p) = s - p" using up us p by (simp add: unat_sub_if_le)
  with p have l: "min 2 (f_size f - of_nat p) = 2" by (simp add: word_unat_eq_iff unat_min)
  have "take 2 (drop p ((f_buffer f)[p := a, 0 := b])) =
      [(f_buffer f)[p := a, 0 := b] ! p, f_buffer f ! Suc p]"
    using p buf by (simp add: s_def numeral_2_eq_2 take_Suc_conv_app_nth)
  then have "copy_out ((f_buffer f)[p := a, 0 := b]) (int p) 2 =
      Ret [(f_buffer f)[p := a, 0 := b] ! p, f_buffer f ! Suc p]"
    using p buf by (simp add: copy_out_nat s_def)
  then have "\<exists>x f3. bfifo_pull w (Some ?f2) 2 0 = Ret ((2, [x, f_buffer f ! Suc p]), Some f3)"
    using nz lock wrap
    by (simp add: bfifo_pull_def with_fifo_lock_def await_data_def pull_bytes_def peek_bytes_def
        Let_def pos l del: min_less_iff_conj)
  with f1 f2 show ?thesis by (auto simp: p_def s_def)
qed

text \<open>The fifo of the serial port monitor: \<open>MONITOR_UART_FIFO_LEN\<close> is \<open>100 * 1024\<close>.\<close>

definition monitor_fifo :: bfifo where
  "monitor_fifo = (fifo_block (replicate 102400 0))\<lparr>f_in := - 1, f_out := - 1, f_size := 102400,
     f_lock := Free\<rparr>"

theorem bfifo_wrap_corrupts_witness:
  "\<exists>f1 f2 f3 x. bfifo_push no_threads (Some monitor_fifo) [65] 1 0 = Ret (1, Some f1) \<and>
    bfifo_push no_threads (Some f1) [66] 1 0 = Ret (1, Some f2) \<and>
    bfifo_pull no_threads (Some f2) 2 0 = Ret ((2, [x, 0]), Some f3)"
proof -
  have c: "fifo_cap monitor_fifo = 102400" by (simp add: monitor_fifo_def fifo_cap_def)
  have "\<not> (102400::nat) dvd 2 ^ 32" by (simp add: dvd_eq_mod_eq_0)
  moreover have "f_buffer monitor_fifo ! 4096 = 0"
    by (simp add: monitor_fifo_def fifo_block_def)
  ultimately show ?thesis
    using bfifo_wrap_corrupts [of monitor_fifo no_threads 65 66] unfolding c
    by (simp add: monitor_fifo_def fifo_block_def)
qed

text \<open>
  The deadline of a timed wait is the present time plus the timeout: its nanosecond
  field is normalised, the instant is exact to the nanosecond, and no intermediate value leaves
  the 32 bit \<open>long\<close> of the target (for timeouts and clocks below \<open>2 ^ 30\<close> seconds).
\<close>

theorem fifo_deadline_spec:
  assumes "0 < t" and "t < 2 ^ 31" and "0 \<le> s" and "s < 2 ^ 30" and "0 \<le> n" and "n < 1000000000"
    and "fifo_deadline (s, n) t = (s', n')"
  shows "0 \<le> n' \<and> n' < 1000000000 \<and>
    s' * 1000000000 + n' = s * 1000000000 + n + t * 1000 \<and>
    n + (t mod 1000000) * 1000 < 2 ^ 31 \<and> s' < 2 ^ 31"
proof -
  define k where "k = n + (t mod 1000000) * 1000"
  have r: "0 \<le> t mod 1000000" "t mod 1000000 < 1000000" by simp_all
  have d: "s' = s + k div 1000000000 + t div 1000000" "n' = k mod 1000000000"
    using assms(7) by (simp_all add: fifo_deadline_def Let_def k_def)
  have "k < 2000000000" and "0 \<le> k" using r assms by (simp_all add: k_def)
  moreover from this have "k div 1000000000 \<le> 1" by simp
  moreover have "t div 1000000 \<le> 2 ^ 12" using assms(2) by simp
  moreover have t: "t * 1000 = (t div 1000000) * 1000000000 + (t mod 1000000) * 1000"
    using div_mult_mod_eq [of t 1000000] by linarith
  moreover have "s' * 1000000000 + n' = s * 1000000000 + k + (t div 1000000) * 1000000000"
    using div_mult_mod_eq [of k 1000000000] unfolding d by (simp add: distrib_right)
  moreover have "0 \<le> n'" "n' < 1000000000" by (simp_all add: d)
  moreover have pow: "(2::int) ^ 31 = 2147483648" "(2::int) ^ 30 = 1073741824" "(2::int) ^ 12 = 4096"
    by simp_all
  ultimately show ?thesis using assms(4) d(1) pow unfolding k_def by (intro conjI) linarith+
qed

theorem fifo_deadline_spec_witness:
  "fifo_deadline (7, 999999999) 1500001 = (9, 500000999) \<and>
   9 * 1000000000 + 500000999 = 7 * 1000000000 + 999999999 + 1500001 * (1000::int)"
proof -
  have "fifo_deadline (7, 999999999) 1500001 = (9, 500000999)"
    by (simp add: fifo_deadline_def Let_def)
  with fifo_deadline_spec [of 1500001 7 999999999 9 500000999] show ?thesis by simp
qed

end
