(* ===== verification/Bfifo_Fd.thy ===== *)
theory Bfifo_Fd
  imports Bfifo
begin

text \<open>
  The simulated file descriptors of \<open>sdccp/bfifo.c\<close>: a table of \<open>BFIFO_MAX_FD\<close> nodes, each with
  a fifo of incoming and a fifo of outgoing bytes.  The table has its own mutex, taken and
  released by every function, also around a call that waits: while a thread waits in a select no
  other thread gets through this interface.  \<open>errno\<close> is a field of the state.
\<close>

section \<open>State\<close>

record bfifo_node =
  n_in :: "bfifo option"
  n_out :: "bfifo option"
  n_flag :: u32

record bfifo_fds =
  s_bfifos :: "bfifo_node option list"
  fd_errno :: int

definition BFIFO_MAX_FD :: nat where "BFIFO_MAX_FD = 1024"
definition EBADF :: int where "EBADF = 9"
definition ETIMEDOUT :: int where "ETIMEDOUT = 110"
definition O_NONBLOCK :: u32 where "O_NONBLOCK = 0x800"

section \<open>Operations\<close>

text \<open>The loop over the table: the first empty entry from \<open>i\<close> on, -1 when there is none.\<close>

fun free_node_from :: "int \<Rightarrow> bfifo_node option list \<Rightarrow> int" where
  "free_node_from i [] = - 1"
| "free_node_from i (None # ns) = i"
| "free_node_from i (Some _ # ns) = free_node_from (i + 1) ns"

definition get_free_bfifo_node :: "bfifo_fds \<Rightarrow> int" where
  "get_free_bfifo_node s = free_node_from 0 (s_bfifos s)"

definition get_bfifo_node :: "bfifo_fds \<Rightarrow> int \<Rightarrow> bfifo_node option" where
  "get_bfifo_node s fd =
     (if 0 \<le> fd \<and> fd < int BFIFO_MAX_FD then s_bfifos s ! nat fd else None)"

definition put_bfifo_node :: "bfifo_fds \<Rightarrow> int \<Rightarrow> bfifo_node option \<Rightarrow> bfifo_fds" where
  "put_bfifo_node s fd n = s\<lparr>s_bfifos := (s_bfifos s)[nat fd := n]\<rparr>"

definition free_bfifo_node :: "bfifo_fds \<Rightarrow> int \<Rightarrow> bfifo_fds" where
  "free_bfifo_node s fd =
     (if 0 \<le> fd \<and> fd < int BFIFO_MAX_FD then put_bfifo_node s fd None else s)"

text \<open>
  The two getters declare a second variable \<open>fd\<close> that hides their argument and holds the number
  of a free entry.
\<close>

definition bfifo_get_in_fifo :: "bfifo_fds \<Rightarrow> int \<Rightarrow> bfifo option" where
  "bfifo_get_in_fifo s fd_arg =
     (let fd = get_free_bfifo_node s in
      if 0 \<le> fd then (case get_bfifo_node s fd of Some bf \<Rightarrow> n_in bf | None \<Rightarrow> None) else None)"

definition bfifo_get_out_fifo :: "bfifo_fds \<Rightarrow> int \<Rightarrow> bfifo option" where
  "bfifo_get_out_fifo s fd_arg =
     (let fd = get_free_bfifo_node s in
      if 0 \<le> fd then (case get_bfifo_node s fd of Some bf \<Rightarrow> n_out bf | None \<Rightarrow> None) else None)"

text \<open>
  \<open>m_node\<close>, \<open>m_in\<close> and \<open>m_out\<close> are what the allocations of the node and of the two fifos give,
  each fifo with the flags of its mutex and condition variables.
\<close>

record fd_alloc =
  m_node :: bool
  m_in :: "bfifo option \<times> bool \<times> bool \<times> bool"
  m_out :: "bfifo option \<times> bool \<times> bool \<times> bool"

definition bfifo_open :: "bfifo_fds \<Rightarrow> fd_alloc \<Rightarrow> int \<Rightarrow> u32 \<Rightarrow> int \<times> bfifo_fds" where
  "bfifo_open s a sz flag =
     (let fd = get_free_bfifo_node s in
      if 0 \<le> fd then
        (if m_node a then
           (let bf = \<lparr>n_in = bfifo_create (fst (m_in a)) sz (snd (m_in a)),
                      n_out = bfifo_create (fst (m_out a)) sz (snd (m_out a)), n_flag = flag\<rparr>
            in if n_in bf \<noteq> None \<and> n_out bf \<noteq> None then (fd, put_bfifo_node s fd (Some bf))
               else (- 1, s))
         else (- 1, s))
      else (fd, s))"

text \<open>
  The shape the other functions share: look the node up, run an operation on one of its fifos,
  store the fifo, set \<open>errno\<close>.
\<close>

definition with_bfifo_node ::
  "bfifo_fds \<Rightarrow> int \<Rightarrow> 'r \<Rightarrow> (bfifo_node \<Rightarrow> (('r \<times> int option) \<times> bfifo_node) outcome)
   \<Rightarrow> ('r \<times> bfifo_fds) outcome" where
  "with_bfifo_node s fd fail body =
     (case get_bfifo_node s fd of
        None \<Rightarrow> Ret (fail, s\<lparr>fd_errno := EBADF\<rparr>)
      | Some bf \<Rightarrow> bindO (body bf) (\<lambda>((r, e), bf').
          let s' = put_bfifo_node s fd (Some bf') in
          Ret (r, case e of None \<Rightarrow> s' | Some e' \<Rightarrow> s'\<lparr>fd_errno := e'\<rparr>)))"

definition on_in :: "(bfifo option \<Rightarrow> ('r \<times> bfifo option) outcome) \<Rightarrow> ('r \<Rightarrow> int option) \<Rightarrow>
    bfifo_node \<Rightarrow> (('r \<times> int option) \<times> bfifo_node) outcome" where
  "on_in f e bf = bindO (f (n_in bf)) (\<lambda>(r, fo). Ret ((r, e r), bf\<lparr>n_in := fo\<rparr>))"

definition on_out :: "(bfifo option \<Rightarrow> ('r \<times> bfifo option) outcome) \<Rightarrow> ('r \<Rightarrow> int option) \<Rightarrow>
    bfifo_node \<Rightarrow> (('r \<times> int option) \<times> bfifo_node) outcome" where
  "on_out f e bf = bindO (f (n_out bf)) (\<lambda>(r, fo). Ret ((r, e r), bf\<lparr>n_out := fo\<rparr>))"

text \<open>
  \<open>tv->tv_usec + tv->tv_sec * 1000000\<close> in the 32 bit \<open>long\<close> of the target (with the wrap-around
  the compiler gives it), and \<open>(bf->flag | O_NONBLOCK) ? 0 : -1\<close>.
\<close>

definition tv_usec_of :: "(int \<times> int) option \<Rightarrow> int" where
  "tv_usec_of tv = (case tv of None \<Rightarrow> - 1
     | Some (sec, usec) \<Rightarrow> sint (word_of_int (usec + sec * 1000000) :: u32))"

definition fd_timeout :: "bfifo_node \<Rightarrow> int" where
  "fd_timeout bf = (if n_flag bf OR O_NONBLOCK \<noteq> 0 then 0 else - 1)"

definition select_errno :: "int \<Rightarrow> int option" where
  "select_errno rc = (if rc = 0 then Some ETIMEDOUT else None)"

definition bfifo_in_select ::
  "wait_env \<Rightarrow> bfifo_fds \<Rightarrow> int \<Rightarrow> (int \<times> int) option \<Rightarrow> (int \<times> bfifo_fds) outcome" where
  "bfifo_in_select w s fd tv = with_bfifo_node s fd (- 1)
     (on_in (\<lambda>f. bfifo_push_wait w f (tv_usec_of tv)) select_errno)"

definition bfifo_out_select ::
  "wait_env \<Rightarrow> bfifo_fds \<Rightarrow> int \<Rightarrow> (int \<times> int) option \<Rightarrow> (int \<times> bfifo_fds) outcome" where
  "bfifo_out_select w s fd tv = with_bfifo_node s fd (- 1)
     (on_out (\<lambda>f. bfifo_push_wait w f (tv_usec_of tv)) select_errno)"

definition bfifo_read ::
  "wait_env \<Rightarrow> bfifo_fds \<Rightarrow> int \<Rightarrow> int \<Rightarrow> ((int \<times> bytes) \<times> bfifo_fds) outcome" where
  "bfifo_read w s fd count = with_bfifo_node s fd (- 1, []) (\<lambda>bf.
     on_in (\<lambda>f. bfifo_pull w f (word_of_int count) (fd_timeout bf)) (\<lambda>_. None) bf)"

definition bfifo_push_in ::
  "wait_env \<Rightarrow> bfifo_fds \<Rightarrow> int \<Rightarrow> bytes \<Rightarrow> int \<Rightarrow> (int \<times> bfifo_fds) outcome" where
  "bfifo_push_in w s fd buf count = with_bfifo_node s fd (- 1) (\<lambda>bf.
     on_in (\<lambda>f. bfifo_push w f buf (word_of_int count) (fd_timeout bf)) (\<lambda>_. None) bf)"

definition bfifo_reset_in :: "bfifo_fds \<Rightarrow> int \<Rightarrow> (int \<times> bfifo_fds) outcome" where
  "bfifo_reset_in s fd = with_bfifo_node s fd (- 1) (on_in bfifo_reset (\<lambda>_. None))"

definition bfifo_write ::
  "wait_env \<Rightarrow> bfifo_fds \<Rightarrow> int \<Rightarrow> bytes \<Rightarrow> int \<Rightarrow> (int \<times> bfifo_fds) outcome" where
  "bfifo_write w s fd buf count = with_bfifo_node s fd (- 1) (\<lambda>bf.
     on_out (\<lambda>f. bfifo_push w f buf (word_of_int count) (fd_timeout bf)) (\<lambda>_. None) bf)"

definition bfifo_pull_out ::
  "wait_env \<Rightarrow> bfifo_fds \<Rightarrow> int \<Rightarrow> int \<Rightarrow> ((int \<times> bytes) \<times> bfifo_fds) outcome" where
  "bfifo_pull_out w s fd count = with_bfifo_node s fd (- 1, []) (\<lambda>bf.
     on_out (\<lambda>f. bfifo_pull w f (word_of_int count) (fd_timeout bf)) (\<lambda>_. None) bf)"

definition bfifo_reset_out :: "bfifo_fds \<Rightarrow> int \<Rightarrow> (int \<times> bfifo_fds) outcome" where
  "bfifo_reset_out s fd = with_bfifo_node s fd (- 1) (on_out bfifo_reset (\<lambda>_. None))"

definition bfifo_close :: "bfifo_fds \<Rightarrow> int \<Rightarrow> int \<times> bfifo_fds" where
  "bfifo_close s fd =
     (case get_bfifo_node s fd of
        None \<Rightarrow> (- 1, s\<lparr>fd_errno := EBADF\<rparr>)
      | Some bf \<Rightarrow> (0, free_bfifo_node s fd))"

section \<open>Invariant\<close>

definition node_wf :: "bfifo_node \<Rightarrow> bool" where
  "node_wf n \<longleftrightarrow> (\<exists>i out. n_in n = Some i \<and> n_out n = Some out \<and> fifo_wf i \<and> fifo_wf out)"

definition fds_wf :: "bfifo_fds \<Rightarrow> bool" where
  "fds_wf s \<longleftrightarrow> length (s_bfifos s) = BFIFO_MAX_FD \<and>
     (\<forall>n. Some n \<in> set (s_bfifos s) \<longrightarrow> node_wf n)"

lemma fd_timeout_0 [simp]: "fd_timeout bf = 0"
proof -
  have "bit (n_flag bf OR O_NONBLOCK) 11" by (simp add: bit_or_iff O_NONBLOCK_def)
  then have "n_flag bf OR O_NONBLOCK \<noteq> 0" by auto
  then show ?thesis by (simp add: fd_timeout_def)
qed

lemma free_node_from_spec:
  "free_node_from i ns =
     (if None \<in> set ns then i + int (length (takeWhile (\<lambda>n. n \<noteq> None) ns)) else - 1)"
  by (induction i ns rule: free_node_from.induct) auto

lemma fds_wf_node: "fds_wf s \<Longrightarrow> get_bfifo_node s fd = Some n \<Longrightarrow> node_wf n"
  by (auto simp: fds_wf_def get_bfifo_node_def split: if_splits) (metis nat_less_iff nth_mem)

lemma put_node_wf: "fds_wf s \<Longrightarrow> node_wf n \<Longrightarrow> fds_wf (put_bfifo_node s fd (Some n))"
  by (auto simp: fds_wf_def put_bfifo_node_def dest!: set_update_subset_insert [THEN subsetD])

lemma put_none_wf: "fds_wf s \<Longrightarrow> fds_wf (put_bfifo_node s fd None)"
  by (auto simp: fds_wf_def put_bfifo_node_def dest!: set_update_subset_insert [THEN subsetD])

lemma get_put_node:
  "fds_wf s \<Longrightarrow> 0 \<le> fd \<Longrightarrow> get_bfifo_node (put_bfifo_node s fd n) fd' =
     (if fd' = fd \<and> fd < int BFIFO_MAX_FD then n else get_bfifo_node s fd')"
  by (auto simp: fds_wf_def get_bfifo_node_def put_bfifo_node_def nth_list_update)

lemma get_node_range: "get_bfifo_node s fd = Some n \<Longrightarrow> 0 \<le> fd \<and> fd < int BFIFO_MAX_FD"
  by (simp add: get_bfifo_node_def split: if_splits)

lemma fds_errno [simp]:
  "fds_wf (s\<lparr>fd_errno := e\<rparr>) = fds_wf s"
  "get_bfifo_node (s\<lparr>fd_errno := e\<rparr>) = get_bfifo_node s"
  by (auto simp: fds_wf_def get_bfifo_node_def)

text \<open>
  What every operation on one descriptor does to the table: it puts a well-formed node back
  and touches no other descriptor.
\<close>

lemma with_node_spec:
  assumes s: "fds_wf s" and n: "get_bfifo_node s fd = Some bf"
    and body: "body bf = Ret ((r, e), bf')" "node_wf bf'"
  shows "\<exists>s'. with_bfifo_node s fd fail body = Ret (r, s') \<and> fds_wf s' \<and>
    get_bfifo_node s' = (get_bfifo_node s)(fd := Some bf')"
  using put_node_wf [OF s body(2), of fd] get_put_node [OF s, of fd] get_node_range [OF n]
  by (auto simp: with_bfifo_node_def n body Let_def fun_eq_iff split: option.splits)

lemma unat_word_of_length:
  "length buf < 2 ^ 31 \<Longrightarrow> unat (word_of_int (int (length buf)) :: u32) = length buf"
  using unat_of_nat_small [of "length buf", where 'a = 32] by simp

section \<open>Properties\<close>

text \<open>
  On an open descriptor, whatever its flag: \<open>bfifo_push_in\<close> never blocks, appends the
  longest prefix that fits to the incoming bytes and returns its length; \<open>bfifo_read\<close> never
  blocks and returns and removes the oldest incoming bytes.  Both keep the table well formed and
  leave the outgoing bytes and all other descriptors alone.
\<close>

theorem bfifo_fd_in_spec:
  assumes s: "fds_wf s" and n: "get_bfifo_node s fd = Some bf" and f: "n_in bf = Some f"
    and len: "length buf < 2 ^ 31" and k: "k = min (length buf) (fifo_cap f - fifo_count f)"
    and c: "c = min (unat (word_of_int cnt :: u32)) (fifo_count f)"
  shows "(\<exists>s' f'. bfifo_push_in w s fd buf (int (length buf)) = Ret (int k, s') \<and> fds_wf s' \<and>
      get_bfifo_node s' = (get_bfifo_node s)(fd := Some (bf\<lparr>n_in := Some f'\<rparr>)) \<and>
      fifo_contents f' = fifo_contents f @ take k buf) \<and>
    (\<exists>s' f'. bfifo_read w s fd cnt = Ret ((int c, take c (fifo_contents f)), s') \<and> fds_wf s' \<and>
      get_bfifo_node s' = (get_bfifo_node s)(fd := Some (bf\<lparr>n_in := Some f'\<rparr>)) \<and>
      fifo_contents f' = drop c (fifo_contents f))"
proof
  have wf: "fifo_wf f" and out: "\<exists>g. n_out bf = Some g \<and> fifo_wf g"
    using fds_wf_node [OF s n] f by (auto simp: node_wf_def)
  have u: "unat (word_of_int (int (length buf)) :: u32) = length buf"
    by (rule unat_word_of_length [OF len])
  obtain f' where p: "bfifo_push w (Some f) buf (word_of_int (int (length buf))) 0 = Ret (int k, Some f')"
      "fifo_pushed f buf k f'"
    using push_nowait [OF wf, of "word_of_int (int (length buf))" buf k w] u k by auto
  have "node_wf (bf\<lparr>n_in := Some f'\<rparr>)" using p(2) out by (auto simp: node_wf_def fifo_pushed_def)
  then show "\<exists>s' f'. bfifo_push_in w s fd buf (int (length buf)) = Ret (int k, s') \<and> fds_wf s' \<and>
      get_bfifo_node s' = (get_bfifo_node s)(fd := Some (bf\<lparr>n_in := Some f'\<rparr>)) \<and>
      fifo_contents f' = fifo_contents f @ take k buf"
    using with_node_spec [OF s n, of "\<lambda>bf. on_in (\<lambda>f. bfifo_push w f buf
        (word_of_int (int (length buf))) (fd_timeout bf)) (\<lambda>_. None) bf" "int k" None
        "bf\<lparr>n_in := Some f'\<rparr>" "- 1"] p f
    unfolding bfifo_push_in_def by (auto simp: on_in_def fifo_pushed_def)
  obtain f' where p: "bfifo_pull w (Some f) (word_of_int cnt) 0 =
      Ret ((int c, take c (fifo_contents f)), Some f')" "fifo_pulled f c f'"
    using pull_nowait [OF wf c] by blast
  have "node_wf (bf\<lparr>n_in := Some f'\<rparr>)" using p(2) out by (auto simp: node_wf_def fifo_pulled_def)
  then show "\<exists>s' f'. bfifo_read w s fd cnt = Ret ((int c, take c (fifo_contents f)), s') \<and> fds_wf s' \<and>
      get_bfifo_node s' = (get_bfifo_node s)(fd := Some (bf\<lparr>n_in := Some f'\<rparr>)) \<and>
      fifo_contents f' = drop c (fifo_contents f)"
    using with_node_spec [OF s n, of "\<lambda>bf. on_in (\<lambda>f. bfifo_pull w f (word_of_int cnt)
        (fd_timeout bf)) (\<lambda>_. None) bf" "(int c, take c (fifo_contents f))" None
        "bf\<lparr>n_in := Some f'\<rparr>" "(- 1, [])"] p f
    unfolding bfifo_read_def by (auto simp: on_in_def fifo_pulled_def)
qed

text \<open>A table whose descriptor 0 is open and whose fifos are empty.\<close>

definition demo_fds :: bfifo_fds where
  "demo_fds = \<lparr>s_bfifos = Some \<lparr>n_in = Some demo_fifo, n_out = Some demo_fifo, n_flag = 0\<rparr> #
     replicate 1023 None, fd_errno = 0\<rparr>"

lemma demo_fds_wf: "fds_wf demo_fds"
  by (auto simp: fds_wf_def demo_fds_def BFIFO_MAX_FD_def node_wf_def demo_fifo_wf)

lemma demo_fds_node:
  "get_bfifo_node demo_fds 0 = Some \<lparr>n_in = Some demo_fifo, n_out = Some demo_fifo, n_flag = 0\<rparr>"
  by (simp add: get_bfifo_node_def demo_fds_def BFIFO_MAX_FD_def)

theorem bfifo_fd_in_spec_witness:
  "\<exists>s'. bfifo_push_in no_threads demo_fds 0 [7, 8] 2 = Ret (2, s') \<and> fds_wf s'"
proof -
  have "fifo_count demo_fifo = 0" "fifo_cap demo_fifo = 4"
    by (simp_all add: demo_fifo_def fifo_block_def bfifo_create_def bfifo_init_def
        fifo_cap_def fifo_count_def)
  then have "2 = min (length [7, 8 :: u8]) (fifo_cap demo_fifo - fifo_count demo_fifo)"
    "0 = min (unat (word_of_int 0 :: u32)) (fifo_count demo_fifo)" by simp_all
  from conjunct1 [OF bfifo_fd_in_spec [OF demo_fds_wf demo_fds_node _ _ this, of no_threads]]
  show ?thesis by (simp del: fun_upd_apply) blast
qed

lemma bfifo_create_wf:
  assumes "0 < sz" "sz < 2 ^ 31" "nat sz dvd 2 ^ 32" "length (f_buffer m) = nat sz"
  shows "\<exists>f. bfifo_create (Some m) sz (True, ce, cf) = Some f \<and> fifo_wf f \<and> fifo_contents f = [] \<and>
    fifo_cap f = nat sz"
proof -
  have "unat (word_of_int sz :: u32) = nat sz"
    using assms unat_of_nat_small [of "nat sz", where 'a = 32] by (simp add: nat_less_iff)
  with assms show ?thesis
    by (simp add: bfifo_create_def bfifo_init_def fifo_wf_def fifo_ok_def fifo_cap_def
        fifo_count_def fifo_contents_def nat_less_iff)
qed

lemma takeWhile_first_none:
  assumes "None \<in> set ns"
  defines "k \<equiv> length (takeWhile (\<lambda>n. n \<noteq> None) ns)"
  shows "k < length ns" "ns ! k = None" "\<forall>j < k. ns ! j \<noteq> None"
proof -
  have "takeWhile (\<lambda>n. n \<noteq> None) ns \<noteq> ns"
    using assms(1) by (metis (full_types) set_takeWhileD)
  then show k: "k < length ns"
    unfolding k_def by (metis le_neq_implies_less length_takeWhile_le takeWhile_eq_take take_all_iff order_refl)
  then show "ns ! k = None" using nth_length_takeWhile [of "\<lambda>n. n \<noteq> None" ns] by (simp add: k_def)
  show "\<forall>j < k. ns ! j \<noteq> None"
    unfolding k_def by (metis (mono_tags, lifting) nth_mem set_takeWhileD takeWhile_nth)
qed

text \<open>
  \<open>bfifo_open\<close> takes the smallest free descriptor, installs two empty well-formed fifos
  of the given size there, and leaves all others alone; it returns -1 and changes nothing exactly
  when the table is full; \<open>bfifo_close\<close> of the new descriptor gives back the table as it was.
\<close>

theorem bfifo_open_close:
  assumes s: "fds_wf s" and node: "m_node a"
    and mem: "m_in a = (Some mi, True, ci, di)" "m_out a = (Some mo, True, co, du)"
    and size: "0 < sz" "sz < 2 ^ 31" "nat sz dvd 2 ^ 32"
    and block: "length (f_buffer mi) = nat sz" "length (f_buffer mo) = nat sz"
  shows "if None \<in> set (s_bfifos s)
    then \<exists>fd s' bf i out. bfifo_open s a sz flag = (fd, s') \<and> 0 \<le> fd \<and>
      get_bfifo_node s fd = None \<and> (\<forall>fd'. 0 \<le> fd' \<and> fd' < fd \<longrightarrow> get_bfifo_node s fd' \<noteq> None) \<and>
      fds_wf s' \<and> get_bfifo_node s' = (get_bfifo_node s)(fd := Some bf) \<and>
      n_in bf = Some i \<and> n_out bf = Some out \<and> fifo_contents i = [] \<and> fifo_contents out = [] \<and>
      fifo_cap i = nat sz \<and> fifo_cap out = nat sz \<and> bfifo_close s' fd = (0, s)
    else bfifo_open s a sz flag = (- 1, s)"
proof (cases "None \<in> set (s_bfifos s)")
  case False
  then show ?thesis by (simp add: bfifo_open_def get_free_bfifo_node_def free_node_from_spec)
next
  case True
  define k where "k = length (takeWhile (\<lambda>n. n \<noteq> None) (s_bfifos s))"
  note first = takeWhile_first_none [OF True, folded k_def]
  have len: "length (s_bfifos s) = BFIFO_MAX_FD" using s by (simp add: fds_wf_def)
  have fd: "get_free_bfifo_node s = int k"
    using True by (simp add: get_free_bfifo_node_def free_node_from_spec k_def)
  obtain i where i: "bfifo_create (Some mi) sz (True, ci, di) = Some i" "fifo_wf i"
      "fifo_contents i = []" "fifo_cap i = nat sz"
    using bfifo_create_wf [OF size block(1)] by blast
  obtain out where out: "bfifo_create (Some mo) sz (True, co, du) = Some out" "fifo_wf out"
      "fifo_contents out = []" "fifo_cap out = nat sz"
    using bfifo_create_wf [OF size block(2)] by blast
  define bf s' where "bf = \<lparr>n_in = Some i, n_out = Some out, n_flag = flag\<rparr>"
    and "s' = put_bfifo_node s (int k) (Some bf)"
  have opened: "bfifo_open s a sz flag = (int k, s')"
    by (simp add: bfifo_open_def fd Let_def node mem i out bf_def s'_def)
  have none: "get_bfifo_node s (int k) = None" using first len by (simp add: get_bfifo_node_def)
  have less: "get_bfifo_node s fd' \<noteq> None" if "0 \<le> fd' \<and> fd' < int k" for fd'
    using that first len by (auto simp: get_bfifo_node_def nat_less_iff)
  have wf: "fds_wf s'" using s i out by (simp add: s'_def put_node_wf node_wf_def bf_def)
  have new: "get_bfifo_node s' = (get_bfifo_node s)(int k := Some bf)"
    using first len by (auto simp: s'_def get_put_node [OF s] fun_eq_iff)
  have "put_bfifo_node s' (int k) None = s"
    using first by (simp add: s'_def put_bfifo_node_def list_update_same_conv)
  then have "bfifo_close s' (int k) = (0, s)"
    using first len by (simp add: bfifo_close_def new free_bfifo_node_def)
  with True opened none less wf new i out show ?thesis
    by (auto intro!: exI [of _ "int k"] exI [of _ s'] exI [of _ bf] simp: bf_def)
qed

theorem bfifo_open_close_witness:
  "\<exists>fd s'. bfifo_open demo_fds \<lparr>m_node = True, m_in = (Some (fifo_block [0, 0]), True, True, True),
      m_out = (Some (fifo_block [0, 0]), True, True, True)\<rparr> 2 0 = (fd, s') \<and>
    bfifo_close s' fd = (0, demo_fds)"
proof -
  have "None \<in> set (s_bfifos demo_fds)" by (simp add: demo_fds_def)
  moreover have "nat 2 dvd 2 ^ 32" by simp
  moreover have "length (f_buffer (fifo_block [0, 0])) = nat 2" by (simp add: fifo_block_def)
  ultimately show ?thesis
    using bfifo_open_close [OF demo_fds_wf, of "\<lparr>m_node = True,
        m_in = (Some (fifo_block [0, 0]), True, True, True),
        m_out = (Some (fifo_block [0, 0]), True, True, True)\<rparr>"
        "fifo_block [0, 0]" True True "fifo_block [0, 0]" True True 2 0]
    by fastforce
qed

text \<open>
  \<open>bfifo_get_in_fifo\<close> and \<open>bfifo_get_out_fifo\<close> return NULL for every descriptor, open
  or not: the inner \<open>fd\<close> hides the argument and names a free entry.  And \<open>bfifo_out_select\<close>
  waits for space instead of data: on an empty outgoing fifo it says \<open>ready\<close> at once, and
  \<open>bfifo_pull_out\<close> then gets nothing.
\<close>

theorem bfifo_fd_out_side:
  assumes s: "fds_wf s" and n: "get_bfifo_node s fd = Some bf" and g: "n_out bf = Some g"
    and empty: "fifo_count g = 0"
  shows "bfifo_get_in_fifo s fd = None \<and> bfifo_get_out_fifo s fd = None \<and>
    (\<exists>s' s''. bfifo_out_select w s fd tv = Ret (1, s') \<and>
      bfifo_pull_out w s' fd cnt = Ret ((0, []), s''))"
proof -
  have len: "length (s_bfifos s) = BFIFO_MAX_FD" using s by (simp add: fds_wf_def)
  have free: "get_bfifo_node s (get_free_bfifo_node s) = None"
    using takeWhile_first_none [of "s_bfifos s"] len
    by (simp add: get_bfifo_node_def get_free_bfifo_node_def free_node_from_spec)
  then have null: "bfifo_get_in_fifo s fd = None" "bfifo_get_out_fifo s fd = None"
    by (simp_all add: bfifo_get_in_fifo_def bfifo_get_out_fifo_def Let_def)
  have wf: "fifo_wf g" and nw: "node_wf bf" using fds_wf_node [OF s n] g by (auto simp: node_wf_def)
  have same: "fifo_unlock (g\<lparr>f_lock := Held\<rparr>) = g"
    using wf by (simp add: fifo_unlock_def fifo_wf_def)
  have "f_size g \<noteq> f_in g - f_out g"
    using wf empty fifo_full_iff [of g] by (auto simp: fifo_wf_def fifo_ok_def)
  then have "bfifo_push_wait w (Some g) t = Ret (1, Some g)" for t
    by (simp add: bfifo_push_wait_def with_fifo_lock_wf [OF wf] await_space_def same)
  moreover have "bf\<lparr>n_out := Some g\<rparr> = bf" using g by simp
  ultimately obtain s' where s': "bfifo_out_select w s fd tv = Ret (1, s')" "fds_wf s'"
      "get_bfifo_node s' = (get_bfifo_node s)(fd := Some bf)"
    using with_node_spec [OF s n, of "on_out (\<lambda>f. bfifo_push_wait w f (tv_usec_of tv)) select_errno"
        1 None bf "- 1"] nw g
    by (auto simp: bfifo_out_select_def on_out_def select_errno_def)
  obtain g' where p: "bfifo_pull w (Some g) (word_of_int cnt) 0 = Ret ((0, []), Some g')"
      "fifo_pulled g 0 g'"
    using pull_nowait [OF wf, of 0 "word_of_int cnt" w] empty by auto
  have "node_wf (bf\<lparr>n_out := Some g'\<rparr>)" using p(2) nw by (auto simp: node_wf_def fifo_pulled_def)
  moreover have "get_bfifo_node s' fd = Some bf" by (simp add: s'(3))
  ultimately have "\<exists>s''. bfifo_pull_out w s' fd cnt = Ret ((0, []), s'')"
    using with_node_spec [OF s'(2), of fd bf "\<lambda>bf. on_out (\<lambda>f. bfifo_pull w f (word_of_int cnt)
        (fd_timeout bf)) (\<lambda>_. None) bf" "(0, [])" None "bf\<lparr>n_out := Some g'\<rparr>" "(- 1, [])"] p g
    unfolding bfifo_pull_out_def by (auto simp: on_out_def)
  with null s' show ?thesis by blast
qed

theorem bfifo_fd_out_side_witness:
  "bfifo_get_in_fifo demo_fds 0 = None \<and>
   (\<exists>s'. bfifo_out_select no_threads demo_fds 0 None = Ret (1, s'))"
proof -
  have "fifo_count demo_fifo = 0"
    by (simp add: demo_fifo_def fifo_block_def bfifo_create_def bfifo_init_def fifo_count_def)
  then show ?thesis
    using bfifo_fd_out_side [OF demo_fds_wf demo_fds_node, of demo_fifo no_threads None 0] by auto
qed

end
