(* ===== verification/Block_Msg_Queue.thy ===== *)
theory Block_Msg_Queue
  imports Ring Queue_Interface "HOL-Library.Signed_Division"
begin

text \<open>
  The bounded message queue of \<open>block_msg_queue.c\<close> (the \<open>rt_mq\<close> of the rest of the gateway):
  \<open>max_msgs + 1\<close> slots of \<open>msg_size\<close> bytes, a head and a tail index, one mutex and two condition
  variables.  As in the byte fifo, the other threads during a wait, the clock and the results of
  \<open>calloc\<close> are parameters.  Indices and sizes are C \<open>int\<close>s; the queue sizes of the gateway are far
  from overflow.
\<close>

section \<open>State\<close>

record bmq =
  q_max_msgs :: int
  q_msg_size :: int
  q_pool :: "bytes option list"
  q_head :: int
  q_tail :: int
  q_locked :: bool

text \<open>A slot is \<open>None\<close> when its allocation failed (a NULL pointer).\<close>

record mq_env =
  mw_now :: "int \<times> int"
  mw_wake :: "(int \<times> int) option \<Rightarrow> bmq \<Rightarrow> (int \<times> bmq) outcome"

definition B_MQ_ERR_NULL :: int where "B_MQ_ERR_NULL = - 1"
definition B_MQ_ERR_OK :: int where "B_MQ_ERR_OK = 0"
definition B_MQ_ERR_OTHER :: int where "B_MQ_ERR_OTHER = 1"
definition B_MQ_ERR_TIMEOUT :: int where "B_MQ_ERR_TIMEOUT = 3"
definition B_MQ_ERR_FULL :: int where "B_MQ_ERR_FULL = 5"
definition B_MQ_ERR_SIZE :: int where "B_MQ_ERR_SIZE = 6"

lemmas mq_errs = B_MQ_ERR_NULL_def B_MQ_ERR_OK_def B_MQ_ERR_OTHER_def B_MQ_ERR_TIMEOUT_def
  B_MQ_ERR_FULL_def B_MQ_ERR_SIZE_def

section \<open>Operations\<close>

text \<open>
  \<open>alloc\<close>: whether the structure and the pool could be allocated, and which slots could.  A pool
  that could not be allocated is written through its NULL pointer.
\<close>

definition b_mq_create ::
  "bool \<times> bool \<times> (nat \<Rightarrow> bool) \<Rightarrow> int \<Rightarrow> int \<Rightarrow> bmq option outcome" where
  "b_mq_create alloc msg_size max_msgs =
     (case alloc of (mq_ok, pool_ok, slot_ok) \<Rightarrow>
        if 0 < max_msgs then
          (if mq_ok then
             (if pool_ok then
                Ret (Some \<lparr>q_max_msgs = max_msgs + 1, q_msg_size = msg_size,
                  q_pool = map (\<lambda>i. if slot_ok i then Some (replicate (nat msg_size) 0) else None)
                             [0..<nat (max_msgs + 1)],
                  q_head = 0, q_tail = 0, q_locked = False\<rparr>)
              else Fault)
           else Ret None)
        else Ret None)"

text \<open>
  \<open>if (mq)\<close> with the body between lock and unlock; \<open>null\<close> is what a NULL queue gives.
\<close>

definition with_mq ::
  "bmq option \<Rightarrow> 'r \<Rightarrow> (bmq \<Rightarrow> ('r \<times> bmq) outcome) \<Rightarrow> ('r \<times> bmq option) outcome" where
  "with_mq mq null body =
     (case mq of
        None \<Rightarrow> Ret (null, None)
      | Some q \<Rightarrow>
          (if q_locked q then Blocked
           else bindO (body (q\<lparr>q_locked := True\<rparr>)) (\<lambda>(r, q').
             Ret (r, Some (q'\<lparr>q_locked := False\<rparr>)))))"

definition b_mq_reset :: "bmq option \<Rightarrow> (int \<times> bmq option) outcome" where
  "b_mq_reset mq = with_mq mq B_MQ_ERR_OK (\<lambda>q. Ret (B_MQ_ERR_OK, q\<lparr>q_head := 0, q_tail := 0\<rparr>))"

definition b_mq_msgs :: "bmq option \<Rightarrow> (int \<times> bmq option) outcome" where
  "b_mq_msgs mq = with_mq mq 0 (\<lambda>q.
     Ret ((q_tail q - q_head q + q_max_msgs q) smod q_max_msgs q, q))"

definition b_mq_remain :: "bmq option \<Rightarrow> (int \<times> bmq option) outcome" where
  "b_mq_remain mq = with_mq mq 0 (\<lambda>q.
     Ret (q_max_msgs q - 1 - (q_tail q - q_head q + q_max_msgs q) smod q_max_msgs q, q))"

text \<open>\<open>memset\<close> and \<open>memcpy\<close> take a \<open>size_t\<close>: a negative \<open>int\<close> becomes a huge length.\<close>

definition mem_len :: "int \<Rightarrow> nat" where
  "mem_len n = unat (word_of_int n :: u32)"

definition mq_slot :: "bmq \<Rightarrow> int \<Rightarrow> bytes outcome" where
  "mq_slot q i = bindO (rd (q_pool q) i) (\<lambda>s. case s of None \<Rightarrow> Fault | Some b \<Rightarrow> Ret b)"

definition b_mq_send :: "bmq option \<Rightarrow> bytes \<Rightarrow> int \<Rightarrow> (int \<times> bmq option) outcome" where
  "b_mq_send mq buffer sz = with_mq mq B_MQ_ERR_NULL (\<lambda>q.
     if sz \<le> q_msg_size q then
       (if (q_tail q + 1) smod q_max_msgs q = q_head q then Ret (B_MQ_ERR_FULL, q)
        else
          bindO (mq_slot q (q_tail q)) (\<lambda>b0.
          bindO (copy_in b0 0 (replicate (mem_len (q_msg_size q)) 0)) (\<lambda>b1.
          bindO (copy_out buffer 0 (mem_len sz)) (\<lambda>d.
          bindO (copy_in b1 0 d) (\<lambda>b2.
            Ret (B_MQ_ERR_OK, q\<lparr>q_pool := (q_pool q)[nat (q_tail q) := Some b2],
                               q_tail := (q_tail q + 1) smod q_max_msgs q\<rparr>))))))
     else Ret (B_MQ_ERR_SIZE, q))"

definition mq_deadline :: "int \<times> int \<Rightarrow> int \<Rightarrow> int \<times> int" where
  "mq_deadline now timeout =
     (let nsec = snd now + (timeout smod 1000) * 1000000
      in (fst now + nsec sdiv 1000000000 + timeout sdiv 1000, nsec smod 1000000000))"

text \<open>What the receiver does on an empty queue; the flag of the answer is the \<open>ret\<close> of the code.\<close>

definition mq_await :: "mq_env \<Rightarrow> int \<Rightarrow> bmq \<Rightarrow> (int \<times> bmq) outcome" where
  "mq_await w timeout q =
     (if q_head q = q_tail q then
        (if timeout = 0 then Ret (B_MQ_ERR_TIMEOUT, q)
         else bindO (mw_wake w (if 0 < timeout then Some (mq_deadline (mw_now w) timeout) else None)
                       (q\<lparr>q_locked := False\<rparr>))
           (\<lambda>(rc, q'). Ret (if rc = 0 then B_MQ_ERR_OK
                           else if 0 < timeout then B_MQ_ERR_TIMEOUT else B_MQ_ERR_OTHER,
                           q'\<lparr>q_locked := True\<rparr>)))
      else Ret (B_MQ_ERR_OK, q))"

definition b_mq_recv ::
  "mq_env \<Rightarrow> bmq option \<Rightarrow> int \<Rightarrow> int \<Rightarrow> ((int \<times> bytes) \<times> bmq option) outcome" where
  "b_mq_recv w mq sz timeout = with_mq mq (B_MQ_ERR_NULL, []) (\<lambda>q.
     if sz \<le> q_msg_size q then
       bindO (mq_await w timeout q) (\<lambda>(ret, q1).
         if ret = B_MQ_ERR_OK then
           bindO (mq_slot q1 (q_head q1)) (\<lambda>b.
           bindO (copy_out b 0 (mem_len sz)) (\<lambda>d.
             Ret ((ret, d), q1\<lparr>q_head := (q_head q1 + 1) smod q_max_msgs q1\<rparr>)))
         else Ret ((ret, []), q1))
     else Ret ((B_MQ_ERR_SIZE, []), q))"

section \<open>Invariant and abstraction\<close>

definition mq_count :: "bmq \<Rightarrow> nat" where
  "mq_count q = nat ((q_tail q - q_head q) mod q_max_msgs q)"

definition mq_contents :: "bmq \<Rightarrow> bytes list" where
  "mq_contents q = map the (ring_read (q_pool q) (nat (q_head q)) (mq_count q))"

definition mq_cap :: "bmq \<Rightarrow> nat" where
  "mq_cap q = nat (q_max_msgs q) - 1"

definition mq_ok :: "bmq \<Rightarrow> bool" where
  "mq_ok q \<longleftrightarrow> 2 \<le> q_max_msgs q \<and> length (q_pool q) = nat (q_max_msgs q) \<and>
     0 \<le> q_head q \<and> q_head q < q_max_msgs q \<and> 0 \<le> q_tail q \<and> q_tail q < q_max_msgs q \<and>
     0 \<le> q_msg_size q \<and> q_msg_size q < 2 ^ 31 \<and>
     (\<forall>s \<in> set (q_pool q). \<exists>b. s = Some b \<and> length b = nat (q_msg_size q))"

definition mq_wf :: "bmq \<Rightarrow> bool" where
  "mq_wf q \<longleftrightarrow> mq_ok q \<and> \<not> q_locked q"

text \<open>A message as it is stored: padded with zeros to the size of a slot.\<close>

definition mq_padded :: "bmq \<Rightarrow> bytes \<Rightarrow> bytes" where
  "mq_padded q d = d @ replicate (nat (q_msg_size q) - length d) 0"

lemma length_mq_contents [simp]: "length (mq_contents q) = mq_count q"
  by (simp add: mq_contents_def)

lemma mq_lock_simps [simp]:
  "mq_ok (q\<lparr>q_locked := l\<rparr>) = mq_ok q"
  "mq_count (q\<lparr>q_locked := l\<rparr>) = mq_count q"
  "mq_contents (q\<lparr>q_locked := l\<rparr>) = mq_contents q"
  "mq_cap (q\<lparr>q_locked := l\<rparr>) = mq_cap q"
  "mq_padded (q\<lparr>q_locked := l\<rparr>) = mq_padded q"
  by (simp_all add: mq_ok_def mq_count_def mq_contents_def mq_cap_def mq_padded_def fun_eq_iff)

lemma smod_nonneg: "0 \<le> (a::int) \<Longrightarrow> 0 < b \<Longrightarrow> a smod b = a mod b"
  by (cases "a = 0") (simp_all add: signed_modulo_int_def signed_divide_int_def minus_mult_div_eq_mod
      mult.commute)

lemma sdiv_nonneg: "0 \<le> (a::int) \<Longrightarrow> 0 < b \<Longrightarrow> a sdiv b = a div b"
  by (cases "a = 0") (simp_all add: signed_divide_int_def)

lemma mem_len_nonneg: "0 \<le> n \<Longrightarrow> n < 2 ^ 31 \<Longrightarrow> mem_len n = nat n"
  using unat_of_nat_small [of "nat n", where 'a = 32] by (simp add: mem_len_def nat_less_iff)

lemma mq_count_bound: "mq_ok q \<Longrightarrow> mq_count q \<le> mq_cap q"
proof -
  assume "mq_ok q"
  then have "0 < q_max_msgs q" by (simp add: mq_ok_def)
  then have "(q_tail q - q_head q) mod q_max_msgs q < q_max_msgs q"
    "0 \<le> (q_tail q - q_head q) mod q_max_msgs q" by simp_all
  then show ?thesis by (simp add: mq_count_def mq_cap_def nat_le_iff)
qed

lemma mq_empty_iff: "mq_ok q \<Longrightarrow> q_head q = q_tail q \<longleftrightarrow> mq_count q = 0"
proof -
  assume ok: "mq_ok q"
  have "(q_tail q - q_head q) mod q_max_msgs q = 0 \<longleftrightarrow> q_head q = q_tail q"
    using ok mod_eq_dvd_iff [of "q_tail q" "q_max_msgs q" "q_head q"]
    by (auto simp: mq_ok_def mod_eq_0_iff_dvd)
  moreover have "0 \<le> (q_tail q - q_head q) mod q_max_msgs q" using ok by (simp add: mq_ok_def)
  ultimately show ?thesis by (auto simp: mq_count_def)
qed

text \<open>The indices as natural numbers: the tail is \<open>count\<close> slots after the head.\<close>

lemma mq_tail_eq:
  assumes "mq_ok q"
  shows "nat (q_tail q) = (nat (q_head q) + mq_count q) mod length (q_pool q)"
proof -
  have pos: "0 < q_max_msgs q" and t: "0 \<le> q_tail q" "q_tail q < q_max_msgs q" "0 \<le> q_head q"
    using assms by (simp_all add: mq_ok_def)
  have "(q_head q + (q_tail q - q_head q) mod q_max_msgs q) mod q_max_msgs q = q_tail q"
    using t by (simp add: mod_add_right_eq)
  moreover have "int (mq_count q) = (q_tail q - q_head q) mod q_max_msgs q"
    using pos by (simp add: mq_count_def)
  ultimately have "(int (nat (q_head q)) + int (mq_count q)) mod int (nat (q_max_msgs q)) = q_tail q"
    using t pos by simp
  then have "int ((nat (q_head q) + mq_count q) mod nat (q_max_msgs q)) = q_tail q"
    by (simp add: zmod_int)
  then show ?thesis using assms by (simp add: mq_ok_def)
qed

lemma mq_next_full_iff:
  assumes "mq_ok q"
  shows "(q_tail q + 1) smod q_max_msgs q = q_head q \<longleftrightarrow> mq_count q = mq_cap q"
proof -
  let ?m = "q_max_msgs q"
  have pos: "0 < ?m" "2 \<le> ?m" and r: "0 \<le> q_tail q" "0 \<le> q_head q" "q_head q < ?m"
    using assms by (simp_all add: mq_ok_def)
  have "(q_tail q + 1) mod ?m = q_head q \<longleftrightarrow> (q_tail q + 1) mod ?m = q_head q mod ?m"
    using r by simp
  also have "\<dots> \<longleftrightarrow> (q_tail q - q_head q) mod ?m = (- 1) mod ?m"
    by (simp add: mod_eq_dvd_iff algebra_simps)
  also have "(- 1) mod ?m = ?m - 1" using pos by (simp add: zmod_minus1)
  also have "(q_tail q - q_head q) mod ?m = ?m - 1 \<longleftrightarrow> mq_count q = mq_cap q"
    using pos by (auto simp: mq_count_def mq_cap_def nat_eq_iff) 
  finally show ?thesis using r pos by (simp add: smod_nonneg)
qed

lemma mq_slot_ok:
  assumes "mq_ok q" "0 \<le> i" "i < q_max_msgs q"
  obtains b where "mq_slot q i = Ret b" "q_pool q ! nat i = Some b" "length b = nat (q_msg_size q)"
proof -
  have lt: "nat i < length (q_pool q)" using assms by (simp add: mq_ok_def)
  then have "q_pool q ! nat i \<in> set (q_pool q)" by simp
  then obtain b where b: "q_pool q ! nat i = Some b" "length b = nat (q_msg_size q)"
    using assms(1) by (auto simp: mq_ok_def)
  moreover have "mq_slot q i = Ret b"
    using lt assms(2) b by (simp add: mq_slot_def rd_def)
  ultimately show thesis by (intro that)
qed

lemma ring_write_one: "p < length buf \<Longrightarrow> ring_write buf p [x] = buf[p := x]"
  by (simp add: ring_write_def Let_def upd_conv_take_nth_drop)

lemma mq_send_state:
  assumes ok: "mq_ok q" and room: "mq_count q < mq_cap q" and b: "length b = nat (q_msg_size q)"
    and g: "g = q\<lparr>q_pool := (q_pool q)[nat (q_tail q) := Some b],
                 q_tail := (q_tail q + 1) smod q_max_msgs q\<rparr>"
  shows "mq_ok g" "mq_cap g = mq_cap q" "mq_contents g = mq_contents q @ [b]"
proof -
  have r: "2 \<le> q_max_msgs q" "0 \<le> q_tail q" "q_tail q < q_max_msgs q" "0 \<le> q_head q"
    and pool: "length (q_pool q) = nat (q_max_msgs q)"
    using ok by (simp_all add: mq_ok_def)
  have next_t: "(q_tail q + 1) smod q_max_msgs q = (q_tail q + 1) mod q_max_msgs q"
    using r by (simp add: smod_nonneg)
  have slots: "\<exists>b. s = Some b \<and> length b = nat (q_msg_size q)"
    if "s \<in> set ((q_pool q)[nat (q_tail q) := Some b])" for s
    using that b ok set_update_subset_insert [of "q_pool q" "nat (q_tail q)" "Some b"]
    by (auto simp: mq_ok_def)
  show "mq_ok g" using ok r slots by (simp add: g mq_ok_def next_t)
  show "mq_cap g = mq_cap q" by (simp add: g mq_cap_def)
  have "mq_count g = mq_count q + 1"
  proof -
    have "((q_tail q + 1) mod q_max_msgs q - q_head q) mod q_max_msgs q =
        ((q_tail q - q_head q) + 1) mod q_max_msgs q"
      by (simp add: mod_diff_left_eq algebra_simps)
    also have "\<dots> = ((q_tail q - q_head q) mod q_max_msgs q + 1) mod q_max_msgs q"
      by (simp add: mod_add_left_eq)
    also have "\<dots> = (q_tail q - q_head q) mod q_max_msgs q + 1"
      using room r by (intro mod_pos_pos_trivial) (auto simp: mq_count_def mq_cap_def)
    finally show ?thesis using r by (simp add: g mq_count_def next_t nat_add_distrib)
  qed
  moreover have "mq_count q + length [Some b] \<le> length (q_pool q)"
    using room pool by (simp add: mq_cap_def)
  moreover have "nat (q_tail q) < length (q_pool q)" "q_pool q \<noteq> []" using r pool by auto
  ultimately show "mq_contents g = mq_contents q @ [b]"
    using ring_read_write_append [of "q_pool q" "mq_count q" "[Some b]" "nat (q_head q)"]
    by (simp add: mq_contents_def g ring_write_one flip: mq_tail_eq [OF ok])
qed

lemma mq_recv_state:
  assumes ok: "mq_ok q" and some: "0 < mq_count q"
    and g: "g = q\<lparr>q_head := (q_head q + 1) smod q_max_msgs q\<rparr>"
  shows "mq_ok g" "mq_cap g = mq_cap q"
    "mq_contents q = the (q_pool q ! nat (q_head q)) # mq_contents g"
proof -
  have r: "2 \<le> q_max_msgs q" "0 \<le> q_head q" "q_head q < q_max_msgs q"
    and pool: "length (q_pool q) = nat (q_max_msgs q)"
    using ok by (simp_all add: mq_ok_def)
  have next_h: "(q_head q + 1) smod q_max_msgs q = (q_head q + 1) mod q_max_msgs q"
    using r by (simp add: smod_nonneg)
  show "mq_ok g" using ok r by (simp add: g mq_ok_def next_h)
  show "mq_cap g = mq_cap q" by (simp add: g mq_cap_def)
  have cnt: "mq_count g = mq_count q - 1"
  proof -
    have "(q_tail q - (q_head q + 1) mod q_max_msgs q) mod q_max_msgs q =
        ((q_tail q - q_head q) - 1) mod q_max_msgs q"
      by (simp add: mod_diff_right_eq algebra_simps)
    also have "\<dots> = ((q_tail q - q_head q) mod q_max_msgs q - 1) mod q_max_msgs q"
      by (simp add: mod_diff_left_eq)
    also have "\<dots> = (q_tail q - q_head q) mod q_max_msgs q - 1"
    proof -
      define x where "x = (q_tail q - q_head q) mod q_max_msgs q"
      have "0 < x" "x < q_max_msgs q" using some r by (simp_all add: mq_count_def x_def)
      then show ?thesis unfolding x_def [symmetric] by simp
    qed
    finally show ?thesis using some by (simp add: g mq_count_def next_h nat_diff_distrib)
  qed
  have "nat (q_head g) mod length (q_pool q) = (nat (q_head q) + 1) mod length (q_pool q)"
  proof -
    have "nat ((q_head q + 1) mod q_max_msgs q) = (nat (q_head q) + 1) mod nat (q_max_msgs q)"
      using r by (simp add: nat_mod_distrib nat_add_distrib)
    then show ?thesis by (simp add: g next_h pool)
  qed
  then have rest: "ring_read (q_pool q) (nat (q_head g)) (mq_count q - 1) =
      ring_read (q_pool q) (nat (q_head q) + 1) (mq_count q - 1)" by (rule ring_read_cong_mod)
  have "ring_read (q_pool q) (nat (q_head q)) (1 + (mq_count q - 1)) =
      (q_pool q ! nat (q_head q)) # ring_read (q_pool q) (nat (q_head g)) (mq_count q - 1)"
    using r pool unfolding rest ring_read_add by (simp add: ring_read_def)
  moreover have "1 + (mq_count q - 1) = mq_count q" using some by simp
  moreover have "q_pool g = q_pool q" by (simp add: g)
  ultimately show "mq_contents q = the (q_pool q ! nat (q_head q)) # mq_contents g"
    by (simp add: mq_contents_def cnt)
qed

lemma mq_unlock_same: "\<not> q_locked q \<Longrightarrow> q\<lparr>q_locked := False\<rparr> = q"
  by simp

lemma with_mq_wf:
  "mq_wf q \<Longrightarrow> with_mq (Some q) null body =
     bindO (body (q\<lparr>q_locked := True\<rparr>)) (\<lambda>(r, q'). Ret (r, Some (q'\<lparr>q_locked := False\<rparr>)))"
  by (simp add: with_mq_def mq_wf_def)

lemma mq_send_stored:
  assumes wf: "mq_wf q" and room: "mq_count q < mq_cap q"
    and sz: "0 \<le> sz" "sz \<le> q_msg_size q" "nat sz \<le> length buffer"
  shows "\<exists>q'. b_mq_send (Some q) buffer sz = Ret (B_MQ_ERR_OK, Some q') \<and> mq_wf q' \<and>
    mq_cap q' = mq_cap q \<and> mq_contents q' = mq_contents q @ [mq_padded q (take (nat sz) buffer)]"
proof -
  let ?q = "q\<lparr>q_locked := True\<rparr>" and ?b = "mq_padded q (take (nat sz) buffer)"
  have ok: "mq_ok ?q" using wf by (simp add: mq_wf_def)
  have r: "0 \<le> q_msg_size q" "q_msg_size q < 2 ^ 31" "0 \<le> q_tail q" "q_tail q < q_max_msgs q"
    using wf by (simp_all add: mq_wf_def mq_ok_def)
  obtain b0 where b0: "mq_slot ?q (q_tail q) = Ret b0" "length b0 = nat (q_msg_size q)"
    using mq_slot_ok [OF ok, of "q_tail q"] r by auto
  have len: "length ?b = nat (q_msg_size q)" using sz by (simp add: mq_padded_def)
  have cells: "copy_in b0 0 (replicate (mem_len (q_msg_size q)) 0) =
      Ret (replicate (nat (q_msg_size q)) 0)"
    "copy_out buffer 0 (mem_len sz) = Ret (take (nat sz) buffer)"
    "copy_in (replicate (nat (q_msg_size q)) 0) 0 (take (nat sz) buffer) = Ret ?b"
    using b0 r sz by (simp_all add: mem_len_nonneg c_simps mq_padded_def min.absorb2 nat_mono)
  define g where "g = ?q\<lparr>q_pool := (q_pool ?q)[nat (q_tail ?q) := Some ?b],
                        q_tail := (q_tail ?q + 1) smod q_max_msgs ?q\<rparr>"
  have st: "mq_ok g" "mq_cap g = mq_cap q" "mq_contents g = mq_contents q @ [?b]"
    using mq_send_state [OF ok _ _ g_def] room len by simp_all
  have "(q_tail q + 1) smod q_max_msgs q \<noteq> q_head q"
    using mq_next_full_iff [OF ok] room by simp
  then have "b_mq_send (Some q) buffer sz = Ret (B_MQ_ERR_OK, Some (g\<lparr>q_locked := False\<rparr>))"
    using sz by (simp add: b_mq_send_def with_mq_wf [OF wf] b0 cells g_def)
  with st show ?thesis by (auto simp: mq_wf_def)
qed

lemma mq_recv_delivered:
  assumes wf: "mq_wf q" and some: "0 < mq_count q" and sz: "0 \<le> sz" "sz \<le> q_msg_size q"
  shows "\<exists>q'. b_mq_recv w (Some q) sz t =
      Ret ((B_MQ_ERR_OK, take (nat sz) (hd (mq_contents q))), Some q') \<and> mq_wf q' \<and>
    mq_cap q' = mq_cap q \<and> mq_contents q = hd (mq_contents q) # mq_contents q'"
proof -
  let ?q = "q\<lparr>q_locked := True\<rparr>"
  have ok: "mq_ok ?q" using wf by (simp add: mq_wf_def)
  have r: "0 \<le> q_head q" "q_head q < q_max_msgs q" "q_msg_size q < 2 ^ 31"
    using wf by (simp_all add: mq_wf_def mq_ok_def)
  obtain b where b: "mq_slot ?q (q_head q) = Ret b" "q_pool q ! nat (q_head q) = Some b"
      "length b = nat (q_msg_size q)"
    using mq_slot_ok [OF ok, of "q_head q"] r by auto
  define g where "g = ?q\<lparr>q_head := (q_head ?q + 1) smod q_max_msgs ?q\<rparr>"
  have st: "mq_ok g" "mq_cap g = mq_cap q" "mq_contents q = b # mq_contents g"
    using mq_recv_state [OF ok _ g_def] some b by simp_all
  have "copy_out b 0 (mem_len sz) = Ret (take (nat sz) b)"
    using sz r b by (simp add: mem_len_nonneg c_simps nat_mono)
  moreover have "q_head q \<noteq> q_tail q" using mq_empty_iff [of q] wf some by (simp add: mq_wf_def)
  ultimately have "b_mq_recv w (Some q) sz t =
      Ret ((B_MQ_ERR_OK, take (nat sz) b), Some (g\<lparr>q_locked := False\<rparr>))"
    using sz b by (simp add: b_mq_recv_def with_mq_wf [OF wf] mq_await_def g_def)
  with st show ?thesis by (auto simp: mq_wf_def)
qed

section \<open>The message queue as a lossless queue\<close>

definition mq_enq :: "bytes \<Rightarrow> bmq \<Rightarrow> bytes list \<times> bmq" where
  "mq_enq d q =
     (case b_mq_send (Some q) d (int (length d)) of
        Ret (rc, Some q') \<Rightarrow> (if rc = B_MQ_ERR_OK then [mq_padded q d] else [], q')
      | _ \<Rightarrow> ([], q))"

definition mq_deq :: "mq_env \<Rightarrow> unit \<Rightarrow> bmq \<Rightarrow> bytes list \<times> bmq" where
  "mq_deq w u q =
     (case b_mq_recv w (Some q) (q_msg_size q) 0 of
        Ret ((rc, d), Some q') \<Rightarrow> (if rc = B_MQ_ERR_OK then [d] else [], q')
      | _ \<Rightarrow> ([], q))"

lemma mq_contents_slots:
  assumes ok: "mq_ok q" and b: "b \<in> set (mq_contents q)"
  shows "length b = nat (q_msg_size q)"
proof -
  obtain i where i: "b = the (q_pool q ! (i mod length (q_pool q)))"
    using b by (auto simp: mq_contents_def ring_read_def)
  have "i mod length (q_pool q) < length (q_pool q)" using ok by (simp add: mq_ok_def)
  then have "q_pool q ! (i mod length (q_pool q)) \<in> set (q_pool q)" by simp
  with ok i show ?thesis unfolding mq_ok_def by fastforce
qed

lemma mq_enq_cases:
  assumes wf: "mq_wf q"
  obtains "mq_enq d q = ([], q)"
  | q' where "mq_enq d q = ([mq_padded q d], q')" "mq_wf q'" "mq_cap q' = mq_cap q"
    "mq_contents q' = mq_contents q @ [mq_padded q d]"
proof (cases "int (length d) \<le> q_msg_size q \<and> mq_count q < mq_cap q")
  case True
  then obtain q' where "b_mq_send (Some q) d (int (length d)) = Ret (B_MQ_ERR_OK, Some q')"
      "mq_wf q'" "mq_cap q' = mq_cap q" "mq_contents q' = mq_contents q @ [mq_padded q d]"
    using mq_send_stored [OF wf, of "int (length d)" d] by auto
  with that(2) show thesis by (simp add: mq_enq_def)
next
  case False
  have "mq_count q \<le> mq_cap q" and ok: "mq_ok (q\<lparr>q_locked := True\<rparr>)"
    using mq_count_bound [of q] wf by (simp_all add: mq_wf_def)
  with False mq_next_full_iff [OF ok]
  have "int (length d) \<le> q_msg_size q \<Longrightarrow> (q_tail q + 1) smod q_max_msgs q = q_head q" by simp
  moreover have "q\<lparr>q_locked := False\<rparr> = q" using wf by (simp add: mq_wf_def)
  ultimately have "mq_enq d q = ([], q)"
    by (cases "int (length d) \<le> q_msg_size q")
       (simp_all add: mq_enq_def b_mq_send_def with_mq_wf [OF wf] mq_errs)
  with that(1) show thesis .
qed

lemma mq_deq_cases:
  assumes wf: "mq_wf q"
  obtains "mq_deq w u q = ([], q)" "mq_count q = 0"
  | m q' where "mq_deq w u q = ([m], q')" "mq_wf q'" "mq_cap q' = mq_cap q"
    "mq_contents q = m # mq_contents q'"
proof (cases "mq_count q = 0")
  case True
  then have "q_head q = q_tail q" using mq_empty_iff [of q] wf by (simp add: mq_wf_def)
  moreover have "q\<lparr>q_locked := False\<rparr> = q" using wf by (simp add: mq_wf_def)
  ultimately have "mq_deq w u q = ([], q)"
    by (simp add: mq_deq_def b_mq_recv_def with_mq_wf [OF wf] mq_await_def mq_errs)
  with that(1) True show thesis by blast
next
  case False
  have sz: "0 \<le> q_msg_size q" using wf by (simp add: mq_wf_def mq_ok_def)
  obtain q' where q': "b_mq_recv w (Some q) (q_msg_size q) 0 =
      Ret ((B_MQ_ERR_OK, take (nat (q_msg_size q)) (hd (mq_contents q))), Some q')" "mq_wf q'"
      "mq_cap q' = mq_cap q" "mq_contents q = hd (mq_contents q) # mq_contents q'"
    using mq_recv_delivered [OF wf _ sz order_refl] False by blast
  have "hd (mq_contents q) \<in> set (mq_contents q)" using False by (metis hd_in_set length_0_conv length_mq_contents)
  moreover have "length b = nat (q_msg_size q)" if "b \<in> set (mq_contents q)" for b
    using mq_contents_slots [of q b] that wf by (simp add: mq_wf_def)
  ultimately have "take (nat (q_msg_size q)) (hd (mq_contents q)) = hd (mq_contents q)" by simp
  with q' that(2) show thesis by (simp add: mq_deq_def)
qed

interpretation b_mq: lossless_queue mq_wf mq_contents mq_cap mq_enq "mq_deq w" for w
proof
  fix q q' and d :: bytes and xs and u :: unit
  assume q: "mq_wf q"
  {
    assume "mq_enq d q = (xs, q')"
    then show "mq_contents q' = mq_contents q @ xs" and "mq_wf q' \<and> mq_cap q' = mq_cap q"
      using q by (cases rule: mq_enq_cases [OF q, of d]; simp)+
  }
  {
    assume "mq_deq w u q = (xs, q')"
    then show "mq_contents q = xs @ mq_contents q'" and "mq_wf q' \<and> mq_cap q' = mq_cap q"
      using q by (cases rule: mq_deq_cases [OF q, of w u]; simp)+
  }
  show "length (mq_contents q) \<le> mq_cap q" using q by (simp add: mq_wf_def mq_count_bound)
qed

section \<open>Properties\<close>

lemma b_mq_create_wf:
  assumes "0 < n" "0 \<le> sz" "sz < 2 ^ 31"
  shows "\<exists>q. b_mq_create (True, True, \<lambda>_. True) sz n = Ret (Some q) \<and> mq_wf q \<and>
    mq_contents q = [] \<and> mq_cap q = nat n \<and> q_msg_size q = sz"
  using assms by (auto simp: b_mq_create_def mq_wf_def mq_ok_def mq_contents_def mq_count_def mq_cap_def)



text \<open>
  \<open>b_mq_send\<close> on every branch: a message longer than a slot is refused with
  \<open>B_MQ_ERR_SIZE\<close>, a full queue with \<open>B_MQ_ERR_FULL\<close>, both without a change; otherwise the
  message is appended, zero padded.  \<open>b_mq_msgs\<close> and \<open>b_mq_remain\<close> report the number of messages
  and of free slots.
\<close>

theorem b_mq_send_spec:
  assumes "mq_wf q" and "0 \<le> sz" and "nat sz \<le> length buffer"
  shows "(if q_msg_size q < sz then b_mq_send (Some q) buffer sz = Ret (B_MQ_ERR_SIZE, Some q)
      else if mq_count q = mq_cap q then b_mq_send (Some q) buffer sz = Ret (B_MQ_ERR_FULL, Some q)
      else \<exists>q'. b_mq_send (Some q) buffer sz = Ret (B_MQ_ERR_OK, Some q') \<and> mq_wf q' \<and>
        mq_contents q' = mq_contents q @ [mq_padded q (take (nat sz) buffer)]) \<and>
    b_mq_msgs (Some q) = Ret (int (mq_count q), Some q) \<and>
    b_mq_remain (Some q) = Ret (int (mq_cap q - mq_count q), Some q)"
proof -
  have ok: "mq_ok (q\<lparr>q_locked := True\<rparr>)" and same: "q\<lparr>q_locked := False\<rparr> = q"
    and le: "mq_count q \<le> mq_cap q" and r: "2 \<le> q_max_msgs q" "0 \<le> q_tail q" "q_head q < q_max_msgs q"
    using assms(1) mq_count_bound [of q] by (auto simp: mq_wf_def mq_ok_def)
  have "(q_tail q - q_head q + q_max_msgs q) smod q_max_msgs q = int (mq_count q)"
    using r by (simp add: smod_nonneg mq_count_def)
  then have "b_mq_msgs (Some q) = Ret (int (mq_count q), Some q)"
    "b_mq_remain (Some q) = Ret (int (mq_cap q - mq_count q), Some q)"
    using le r same by (simp_all add: b_mq_msgs_def b_mq_remain_def with_mq_wf [OF assms(1)]
        mq_cap_def of_nat_diff)
  moreover have "b_mq_send (Some q) buffer sz = Ret (B_MQ_ERR_SIZE, Some q)" if "q_msg_size q < sz"
    using that same by (simp add: b_mq_send_def with_mq_wf [OF assms(1)])
  moreover have "b_mq_send (Some q) buffer sz = Ret (B_MQ_ERR_FULL, Some q)"
    if "sz \<le> q_msg_size q" "mq_count q = mq_cap q"
    using that same mq_next_full_iff [OF ok] by (simp add: b_mq_send_def with_mq_wf [OF assms(1)])
  moreover have "\<exists>q'. b_mq_send (Some q) buffer sz = Ret (B_MQ_ERR_OK, Some q') \<and> mq_wf q' \<and>
      mq_contents q' = mq_contents q @ [mq_padded q (take (nat sz) buffer)]"
    if "sz \<le> q_msg_size q" "mq_count q \<noteq> mq_cap q"
    using mq_send_stored [OF assms(1) _ assms(2) that(1) assms(3)] that(2) le by auto
  ultimately show ?thesis by (simp add: not_less)
qed

definition demo_mq :: bmq where
  "demo_mq = \<lparr>q_max_msgs = 3, q_msg_size = 2, q_pool = replicate 3 (Some [0, 0]), q_head = 2,
     q_tail = 2, q_locked = False\<rparr>"

lemma demo_mq_wf: "mq_wf demo_mq"
  by (simp add: demo_mq_def mq_wf_def mq_ok_def)

theorem b_mq_send_spec_witness:
  "b_mq_send (Some demo_mq) [1, 2, 3] 3 = Ret (B_MQ_ERR_SIZE, Some demo_mq) \<and>
   b_mq_remain (Some demo_mq) = Ret (2, Some demo_mq)"
  using b_mq_send_spec [OF demo_mq_wf, of 3 "[1, 2, 3]"]
  by (simp add: demo_mq_def mq_count_def mq_cap_def)

text \<open>
  \<open>b_mq_recv\<close> does not look at the queue again after its wait: when the wait ends with
  0 and the queue is still empty (a spurious wake-up, or another receiver was faster), it returns
  \<open>B_MQ_ERR_OK\<close> with the old bytes of a slot, and its head passes the tail: the queue then counts
  as full of messages nobody sent, and the next send is refused.
\<close>

theorem b_mq_recv_spurious:
  assumes wf: "mq_wf q" and empty: "mq_count q = 0" and t: "t \<noteq> 0"
    and sz: "0 \<le> sz" "sz \<le> q_msg_size q" and wake: "\<And>d. mw_wake w d q = Ret (0, q)"
    and d: "nat sz \<le> length d"
  shows "\<exists>b q'. b_mq_recv w (Some q) sz t = Ret ((B_MQ_ERR_OK, b), Some q') \<and> mq_wf q' \<and>
    mq_count q' = mq_cap q \<and> b_mq_send (Some q') d sz = Ret (B_MQ_ERR_FULL, Some q')"
proof -
  let ?q = "q\<lparr>q_locked := True\<rparr>"
  have ok: "mq_ok ?q" and same: "q\<lparr>q_locked := False\<rparr> = q" using wf by (simp_all add: mq_wf_def)
  have eq: "q_head q = q_tail q" using mq_empty_iff [of q] wf empty by (simp add: mq_wf_def)
  have r: "2 \<le> q_max_msgs q" "0 \<le> q_head q" "q_head q < q_max_msgs q" "q_msg_size q < 2 ^ 31"
    using wf by (simp_all add: mq_wf_def mq_ok_def)
  obtain b where b: "mq_slot ?q (q_head q) = Ret b" "length b = nat (q_msg_size q)"
    using mq_slot_ok [OF ok, of "q_head q"] r by auto
  have cp: "copy_out b 0 (mem_len sz) = Ret (take (nat sz) b)"
    using sz r b by (simp add: mem_len_nonneg c_simps nat_mono)
  define g where "g = q\<lparr>q_head := (q_head q + 1) smod q_max_msgs q\<rparr>"
  have "mq_await w t ?q = Ret (B_MQ_ERR_OK, ?q)"
    using eq t wake same by (simp add: mq_await_def)
  then have recv: "b_mq_recv w (Some q) sz t = Ret ((B_MQ_ERR_OK, take (nat sz) b), Some g)"
    using sz b cp wf by (simp add: b_mq_recv_def with_mq_wf [OF wf] g_def mq_wf_def)
  have wf': "mq_wf g" and cap: "mq_cap g = mq_cap q"
    using wf r by (simp_all add: mq_wf_def mq_ok_def g_def mq_cap_def smod_nonneg)
  have "(q_tail q - (q_head q + 1) mod q_max_msgs q) mod q_max_msgs q = (- 1) mod q_max_msgs q"
    using eq by (simp add: mod_diff_right_eq)
  also have "\<dots> = q_max_msgs q - 1" using r by (simp add: zmod_minus1)
  finally have full: "mq_count g = mq_cap q"
    using r by (simp add: g_def mq_count_def mq_cap_def smod_nonneg nat_diff_distrib)
  have "(if q_msg_size g < sz then b_mq_send (Some g) d sz = Ret (B_MQ_ERR_SIZE, Some g)
      else if mq_count g = mq_cap g then b_mq_send (Some g) d sz = Ret (B_MQ_ERR_FULL, Some g)
      else True)"
    using mq_next_full_iff [of "g\<lparr>q_locked := True\<rparr>"] wf' 
    by (auto simp: b_mq_send_def with_mq_wf [OF wf'] mq_wf_def)
  with full cap sz have "b_mq_send (Some g) d sz = Ret (B_MQ_ERR_FULL, Some g)"
    by (simp add: g_def)
  with recv wf' full show ?thesis by blast
qed

theorem b_mq_recv_spurious_witness:
  "\<exists>b q'. b_mq_recv \<lparr>mw_now = (0, 0), mw_wake = (\<lambda>_ q. Ret (0, q))\<rparr> (Some demo_mq) 2 (- 1) =
      Ret ((B_MQ_ERR_OK, b), Some q') \<and> b_mq_send (Some q') [1, 2] 2 = Ret (B_MQ_ERR_FULL, Some q')"
  using b_mq_recv_spurious [OF demo_mq_wf, of "- 1" 2 "\<lparr>mw_now = (0, 0), mw_wake = (\<lambda>_ q. Ret (0, q))\<rparr>"
      "[1, 2]"]
  by (auto simp: demo_mq_def mq_count_def)

end
