(* ===== verification/Threaddog.thy ===== *)
theory Threaddog
  imports Prelude
begin

text \<open>
  The software watchdog of \<open>threaddog/threaddog.c\<close>: a static table of \<open>THREAD_DOG_NUM\<close> entries,
  one per registered thread, and a scan that reports the first thread that was not fed in time.
  The clock (\<open>rt_tick_get\<close>, milliseconds since the start as \<open>uint64_t\<close>) is an argument of every
  operation that reads it; printing is left out.
\<close>

section \<open>State\<close>

datatype thddog_state_t = THD_DOG_S_RUNNING | THD_DOG_S_SUSPEND | THD_DOG_S_DIE | THD_DOG_S_EXIT

text \<open>
  \<open>over_sec\<close> is a signed bit field of 8 bits; \<open>use\<close> and \<open>is_over\<close> are one bit flags.  The type
  \<open>'d\<close> is what \<open>data\<close> points to.
\<close>

record 'd thddog =
  d_name :: string
  d_use :: bool
  d_is_over :: bool
  d_over_sec :: int
  d_tick_reg :: int
  d_tick_feed :: int
  d_func :: "string option"
  d_line :: int
  d_run_desc :: "string option"
  d_state :: thddog_state_t
  d_data :: "'d option"

record 'd threaddog =
  thddogs_list :: "'d thddog list"
  thddogs_cnt :: int

definition THREAD_DOG_NUM :: nat where "THREAD_DOG_NUM = 200"

section \<open>Operations\<close>

text \<open>\<open>long\<close> has 32 bits on the target.\<close>

definition to_long :: "int \<Rightarrow> int" where
  "to_long n = sint (word_of_int n :: u32)"

definition threaddog_sec2tick :: "int \<Rightarrow> int" where
  "threaddog_sec2tick sec = to_long (sec * 1000)"

definition threaddog_tick :: "int \<Rightarrow> int" where
  "threaddog_tick msec = to_long msec"

definition zero_dog :: "'d thddog" where
  "zero_dog = \<lparr>d_name = [], d_use = False, d_is_over = False, d_over_sec = 0, d_tick_reg = 0,
     d_tick_feed = 0, d_func = None, d_line = 0, d_run_desc = None, d_state = THD_DOG_S_RUNNING,
     d_data = None\<rparr>"

definition threaddog_init :: "'d threaddog" where
  "threaddog_init = \<lparr>thddogs_list = replicate THREAD_DOG_NUM zero_dog, thddogs_cnt = 0\<rparr>"

text \<open>
  The entry \<open>threaddog_register\<close> fills: \<open>strncpy\<close> takes at most 12 characters, \<open>over_sec & 0xFF\<close>
  is stored in the signed field.
\<close>

definition new_dog :: "int \<times> int \<Rightarrow> string \<Rightarrow> int \<Rightarrow> 'd option \<Rightarrow> 'd thddog" where
  "new_dog now name over_sec data =
     zero_dog\<lparr>d_name := take 12 name, d_is_over := False,
       d_over_sec := sint (word_of_int (over_sec AND 0xFF) :: u8),
       d_tick_reg := threaddog_tick (fst now), d_tick_feed := threaddog_tick (snd now),
       d_func := None, d_line := - 1, d_run_desc := None, d_state := THD_DOG_S_RUNNING,
       d_data := data, d_use := True\<rparr>"

fun free_dog_from :: "nat \<Rightarrow> 'd thddog list \<Rightarrow> nat option" where
  "free_dog_from i [] = None"
| "free_dog_from i (d # ds) = (if \<not> d_use d then Some i else free_dog_from (Suc i) ds)"

definition threaddog_register ::
  "int \<times> int \<Rightarrow> string \<Rightarrow> int \<Rightarrow> 'd option \<Rightarrow> 'd threaddog \<Rightarrow> nat option \<times> 'd threaddog" where
  "threaddog_register now name over_sec data s =
     (case free_dog_from 0 (thddogs_list s) of
        None \<Rightarrow> (None, s)
      | Some i \<Rightarrow>
          (Some i, s\<lparr>thddogs_list := (thddogs_list s)[i := new_dog now name over_sec data],
                    thddogs_cnt := thddogs_cnt s + 1\<rparr>))"

text \<open>A handle is the index of its entry, or NULL.\<close>

definition threaddog_unregister :: "nat option \<Rightarrow> 'd threaddog \<Rightarrow> 'd threaddog" where
  "threaddog_unregister h s =
     (case h of
        None \<Rightarrow> s
      | Some i \<Rightarrow>
          (let d = thddogs_list s ! i in
           if d_use d then s\<lparr>thddogs_list := (thddogs_list s)[i := d\<lparr>d_use := False\<rparr>],
                             thddogs_cnt := thddogs_cnt s - 1\<rparr>
           else s))"

definition threaddog_update ::
  "int \<Rightarrow> nat option \<Rightarrow> string option \<Rightarrow> int \<Rightarrow> string option \<Rightarrow> thddog_state_t
   \<Rightarrow> 'd threaddog \<Rightarrow> 'd threaddog" where
  "threaddog_update now h func line desc state s =
     (case h of
        None \<Rightarrow> s
      | Some i \<Rightarrow>
          (let d = thddogs_list s ! i in
           if d_use d \<and> \<not> d_is_over d then
             s\<lparr>thddogs_list := (thddogs_list s)[i := d\<lparr>d_tick_feed := threaddog_tick now,
                 d_is_over := False, d_func := func, d_line := line,
                 d_run_desc := (if desc \<noteq> None then desc else d_run_desc d), d_state := state\<rparr>]\<rparr>
           else s))"

text \<open>The scan: \<open>None\<close> when no entry is over, else the \<open>data\<close> of the first one that is.\<close>

definition dog_watched :: "'d thddog \<Rightarrow> bool" where
  "dog_watched d \<longleftrightarrow> d_use d \<and> \<not> d_is_over d \<and> d_state d \<noteq> THD_DOG_S_SUSPEND \<and>
     d_state d \<noteq> THD_DOG_S_EXIT"

fun check_dogs :: "int \<Rightarrow> 'd thddog list \<Rightarrow> 'd option option \<times> 'd thddog list" where
  "check_dogs tick [] = (None, [])"
| "check_dogs tick (d # ds) =
     (if dog_watched d then
        (let over_tick = threaddog_sec2tick (d_over_sec d);
             d1 = (if tick < d_tick_feed d then d\<lparr>d_tick_feed := 0\<rparr> else d)
         in if over_tick \<le> tick \<and> over_tick < to_long (tick - d_tick_feed d1)
            then (Some (d_data d1), d1\<lparr>d_is_over := True, d_state := THD_DOG_S_DIE\<rparr> # ds)
            else (let (r, ds') = check_dogs tick ds in (r, d1 # ds')))
      else (let (r, ds') = check_dogs tick ds in (r, d # ds')))"

definition threaddog_check :: "int \<Rightarrow> 'd threaddog \<Rightarrow> 'd option \<times> 'd threaddog" where
  "threaddog_check now s =
     (let (r, ds) = check_dogs (threaddog_tick now) (thddogs_list s)
      in (case r of None \<Rightarrow> None | Some d \<Rightarrow> d, s\<lparr>thddogs_list := ds\<rparr>))"

section \<open>Invariant\<close>

text \<open>The counter counts the entries in use.\<close>

definition dogs_wf :: "'d threaddog \<Rightarrow> bool" where
  "dogs_wf s \<longleftrightarrow> length (thddogs_list s) = THREAD_DOG_NUM \<and>
     thddogs_cnt s = int (length (filter d_use (thddogs_list s)))"

lemma to_long_small: "- (2 ^ 31) \<le> n \<Longrightarrow> n < 2 ^ 31 \<Longrightarrow> to_long n = n"
  by (simp add: to_long_def sint_sbintrunc' signed_take_bit_int_eq_self)

lemma over_sec_range: "- 128 \<le> sint (w :: u8) \<and> sint w < 128"
  using sint_greater_eq [of w] sint_less [of w] by simp

lemma sec2tick_small: "- 128 \<le> n \<Longrightarrow> n < 128 \<Longrightarrow> threaddog_sec2tick n = n * 1000"
  by (simp add: threaddog_sec2tick_def to_long_small)

lemma free_dog_from_spec:
  "free_dog_from i ds = (case List.find (\<lambda>j. \<not> d_use (ds ! j)) [0..<length ds] of
     None \<Rightarrow> None | Some j \<Rightarrow> Some (i + j))"
proof (induction i ds rule: free_dog_from.induct)
  case (2 i d ds)
  have "[0..<length (d # ds)] = 0 # map Suc [0..<length ds]"
    by (simp add: upt_conv_Cons map_Suc_upt del: upt_Suc)
  moreover have "List.find P (map Suc xs) = map_option Suc (List.find (\<lambda>j. P (Suc j)) xs)" for P xs
    by (induction xs) auto
  ultimately show ?case using 2 by (auto split: option.splits)
qed simp

lemma count_update:
  "i < length xs \<Longrightarrow> int (length (filter P (xs[i := x]))) =
     int (length (filter P xs)) - (if P (xs ! i) then 1 else 0) + (if P x then 1 else 0)"
proof (induction xs arbitrary: i)
  case (Cons y ys)
  then show ?case by (cases i) (auto simp: if_split [of "\<lambda>n. int _ = n"] simp del: of_nat_eq_iff)
qed simp

lemma find_range:
  "List.find P [0..<n] = Some i \<longleftrightarrow> i < n \<and> P i \<and> (\<forall>j < i. \<not> P j)"
  "List.find P [0..<n] = None \<longleftrightarrow> (\<forall>j < n. \<not> P j)"
  by (auto simp: find_Some_iff find_None_iff)

lemma find_shift:
  "List.find P [0..<Suc n] = (if P 0 then Some 0 else map_option Suc (List.find (\<lambda>j. P (Suc j)) [0..<n]))"
proof -
  have "[0..<Suc n] = 0 # map Suc [0..<n]"
    by (simp add: upt_conv_Cons map_Suc_upt del: upt_Suc)
  moreover have "List.find P (map Suc xs) = map_option Suc (List.find (\<lambda>j. P (Suc j)) xs)" for xs
    by (induction xs) auto
  ultimately show ?thesis by (simp del: upt_Suc)
qed

section \<open>The scan\<close>

text \<open>
  An entry is overdue at tick \<open>t\<close>: it is watched, and more than its time has passed since it was
  fed; a feed in the future counts as a feed at tick 0.
\<close>

definition dog_overdue :: "int \<Rightarrow> 'd thddog \<Rightarrow> bool" where
  "dog_overdue t d \<longleftrightarrow> dog_watched d \<and> threaddog_sec2tick (d_over_sec d) \<le> t \<and>
     threaddog_sec2tick (d_over_sec d) <
       to_long (t - (if t < d_tick_feed d then 0 else d_tick_feed d))"

lemma check_dogs_spec:
  "length (snd (check_dogs t ds)) = length ds \<and>
   (case List.find (\<lambda>i. dog_overdue t (ds ! i)) [0..<length ds] of
      None \<Rightarrow> fst (check_dogs t ds) = None \<and>
        (\<forall>j < length ds. d_is_over (snd (check_dogs t ds) ! j) = d_is_over (ds ! j) \<and>
           d_state (snd (check_dogs t ds) ! j) = d_state (ds ! j))
    | Some i \<Rightarrow> fst (check_dogs t ds) = Some (d_data (ds ! i)) \<and>
        d_is_over (snd (check_dogs t ds) ! i) \<and> d_state (snd (check_dogs t ds) ! i) = THD_DOG_S_DIE \<and>
        (\<forall>j < length ds. j \<noteq> i \<longrightarrow> d_is_over (snd (check_dogs t ds) ! j) = d_is_over (ds ! j) \<and>
           d_state (snd (check_dogs t ds) ! j) = d_state (ds ! j)))"
proof (induction ds)
  case (Cons d ds)
  show ?case
  proof (cases "dog_overdue t d")
    case True
    then show ?thesis
      by (auto simp: dog_overdue_def Let_def find_shift nth_Cons' simp del: upt_Suc)
  next
    case False
    then have "\<exists>d'. check_dogs t (d # ds) = (fst (check_dogs t ds), d' # snd (check_dogs t ds)) \<and>
        d_is_over d' = d_is_over d \<and> d_state d' = d_state d"
      by (auto simp: dog_overdue_def Let_def split: prod.splits)
    then obtain d' where "check_dogs t (d # ds) = (fst (check_dogs t ds), d' # snd (check_dogs t ds))"
        "d_is_over d' = d_is_over d" "d_state d' = d_state d" by blast
    with Cons.IH False show ?thesis
      by (auto simp: find_shift nth_Cons' less_Suc_eq_0_disj split: option.splits simp del: upt_Suc)
  qed
qed simp

lemma check_dogs_use:
  "map d_use (snd (check_dogs t ds)) = map d_use ds" "length (snd (check_dogs t ds)) = length ds"
  by (induction ds) (auto simp: Let_def split: prod.splits)

lemma count_same_flags: "map f xs = map f ys \<Longrightarrow> length (filter f xs) = length (filter f ys)"
proof -
  assume m: "map f xs = map f ys"
  have "length (filter f zs) = length (filter (\<lambda>b. b) (map f zs))" for zs
    by (simp add: filter_map comp_def)
  then show ?thesis by (metis m)
qed

section \<open>Properties\<close>

text \<open>
  Claim C24.  The table stays consistent: registering takes the lowest free entry, arms it and adds
  one to the counter, and fails without a change exactly when all \<open>THREAD_DOG_NUM\<close> entries are in
  use; unregistering (twice, or a NULL handle included), feeding and scanning keep the counter
  equal to the number of entries in use.
\<close>

theorem threaddog_table_invariant:
  assumes wf: "dogs_wf s" and h: "\<forall>i. h = Some i \<longrightarrow> i < THREAD_DOG_NUM"
  shows "(case threaddog_register now name over data s of
      (None, s') \<Rightarrow> s' = s \<and> thddogs_cnt s = int THREAD_DOG_NUM
    | (Some i, s') \<Rightarrow> dogs_wf s' \<and> i < THREAD_DOG_NUM \<and> \<not> d_use (thddogs_list s ! i) \<and>
        (\<forall>j < i. d_use (thddogs_list s ! j)) \<and> d_use (thddogs_list s' ! i) \<and>
        thddogs_cnt s' = thddogs_cnt s + 1) \<and>
    dogs_wf (threaddog_unregister h s) \<and> dogs_wf (threaddog_update t h func line desc state s) \<and>
    dogs_wf (snd (threaddog_check t s))"
proof -
  let ?ds = "thddogs_list s"
  have len: "length ?ds = THREAD_DOG_NUM" and cnt: "thddogs_cnt s = int (length (filter d_use ?ds))"
    using wf by (simp_all add: dogs_wf_def)
  have "case threaddog_register now name over data s of
      (None, s') \<Rightarrow> s' = s \<and> thddogs_cnt s = int THREAD_DOG_NUM
    | (Some i, s') \<Rightarrow> dogs_wf s' \<and> i < THREAD_DOG_NUM \<and> \<not> d_use (?ds ! i) \<and>
        (\<forall>j < i. d_use (?ds ! j)) \<and> d_use (thddogs_list s' ! i) \<and>
        thddogs_cnt s' = thddogs_cnt s + 1"
  proof (cases "free_dog_from 0 ?ds")
    case None
    then have "List.find (\<lambda>j. \<not> d_use (?ds ! j)) [0..<length ?ds] = None"
      by (simp add: free_dog_from_spec split: option.splits)
    then have "\<forall>d \<in> set ?ds. d_use d" by (auto simp: find_range in_set_conv_nth)
    then have "filter d_use ?ds = ?ds" by simp
    then show ?thesis using None cnt len by (simp add: threaddog_register_def)
  next
    case (Some i)
    then have i: "i < length ?ds" "\<not> d_use (?ds ! i)" "\<forall>j < i. d_use (?ds ! j)"
      by (auto simp: free_dog_from_spec find_range split: option.splits)
    then have "int (length (filter d_use (?ds[i := new_dog now name over data]))) = thddogs_cnt s + 1"
      using cnt count_update [of i ?ds d_use "new_dog now name over data"] by (simp add: new_dog_def)
    then have "dogs_wf (s\<lparr>thddogs_list := ?ds[i := new_dog now name over data],
        thddogs_cnt := thddogs_cnt s + 1\<rparr>)"
      using len by (simp add: dogs_wf_def)
    then show ?thesis using Some i len by (simp add: threaddog_register_def new_dog_def)
  qed
  moreover have "dogs_wf (threaddog_unregister h s)"
    using wf h by (auto simp: threaddog_unregister_def dogs_wf_def count_update Let_def
        split: option.splits simp del: of_nat_eq_iff)
  moreover have "dogs_wf (threaddog_update t h func line desc state s)"
    using wf h by (auto simp: threaddog_update_def dogs_wf_def count_update Let_def
        split: option.splits simp del: of_nat_eq_iff)
  moreover have "dogs_wf (snd (threaddog_check t s))"
    using wf check_dogs_use(2) [of "threaddog_tick t" ?ds]
      count_same_flags [OF check_dogs_use(1) [of "threaddog_tick t" ?ds]]
    by (simp add: threaddog_check_def dogs_wf_def split_def Let_def)
  ultimately show ?thesis by blast
qed

theorem threaddog_table_invariant_witness:
  "dogs_wf (snd (threaddog_register (5, 6) ''uart'' 60 (Some True) threaddog_init))"
proof -
  have "filter d_use (replicate n (zero_dog :: bool thddog)) = []" for n
    by (induction n) (simp_all add: zero_dog_def)
  then have wf: "dogs_wf (threaddog_init :: bool threaddog)"
    by (simp add: dogs_wf_def threaddog_init_def del: replicate_Suc)
  obtain h s' where r: "threaddog_register (5, 6) ''uart'' 60 (Some True) threaddog_init = (h, s')"
    by fastforce
  have "(case (h, s') of
      (None, s') \<Rightarrow> s' = threaddog_init \<and> thddogs_cnt (threaddog_init :: bool threaddog) = int THREAD_DOG_NUM
    | (Some i, s') \<Rightarrow> dogs_wf s' \<and> i < THREAD_DOG_NUM \<and>
        \<not> d_use (thddogs_list threaddog_init ! i :: bool thddog) \<and>
        (\<forall>j < i. d_use (thddogs_list threaddog_init ! j :: bool thddog)) \<and> d_use (thddogs_list s' ! i) \<and>
        thddogs_cnt s' = thddogs_cnt (threaddog_init :: bool threaddog) + 1)"
    using threaddog_table_invariant [OF wf, of None "(5, 6)" "''uart''" 60 "Some True"
      0 None 0 None THD_DOG_S_RUNNING] unfolding r by blast
  with wf show ?thesis unfolding r by (cases h) simp_all
qed

text \<open>
  One scan reports the \<open>data\<close> of the first overdue entry (lowest index) and marks it
  dead, so that it is not watched any more, and changes the state of no other entry; it reports
  nothing when no entry is overdue.
\<close>

theorem threaddog_check_spec:
  "case List.find (\<lambda>i. dog_overdue (threaddog_tick now) (thddogs_list s ! i))
        [0..<length (thddogs_list s)] of
     None \<Rightarrow> fst (threaddog_check now s) = None
   | Some i \<Rightarrow> fst (threaddog_check now s) = d_data (thddogs_list s ! i) \<and>
       \<not> dog_watched (thddogs_list (snd (threaddog_check now s)) ! i) \<and>
       d_state (thddogs_list (snd (threaddog_check now s)) ! i) = THD_DOG_S_DIE \<and>
       (\<forall>j. j < length (thddogs_list s) \<and> j \<noteq> i \<longrightarrow>
          d_state (thddogs_list (snd (threaddog_check now s)) ! j) = d_state (thddogs_list s ! j))"
  using check_dogs_spec [of "threaddog_tick now" "thddogs_list s"]
  by (auto simp: threaddog_check_def dog_watched_def split: option.splits prod.splits)

definition demo_dogs :: "nat threaddog" where
  "demo_dogs = \<lparr>thddogs_list = [zero_dog\<lparr>d_use := True, d_over_sec := 100\<rparr>,
     zero_dog\<lparr>d_use := True, d_over_sec := 1, d_data := Some 7\<rparr>], thddogs_cnt = 2\<rparr>"

theorem threaddog_check_spec_witness:
  "fst (threaddog_check 5000 demo_dogs) = Some 7 \<and>
   \<not> dog_watched (thddogs_list (snd (threaddog_check 5000 demo_dogs)) ! 1) \<and>
   d_state (thddogs_list (snd (threaddog_check 5000 demo_dogs)) ! 0) = THD_DOG_S_RUNNING"
proof -
  have "[0..<2] = [0, 1::nat]" by code_simp
  then have "List.find (\<lambda>i. dog_overdue (threaddog_tick 5000) (thddogs_list demo_dogs ! i))
      [0..<length (thddogs_list demo_dogs)] = Some 1"
    by (simp add: demo_dogs_def dog_overdue_def dog_watched_def zero_dog_def sec2tick_small to_long_small
        threaddog_tick_def numeral_2_eq_2)
  then show ?thesis
    using threaddog_check_spec [of 5000 demo_dogs] by (simp add: demo_dogs_def zero_dog_def)
qed

text \<open>
  A thread registered with a timeout of 128 to 255 seconds is reported at once: the
  signed 8 bit field turns the timeout negative, so that the entry is overdue at the very tick of
  its registration (any tick of the first \<open>2 ^ 31\<close> milliseconds), while a timeout of 0 to 127
  seconds is kept and is not overdue at any tick up to its end.
\<close>

theorem threaddog_long_timeout:
  assumes "0 \<le> sec" and "sec < 256" and "0 \<le> t" and "t < 2 ^ 31" and "0 \<le> t'" and "t' < 2 ^ 31"
  shows "if 128 \<le> sec then dog_overdue t (new_dog (t, t) name sec data)
    else dog_overdue t' (new_dog (t, t) name sec data) \<longleftrightarrow>
      sec * 1000 < (if t' < t then t' else t' - t)"
proof -
  have "(0xFF :: int) = mask 8" by (simp add: mask_eq_exp_minus_1)
  then have "sec AND 0xFF = take_bit 8 sec" by (simp only: take_bit_eq_mask)
  also have "\<dots> = sec" using assms by (simp add: take_bit_int_eq_self)
  finally have m: "sec AND 0xFF = sec" .
  have "signed_take_bit 7 sec = (if 128 \<le> sec then sec - 256 else sec)"
  proof -
    have "(sec + 128) mod 256 = (if 128 \<le> sec then sec - 128 else sec + 128)"
    proof (cases "128 \<le> sec")
      case True
      have "sec + 128 = (sec - 128) + 256" by simp
      then have "(sec + 128) mod 256 = ((sec - 128) + 256) mod 256" by (rule arg_cong)
      also have "\<dots> = (sec - 128) mod 256" by (rule mod_add_self2)
      also have "\<dots> = sec - 128" using True assms by (intro mod_pos_pos_trivial) simp_all
      finally show ?thesis using True by simp
    qed (use assms in simp)
    then show ?thesis by (simp add: signed_take_bit_eq_take_bit_shift take_bit_eq_mod)
  qed
  then have ov: "d_over_sec (new_dog (t, t) name sec data) = (if 128 \<le> sec then sec - 256 else sec)"
    by (simp add: new_dog_def sint_sbintrunc' m)
  have lg: "to_long t = t" "to_long t' = t'" "to_long 0 = 0"
    using assms by (simp_all add: to_long_small)
  have w: "dog_watched (new_dog (t, t) name sec data)" "d_tick_feed (new_dog (t, t) name sec data) = t"
    using lg by (simp_all add: dog_watched_def new_dog_def zero_dog_def threaddog_tick_def)
  have "to_long (t' - t) = t' - t" if "t \<le> t'" using that assms by (simp add: to_long_small)
  then show ?thesis
    using assms lg by (auto simp: dog_overdue_def w ov sec2tick_small not_less)
qed

theorem threaddog_long_timeout_witness:
  "dog_overdue 1000 (new_dog (1000, 1000) ''poll'' 200 (None :: bool option)) \<and>
   \<not> dog_overdue 61000 (new_dog (1000, 1000) ''poll'' 60 (None :: bool option))"
  using threaddog_long_timeout [of 200 1000 0 "''poll''" "None :: bool option"]
    threaddog_long_timeout [of 60 1000 61000 "''poll''" "None :: bool option"] by simp

end
