(* ===== verification/Crc.thy ===== *)
theory Crc
  imports Prelude
begin

text \<open>
  The checksums of the gateway: the two table driven CRCs of \<open>das_util.c\<close> and \<open>rtcrc32.c\<close>, the
  CRC-8 of the DM101 protocol, the CCITT CRC of the BJDC protocol and the bit by bit CRC of
  HJ/T 212, each translated as written, with bit by bit reference definitions.  The data of a call
  is the list of the \<open>len\<close> bytes at its pointer.
\<close>

section \<open>The tables\<close>

definition aucCRCHi :: "u8 list" where
  "aucCRCHi = [
    0x00, 0xC1, 0x81, 0x40, 0x01, 0xC0, 0x80, 0x41, 0x01, 0xC0, 0x80, 0x41,
    0x00, 0xC1, 0x81, 0x40, 0x01, 0xC0, 0x80, 0x41, 0x00, 0xC1, 0x81, 0x40,
    0x00, 0xC1, 0x81, 0x40, 0x01, 0xC0, 0x80, 0x41, 0x01, 0xC0, 0x80, 0x41,
    0x00, 0xC1, 0x81, 0x40, 0x00, 0xC1, 0x81, 0x40, 0x01, 0xC0, 0x80, 0x41,
    0x00, 0xC1, 0x81, 0x40, 0x01, 0xC0, 0x80, 0x41, 0x01, 0xC0, 0x80, 0x41,
    0x00, 0xC1, 0x81, 0x40, 0x01, 0xC0, 0x80, 0x41, 0x00, 0xC1, 0x81, 0x40,
    0x00, 0xC1, 0x81, 0x40, 0x01, 0xC0, 0x80, 0x41, 0x00, 0xC1, 0x81, 0x40,
    0x01, 0xC0, 0x80, 0x41, 0x01, 0xC0, 0x80, 0x41, 0x00, 0xC1, 0x81, 0x40,
    0x00, 0xC1, 0x81, 0x40, 0x01, 0xC0, 0x80, 0x41, 0x01, 0xC0, 0x80, 0x41,
    0x00, 0xC1, 0x81, 0x40, 0x01, 0xC0, 0x80, 0x41, 0x00, 0xC1, 0x81, 0x40,
    0x00, 0xC1, 0x81, 0x40, 0x01, 0xC0, 0x80, 0x41, 0x01, 0xC0, 0x80, 0x41,
    0x00, 0xC1, 0x81, 0x40, 0x00, 0xC1, 0x81, 0x40, 0x01, 0xC0, 0x80, 0x41,
    0x00, 0xC1, 0x81, 0x40, 0x01, 0xC0, 0x80, 0x41, 0x01, 0xC0, 0x80, 0x41,
    0x00, 0xC1, 0x81, 0x40, 0x00, 0xC1, 0x81, 0x40, 0x01, 0xC0, 0x80, 0x41,
    0x01, 0xC0, 0x80, 0x41, 0x00, 0xC1, 0x81, 0x40, 0x01, 0xC0, 0x80, 0x41,
    0x00, 0xC1, 0x81, 0x40, 0x00, 0xC1, 0x81, 0x40, 0x01, 0xC0, 0x80, 0x41,
    0x00, 0xC1, 0x81, 0x40, 0x01, 0xC0, 0x80, 0x41, 0x01, 0xC0, 0x80, 0x41,
    0x00, 0xC1, 0x81, 0x40, 0x01, 0xC0, 0x80, 0x41, 0x00, 0xC1, 0x81, 0x40,
    0x00, 0xC1, 0x81, 0x40, 0x01, 0xC0, 0x80, 0x41, 0x01, 0xC0, 0x80, 0x41,
    0x00, 0xC1, 0x81, 0x40, 0x00, 0xC1, 0x81, 0x40, 0x01, 0xC0, 0x80, 0x41,
    0x00, 0xC1, 0x81, 0x40, 0x01, 0xC0, 0x80, 0x41, 0x01, 0xC0, 0x80, 0x41,
    0x00, 0xC1, 0x81, 0x40]"

definition aucCRCLo :: "u8 list" where
  "aucCRCLo = [
    0x00, 0xC0, 0xC1, 0x01, 0xC3, 0x03, 0x02, 0xC2, 0xC6, 0x06, 0x07, 0xC7,
    0x05, 0xC5, 0xC4, 0x04, 0xCC, 0x0C, 0x0D, 0xCD, 0x0F, 0xCF, 0xCE, 0x0E,
    0x0A, 0xCA, 0xCB, 0x0B, 0xC9, 0x09, 0x08, 0xC8, 0xD8, 0x18, 0x19, 0xD9,
    0x1B, 0xDB, 0xDA, 0x1A, 0x1E, 0xDE, 0xDF, 0x1F, 0xDD, 0x1D, 0x1C, 0xDC,
    0x14, 0xD4, 0xD5, 0x15, 0xD7, 0x17, 0x16, 0xD6, 0xD2, 0x12, 0x13, 0xD3,
    0x11, 0xD1, 0xD0, 0x10, 0xF0, 0x30, 0x31, 0xF1, 0x33, 0xF3, 0xF2, 0x32,
    0x36, 0xF6, 0xF7, 0x37, 0xF5, 0x35, 0x34, 0xF4, 0x3C, 0xFC, 0xFD, 0x3D,
    0xFF, 0x3F, 0x3E, 0xFE, 0xFA, 0x3A, 0x3B, 0xFB, 0x39, 0xF9, 0xF8, 0x38,
    0x28, 0xE8, 0xE9, 0x29, 0xEB, 0x2B, 0x2A, 0xEA, 0xEE, 0x2E, 0x2F, 0xEF,
    0x2D, 0xED, 0xEC, 0x2C, 0xE4, 0x24, 0x25, 0xE5, 0x27, 0xE7, 0xE6, 0x26,
    0x22, 0xE2, 0xE3, 0x23, 0xE1, 0x21, 0x20, 0xE0, 0xA0, 0x60, 0x61, 0xA1,
    0x63, 0xA3, 0xA2, 0x62, 0x66, 0xA6, 0xA7, 0x67, 0xA5, 0x65, 0x64, 0xA4,
    0x6C, 0xAC, 0xAD, 0x6D, 0xAF, 0x6F, 0x6E, 0xAE, 0xAA, 0x6A, 0x6B, 0xAB,
    0x69, 0xA9, 0xA8, 0x68, 0x78, 0xB8, 0xB9, 0x79, 0xBB, 0x7B, 0x7A, 0xBA,
    0xBE, 0x7E, 0x7F, 0xBF, 0x7D, 0xBD, 0xBC, 0x7C, 0xB4, 0x74, 0x75, 0xB5,
    0x77, 0xB7, 0xB6, 0x76, 0x72, 0xB2, 0xB3, 0x73, 0xB1, 0x71, 0x70, 0xB0,
    0x50, 0x90, 0x91, 0x51, 0x93, 0x53, 0x52, 0x92, 0x96, 0x56, 0x57, 0x97,
    0x55, 0x95, 0x94, 0x54, 0x9C, 0x5C, 0x5D, 0x9D, 0x5F, 0x9F, 0x9E, 0x5E,
    0x5A, 0x9A, 0x9B, 0x5B, 0x99, 0x59, 0x58, 0x98, 0x88, 0x48, 0x49, 0x89,
    0x4B, 0x8B, 0x8A, 0x4A, 0x4E, 0x8E, 0x8F, 0x4F, 0x8D, 0x4D, 0x4C, 0x8C,
    0x44, 0x84, 0x85, 0x45, 0x87, 0x47, 0x46, 0x86, 0x82, 0x42, 0x43, 0x83,
    0x41, 0x81, 0x80, 0x40]"

definition CRC8_TAB :: "u8 list" where
  "CRC8_TAB = [
    0x00, 0x07, 0x0E, 0x09, 0x1C, 0x1B, 0x12, 0x15, 0x38, 0x3F, 0x36, 0x31, 0x24, 0x23, 0x2A, 0x2D,
    0x70, 0x77, 0x7E, 0x79, 0x6C, 0x6B, 0x62, 0x65, 0x48, 0x4F, 0x46, 0x41, 0x54, 0x53, 0x5A, 0x5D,
    0xE0, 0xE7, 0xEE, 0xE9, 0xFC, 0xFB, 0xF2, 0xF5, 0xD8, 0xDF, 0xD6, 0xD1, 0xC4, 0xC3, 0xCA, 0xCD,
    0x90, 0x97, 0x9E, 0x99, 0x8C, 0x8B, 0x82, 0x85, 0xA8, 0xAF, 0xA6, 0xA1, 0xB4, 0xB3, 0xBA, 0xBD,
    0xC7, 0xC0, 0xC9, 0xCE, 0xDB, 0xDC, 0xD5, 0xD2, 0xFF, 0xF8, 0xF1, 0xF6, 0xE3, 0xE4, 0xED, 0xEA,
    0xB7, 0xB0, 0xB9, 0xBE, 0xAB, 0xAC, 0xA5, 0xA2, 0x8F, 0x88, 0x81, 0x86, 0x93, 0x94, 0x9D, 0x9A,
    0x27, 0x20, 0x29, 0x2E, 0x3B, 0x3C, 0x35, 0x32, 0x1F, 0x18, 0x11, 0x16, 0x03, 0x04, 0x0D, 0x0A,
    0x57, 0x50, 0x59, 0x5E, 0x4B, 0x4C, 0x45, 0x42, 0x6F, 0x68, 0x61, 0x66, 0x73, 0x74, 0x7D, 0x7A,
    0x89, 0x8E, 0x87, 0x80, 0x95, 0x92, 0x9B, 0x9C, 0xB1, 0xB6, 0xBF, 0xB8, 0xAD, 0xAA, 0xA3, 0xA4,
    0xF9, 0xFE, 0xF7, 0xF0, 0xE5, 0xE2, 0xEB, 0xEC, 0xC1, 0xC6, 0xCF, 0xC8, 0xDD, 0xDA, 0xD3, 0xD4,
    0x69, 0x6E, 0x67, 0x60, 0x75, 0x72, 0x7B, 0x7C, 0x51, 0x56, 0x5F, 0x58, 0x4D, 0x4A, 0x43, 0x44,
    0x19, 0x1E, 0x17, 0x10, 0x05, 0x02, 0x0B, 0x0C, 0x21, 0x26, 0x2F, 0x28, 0x3D, 0x3A, 0x33, 0x34,
    0x4E, 0x49, 0x40, 0x47, 0x52, 0x55, 0x5C, 0x5B, 0x76, 0x71, 0x78, 0x7F, 0x6A, 0x6D, 0x64, 0x63,
    0x3E, 0x39, 0x30, 0x37, 0x22, 0x25, 0x2C, 0x2B, 0x06, 0x01, 0x08, 0x0F, 0x1A, 0x1D, 0x14, 0x13,
    0xAE, 0xA9, 0xA0, 0xA7, 0xB2, 0xB5, 0xBC, 0xBB, 0x96, 0x91, 0x98, 0x9F, 0x8A, 0x8D, 0x84, 0x83,
    0xDE, 0xD9, 0xD0, 0xD7, 0xC2, 0xC5, 0xCC, 0xCB, 0xE6, 0xE1, 0xE8, 0xEF, 0xFA, 0xFD, 0xF4, 0xF3]"

definition CRC32_TAB :: "u32 list" where
  "CRC32_TAB = [
    0x00000000, 0x77073096, 0xEE0E612C, 0x990951BA, 0x076DC419,
    0x706AF48F, 0xE963A535, 0x9E6495A3, 0x0EDB8832, 0x79DCB8A4,
    0xE0D5E91E, 0x97D2D988, 0x09B64C2B, 0x7EB17CBD, 0xE7B82D07,
    0x90BF1D91, 0x1DB71064, 0x6AB020F2, 0xF3B97148, 0x84BE41DE,
    0x1ADAD47D, 0x6DDDE4EB, 0xF4D4B551, 0x83D385C7, 0x136C9856,
    0x646BA8C0, 0xFD62F97A, 0x8A65C9EC, 0x14015C4F, 0x63066CD9,
    0xFA0F3D63, 0x8D080DF5, 0x3B6E20C8, 0x4C69105E, 0xD56041E4,
    0xA2677172, 0x3C03E4D1, 0x4B04D447, 0xD20D85FD, 0xA50AB56B,
    0x35B5A8FA, 0x42B2986C, 0xDBBBC9D6, 0xACBCF940, 0x32D86CE3,
    0x45DF5C75, 0xDCD60DCF, 0xABD13D59, 0x26D930AC, 0x51DE003A,
    0xC8D75180, 0xBFD06116, 0x21B4F4B5, 0x56B3C423, 0xCFBA9599,
    0xB8BDA50F, 0x2802B89E, 0x5F058808, 0xC60CD9B2, 0xB10BE924,
    0x2F6F7C87, 0x58684C11, 0xC1611DAB, 0xB6662D3D, 0x76DC4190,
    0x01DB7106, 0x98D220BC, 0xEFD5102A, 0x71B18589, 0x06B6B51F,
    0x9FBFE4A5, 0xE8B8D433, 0x7807C9A2, 0x0F00F934, 0x9609A88E,
    0xE10E9818, 0x7F6A0DBB, 0x086D3D2D, 0x91646C97, 0xE6635C01,
    0x6B6B51F4, 0x1C6C6162, 0x856530D8, 0xF262004E, 0x6C0695ED,
    0x1B01A57B, 0x8208F4C1, 0xF50FC457, 0x65B0D9C6, 0x12B7E950,
    0x8BBEB8EA, 0xFCB9887C, 0x62DD1DDF, 0x15DA2D49, 0x8CD37CF3,
    0xFBD44C65, 0x4DB26158, 0x3AB551CE, 0xA3BC0074, 0xD4BB30E2,
    0x4ADFA541, 0x3DD895D7, 0xA4D1C46D, 0xD3D6F4FB, 0x4369E96A,
    0x346ED9FC, 0xAD678846, 0xDA60B8D0, 0x44042D73, 0x33031DE5,
    0xAA0A4C5F, 0xDD0D7CC9, 0x5005713C, 0x270241AA, 0xBE0B1010,
    0xC90C2086, 0x5768B525, 0x206F85B3, 0xB966D409, 0xCE61E49F,
    0x5EDEF90E, 0x29D9C998, 0xB0D09822, 0xC7D7A8B4, 0x59B33D17,
    0x2EB40D81, 0xB7BD5C3B, 0xC0BA6CAD, 0xEDB88320, 0x9ABFB3B6,
    0x03B6E20C, 0x74B1D29A, 0xEAD54739, 0x9DD277AF, 0x04DB2615,
    0x73DC1683, 0xE3630B12, 0x94643B84, 0x0D6D6A3E, 0x7A6A5AA8,
    0xE40ECF0B, 0x9309FF9D, 0x0A00AE27, 0x7D079EB1, 0xF00F9344,
    0x8708A3D2, 0x1E01F268, 0x6906C2FE, 0xF762575D, 0x806567CB,
    0x196C3671, 0x6E6B06E7, 0xFED41B76, 0x89D32BE0, 0x10DA7A5A,
    0x67DD4ACC, 0xF9B9DF6F, 0x8EBEEFF9, 0x17B7BE43, 0x60B08ED5,
    0xD6D6A3E8, 0xA1D1937E, 0x38D8C2C4, 0x4FDFF252, 0xD1BB67F1,
    0xA6BC5767, 0x3FB506DD, 0x48B2364B, 0xD80D2BDA, 0xAF0A1B4C,
    0x36034AF6, 0x41047A60, 0xDF60EFC3, 0xA867DF55, 0x316E8EEF,
    0x4669BE79, 0xCB61B38C, 0xBC66831A, 0x256FD2A0, 0x5268E236,
    0xCC0C7795, 0xBB0B4703, 0x220216B9, 0x5505262F, 0xC5BA3BBE,
    0xB2BD0B28, 0x2BB45A92, 0x5CB36A04, 0xC2D7FFA7, 0xB5D0CF31,
    0x2CD99E8B, 0x5BDEAE1D, 0x9B64C2B0, 0xEC63F226, 0x756AA39C,
    0x026D930A, 0x9C0906A9, 0xEB0E363F, 0x72076785, 0x05005713,
    0x95BF4A82, 0xE2B87A14, 0x7BB12BAE, 0x0CB61B38, 0x92D28E9B,
    0xE5D5BE0D, 0x7CDCEFB7, 0x0BDBDF21, 0x86D3D2D4, 0xF1D4E242,
    0x68DDB3F8, 0x1FDA836E, 0x81BE16CD, 0xF6B9265B, 0x6FB077E1,
    0x18B74777, 0x88085AE6, 0xFF0F6A70, 0x66063BCA, 0x11010B5C,
    0x8F659EFF, 0xF862AE69, 0x616BFFD3, 0x166CCF45, 0xA00AE278,
    0xD70DD2EE, 0x4E048354, 0x3903B3C2, 0xA7672661, 0xD06016F7,
    0x4969474D, 0x3E6E77DB, 0xAED16A4A, 0xD9D65ADC, 0x40DF0B66,
    0x37D83BF0, 0xA9BCAE53, 0xDEBB9EC5, 0x47B2CF7F, 0x30B5FFE9,
    0xBDBDF21C, 0xCABAC28A, 0x53B39330, 0x24B4A3A6, 0xBAD03605,
    0xCDD70693, 0x54DE5729, 0x23D967BF, 0xB3667A2E, 0xC4614AB8,
    0x5D681B02, 0x2A6F2B94, 0xB40BBE37, 0xC30C8EA1, 0x5A05DF1B,
    0x2D02EF8D]"

definition CC_Table :: "u16 list" where
  "CC_Table = [
    0x0000, 0x1021, 0x2042, 0x3063, 0x4084, 0x50A5, 0x60C6, 0x70E7, 0x8108, 0x9129, 0xA14A, 0xB16B, 0xC18C, 0xD1AD, 0xE1CE, 0xF1EF,
    0x1231, 0x0210, 0x3273, 0x2252, 0x52B5, 0x4294, 0x72F7, 0x62D6, 0x9339, 0x8318, 0xB37B, 0xA35A, 0xD3BD, 0xC39C, 0xF3FF, 0xE3DE,
    0x2462, 0x3443, 0x0420, 0x1401, 0x64E6, 0x74C7, 0x44A4, 0x5485, 0xA56A, 0xB54B, 0x8528, 0x9509, 0xE5EE, 0xF5CF, 0xC5AC, 0xD58D,
    0x3653, 0x2672, 0x1611, 0x0630, 0x76D7, 0x66F6, 0x5695, 0x46B4, 0xB75B, 0xA77A, 0x9719, 0x8738, 0xF7DF, 0xE7FE, 0xD79D, 0xC7BC,
    0x48C4, 0x58E5, 0x6886, 0x78A7, 0x0840, 0x1861, 0x2802, 0x3823, 0xC9CC, 0xD9ED, 0xE98E, 0xF9AF, 0x8948, 0x9969, 0xA90A, 0xB92B,
    0x5AF5, 0x4AD4, 0x7AB7, 0x6A96, 0x1A71, 0x0A50, 0x3A33, 0x2A12, 0xDBFD, 0xCBDC, 0xFBBF, 0xEB9E, 0x9B79, 0x8B58, 0xBB3B, 0xAB1A,
    0x6CA6, 0x7C87, 0x4CE4, 0x5CC5, 0x2C22, 0x3C03, 0x0C60, 0x1C41, 0xEDAE, 0xFD8F, 0xCDEC, 0xDDCD, 0xAD2A, 0xBD0B, 0x8D68, 0x9D49,
    0x7E97, 0x6EB6, 0x5ED5, 0x4EF4, 0x3E13, 0x2E32, 0x1E51, 0x0E70, 0xFF9F, 0xEFBE, 0xDFDD, 0xCFFC, 0xBF1B, 0xAF3A, 0x9F59, 0x8F78,
    0x9188, 0x81A9, 0xB1CA, 0xA1EB, 0xD10C, 0xC12D, 0xF14E, 0xE16F, 0x1080, 0x00A1, 0x30C2, 0x20E3, 0x5004, 0x4025, 0x7046, 0x6067,
    0x83B9, 0x9398, 0xA3FB, 0xB3DA, 0xC33D, 0xD31C, 0xE37F, 0xF35E, 0x02B1, 0x1290, 0x22F3, 0x32D2, 0x4235, 0x5214, 0x6277, 0x7256,
    0xB5EA, 0xA5CB, 0x95A8, 0x8589, 0xF56E, 0xE54F, 0xD52C, 0xC50D, 0x34E2, 0x24C3, 0x14A0, 0x0481, 0x7466, 0x6447, 0x5424, 0x4405,
    0xA7DB, 0xB7FA, 0x8799, 0x97B8, 0xE75F, 0xF77E, 0xC71D, 0xD73C, 0x26D3, 0x36F2, 0x0691, 0x16B0, 0x6657, 0x7676, 0x4615, 0x5634,
    0xD94C, 0xC96D, 0xF90E, 0xE92F, 0x99C8, 0x89E9, 0xB98A, 0xA9AB, 0x5844, 0x4865, 0x7806, 0x6827, 0x18C0, 0x08E1, 0x3882, 0x28A3,
    0xCB7D, 0xDB5C, 0xEB3F, 0xFB1E, 0x8BF9, 0x9BD8, 0xABBB, 0xBB9A, 0x4A75, 0x5A54, 0x6A37, 0x7A16, 0x0AF1, 0x1AD0, 0x2AB3, 0x3A92,
    0xFD2E, 0xED0F, 0xDD6C, 0xCD4D, 0xBDAA, 0xAD8B, 0x9DE8, 0x8DC9, 0x7C26, 0x6C07, 0x5C64, 0x4C45, 0x3CA2, 0x2C83, 0x1CE0, 0x0CC1,
    0xEF1F, 0xFF3E, 0xCF5D, 0xDF7C, 0xAF9B, 0xBFBA, 0x8FD9, 0x9FF8, 0x6E17, 0x7E36, 0x4E55, 0x5E74, 0x2E93, 0x3EB2, 0x0ED1, 0x1EF0]"

section \<open>The routines\<close>

text \<open>\<open>das_crc16\<close>: the two halves of the register are separate bytes.\<close>

definition das_crc16_step :: "u8 \<Rightarrow> u8 \<times> u8 \<Rightarrow> u8 \<times> u8" where
  "das_crc16_step b r =
     (case r of (ucCRCHi, ucCRCLo) \<Rightarrow>
        let index = unat (ucCRCLo XOR b)
        in (aucCRCLo ! index, ucCRCHi XOR aucCRCHi ! index))"

definition das_crc16 :: "bytes \<Rightarrow> u16" where
  "das_crc16 data =
     (case fold das_crc16_step data (0xFF, 0xFF) of (ucCRCHi, ucCRCLo) \<Rightarrow>
        push_bit 8 (ucast ucCRCHi) OR ucast ucCRCLo)"

definition dm_crc8 :: "u8 \<Rightarrow> bytes \<Rightarrow> u8" where
  "dm_crc8 crc data = fold (\<lambda>b c. CRC8_TAB ! unat (c XOR b)) data crc"

definition ulRTCrc32 :: "u32 \<Rightarrow> bytes \<Rightarrow> u32" where
  "ulRTCrc32 ulCrc data =
     NOT (fold (\<lambda>b c. CRC32_TAB ! unat ((c XOR ucast b) AND 0xFF) XOR drop_bit 8 c) data (NOT ulCrc))"

definition dm_crc32 :: "u32 \<Rightarrow> bytes \<Rightarrow> u32" where
  "dm_crc32 crc data = ulRTCrc32 crc data"

definition CC_GetCrc16 :: "bytes \<Rightarrow> u16" where
  "CC_GetCrc16 data =
     fold (\<lambda>b crc.
       let by = drop_bit 8 crc AND 0xFF;
           crc1 = push_bit 8 (crc AND 0xFFFF)
       in (crc1 XOR CC_Table ! unat ((ucast b XOR by) AND 0xFF)) AND 0xFFFF) data 0"

text \<open>
  \<open>hjt212_GetCrc16\<close>: the inner loop runs eight times; the next byte is mixed with the high byte of
  the register, whose low byte is dropped.
\<close>

definition hjt212_shift :: "u16 \<Rightarrow> u16" where
  "hjt212_shift lwrdCrc =
     (let lwrdMoveOut = lwrdCrc AND 0x0001;
          c = drop_bit 1 lwrdCrc
      in if lwrdMoveOut = 1 then c XOR 0xA001 else c)"

definition hjt212_GetCrc16 :: "bytes \<Rightarrow> u16" where
  "hjt212_GetCrc16 data =
     fold (\<lambda>b lwrdCrc.
       let x = (ucast (drop_bit 8 lwrdCrc) :: u8)
       in (hjt212_shift ^^ 8) (ucast b XOR ucast x)) data 0xFFFF"

section \<open>Reference definitions\<close>

text \<open>
  One bit of a CRC with generator \<open>p\<close>: reflected (least significant bit first) and forward (most
  significant bit first).
\<close>

definition crc_bit_r :: "'a::len word \<Rightarrow> 'a word \<Rightarrow> 'a word" where
  "crc_bit_r p c = (if bit c 0 then drop_bit 1 c XOR p else drop_bit 1 c)"

definition crc_bit_f :: "'a::len word \<Rightarrow> 'a word \<Rightarrow> 'a word" where
  "crc_bit_f p c = (if bit c (LENGTH('a) - 1) then push_bit 1 c XOR p else push_bit 1 c)"

definition crc_byte_r :: "'a::len word \<Rightarrow> u8 \<Rightarrow> 'a word \<Rightarrow> 'a word" where
  "crc_byte_r p b c = (crc_bit_r p ^^ 8) (c XOR ucast b)"

definition crc_byte_f :: "'a::len word \<Rightarrow> u8 \<Rightarrow> 'a word \<Rightarrow> 'a word" where
  "crc_byte_f p b c = (crc_bit_f p ^^ 8) (c XOR push_bit (LENGTH('a) - 8) (ucast b))"

subsection \<open>The references are linear\<close>

lemma crc_bit_r_xor: "crc_bit_r p (a XOR b) = crc_bit_r p a XOR crc_bit_r p b"
  by (rule bit_eqI) (auto simp: crc_bit_r_def bit_simps)

lemma crc_bit_f_xor: "crc_bit_f p (a XOR b) = crc_bit_f p a XOR crc_bit_f p b"
  by (rule bit_eqI) (auto simp: crc_bit_f_def bit_simps)

lemma crc_bits_r_xor: "(crc_bit_r p ^^ n) (a XOR b) = (crc_bit_r p ^^ n) a XOR (crc_bit_r p ^^ n) b"
  by (induction n) (simp_all add: crc_bit_r_xor)

lemma crc_bits_f_xor: "(crc_bit_f p ^^ n) (a XOR b) = (crc_bit_f p ^^ n) a XOR (crc_bit_f p ^^ n) b"
  by (induction n) (simp_all add: crc_bit_f_xor)

text \<open>Bits that have not reached the end are only shifted.\<close>

lemma take_bit_0_iff: "take_bit n (c :: 'a::len word) = 0 \<longleftrightarrow> (\<forall>i < n. \<not> bit c i)"
  by (auto simp: bit_eq_iff bit_simps) (metis bit_imp_le_length not_le)

lemma drop_bit_0_iff: "drop_bit n (c :: 'a::len word) = 0 \<longleftrightarrow> (\<forall>i \<ge> n. \<not> bit c i)"
proof
  assume z: "drop_bit n c = 0"
  have "bit c i = bit (drop_bit n c) (i - n)" if "n \<le> i" for i using that by (simp add: bit_drop_bit_eq)
  with z show "\<forall>i \<ge> n. \<not> bit c i" by simp
next
  assume "\<forall>i \<ge> n. \<not> bit c i"
  then have "\<not> bit (drop_bit n c) k" for k by (simp add: bit_drop_bit_eq)
  then show "drop_bit n c = 0" by (simp add: bit_eq_iff)
qed

lemma crc_bits_r_high: "take_bit n c = 0 \<Longrightarrow> (crc_bit_r p ^^ n) c = drop_bit n c"
proof (induction n arbitrary: c)
  case (Suc n)
  then have "\<not> bit c 0" "take_bit n (drop_bit 1 c) = 0"
    by (simp_all add: take_bit_0_iff bit_simps)
  moreover from this(2) have "(crc_bit_r p ^^ n) (drop_bit 1 c) = drop_bit n (drop_bit 1 c)"
    by (rule Suc.IH)
  moreover have "crc_bit_r p c = drop_bit 1 c" using calculation(1) by (simp add: crc_bit_r_def)
  ultimately show ?case by (simp add: funpow_Suc_right del: funpow.simps(2))
qed simp

lemma crc_bits_f_low: "drop_bit (LENGTH('a) - n) c = 0 \<Longrightarrow> n \<le> LENGTH('a) \<Longrightarrow>
  (crc_bit_f p ^^ n) c = push_bit n (c :: 'a::len word)"
proof (induction n arbitrary: c)
  case (Suc n)
  then have z: "\<forall>i \<ge> LENGTH('a) - Suc n. \<not> bit c i" by (simp add: drop_bit_0_iff)
  then have "\<not> bit c (LENGTH('a) - 1)" by simp
  moreover have "drop_bit (LENGTH('a) - n) (push_bit 1 c) = 0"
  proof -
    have "\<not> bit (push_bit 1 c) i" if "LENGTH('a) - n \<le> i" for i
      using z that unfolding bit_push_bit_iff by auto
    then show ?thesis unfolding drop_bit_0_iff by blast
  qed
  then have "(crc_bit_f p ^^ n) (push_bit 1 c) = push_bit n (push_bit 1 c)"
    using Suc.prems by (intro Suc.IH) simp_all
  moreover have "crc_bit_f p c = push_bit 1 c" using calculation(1) by (simp add: crc_bit_f_def)
  ultimately show ?case by (simp add: funpow_Suc_right del: funpow.simps(2))
qed simp

lemma crc_bits_r_split:
  "(crc_bit_r p ^^ 8) c = (crc_bit_r p ^^ 8) (take_bit 8 c) XOR drop_bit 8 c"
proof -
  define h where "h = push_bit 8 (drop_bit 8 c)"
  have "c = take_bit 8 c XOR h" by (rule bit_eqI) (auto simp: h_def bit_simps)
  then have "(crc_bit_r p ^^ 8) c = (crc_bit_r p ^^ 8) (take_bit 8 c) XOR (crc_bit_r p ^^ 8) h"
    by (metis crc_bits_r_xor)
  also have "(crc_bit_r p ^^ 8) h = drop_bit 8 h"
    by (rule crc_bits_r_high) (simp add: h_def take_bit_0_iff bit_simps)
  also have "drop_bit 8 h = drop_bit 8 c"
    by (rule bit_eqI) (auto simp: h_def bit_simps dest: bit_imp_le_length)
  finally show ?thesis .
qed

lemma crc_bits_f_split:
  fixes c :: "'a::len word"
  assumes w: "8 \<le> LENGTH('a)"
  shows "(crc_bit_f p ^^ 8) c =
    (crc_bit_f p ^^ 8) (push_bit (LENGTH('a) - 8) (drop_bit (LENGTH('a) - 8) c)) XOR push_bit 8 c"
proof -
  define l where "l = take_bit (LENGTH('a) - 8) c"
  have "c = push_bit (LENGTH('a) - 8) (drop_bit (LENGTH('a) - 8) c) XOR l"
    by (rule bit_eqI) (auto simp: l_def bit_simps)
  then have "(crc_bit_f p ^^ 8) c =
      (crc_bit_f p ^^ 8) (push_bit (LENGTH('a) - 8) (drop_bit (LENGTH('a) - 8) c)) XOR (crc_bit_f p ^^ 8) l"
    by (metis crc_bits_f_xor)
  also have "(crc_bit_f p ^^ 8) l = push_bit 8 l"
    by (rule crc_bits_f_low) (use w in \<open>auto simp: l_def drop_bit_0_iff bit_simps\<close>)
  also have "push_bit 8 l = push_bit 8 c"
    by (rule bit_eqI) (auto simp: l_def bit_simps)
  finally show ?thesis .
qed

section \<open>The tables are tables of the references\<close>

text \<open>All sums of a list of generators, in binary counting order.\<close>

definition xor_span :: "'a::len word list \<Rightarrow> 'a word list" where
  "xor_span bs = fold (\<lambda>b ts. ts @ map (\<lambda>t. b XOR t) ts) bs [0]"

lemma xor_span_snoc: "xor_span (bs @ [b]) = xor_span bs @ map (\<lambda>t. b XOR t) (xor_span bs)"
  by (simp add: xor_span_def)

lemma of_nat_xor_pow: "j < 2 ^ n \<Longrightarrow> (of_nat (2 ^ n + j) :: 'a::len word) = 2 ^ n XOR of_nat j"
proof -
  assume j: "j < 2 ^ n"
  have "(2::nat) ^ n AND j = 0"
  proof (rule bit_eqI)
    have "\<not> bit j n" using j by (metis bit_take_bit_iff less_irrefl take_bit_nat_eq_self)
    then show "bit ((2::nat) ^ n AND j) i = bit 0 i" for i by (auto simp: bit_and_iff bit_exp_iff)
  qed
  then have "2 ^ n + j = (2::nat) ^ n XOR j"
    by (simp add: disjunctive_xor_eq_or disjunctive_add_eq_or)
  then show ?thesis by (simp only: of_nat_xor_eq of_nat_power of_nat_numeral)
qed

lemma linear_table:
  fixes f :: "'a::len word \<Rightarrow> 'b::len word"
  assumes lin: "\<And>a b. f (a XOR b) = f a XOR f b"
  shows "xor_span (map (\<lambda>k. f (2 ^ k)) [0..<n]) = map (\<lambda>i. f (of_nat i)) [0..<2 ^ n]"
proof (induction n)
  case 0
  have "f 0 = f 0 XOR f 0" using lin [of 0 0] by simp
  then show ?case by (simp add: xor_span_def)
next
  case (Suc n)
  have "[0..<2 ^ Suc n] = [0..<2 ^ n] @ map (\<lambda>j. 2 ^ n + j) [0..<2 ^ n]"
    by (simp add: map_add_upt [symmetric] upt_add_eq_append [of 0] mult_2 add.commute)
  then show ?case
    by (simp add: xor_span_snoc Suc.IH of_nat_xor_pow lin del: of_nat_add)
qed

lemma nth_linear_table:
  fixes f :: "'a::len word \<Rightarrow> 'b::len word"
  assumes lin: "\<And>a b. f (a XOR b) = f a XOR f b" and t: "t = xor_span bs"
    and bs: "bs = map (\<lambda>k. f (2 ^ k)) [0..<8]" and i: "i < 256"
  shows "t ! i = f (of_nat i)"
  using linear_table [of f 8, OF lin] i unfolding t bs by simp

lemma upt8: "[0..<8] = [0, 1, 2, 3, 4, 5, 6, 7]"
  by code_simp

lemma funpow_8: "(f ^^ 8) x = f (f (f (f (f (f (f (f x)))))))"
  by (simp add: eval_nat_numeral)

lemma CRC32_TAB_span: "CRC32_TAB = xor_span [0x77073096, 0xEE0E612C, 0x76DC419, 0xEDB8832, 0x1DB71064, 0x3B6E20C8, 0x76DC4190, 0xEDB88320]"
  by (simp add: CRC32_TAB_def xor_span_def)

lemma CRC32_TAB_nth: "i < 256 \<Longrightarrow> CRC32_TAB ! i = (crc_bit_r 0xEDB88320 ^^ 8) (of_nat i)"
  by (rule nth_linear_table [OF crc_bits_r_xor CRC32_TAB_span])
     (simp_all add: upt8 funpow_8 crc_bit_r_def)

lemma CRC8_TAB_span: "CRC8_TAB = xor_span [0x7, 0xE, 0x1C, 0x38, 0x70, 0xE0, 0xC7, 0x89]"
  by (simp add: CRC8_TAB_def xor_span_def)

lemma CRC8_TAB_nth: "i < 256 \<Longrightarrow> CRC8_TAB ! i = (crc_bit_f 7 ^^ 8) (of_nat i)"
  by (rule nth_linear_table [OF crc_bits_f_xor CRC8_TAB_span])
     (simp_all add: upt8 funpow_8 crc_bit_f_def)

lemma CC_Table_span: "CC_Table = xor_span [0x1021, 0x2042, 0x4084, 0x8108, 0x1231, 0x2462, 0x48C4, 0x9188]"
  by (simp add: CC_Table_def xor_span_def)

lemma CC_Table_nth: "i < 256 \<Longrightarrow> CC_Table ! i = (crc_bit_f 0x1021 ^^ 8) (push_bit 8 (of_nat i))"
  by (rule nth_linear_table [OF _ CC_Table_span, of "\<lambda>c. (crc_bit_f 0x1021 ^^ 8) (push_bit 8 c)"])
     (simp_all add: push_bit_xor crc_bits_f_xor upt8 funpow_8 crc_bit_f_def)

lemma aucCRCHi_span: "aucCRCHi = xor_span [0xC1, 0x81, 0x1, 0x1, 0x1, 0x1, 0x1, 0x1]"
  by (simp add: aucCRCHi_def xor_span_def)

lemma aucCRCLo_span: "aucCRCLo = xor_span [0xC0, 0xC1, 0xC3, 0xC6, 0xCC, 0xD8, 0xF0, 0xA0]"
  by (simp add: aucCRCLo_def xor_span_def)

lemma and_FF: "(w :: 'a::len word) AND 0xFF = take_bit 8 w"
proof -
  have "(0xFF :: 'a word) = mask 8" by (simp add: mask_eq_exp_minus_1)
  then show ?thesis by (simp only: take_bit_eq_mask)
qed

lemma unat_take_bit_8: "unat (take_bit 8 (w :: 'a::len word)) < 256"
proof -
  have "unat (take_bit 8 w) = take_bit 8 (unat w)" by (simp add: unsigned_take_bit_eq)
  also have "\<dots> < 2 ^ 8" by (rule take_bit_nat_less_exp)
  finally show ?thesis by simp
qed

lemma word_of_unat: "(of_nat (unat w) :: 'a::len word) = w"
  by simp

lemma drop_8_byte: "drop_bit 8 (ucast (b :: u8) :: 'a::len word) = 0"
  by (rule bit_eqI) (auto simp: bit_simps dest: bit_imp_le_length)

lemma CRC32_step:
  "CRC32_TAB ! unat ((c XOR ucast b) AND 0xFF) XOR drop_bit 8 c = crc_byte_r 0xEDB88320 b c"
proof -
  have "CRC32_TAB ! unat (take_bit 8 (c XOR ucast b)) =
      (crc_bit_r 0xEDB88320 ^^ 8) (take_bit 8 (c XOR ucast b))"
    using CRC32_TAB_nth [OF unat_take_bit_8 [of "c XOR ucast b"]] by (simp only: word_of_unat)
  moreover have "drop_bit 8 (c XOR ucast b) = drop_bit 8 c" by (simp add: drop_8_byte)
  ultimately show ?thesis
    using crc_bits_r_split [where p = "0xEDB88320 :: u32" and c = "c XOR ucast b"] by (simp only: and_FF crc_byte_r_def)
qed

lemma ulRTCrc32_eq: "ulRTCrc32 crc data = NOT (fold (crc_byte_r 0xEDB88320) data (NOT crc))"
  by (simp add: ulRTCrc32_def CRC32_step)

lemma CRC8_step: "CRC8_TAB ! unat (c XOR b) = crc_byte_f 7 b c"
proof -
  have "unat (c XOR b) < 256" using unsigned_less [of "c XOR b"] by simp
  then show ?thesis by (simp add: CRC8_TAB_nth crc_byte_f_def)
qed

lemma dm_crc8_eq: "dm_crc8 crc data = fold (crc_byte_f 7) data crc"
  by (simp add: dm_crc8_def CRC8_step)

lemma CC_step:
  "(push_bit 8 (crc AND 0xFFFF) XOR CC_Table ! unat ((ucast b XOR (drop_bit 8 crc AND 0xFF)) AND 0xFF))
     AND 0xFFFF = crc_byte_f 0x1021 b crc"
proof -
  have m: "w AND 0xFFFF = w" for w :: u16
  proof -
    have "(0xFFFF :: u16) = mask 16" by (simp add: mask_eq_exp_minus_1)
    then show ?thesis by (simp only: take_bit_eq_mask [symmetric]) (simp add: take_bit_word_eq_self)
  qed
  define x where "x = ucast b XOR drop_bit 8 crc"
  have top: "(ucast b XOR (drop_bit 8 crc AND 0xFF)) AND 0xFF = x" and lt: "take_bit 8 x = x"
    by (rule bit_eqI; auto simp: x_def and_FF bit_simps dest: bit_imp_le_length)+
  have "unat x < 256" using unat_take_bit_8 [of x] by (simp only: lt)
  then have "CC_Table ! unat x = (crc_bit_f 0x1021 ^^ 8) (push_bit 8 x)" by (simp add: CC_Table_nth)
  moreover have "push_bit 8 (drop_bit 8 (crc XOR push_bit 8 (ucast b))) = push_bit 8 x"
    by (rule bit_eqI) (auto simp: x_def bit_simps)
  moreover have "push_bit 8 (crc XOR push_bit 8 (ucast b)) = push_bit 8 crc"
    by (rule bit_eqI) (auto simp: bit_simps dest: bit_imp_le_length)
  ultimately show ?thesis
    using crc_bits_f_split [where p = "0x1021 :: u16" and c = "crc XOR push_bit 8 (ucast b)"]
    unfolding m top crc_byte_f_def by (simp add: xor.commute)
qed

lemma CC_GetCrc16_eq: "CC_GetCrc16 data = fold (crc_byte_f 0x1021) data 0"
  unfolding CC_GetCrc16_def Let_def CC_step ..

text \<open>The two byte tables of \<open>das_crc16\<close> hold the halves of a reflected 16 bit table.\<close>

lemma aucCRCHi_nth: "i < 256 \<Longrightarrow> aucCRCHi ! i = ucast ((crc_bit_r (0xA001 :: u16) ^^ 8) (of_nat i))"
  by (rule nth_linear_table [OF _ aucCRCHi_span,
        of "\<lambda>c. ucast ((crc_bit_r (0xA001 :: u16) ^^ 8) c)"])
     (simp_all add: crc_bits_r_xor unsigned_xor_eq upt8 funpow_8 crc_bit_r_def)

lemma aucCRCLo_nth:
  "i < 256 \<Longrightarrow> aucCRCLo ! i = ucast (drop_bit 8 ((crc_bit_r (0xA001 :: u16) ^^ 8) (of_nat i)))"
  by (rule nth_linear_table [OF _ aucCRCLo_span,
        of "\<lambda>c. ucast (drop_bit 8 ((crc_bit_r (0xA001 :: u16) ^^ 8) c))"])
     (simp_all add: crc_bits_r_xor unsigned_xor_eq upt8 funpow_8 crc_bit_r_def)

definition crc16_reg :: "u8 \<times> u8 \<Rightarrow> u16" where
  "crc16_reg r = push_bit 8 (ucast (fst r)) OR ucast (snd r)"

lemma das_crc16_step_eq: "crc16_reg (das_crc16_step b r) = crc_byte_r 0xA001 b (crc16_reg r)"
proof -
  obtain hi lo where r: "r = (hi, lo)" by fastforce
  define x X where "x = take_bit 8 (crc16_reg r XOR ucast b)" and "X = (crc_bit_r (0xA001 :: u16) ^^ 8) x"
  have x: "x = ucast (lo XOR b)"
    by (rule bit_eqI) (auto simp: x_def r crc16_reg_def bit_simps dest: bit_imp_le_length)
  have up: "unat (ucast y :: u16) = unat y" for y :: u8
    using unsigned_less [of y, where 'a = nat] by (simp add: unsigned_ucast_eq take_bit_nat_eq_self)
  have ux: "unat (lo XOR b) = unat x" by (simp only: x up)
  have lt: "unat x < 256" unfolding x_def by (rule unat_take_bit_8)
  have tabs: "aucCRCHi ! unat x = ucast X" "aucCRCLo ! unat x = ucast (drop_bit 8 X)"
    using lt by (simp_all add: aucCRCHi_nth aucCRCLo_nth X_def)
  have "drop_bit 8 (crc16_reg r XOR ucast b) = ucast hi"
    by (rule bit_eqI) (auto simp: r crc16_reg_def bit_simps dest: bit_imp_le_length)
  then have "crc_byte_r 0xA001 b (crc16_reg r) = X XOR ucast hi"
    using crc_bits_r_split [where p = "0xA001 :: u16" and c = "crc16_reg r XOR ucast b"] by (simp add: crc_byte_r_def X_def x_def)
  also have "\<dots> = crc16_reg (das_crc16_step b r)"
    by (rule bit_eqI) (auto simp: r das_crc16_step_def Let_def ux tabs crc16_reg_def bit_simps
        dest: bit_imp_le_length)
  finally show ?thesis by simp
qed

lemma das_crc16_eq: "das_crc16 data = fold (crc_byte_r 0xA001) data 0xFFFF"
proof -
  have "crc16_reg (fold das_crc16_step data r) = fold (crc_byte_r 0xA001) data (crc16_reg r)" for r
    by (induction data arbitrary: r) (simp_all add: das_crc16_step_eq)
  from this [of "(0xFF, 0xFF)"] show ?thesis by (simp add: das_crc16_def crc16_reg_def split_def)
qed

section \<open>What the references detect\<close>

lemma xor_linear_inj:
  fixes f :: "'a::len word \<Rightarrow> 'b::len word"
  assumes lin: "\<And>a b. f (a XOR b) = f a XOR f b" and ker: "\<And>c. f c = 0 \<Longrightarrow> c = 0"
  shows "f a = f b \<longleftrightarrow> a = b"
proof
  assume "f a = f b"
  then have "f (a XOR b) = 0" by (simp add: lin)
  then have "a XOR b = 0" by (rule ker)
  then show "a = b" by (metis xor.assoc xor.left_neutral xor.right_neutral xor_self_eq)
qed simp

lemma xor_cancel:
  fixes a b c :: "'a::len word"
  shows "a XOR c = b XOR c \<longleftrightarrow> a = b" and "c XOR a = c XOR b \<longleftrightarrow> a = b"
  by (metis xor.assoc xor.right_neutral xor_self_eq, metis xor.assoc xor.left_neutral xor_self_eq)

lemma crc_bits_r_0: "bit (p :: 'a::len word) (LENGTH('a) - 1) \<Longrightarrow> (crc_bit_r p ^^ n) c = 0 \<Longrightarrow> c = 0"
proof (induction n arbitrary: c)
  case (Suc n)
  then have z: "crc_bit_r p c = 0" by (simp add: funpow_Suc_right del: funpow.simps(2))
  have "\<not> bit (drop_bit 1 c) (LENGTH('a) - 1)" by (auto simp: bit_drop_bit_eq dest: bit_imp_le_length)
  with Suc.prems(1) have "bit (drop_bit 1 c XOR p) (LENGTH('a) - 1)" by (simp add: bit_xor_iff)
  then have "drop_bit 1 c XOR p \<noteq> 0" by auto
  with z have b: "\<not> bit c 0" "drop_bit 1 c = 0" by (auto simp: crc_bit_r_def split: if_splits)
  show "c = 0"
  proof (rule bit_eqI)
    fix i
    show "bit c i = bit 0 i"
      using b drop_bit_0_iff [of 1 c] by (cases i) auto
  qed
qed simp

lemma crc_bits_f_0: "bit (p :: 'a::len word) 0 \<Longrightarrow> (crc_bit_f p ^^ n) c = 0 \<Longrightarrow> c = 0"
proof (induction n arbitrary: c)
  case (Suc n)
  then have z: "crc_bit_f p c = 0" by (simp add: funpow_Suc_right del: funpow.simps(2))
  have "\<not> bit (push_bit 1 c) 0" unfolding bit_push_bit_iff by simp
  with Suc.prems(1) have "bit (push_bit 1 c XOR p) 0" by (simp add: bit_xor_iff)
  then have "push_bit 1 c XOR p \<noteq> 0" by auto
  with z have b: "\<not> bit c (LENGTH('a) - 1)" "push_bit 1 c = 0"
    by (auto simp: crc_bit_f_def split: if_splits)
  show "c = 0"
  proof (rule bit_eqI)
    fix i
    have "\<not> bit (push_bit 1 c) (Suc i)" unfolding b(2) by simp
    then have "\<not> bit c i \<or> LENGTH('a) \<le> Suc i" unfolding bit_push_bit_iff by auto
    moreover have "\<not> bit c i" if "LENGTH('a) \<le> Suc i"
    proof (cases "LENGTH('a) = Suc i")
      case True
      with b(1) show ?thesis by simp
    next
      case False
      with that have "LENGTH('a) \<le> i" by simp
      then show ?thesis using bit_imp_le_length [of c i] by auto
    qed
    ultimately show "bit c i = bit 0 i" by auto
  qed
qed simp

lemma byte_inj:
  assumes w: "8 \<le> LENGTH('a)"
  shows "(ucast (x :: u8) :: 'a::len word) = ucast y \<longleftrightarrow> x = y"
proof
  assume e: "(ucast x :: 'a word) = ucast y"
  show "x = y"
  proof (rule bit_eqI)
    fix i
    assume "possible_bit TYPE(u8) i"
    then have "i < LENGTH('a)" using w by simp
    moreover have "bit (ucast x :: 'a word) i = bit (ucast y :: 'a word) i" by (simp only: e)
    ultimately show "bit x i = bit y i" by (simp add: bit_simps)
  qed
qed simp

lemma crc_byte_r_inj:
  fixes p :: "'a::len word"
  assumes p: "bit p (LENGTH('a) - 1)" and w: "8 \<le> LENGTH('a)"
  shows "crc_byte_r p b c = crc_byte_r p b c' \<longleftrightarrow> c = c'"
    and "crc_byte_r p x c = crc_byte_r p y c \<longleftrightarrow> x = y"
proof -
  have "(crc_bit_r p ^^ 8) u = (crc_bit_r p ^^ 8) v \<longleftrightarrow> u = v" for u v
    using crc_bits_r_0 [OF p] by (intro xor_linear_inj) (auto simp: crc_bits_r_xor)
  then show "crc_byte_r p b c = crc_byte_r p b c' \<longleftrightarrow> c = c'"
    and "crc_byte_r p x c = crc_byte_r p y c \<longleftrightarrow> x = y"
    using byte_inj [OF w, of x y] by (auto simp: crc_byte_r_def xor_cancel)
qed

lemma crc_byte_f_inj:
  fixes p :: "'a::len word"
  assumes p: "bit p 0" and w: "8 \<le> LENGTH('a)"
  shows "crc_byte_f p b c = crc_byte_f p b c' \<longleftrightarrow> c = c'"
    and "crc_byte_f p x c = crc_byte_f p y c \<longleftrightarrow> x = y"
proof -
  have inj: "(crc_bit_f p ^^ 8) u = (crc_bit_f p ^^ 8) v \<longleftrightarrow> u = v" for u v
    using crc_bits_f_0 [OF p] by (intro xor_linear_inj) (auto simp: crc_bits_f_xor)
  then show "crc_byte_f p b c = crc_byte_f p b c' \<longleftrightarrow> c = c'"
    by (simp add: crc_byte_f_def xor_cancel)
  have "push_bit (LENGTH('a) - 8) (ucast x :: 'a word) = push_bit (LENGTH('a) - 8) (ucast y) \<longleftrightarrow> x = y"
  proof
    assume e: "push_bit (LENGTH('a) - 8) (ucast x :: 'a word) = push_bit (LENGTH('a) - 8) (ucast y)"
    show "x = y"
    proof (rule bit_eqI)
      fix i
      assume i: "possible_bit TYPE(u8) i"
      have "bit (push_bit (LENGTH('a) - 8) (ucast x :: 'a word)) (LENGTH('a) - 8 + i) =
          bit (push_bit (LENGTH('a) - 8) (ucast y :: 'a word)) (LENGTH('a) - 8 + i)" by (simp only: e)
      moreover have "i < 8" using i by simp
      ultimately show "bit x i = bit y i" using w by (auto simp: bit_simps)
    qed
  qed simp
  then show "crc_byte_f p x c = crc_byte_f p y c \<longleftrightarrow> x = y"
    using inj by (simp add: crc_byte_f_def xor_cancel)
qed

text \<open>A register that is never merged tells two messages that differ in one byte apart.\<close>

lemma fold_one_change:
  assumes inj: "\<And>b c c'. f b c = f b c' \<longleftrightarrow> c = c'" and chg: "\<And>c. f x c = f y c \<longleftrightarrow> x = y"
  shows "fold f (us @ x # vs) c = fold f (us @ y # vs) c \<longleftrightarrow> x = y"
proof -
  have "fold f vs c = fold f vs c' \<longleftrightarrow> c = c'" for c c'
    by (induction vs arbitrary: c c') (simp_all add: inj)
  then show ?thesis by (simp add: chg)
qed

section \<open>The HJ/T 212 register\<close>

text \<open>Only the high byte of the register goes into the next step.\<close>

definition hjt212_tab :: "u8 \<Rightarrow> u16" where
  "hjt212_tab v = crc_byte_r 0xA001 v 0"

lemma hjt212_shift_eq: "hjt212_shift = crc_bit_r 0xA001"
proof
  fix c :: u16
  have "c AND 1 = 1 \<longleftrightarrow> bit c 0" by (simp add: and_one_eq bit_0 mod2_eq_if)
  then show "hjt212_shift c = crc_bit_r 0xA001 c"
    by (simp add: hjt212_shift_def crc_bit_r_def Let_def)
qed

lemma hjt212_fold:
  "hjt212_GetCrc16 data = fold (\<lambda>b c. hjt212_tab (b XOR ucast (drop_bit 8 c))) data 0xFFFF"
proof -
  have "(hjt212_shift ^^ 8) (ucast b XOR ucast (ucast (drop_bit 8 c) :: u8)) =
      hjt212_tab (b XOR ucast (drop_bit 8 c))" for b :: u8 and c :: u16
    by (simp add: hjt212_tab_def crc_byte_r_def hjt212_shift_eq unsigned_xor_eq)
  then show ?thesis by (simp add: hjt212_GetCrc16_def)
qed

lemma aucCRCLo_nonzero: "0 < i \<Longrightarrow> i < 256 \<Longrightarrow> aucCRCLo ! i \<noteq> 0"
proof -
  assume "0 < i" "i < 256"
  then have "aucCRCLo ! i \<in> set (tl aucCRCLo)"
    by (simp add: in_set_conv_nth nth_tl) (rule exI [of _ "i - 1"], simp add: aucCRCLo_def nth_tl)
  moreover have "0 \<notin> set (tl aucCRCLo)" by (simp add: aucCRCLo_def)
  ultimately show ?thesis by metis
qed

lemma hjt212_high_inj:
  "(ucast (drop_bit 8 (hjt212_tab v)) :: u8) = ucast (drop_bit 8 (hjt212_tab w)) \<longleftrightarrow> v = w"
proof (rule xor_linear_inj)
  fix a b :: u8
  show "(ucast (drop_bit 8 (hjt212_tab (a XOR b))) :: u8) =
      ucast (drop_bit 8 (hjt212_tab a)) XOR ucast (drop_bit 8 (hjt212_tab b))"
    by (simp add: hjt212_tab_def crc_byte_r_def unsigned_xor_eq crc_bits_r_xor)
next
  fix c :: u8
  assume z: "(ucast (drop_bit 8 (hjt212_tab c)) :: u8) = 0"
  have lt: "unat c < 256" using unsigned_less [of c, where 'a = nat] by simp
  have "(of_nat (unat c) :: u16) = ucast c" by simp
  then have "aucCRCLo ! unat c = ucast (drop_bit 8 (hjt212_tab c))"
    by (simp only: aucCRCLo_nth [OF lt] hjt212_tab_def crc_byte_r_def xor.left_neutral)
  with z aucCRCLo_nonzero [OF _ lt] show "c = 0" by (metis gr0I unat_eq_0)
qed

section \<open>Properties\<close>

text \<open>
  Claim C10.  The four table driven routines compute the CRCs their tables are named after: for
  every message and start value, the modbus CRC-16 (reflected 0xA001, start 0xFFFF), the CRC-8
  with generator 7, the reflected CRC-32 0xEDB88320 with inverted start and end, and the CCITT
  CRC-16 with generator 0x1021 and start 0, bit by bit.
\<close>

theorem crc_tables_correct:
  "das_crc16 data = fold (crc_byte_r 0xA001) data 0xFFFF \<and>
   dm_crc8 crc8 data = fold (crc_byte_f 7) data crc8 \<and>
   dm_crc32 crc32 data = NOT (fold (crc_byte_r 0xEDB88320) data (NOT crc32)) \<and>
   CC_GetCrc16 data = fold (crc_byte_f 0x1021) data 0"
  by (simp add: das_crc16_eq dm_crc8_eq dm_crc32_def ulRTCrc32_eq CC_GetCrc16_eq)

text \<open>
  A modbus frame is accepted exactly with its own checksum: the CRC of a message followed
  by two bytes is 0 if and only if the bytes are the message's CRC, low byte first.
\<close>

theorem das_crc16_residue:
  "das_crc16 (data @ [lo, hi]) = 0 \<longleftrightarrow> [lo, hi] = le16 (das_crc16 data)"
proof -
  let ?B = "crc_bit_r (0xA001 :: u16)" and ?c = "das_crc16 data"
  have p: "bit (0xA001 :: u16) (LENGTH(16) - 1)" by simp
  define w :: u16 where "w = ucast lo XOR push_bit 8 (ucast hi)"
  have "(?B ^^ 8) (push_bit 8 (ucast hi)) = drop_bit 8 (push_bit 8 (ucast hi))"
    by (rule crc_bits_r_high) (auto simp: take_bit_0_iff bit_simps)
  also have "\<dots> = ucast hi"
    by (rule bit_eqI) (auto simp: bit_simps dest: bit_imp_le_length)
  finally have hi: "(?B ^^ 8) (push_bit 8 (ucast hi)) = ucast hi" .
  have "das_crc16 (data @ [lo, hi]) = (?B ^^ 8) ((?B ^^ 8) (?c XOR ucast lo) XOR ucast hi)"
    by (simp add: das_crc16_eq crc_byte_r_def)
  also have "\<dots> = (?B ^^ 8) ((?B ^^ 8) (?c XOR w))"
    by (simp add: w_def crc_bits_r_xor hi xor.assoc)
  finally have "das_crc16 (data @ [lo, hi]) = 0 \<longleftrightarrow> ?c XOR w = 0"
    using crc_bits_r_0 [OF p, of 8 "(?B ^^ 8) (?c XOR w)"] crc_bits_r_0 [OF p, of 8 "?c XOR w"]
      crc_bits_r_high [of 8 "0 :: u16" "0xA001"] by auto
  also have "\<dots> \<longleftrightarrow> ?c = w" using xor_cancel(1) [of ?c w w] by simp
  also have "\<dots> \<longleftrightarrow> lo = ucast ?c \<and> hi = ucast (drop_bit 8 ?c)"
  proof
    assume c: "?c = w"
    show "lo = ucast ?c \<and> hi = ucast (drop_bit 8 ?c)" unfolding c w_def
      by (intro conjI bit_eqI) (auto simp: bit_simps dest: bit_imp_le_length)
  next
    assume b: "lo = ucast ?c \<and> hi = ucast (drop_bit 8 ?c)"
    show "?c = w" unfolding w_def using b
      by (intro bit_eqI) (auto simp: bit_simps dest: bit_imp_le_length)
  qed
  finally show ?thesis by (simp add: le16_def)
qed

text \<open>
  Claim C27.  Every one of the five checksums tells apart two messages that differ in exactly one
  byte (whatever the start value), so a frame with one damaged byte is never accepted.
\<close>

theorem crc_single_byte_detected:
  assumes "x \<noteq> y"
  shows "das_crc16 (us @ x # vs) \<noteq> das_crc16 (us @ y # vs) \<and>
    dm_crc8 c8 (us @ x # vs) \<noteq> dm_crc8 c8 (us @ y # vs) \<and>
    ulRTCrc32 c32 (us @ x # vs) \<noteq> ulRTCrc32 c32 (us @ y # vs) \<and>
    CC_GetCrc16 (us @ x # vs) \<noteq> CC_GetCrc16 (us @ y # vs) \<and>
    hjt212_GetCrc16 (us @ x # vs) \<noteq> hjt212_GetCrc16 (us @ y # vs)"
proof -
  have r16: "bit (0xA001 :: u16) (LENGTH(16) - 1)" and r32: "bit (0xEDB88320 :: u32) (LENGTH(32) - 1)"
    and f8: "bit (7 :: u8) 0" and f16: "bit (0x1021 :: u16) 0" by simp_all
  have "das_crc16 (us @ x # vs) \<noteq> das_crc16 (us @ y # vs)"
    unfolding das_crc16_eq using assms by (subst fold_one_change) (simp_all add: crc_byte_r_inj [OF r16])
  moreover have "dm_crc8 c8 (us @ x # vs) \<noteq> dm_crc8 c8 (us @ y # vs)"
    unfolding dm_crc8_eq using assms by (subst fold_one_change) (simp_all add: crc_byte_f_inj [OF f8])
  moreover have "ulRTCrc32 c32 (us @ x # vs) \<noteq> ulRTCrc32 c32 (us @ y # vs)"
  proof
    assume "ulRTCrc32 c32 (us @ x # vs) = ulRTCrc32 c32 (us @ y # vs)"
    then have "fold (crc_byte_r 0xEDB88320) (us @ x # vs) (NOT c32) =
        fold (crc_byte_r 0xEDB88320) (us @ y # vs) (NOT c32)"
      unfolding ulRTCrc32_eq by (metis bit.double_compl)
    then have "x = y"
      by (subst (asm) fold_one_change) (simp_all add: crc_byte_r_inj [OF r32])
    with assms show False by simp
  qed
  moreover have "CC_GetCrc16 (us @ x # vs) \<noteq> CC_GetCrc16 (us @ y # vs)"
    unfolding CC_GetCrc16_eq using assms by (subst fold_one_change) (simp_all add: crc_byte_f_inj [OF f16])
  moreover have "hjt212_GetCrc16 (us @ x # vs) \<noteq> hjt212_GetCrc16 (us @ y # vs)"
  proof -
    let ?step = "\<lambda>b (c :: u16). hjt212_tab (b XOR ucast (drop_bit 8 c))"
    let ?hi = "\<lambda>c :: u16. ucast (drop_bit 8 c) :: u8"
    define h where "h b v = ?hi (hjt212_tab (b XOR v))" for b v :: u8
    have hi: "?hi (fold ?step ds c) = fold h ds (?hi c)" for ds c
      by (induction ds arbitrary: c) (simp_all add: h_def)
    have "fold h (us @ x # vs) v \<noteq> fold h (us @ y # vs) v" for v
      using assms by (subst fold_one_change) (simp_all add: h_def hjt212_high_inj xor_cancel)
    then show ?thesis unfolding hjt212_fold by (metis hi)
  qed
  ultimately show ?thesis by blast
qed

theorem crc_single_byte_detected_witness:
  "das_crc16 [1, 3, 0, 0] \<noteq> das_crc16 [1, 4, 0, 0] \<and> hjt212_GetCrc16 [1, 3] \<noteq> hjt212_GetCrc16 [1, 4]"
  using crc_single_byte_detected [of 3 4 "[1]" "[0, 0]"] crc_single_byte_detected [of 3 4 "[1]" "[]"]
  by simp

text \<open>
  The 16 bit checksum of HJ/T 212 has at most 257 different values, because only the
  high byte of its register takes part in the next step: it is a CRC of 8 bits.
\<close>

theorem hjt212_crc_values:
  "finite (range hjt212_GetCrc16) \<and> card (range hjt212_GetCrc16) \<le> 257"
proof -
  have "hjt212_GetCrc16 data \<in> insert 0xFFFF (range hjt212_tab)" for data
    by (cases data rule: rev_cases) (simp_all add: hjt212_fold)
  then have sub: "range hjt212_GetCrc16 \<subseteq> insert 0xFFFF (range hjt212_tab)" by blast
  have "card (range hjt212_tab) \<le> card (UNIV :: u8 set)" by (rule card_image_le) simp
  then have "card (insert 0xFFFF (range hjt212_tab)) \<le> 257"
    by (simp add: card_insert_if card_word)
  with card_mono [OF _ sub] show ?thesis
    using finite_subset [OF sub] by (meson finite finite_imageI finite_insert le_trans)
qed

end
