(* ===== verification/Aes.thy ===== *)
theory Aes
  imports Prelude
begin

text \<open>
  AES-128 in CBC mode as the gateway has it twice: \<open>external/aes/aes.c\<close> (used by the BJDC protocol)
  and \<open>sdccp/dm101/dm_aes.c\<close> (used by DM101), the same code with other names, each with a round key
  table of its own.  The static functions are modelled once; the exported ones take and return
  the table.  \<open>dm_aes.c\<close> also has the PKCS7 padding.
\<close>

section \<open>Tables\<close>

definition SBox :: "u8 list" where
  "SBox = [
    0x63, 0x7c, 0x77, 0x7b, 0xf2, 0x6b, 0x6f, 0xc5, 0x30, 0x01, 0x67, 0x2b, 0xfe, 0xd7, 0xab, 0x76,
    0xca, 0x82, 0xc9, 0x7d, 0xfa, 0x59, 0x47, 0xf0, 0xad, 0xd4, 0xa2, 0xaf, 0x9c, 0xa4, 0x72, 0xc0,
    0xb7, 0xfd, 0x93, 0x26, 0x36, 0x3f, 0xf7, 0xcc, 0x34, 0xa5, 0xe5, 0xf1, 0x71, 0xd8, 0x31, 0x15,
    0x04, 0xc7, 0x23, 0xc3, 0x18, 0x96, 0x05, 0x9a, 0x07, 0x12, 0x80, 0xe2, 0xeb, 0x27, 0xb2, 0x75,
    0x09, 0x83, 0x2c, 0x1a, 0x1b, 0x6e, 0x5a, 0xa0, 0x52, 0x3b, 0xd6, 0xb3, 0x29, 0xe3, 0x2f, 0x84,
    0x53, 0xd1, 0x00, 0xed, 0x20, 0xfc, 0xb1, 0x5b, 0x6a, 0xcb, 0xbe, 0x39, 0x4a, 0x4c, 0x58, 0xcf,
    0xd0, 0xef, 0xaa, 0xfb, 0x43, 0x4d, 0x33, 0x85, 0x45, 0xf9, 0x02, 0x7f, 0x50, 0x3c, 0x9f, 0xa8,
    0x51, 0xa3, 0x40, 0x8f, 0x92, 0x9d, 0x38, 0xf5, 0xbc, 0xb6, 0xda, 0x21, 0x10, 0xff, 0xf3, 0xd2,
    0xcd, 0x0c, 0x13, 0xec, 0x5f, 0x97, 0x44, 0x17, 0xc4, 0xa7, 0x7e, 0x3d, 0x64, 0x5d, 0x19, 0x73,
    0x60, 0x81, 0x4f, 0xdc, 0x22, 0x2a, 0x90, 0x88, 0x46, 0xee, 0xb8, 0x14, 0xde, 0x5e, 0x0b, 0xdb,
    0xe0, 0x32, 0x3a, 0x0a, 0x49, 0x06, 0x24, 0x5c, 0xc2, 0xd3, 0xac, 0x62, 0x91, 0x95, 0xe4, 0x79,
    0xe7, 0xc8, 0x37, 0x6d, 0x8d, 0xd5, 0x4e, 0xa9, 0x6c, 0x56, 0xf4, 0xea, 0x65, 0x7a, 0xae, 0x08,
    0xba, 0x78, 0x25, 0x2e, 0x1c, 0xa6, 0xb4, 0xc6, 0xe8, 0xdd, 0x74, 0x1f, 0x4b, 0xbd, 0x8b, 0x8a,
    0x70, 0x3e, 0xb5, 0x66, 0x48, 0x03, 0xf6, 0x0e, 0x61, 0x35, 0x57, 0xb9, 0x86, 0xc1, 0x1d, 0x9e,
    0xe1, 0xf8, 0x98, 0x11, 0x69, 0xd9, 0x8e, 0x94, 0x9b, 0x1e, 0x87, 0xe9, 0xce, 0x55, 0x28, 0xdf,
    0x8c, 0xa1, 0x89, 0x0d, 0xbf, 0xe6, 0x42, 0x68, 0x41, 0x99, 0x2d, 0x0f, 0xb0, 0x54, 0xbb, 0x16]"

definition InvSBox :: "u8 list" where
  "InvSBox = [
    0x52, 0x09, 0x6a, 0xd5, 0x30, 0x36, 0xa5, 0x38, 0xbf, 0x40, 0xa3, 0x9e, 0x81, 0xf3, 0xd7, 0xfb,
    0x7c, 0xe3, 0x39, 0x82, 0x9b, 0x2f, 0xff, 0x87, 0x34, 0x8e, 0x43, 0x44, 0xc4, 0xde, 0xe9, 0xcb,
    0x54, 0x7b, 0x94, 0x32, 0xa6, 0xc2, 0x23, 0x3d, 0xee, 0x4c, 0x95, 0x0b, 0x42, 0xfa, 0xc3, 0x4e,
    0x08, 0x2e, 0xa1, 0x66, 0x28, 0xd9, 0x24, 0xb2, 0x76, 0x5b, 0xa2, 0x49, 0x6d, 0x8b, 0xd1, 0x25,
    0x72, 0xf8, 0xf6, 0x64, 0x86, 0x68, 0x98, 0x16, 0xd4, 0xa4, 0x5c, 0xcc, 0x5d, 0x65, 0xb6, 0x92,
    0x6c, 0x70, 0x48, 0x50, 0xfd, 0xed, 0xb9, 0xda, 0x5e, 0x15, 0x46, 0x57, 0xa7, 0x8d, 0x9d, 0x84,
    0x90, 0xd8, 0xab, 0x00, 0x8c, 0xbc, 0xd3, 0x0a, 0xf7, 0xe4, 0x58, 0x05, 0xb8, 0xb3, 0x45, 0x06,
    0xd0, 0x2c, 0x1e, 0x8f, 0xca, 0x3f, 0x0f, 0x02, 0xc1, 0xaf, 0xbd, 0x03, 0x01, 0x13, 0x8a, 0x6b,
    0x3a, 0x91, 0x11, 0x41, 0x4f, 0x67, 0xdc, 0xea, 0x97, 0xf2, 0xcf, 0xce, 0xf0, 0xb4, 0xe6, 0x73,
    0x96, 0xac, 0x74, 0x22, 0xe7, 0xad, 0x35, 0x85, 0xe2, 0xf9, 0x37, 0xe8, 0x1c, 0x75, 0xdf, 0x6e,
    0x47, 0xf1, 0x1a, 0x71, 0x1d, 0x29, 0xc5, 0x89, 0x6f, 0xb7, 0x62, 0x0e, 0xaa, 0x18, 0xbe, 0x1b,
    0xfc, 0x56, 0x3e, 0x4b, 0xc6, 0xd2, 0x79, 0x20, 0x9a, 0xdb, 0xc0, 0xfe, 0x78, 0xcd, 0x5a, 0xf4,
    0x1f, 0xdd, 0xa8, 0x33, 0x88, 0x07, 0xc7, 0x31, 0xb1, 0x12, 0x10, 0x59, 0x27, 0x80, 0xec, 0x5f,
    0x60, 0x51, 0x7f, 0xa9, 0x19, 0xb5, 0x4a, 0x0d, 0x2d, 0xe5, 0x7a, 0x9f, 0x93, 0xc9, 0x9c, 0xef,
    0xa0, 0xe0, 0x3b, 0x4d, 0xae, 0x2a, 0xf5, 0xb0, 0xc8, 0xeb, 0xbb, 0x3c, 0x83, 0x53, 0x99, 0x61,
    0x17, 0x2b, 0x04, 0x7e, 0xba, 0x77, 0xd6, 0x26, 0xe1, 0x69, 0x14, 0x63, 0x55, 0x21, 0x0c, 0x7d]"

section \<open>Steps of a round\<close>

definition RotationWord :: "bytes \<Rightarrow> bytes" where
  "RotationWord w = [w ! 1, w ! 2, w ! 3, w ! 0]"

definition XorBytes :: "bytes \<Rightarrow> bytes \<Rightarrow> bytes" where
  "XorBytes p q = map2 (XOR) p q"

definition AddRoundKey :: "bytes \<Rightarrow> bytes \<Rightarrow> bytes" where
  "AddRoundKey s k = XorBytes s (take 16 k)"

definition SubBytes :: "bytes \<Rightarrow> bool \<Rightarrow> bytes" where
  "SubBytes s bInvert = map (\<lambda>b. (if bInvert then InvSBox else SBox) ! unat b) s"

text \<open>The state is stored by columns: row \<open>r\<close>, column \<open>c\<close> is byte \<open>r + 4 * c\<close>.\<close>

definition ShiftRows :: "bytes \<Rightarrow> bool \<Rightarrow> bytes" where
  "ShiftRows s bInvert =
     map (\<lambda>k. let r = k mod 4; c = k div 4; temp = (if bInvert then 4 - r else r)
              in s ! (r + 4 * ((c + temp) mod 4))) [0..<16]"

definition GfMultBy02 :: "u8 \<Rightarrow> u8" where
  "GfMultBy02 num = (if num AND 0x80 = 0 then push_bit 1 num else push_bit 1 num XOR 0x1B)"

definition mix_column :: "bool \<Rightarrow> u8 \<Rightarrow> u8 \<Rightarrow> u8 \<Rightarrow> u8 \<Rightarrow> bytes" where
  "mix_column bInvert p0 p1 p2 p3 =
     (let temp = p0 XOR p1 XOR p2 XOR p3;
          result = [temp XOR p0 XOR GfMultBy02 (p0 XOR p1), temp XOR p1 XOR GfMultBy02 (p1 XOR p2),
                    temp XOR p2 XOR GfMultBy02 (p2 XOR p3), temp XOR p3 XOR GfMultBy02 (p3 XOR p0)]
      in if bInvert then
           let a0Pa2_M4 = GfMultBy02 (GfMultBy02 (p0 XOR p2));
               a1Pa3_M4 = GfMultBy02 (GfMultBy02 (p1 XOR p3));
               temp = GfMultBy02 (a0Pa2_M4 XOR a1Pa3_M4)
           in [result ! 0 XOR (temp XOR a0Pa2_M4), result ! 1 XOR (temp XOR a1Pa3_M4),
               result ! 2 XOR (temp XOR a0Pa2_M4), result ! 3 XOR (temp XOR a1Pa3_M4)]
         else result)"

fun MixColumns :: "bytes \<Rightarrow> bool \<Rightarrow> bytes" where
  "MixColumns (p0 # p1 # p2 # p3 # ps) bInvert = mix_column bInvert p0 p1 p2 p3 @ MixColumns ps bInvert"
| "MixColumns ps bInvert = ps"

section \<open>Blocks\<close>

definition encrypt_round :: "bytes \<Rightarrow> nat \<Rightarrow> bytes \<Rightarrow> bytes" where
  "encrypt_round tab i s =
     (let s1 = ShiftRows (SubBytes s False) False;
          s2 = (if i \<noteq> 10 then MixColumns s1 False else s1)
      in AddRoundKey s2 (drop (16 * i) tab))"

definition BlockEncrypt :: "bytes \<Rightarrow> bytes \<Rightarrow> bytes" where
  "BlockEncrypt tab s = fold (encrypt_round tab) [1..<11] (AddRoundKey s tab)"

definition decrypt_round :: "bytes \<Rightarrow> nat \<Rightarrow> bytes \<Rightarrow> bytes" where
  "decrypt_round tab i s =
     (let s1 = AddRoundKey (SubBytes (ShiftRows s True) True) (drop (16 * (i - 1)) tab)
      in if i \<noteq> 1 then MixColumns s1 True else s1)"

definition BlockDecrypt :: "bytes \<Rightarrow> bytes \<Rightarrow> bytes" where
  "BlockDecrypt tab s = fold (decrypt_round tab) (rev [1..<11]) (AddRoundKey s (drop 160 tab))"

section \<open>The round keys\<close>

text \<open>
  One turn of the loop of \<open>AES_Init\<close>: the table so far gets its word number \<open>i\<close>.  For keys of 128
  bits the branch for \<open>Nk > 6\<close> is never taken.
\<close>

definition key_word :: "nat \<Rightarrow> bytes \<times> u8 \<Rightarrow> bytes \<times> u8" where
  "key_word i = (\<lambda>(tab, rcon).
     let w = take 4 (drop (4 * i - 4) tab);
         old = take 4 (drop (4 * i - 16) tab)
     in if i mod 4 = 0
        then (tab @ XorBytes (XorBytes (SubBytes (RotationWord w) False) [rcon, 0, 0, 0]) old, GfMultBy02 rcon)
        else (tab @ XorBytes w old, rcon))"

definition key_expansion :: "bytes \<Rightarrow> bytes" where
  "key_expansion key = fst (fold key_word [4..<44] (take 16 key, 0x01))"

definition AES_Init :: "bytes \<Rightarrow> bytes" where "AES_Init key = key_expansion key"
definition DM_AES_Init :: "bytes \<Rightarrow> bytes" where "DM_AES_Init key = key_expansion key"

section \<open>Messages\<close>

text \<open>\<open>n\<close> blocks from the front, each XORed with the block before it; the rest stays.\<close>

fun cbc_encrypt :: "bytes \<Rightarrow> nat \<Rightarrow> bytes \<Rightarrow> bytes \<Rightarrow> bytes" where
  "cbc_encrypt tab 0 iv m = m"
| "cbc_encrypt tab (Suc n) iv m =
     (let c = BlockEncrypt tab (XorBytes (take 16 m) iv) in c @ cbc_encrypt tab n c (drop 16 m))"

text \<open>From the last block back; \<open>pos\<close> is the address of the block, \<open>n\<close> the blocks left.\<close>

fun cbc_decrypt :: "bytes \<Rightarrow> nat \<Rightarrow> bytes \<Rightarrow> nat \<Rightarrow> bytes \<Rightarrow> bytes" where
  "cbc_decrypt tab 0 iv pos m = m"
| "cbc_decrypt tab (Suc n) iv pos m =
     (let p = BlockDecrypt tab (take 16 (drop pos m));
          prev = (if n = 0 then iv else take 16 (drop (pos - 16) m))
      in cbc_decrypt tab n iv (pos - 16) (take pos m @ XorBytes p prev @ drop (pos + 16) m))"

definition AES_Encrypt :: "bytes \<Rightarrow> bytes \<Rightarrow> bytes \<Rightarrow> bytes" where
  "AES_Encrypt tab iv m = cbc_encrypt tab (length m div 16) (take 16 iv) m"

definition AES_Decrypt :: "bytes \<Rightarrow> bytes \<Rightarrow> bytes \<Rightarrow> bytes" where
  "AES_Decrypt tab iv m = cbc_decrypt tab (length m div 16) (take 16 iv) (length m - 16) m"

definition DM_AES_Encrypt :: "bytes \<Rightarrow> bytes \<Rightarrow> bytes \<Rightarrow> bytes" where
  "DM_AES_Encrypt tab iv m = cbc_encrypt tab (length m div 16) (take 16 iv) m"

definition DM_AES_Decrypt :: "bytes \<Rightarrow> bytes \<Rightarrow> bytes \<Rightarrow> bytes" where
  "DM_AES_Decrypt tab iv m = cbc_decrypt tab (length m div 16) (take 16 iv) (length m - 16) m"

section \<open>Padding\<close>

text \<open>The plain text gets its padding in place, the new total length is the length of the result.\<close>

definition PKCS7_EnPadding :: "bytes \<Rightarrow> bytes" where
  "PKCS7_EnPadding m = (let k = 16 - length m mod 16 in m @ replicate k (of_nat k))"

text \<open>The result is the new length; the last byte is read even of an empty text.\<close>

definition PKCS7_DePadding :: "bytes \<Rightarrow> nat outcome" where
  "PKCS7_DePadding m =
     bindO (rd m (int (length m) - 1)) (\<lambda>b.
       Ret (if b \<le> 16 then length m - unat b else length m))"

definition PKCS7_EnPadding_totalsize :: "nat \<Rightarrow> nat" where
  "PKCS7_EnPadding_totalsize n = (16 - n mod 16) + n"

section \<open>Each step is inverted\<close>

lemma XorBytes_nth: "length p = length q \<Longrightarrow> i < length p \<Longrightarrow> XorBytes p q ! i = p ! i XOR q ! i"
  by (simp add: XorBytes_def)

lemma length_XorBytes [simp]: "length (XorBytes p q) = min (length p) (length q)"
  by (simp add: XorBytes_def)

lemma XorBytes_twice: "length p = length q \<Longrightarrow> XorBytes (XorBytes p q) q = p"
  by (induction p q rule: list_induct2) (simp_all add: XorBytes_def xor.assoc)

lemma length_SubBytes [simp]: "length (SubBytes s b) = length s"
  by (simp add: SubBytes_def)

lemma length_ShiftRows [simp]: "length (ShiftRows s b) = 16"
  by (simp add: ShiftRows_def)

lemma length_mix_column [simp]: "length (mix_column b p0 p1 p2 p3) = 4"
  by (simp add: mix_column_def Let_def)

lemma length_MixColumns [simp]: "length (MixColumns s b) = length s"
  by (induction s b rule: MixColumns.induct) simp_all

lemma sbox_lengths: "length SBox = 256" "length InvSBox = 256"
  by (simp_all add: SBox_def InvSBox_def)

lemma sbox_table: "map (\<lambda>b. InvSBox ! unat b) SBox = map of_nat [0..<256]"
  by code_simp

lemma InvSBox_SBox: "InvSBox ! unat (SBox ! unat b) = b"
proof -
  have b: "unat b < 256" using unsigned_less [of b, where 'a = nat] by simp
  have "InvSBox ! unat (SBox ! unat b) = map (\<lambda>b. InvSBox ! unat b) SBox ! unat b"
    using b by (simp add: sbox_lengths)
  also have "\<dots> = of_nat (unat b)" unfolding sbox_table using b by simp
  finally show ?thesis by simp
qed

lemma SubBytes_inverse: "SubBytes (SubBytes s False) True = s"
  by (simp add: SubBytes_def comp_def InvSBox_SBox)

lemma list16: "length s = 16 \<Longrightarrow> \<exists>a b c d e f g h i j k l m n p q.
    s = [a, b, c, d, e, f, g, h, i, j, k, l, m, n, p, q]"
  by (auto simp: numeral_eq_Suc length_Suc_conv)

lemma ShiftRows_inverse: "length s = 16 \<Longrightarrow> ShiftRows (ShiftRows s False) True = s"
  by (drule list16, elim exE) (simp add: ShiftRows_def upt_rec Let_def)

lemma GfMultBy02_xor: "GfMultBy02 (a XOR b) = GfMultBy02 a XOR GfMultBy02 b"
proof -
  have z: "(x AND 0x80 = 0) \<longleftrightarrow> \<not> bit x 7" for x :: u8
    using and_exp_eq_0_iff_not_bit [of x 7] by simp
  show ?thesis
    unfolding GfMultBy02_def z bit_xor_iff
    by (simp add: push_bit_xor xor.assoc xor.commute xor.left_commute)
qed

lemma mix_column_inverse:
  "mix_column False a0 a1 a2 a3 = [b0, b1, b2, b3] \<Longrightarrow> mix_column True b0 b1 b2 b3 = [a0, a1, a2, a3]"
  by (clarsimp simp: mix_column_def Let_def GfMultBy02_xor xor.assoc xor.commute xor.left_commute)

lemma MixColumns_step: "MixColumns (mix_column False a0 a1 a2 a3 @ ps) True = a0 # a1 # a2 # a3 # MixColumns ps True"
proof -
  obtain b0 b1 b2 b3 where b: "mix_column False a0 a1 a2 a3 = [b0, b1, b2, b3]"
    using length_mix_column [of False a0 a1 a2 a3]
    by (auto simp: numeral_eq_Suc length_Suc_conv simp del: length_mix_column)
  show ?thesis by (simp add: b mix_column_inverse [OF b])
qed

lemma MixColumns_inverse: "length s mod 4 = 0 \<Longrightarrow> MixColumns (MixColumns s False) True = s"
  by (induction s False rule: MixColumns.induct) (simp_all add: MixColumns_step)

lemma length_AddRoundKey: "length s = 16 \<Longrightarrow> 16 \<le> length k \<Longrightarrow> length (AddRoundKey s k) = 16"
  by (simp add: AddRoundKey_def)

lemma AddRoundKey_twice: "length s = 16 \<Longrightarrow> 16 \<le> length k \<Longrightarrow> AddRoundKey (AddRoundKey s k) k = s"
  by (simp add: AddRoundKey_def XorBytes_twice)

section \<open>Blocks and messages\<close>

lemma length_encrypt_round:
  "length s = 16 \<Longrightarrow> length tab = 176 \<Longrightarrow> i \<le> 10 \<Longrightarrow> length (encrypt_round tab i s) = 16"
  by (simp add: encrypt_round_def Let_def length_AddRoundKey)

text \<open>
  Between two round keys a round is \<open>core\<close>; a round of the decryption takes the core of a state to
  the core of the state before.
\<close>

definition core :: "bytes \<Rightarrow> bytes" where
  "core s = ShiftRows (SubBytes s False) False"

lemma length_core [simp]: "length (core s) = 16"
  by (simp add: core_def)

lemma decrypt_round_core:
  "length s = 16 \<Longrightarrow> decrypt_round tab i (core s) =
    (let s1 = AddRoundKey s (drop (16 * (i - 1)) tab) in if i \<noteq> 1 then MixColumns s1 True else s1)"
  by (simp add: decrypt_round_def core_def ShiftRows_inverse SubBytes_inverse)

lemma decrypt_encrypt_round:
  assumes "length s = 16" "length tab = 176" "1 \<le> i" "i < 10"
  shows "decrypt_round tab (Suc i) (core (encrypt_round tab i s)) = core s"
proof -
  have "16 \<le> length (drop (16 * i) tab)" using assms by simp
  then have "AddRoundKey (encrypt_round tab i s) (drop (16 * i) tab) = MixColumns (core s) False"
    using assms by (simp add: encrypt_round_def Let_def AddRoundKey_twice core_def)
  then show ?thesis
    using assms by (simp add: decrypt_round_core length_encrypt_round Let_def MixColumns_inverse)
qed

lemma decrypt_rounds:
  assumes "length s = 16" "length tab = 176" "n < 10"
  shows "length (fold (encrypt_round tab) [1..<Suc n] s) = 16 \<and>
    fold (decrypt_round tab) (rev [2..<n + 2]) (core (fold (encrypt_round tab) [1..<Suc n] s)) = core s"
  using assms(3)
proof (induction n)
  case (Suc n)
  let ?e = "fold (encrypt_round tab) [1..<Suc n] s"
  have "length ?e = 16" using Suc by simp
  with Suc assms show ?case
    by (simp add: length_encrypt_round decrypt_encrypt_round)
qed (simp add: assms)

theorem BlockDecrypt_BlockEncrypt:
  assumes "length s = 16" "length tab = 176"
  shows "BlockDecrypt tab (BlockEncrypt tab s) = s"
proof -
  let ?s0 = "AddRoundKey s tab"
  let ?s9 = "fold (encrypt_round tab) [1..<10] ?s0"
  have l0: "length ?s0 = 16" using assms by (simp add: length_AddRoundKey)
  note r = decrypt_rounds [OF l0 assms(2), of 9, simplified]
  have u: "[1..<11] = [1..<10] @ [10]" "rev [1..<11] = rev [2..<11] @ [1]" by (simp_all add: upt_rec)
  have "BlockEncrypt tab s = AddRoundKey (core ?s9) (drop 160 tab)"
    unfolding BlockEncrypt_def u(1) fold_append by (simp add: encrypt_round_def core_def)
  then have "AddRoundKey (BlockEncrypt tab s) (drop 160 tab) = core ?s9"
    using assms by (simp add: AddRoundKey_twice)
  then have "BlockDecrypt tab (BlockEncrypt tab s) = decrypt_round tab 1 (core ?s0)"
    unfolding BlockDecrypt_def u(2) fold_append using r by simp
  also have "\<dots> = s" using assms l0 by (simp add: decrypt_round_core AddRoundKey_twice)
  finally show ?thesis .
qed

lemma length_BlockEncrypt: "length s = 16 \<Longrightarrow> length tab = 176 \<Longrightarrow> length (BlockEncrypt tab s) = 16"
proof -
  assume a: "length s = 16" "length tab = 176"
  have "\<forall>i \<in> set is. i \<le> 10 \<Longrightarrow> length x = 16 \<Longrightarrow> length (fold (encrypt_round tab) is x) = 16" for "is" x
    by (induction "is" arbitrary: x) (simp_all add: length_encrypt_round a(2))
  then show ?thesis unfolding BlockEncrypt_def using a by (simp add: length_AddRoundKey)
qed

text \<open>The blocks of a message, and what a block is chained with.\<close>

definition blk :: "bytes \<Rightarrow> nat \<Rightarrow> bytes" where
  "blk m i = take 16 (drop (16 * i) m)"

definition chain :: "bytes \<Rightarrow> bytes \<Rightarrow> nat \<Rightarrow> bytes" where
  "chain iv c i = (if i = 0 then iv else blk c (i - 1))"

lemma length_blk: "16 * i + 16 \<le> length m \<Longrightarrow> length (blk m i) = 16"
  by (simp add: blk_def)

lemma blk_append: "16 * i + 16 \<le> length a \<Longrightarrow> blk (a @ b) i = blk a i"
  by (simp add: blk_def)

lemma blk_append_16: "length a = 16 \<Longrightarrow> blk (a @ b) (Suc i) = blk b i"
  by (simp add: blk_def)

lemma concat_blk: "length m = 16 * n \<Longrightarrow> concat (map (blk m) [0..<n]) = m"
proof (induction n arbitrary: m)
  case (Suc n)
  have "map (blk m) [0..<Suc n] = blk m 0 # map (blk (drop 16 m)) [0..<n]"
    by (simp add: map_upt_Suc blk_def add.commute del: upt_Suc)
  moreover have "blk m 0 @ drop 16 m = m" by (simp add: blk_def)
  ultimately show ?case using Suc.IH [of "drop 16 m"] Suc.prems by simp
qed simp

lemma cbc_encrypt_blocks:
  assumes "length tab = 176"
  shows "length m = 16 * n \<Longrightarrow> length iv = 16 \<Longrightarrow> length (cbc_encrypt tab n iv m) = 16 * n \<and>
    (\<forall>i < n. blk (cbc_encrypt tab n iv m) i =
       BlockEncrypt tab (XorBytes (blk m i) (chain iv (cbc_encrypt tab n iv m) i)))"
proof (induction n arbitrary: iv m)
  case (Suc n)
  let ?c = "BlockEncrypt tab (XorBytes (take 16 m) iv)"
  let ?r = "cbc_encrypt tab n ?c (drop 16 m)"
  have lc: "length ?c = 16" using Suc.prems by (simp add: length_BlockEncrypt assms)
  have ih: "length ?r = 16 * n" "\<And>i. i < n \<Longrightarrow> blk ?r i = BlockEncrypt tab (XorBytes (blk (drop 16 m) i) (chain ?c ?r i))"
    using Suc.IH [of "drop 16 m" ?c] Suc.prems lc by simp_all
  have "blk (?c @ ?r) i = BlockEncrypt tab (XorBytes (blk m i) (chain iv (?c @ ?r) i))" if "i < Suc n" for i
  proof (cases i)
    case 0
    then show ?thesis using lc by (simp add: blk_def chain_def)
  next
    case (Suc j)
    have "chain iv (?c @ ?r) (Suc j) = chain ?c ?r j"
      using lc by (cases j) (simp_all add: chain_def blk_append_16, simp add: blk_def)
    moreover have "blk m (Suc j) = blk (drop 16 m) j" by (simp add: blk_def add.commute)
    ultimately show ?thesis using ih(2) [of j] that lc by (simp add: Suc blk_append_16)
  qed
  with lc ih(1) show ?case by (simp add: Let_def)
qed simp

lemma cbc_decrypt_blocks:
  "length c = 16 * n \<Longrightarrow> length iv = 16 \<Longrightarrow>
    cbc_decrypt tab n iv (16 * n - 16) (c @ d) =
    concat (map (\<lambda>i. XorBytes (BlockDecrypt tab (blk c i)) (chain iv c i)) [0..<n]) @ d"
proof (induction n arbitrary: c d)
  case (Suc n)
  let ?p = "XorBytes (BlockDecrypt tab (blk c n)) (chain iv c n)"
  let ?c = "take (16 * n) c"
  have pos: "16 * Suc n - 16 = 16 * n" by simp
  have b: "take 16 (drop (16 * n) (c @ d)) = blk c n" using Suc.prems by (simp add: blk_def)
  have "take 16 (drop (16 * n - 16) (c @ d)) = blk c (n - 1)" if "n \<noteq> 0"
    using Suc.prems that by (cases n) (simp_all add: blk_def)
  then have ch: "(if n = 0 then iv else take 16 (drop (16 * n - 16) (c @ d))) = chain iv c n"
    by (simp add: chain_def)
  have "cbc_decrypt tab (Suc n) iv (16 * Suc n - 16) (c @ d) = cbc_decrypt tab n iv (16 * n - 16) (?c @ ?p @ d)"
    unfolding pos cbc_decrypt.simps Let_def b ch using Suc.prems by simp
  also have "\<dots> = concat (map (\<lambda>i. XorBytes (BlockDecrypt tab (blk ?c i)) (chain iv ?c i)) [0..<n]) @ ?p @ d"
    using Suc.prems by (intro Suc.IH) simp_all
  also have "map (\<lambda>i. XorBytes (BlockDecrypt tab (blk ?c i)) (chain iv ?c i)) [0..<n] =
      map (\<lambda>i. XorBytes (BlockDecrypt tab (blk c i)) (chain iv c i)) [0..<n]"
  proof -
    have t: "blk ?c i = blk c i" if "i < n" for i
      using that by (auto simp: blk_def drop_take min_def)
    show ?thesis using t by (auto simp: chain_def)
  qed
  finally show ?case by simp
qed simp

lemma cbc_roundtrip:
  assumes "length tab = 176" "length m = 16 * n" "length iv = 16"
  shows "cbc_decrypt tab n iv (16 * n - 16) (cbc_encrypt tab n iv m) = m"
proof -
  let ?c = "cbc_encrypt tab n iv m"
  note e = cbc_encrypt_blocks [OF assms]
  note len = conjunct1 [OF e]
  have "XorBytes (BlockDecrypt tab (blk ?c i)) (chain iv ?c i) = blk m i" if "i < n" for i
  proof -
    have l: "length (blk m i) = 16" "length (chain iv ?c i) = 16"
      using that assms(2,3) len by (simp_all add: chain_def length_blk)
    have "blk ?c i = BlockEncrypt tab (XorBytes (blk m i) (chain iv ?c i))" using e that by blast
    then have "BlockDecrypt tab (blk ?c i) = XorBytes (blk m i) (chain iv ?c i)"
      using BlockDecrypt_BlockEncrypt [OF _ assms(1), of "XorBytes (blk m i) (chain iv ?c i)"] l
      by (metis length_XorBytes min.idem)
    then show ?thesis using l by (simp only: XorBytes_twice)
  qed
  then have "map (\<lambda>i. XorBytes (BlockDecrypt tab (blk ?c i)) (chain iv ?c i)) [0..<n] = map (blk m) [0..<n]"
    by (intro map_cong) simp_all
  then have "concat (map (\<lambda>i. XorBytes (BlockDecrypt tab (blk ?c i)) (chain iv ?c i)) [0..<n]) = m"
    by (simp only: concat_blk [OF assms(2)])
  then show ?thesis using cbc_decrypt_blocks [OF len assms(3), of tab "[]"] by simp
qed

lemma length_key_word:
  assumes "length (fst x) = 4 * i" "4 \<le> i"
  shows "length (fst (key_word i x)) = 4 * Suc i"
  using assms by (cases x) (simp add: key_word_def Let_def RotationWord_def)

lemma length_key_expansion:
  assumes "16 \<le> length key"
  shows "length (key_expansion key) = 176"
proof -
  have "length (fst (fold key_word [4..<n] (take 16 key, 0x01))) = 4 * n" if "4 \<le> n" for n
    using that by (induction n rule: dec_induct) (simp_all add: length_key_word assms)
  from this [of 44] show ?thesis by (simp add: key_expansion_def)
qed

section \<open>The example of the standard\<close>

text \<open>
  Appendix C.1 of FIPS 197, evaluated step by step: four key words and one round at a time.
\<close>

definition fips_table :: bytes where
  "fips_table = [0x00, 0x01, 0x02, 0x03, 0x04, 0x05, 0x06, 0x07, 0x08, 0x09, 0x0a, 0x0b, 0x0c, 0x0d, 0x0e, 0x0f,
     0xd6, 0xaa, 0x74, 0xfd, 0xd2, 0xaf, 0x72, 0xfa, 0xda, 0xa6, 0x78, 0xf1, 0xd6, 0xab, 0x76, 0xfe,
     0xb6, 0x92, 0xcf, 0x0b, 0x64, 0x3d, 0xbd, 0xf1, 0xbe, 0x9b, 0xc5, 0x00, 0x68, 0x30, 0xb3, 0xfe,
     0xb6, 0xff, 0x74, 0x4e, 0xd2, 0xc2, 0xc9, 0xbf, 0x6c, 0x59, 0x0c, 0xbf, 0x04, 0x69, 0xbf, 0x41,
     0x47, 0xf7, 0xf7, 0xbc, 0x95, 0x35, 0x3e, 0x03, 0xf9, 0x6c, 0x32, 0xbc, 0xfd, 0x05, 0x8d, 0xfd,
     0x3c, 0xaa, 0xa3, 0xe8, 0xa9, 0x9f, 0x9d, 0xeb, 0x50, 0xf3, 0xaf, 0x57, 0xad, 0xf6, 0x22, 0xaa,
     0x5e, 0x39, 0x0f, 0x7d, 0xf7, 0xa6, 0x92, 0x96, 0xa7, 0x55, 0x3d, 0xc1, 0x0a, 0xa3, 0x1f, 0x6b,
     0x14, 0xf9, 0x70, 0x1a, 0xe3, 0x5f, 0xe2, 0x8c, 0x44, 0x0a, 0xdf, 0x4d, 0x4e, 0xa9, 0xc0, 0x26,
     0x47, 0x43, 0x87, 0x35, 0xa4, 0x1c, 0x65, 0xb9, 0xe0, 0x16, 0xba, 0xf4, 0xae, 0xbf, 0x7a, 0xd2,
     0x54, 0x99, 0x32, 0xd1, 0xf0, 0x85, 0x57, 0x68, 0x10, 0x93, 0xed, 0x9c, 0xbe, 0x2c, 0x97, 0x4e,
     0x13, 0x11, 0x1d, 0x7f, 0xe3, 0x94, 0x4a, 0x17, 0xf3, 0x07, 0xa7, 0x8b, 0x4d, 0x2b, 0x30, 0xc5]"

definition fips_key :: "nat \<Rightarrow> bytes" where
  "fips_key i = take (16 * Suc i) fips_table"

lemma fips_key_0: "fold key_word [4..<8] (fips_key 0, 0x01) = (fips_key 1, 0x02)"
  by code_simp

lemma fips_key_1: "fold key_word [8..<12] (fips_key 1, 0x02) = (fips_key 2, 0x04)"
  by code_simp

lemma fips_key_2: "fold key_word [12..<16] (fips_key 2, 0x04) = (fips_key 3, 0x08)"
  by code_simp

lemma fips_key_3: "fold key_word [16..<20] (fips_key 3, 0x08) = (fips_key 4, 0x10)"
  by code_simp

lemma fips_key_4: "fold key_word [20..<24] (fips_key 4, 0x10) = (fips_key 5, 0x20)"
  by code_simp

lemma fips_key_5: "fold key_word [24..<28] (fips_key 5, 0x20) = (fips_key 6, 0x40)"
  by code_simp

lemma fips_key_6: "fold key_word [28..<32] (fips_key 6, 0x40) = (fips_key 7, 0x80)"
  by code_simp

lemma fips_key_7: "fold key_word [32..<36] (fips_key 7, 0x80) = (fips_key 8, 0x1b)"
  by code_simp

lemma fips_key_8: "fold key_word [36..<40] (fips_key 8, 0x1b) = (fips_key 9, 0x36)"
  by code_simp

lemma fips_key_9: "fold key_word [40..<44] (fips_key 9, 0x36) = (fips_key 10, 0x6c)"
  by code_simp

lemma fips_round_1: "encrypt_round fips_table 1
    [0x00, 0x10, 0x20, 0x30, 0x40, 0x50, 0x60, 0x70, 0x80, 0x90, 0xa0, 0xb0, 0xc0, 0xd0, 0xe0, 0xf0] =
    [0x89, 0xd8, 0x10, 0xe8, 0x85, 0x5a, 0xce, 0x68, 0x2d, 0x18, 0x43, 0xd8, 0xcb, 0x12, 0x8f, 0xe4]"
  by code_simp

lemma fips_round_2: "encrypt_round fips_table 2
    [0x89, 0xd8, 0x10, 0xe8, 0x85, 0x5a, 0xce, 0x68, 0x2d, 0x18, 0x43, 0xd8, 0xcb, 0x12, 0x8f, 0xe4] =
    [0x49, 0x15, 0x59, 0x8f, 0x55, 0xe5, 0xd7, 0xa0, 0xda, 0xca, 0x94, 0xfa, 0x1f, 0x0a, 0x63, 0xf7]"
  by code_simp

lemma fips_round_3: "encrypt_round fips_table 3
    [0x49, 0x15, 0x59, 0x8f, 0x55, 0xe5, 0xd7, 0xa0, 0xda, 0xca, 0x94, 0xfa, 0x1f, 0x0a, 0x63, 0xf7] =
    [0xfa, 0x63, 0x6a, 0x28, 0x25, 0xb3, 0x39, 0xc9, 0x40, 0x66, 0x8a, 0x31, 0x57, 0x24, 0x4d, 0x17]"
  by code_simp

lemma fips_round_4: "encrypt_round fips_table 4
    [0xfa, 0x63, 0x6a, 0x28, 0x25, 0xb3, 0x39, 0xc9, 0x40, 0x66, 0x8a, 0x31, 0x57, 0x24, 0x4d, 0x17] =
    [0x24, 0x72, 0x40, 0x23, 0x69, 0x66, 0xb3, 0xfa, 0x6e, 0xd2, 0x75, 0x32, 0x88, 0x42, 0x5b, 0x6c]"
  by code_simp

lemma fips_round_5: "encrypt_round fips_table 5
    [0x24, 0x72, 0x40, 0x23, 0x69, 0x66, 0xb3, 0xfa, 0x6e, 0xd2, 0x75, 0x32, 0x88, 0x42, 0x5b, 0x6c] =
    [0xc8, 0x16, 0x77, 0xbc, 0x9b, 0x7a, 0xc9, 0x3b, 0x25, 0x02, 0x79, 0x92, 0xb0, 0x26, 0x19, 0x96]"
  by code_simp

lemma fips_round_6: "encrypt_round fips_table 6
    [0xc8, 0x16, 0x77, 0xbc, 0x9b, 0x7a, 0xc9, 0x3b, 0x25, 0x02, 0x79, 0x92, 0xb0, 0x26, 0x19, 0x96] =
    [0xc6, 0x2f, 0xe1, 0x09, 0xf7, 0x5e, 0xed, 0xc3, 0xcc, 0x79, 0x39, 0x5d, 0x84, 0xf9, 0xcf, 0x5d]"
  by code_simp

lemma fips_round_7: "encrypt_round fips_table 7
    [0xc6, 0x2f, 0xe1, 0x09, 0xf7, 0x5e, 0xed, 0xc3, 0xcc, 0x79, 0x39, 0x5d, 0x84, 0xf9, 0xcf, 0x5d] =
    [0xd1, 0x87, 0x6c, 0x0f, 0x79, 0xc4, 0x30, 0x0a, 0xb4, 0x55, 0x94, 0xad, 0xd6, 0x6f, 0xf4, 0x1f]"
  by code_simp

lemma fips_round_8: "encrypt_round fips_table 8
    [0xd1, 0x87, 0x6c, 0x0f, 0x79, 0xc4, 0x30, 0x0a, 0xb4, 0x55, 0x94, 0xad, 0xd6, 0x6f, 0xf4, 0x1f] =
    [0xfd, 0xe3, 0xba, 0xd2, 0x05, 0xe5, 0xd0, 0xd7, 0x35, 0x47, 0x96, 0x4e, 0xf1, 0xfe, 0x37, 0xf1]"
  by code_simp

lemma fips_round_9: "encrypt_round fips_table 9
    [0xfd, 0xe3, 0xba, 0xd2, 0x05, 0xe5, 0xd0, 0xd7, 0x35, 0x47, 0x96, 0x4e, 0xf1, 0xfe, 0x37, 0xf1] =
    [0xbd, 0x6e, 0x7c, 0x3d, 0xf2, 0xb5, 0x77, 0x9e, 0x0b, 0x61, 0x21, 0x6e, 0x8b, 0x10, 0xb6, 0x89]"
  by code_simp

lemma fips_round_10: "encrypt_round fips_table 10
    [0xbd, 0x6e, 0x7c, 0x3d, 0xf2, 0xb5, 0x77, 0x9e, 0x0b, 0x61, 0x21, 0x6e, 0x8b, 0x10, 0xb6, 0x89] =
    [0x69, 0xc4, 0xe0, 0xd8, 0x6a, 0x7b, 0x04, 0x30, 0xd8, 0xcd, 0xb7, 0x80, 0x70, 0xb4, 0xc5, 0x5a]"
  by code_simp

lemma upt_4: "[a..<a + 4 + n] = [a..<a + 4] @ [a + 4..<a + 4 + n]"
  by (rule upt_add_eq_append) simp

lemma fips_expansion: "key_expansion (fips_key 0) = fips_table"
proof -
  have "[4..<44] = [4..<8] @ [8..<12] @ [12..<16] @ [16..<20] @ [20..<24] @ [24..<28] @ [28..<32] @
      [32..<36] @ [36..<40] @ [40..<44::nat]"
    by code_simp
  moreover have "take 16 (fips_key 0) = fips_key 0" "fips_key 10 = fips_table"
    by (simp_all add: fips_key_def fips_table_def)
  ultimately show ?thesis
    by (simp only: key_expansion_def fold_append comp_apply fst_conv fips_key_0 fips_key_1 fips_key_2 fips_key_3 fips_key_4 fips_key_5 fips_key_6 fips_key_7 fips_key_8 fips_key_9)
qed

lemma fips_block:
  "BlockEncrypt fips_table [0x00, 0x11, 0x22, 0x33, 0x44, 0x55, 0x66, 0x77, 0x88, 0x99, 0xaa, 0xbb, 0xcc, 0xdd, 0xee, 0xff] =
    [0x69, 0xc4, 0xe0, 0xd8, 0x6a, 0x7b, 0x04, 0x30, 0xd8, 0xcd, 0xb7, 0x80, 0x70, 0xb4, 0xc5, 0x5a]"
proof -
  have "[1..<11] = [1, 2, 3, 4, 5, 6, 7, 8, 9, 10::nat]" by code_simp
  moreover have "AddRoundKey [0x00, 0x11, 0x22, 0x33, 0x44, 0x55, 0x66, 0x77, 0x88, 0x99, 0xaa, 0xbb, 0xcc, 0xdd, 0xee, 0xff] fips_table =
    [0x00, 0x10, 0x20, 0x30, 0x40, 0x50, 0x60, 0x70, 0x80, 0x90, 0xa0, 0xb0, 0xc0, 0xd0, 0xe0, 0xf0]"
    by code_simp
  ultimately show ?thesis
    by (simp only: BlockEncrypt_def fold_simps id_apply comp_apply
        fips_round_1 fips_round_2 fips_round_3 fips_round_4 fips_round_5 fips_round_6 fips_round_7 fips_round_8 fips_round_9 fips_round_10)
qed

lemma fips_197:
  "AES_Encrypt (AES_Init [0x00, 0x01, 0x02, 0x03, 0x04, 0x05, 0x06, 0x07, 0x08, 0x09, 0x0a, 0x0b, 0x0c, 0x0d, 0x0e, 0x0f]) (replicate 16 0)
     [0x00, 0x11, 0x22, 0x33, 0x44, 0x55, 0x66, 0x77, 0x88, 0x99, 0xaa, 0xbb, 0xcc, 0xdd, 0xee, 0xff] =
   [0x69, 0xc4, 0xe0, 0xd8, 0x6a, 0x7b, 0x04, 0x30, 0xd8, 0xcd, 0xb7, 0x80, 0x70, 0xb4, 0xc5, 0x5a]"
proof -
  have key: "[0x00, 0x01, 0x02, 0x03, 0x04, 0x05, 0x06, 0x07, 0x08, 0x09, 0x0a, 0x0b, 0x0c, 0x0d, 0x0e, 0x0f] = fips_key 0"
    by (simp add: fips_key_def fips_table_def)
  have "XorBytes [0x00, 0x11, 0x22, 0x33, 0x44, 0x55, 0x66, 0x77, 0x88, 0x99, 0xaa, 0xbb, 0xcc, 0xdd, 0xee, 0xff] (replicate 16 0) =
      [0x00, 0x11, 0x22, 0x33, 0x44, 0x55, 0x66, 0x77, 0x88, 0x99, 0xaa, 0xbb, 0xcc, 0xdd, 0xee, 0xff]"
    by code_simp
  then show ?thesis
    unfolding AES_Encrypt_def AES_Init_def key fips_expansion by (simp add: fips_block)
qed

lemma fips_decrypt:
  "BlockDecrypt (AES_Init [0x00, 0x01, 0x02, 0x03, 0x04, 0x05, 0x06, 0x07, 0x08, 0x09, 0x0a, 0x0b, 0x0c, 0x0d, 0x0e, 0x0f])
     [0x69, 0xc4, 0xe0, 0xd8, 0x6a, 0x7b, 0x04, 0x30, 0xd8, 0xcd, 0xb7, 0x80, 0x70, 0xb4, 0xc5, 0x5a] =
   [0x00, 0x11, 0x22, 0x33, 0x44, 0x55, 0x66, 0x77, 0x88, 0x99, 0xaa, 0xbb, 0xcc, 0xdd, 0xee, 0xff]"
proof -
  have key: "[0x00, 0x01, 0x02, 0x03, 0x04, 0x05, 0x06, 0x07, 0x08, 0x09, 0x0a, 0x0b, 0x0c, 0x0d, 0x0e, 0x0f] = fips_key 0"
    by (simp add: fips_key_def fips_table_def)
  have "length fips_table = 176" by (simp add: fips_table_def)
  from BlockDecrypt_BlockEncrypt [OF _ this, of "[0x00, 0x11, 0x22, 0x33, 0x44, 0x55, 0x66, 0x77, 0x88, 0x99, 0xaa, 0xbb, 0xcc, 0xdd, 0xee, 0xff]"] show ?thesis
    unfolding AES_Init_def key fips_expansion by (simp add: fips_block)
qed

section \<open>Properties\<close>

lemma AES_Decrypt_Encrypt:
  assumes "length key = 16" "length iv = 16" "16 dvd length m"
  shows "AES_Decrypt (AES_Init key) iv (AES_Encrypt (AES_Init key) iv m) = m"
    and "length (AES_Encrypt (AES_Init key) iv m) = length m"
proof -
  have tab: "length (key_expansion key) = 176" using assms by (simp add: length_key_expansion)
  have len: "length (cbc_encrypt (key_expansion key) (length m div 16) iv m) = length m"
    using cbc_encrypt_blocks [OF tab, of m "length m div 16" iv] assms by simp
  then show "length (AES_Encrypt (AES_Init key) iv m) = length m"
    using assms by (simp add: AES_Encrypt_def AES_Init_def)
  show "AES_Decrypt (AES_Init key) iv (AES_Encrypt (AES_Init key) iv m) = m"
    using cbc_roundtrip [OF tab, of m "length m div 16" iv] assms len
    by (simp add: AES_Decrypt_def AES_Encrypt_def AES_Init_def)
qed

text \<open>Decryption keeps the length of every message, whole blocks or not.\<close>

lemma length_decrypt_round:
  "length s = 16 \<Longrightarrow> length tab = 176 \<Longrightarrow> i \<le> 10 \<Longrightarrow> length (decrypt_round tab i s) = 16"
proof -
  assume a: "length s = 16" "length tab = 176" "i \<le> 10"
  then have "16 \<le> length (drop (16 * (i - 1)) tab)" by (cases i) auto
  then show ?thesis using a by (simp add: decrypt_round_def length_AddRoundKey Let_def)
qed

lemma length_BlockDecrypt: "length s = 16 \<Longrightarrow> length tab = 176 \<Longrightarrow> length (BlockDecrypt tab s) = 16"
proof -
  assume a: "length s = 16" "length tab = 176"
  have "\<forall>i \<in> set is. i \<le> 10 \<Longrightarrow> length x = 16 \<Longrightarrow> length (fold (decrypt_round tab) is x) = 16" for "is" x
    by (induction "is" arbitrary: x) (simp_all add: length_decrypt_round a(2))
  then show ?thesis unfolding BlockDecrypt_def using a by (simp add: length_AddRoundKey)
qed

lemma length_cbc_decrypt:
  "length tab = 176 \<Longrightarrow> length iv = 16 \<Longrightarrow> n = 0 \<or> 16 * n \<le> pos + 16 \<and> pos + 16 \<le> length m \<Longrightarrow>
   length (cbc_decrypt tab n iv pos m) = length m"
proof (induction n arbitrary: pos m)
  case (Suc n)
  then have p: "pos + 16 \<le> length m" "16 * n \<le> pos" by auto
  let ?m = "take pos m @ XorBytes (BlockDecrypt tab (take 16 (drop pos m)))
    (if n = 0 then iv else take 16 (drop (pos - 16) m)) @ drop (pos + 16) m"
  have "length ?m = length m"
    using p Suc.prems by (auto simp: length_BlockDecrypt)
  then show ?case using Suc.IH [of "pos - 16" ?m] Suc.prems p by (auto simp: Let_def)
qed simp

lemma length_AES_Decrypt:
  "length key = 16 \<Longrightarrow> length iv = 16 \<Longrightarrow> length (AES_Decrypt (AES_Init key) iv m) = length m"
  unfolding AES_Decrypt_def AES_Init_def
  by (rule length_cbc_decrypt) (auto simp: length_key_expansion)

text \<open>
  Claim C12.  For every key, start vector and message of whole blocks the decryption undoes the
  encryption, in both copies of the code.  The PKCS7 padding of the DM101 copy makes whole blocks of
  every text, of the size announced, and decrypting such a text and removing the padding gives
  back the text.
\<close>

theorem aes_roundtrip:
  assumes key: "length key = 16" "length iv = 16"
  shows "(16 dvd length m \<longrightarrow> AES_Decrypt (AES_Init key) iv (AES_Encrypt (AES_Init key) iv m) = m) \<and>
    length (PKCS7_EnPadding t) = PKCS7_EnPadding_totalsize (length t) \<and>
    (let m' = DM_AES_Decrypt (DM_AES_Init key) iv (DM_AES_Encrypt (DM_AES_Init key) iv (PKCS7_EnPadding t))
     in \<exists>n. PKCS7_DePadding m' = Ret n \<and> take n m' = t)"
proof -
  have tab: "length (key_expansion key) = 176" using key by (simp add: length_key_expansion)
  have rt: "cbc_decrypt (key_expansion key) (length (cbc_encrypt (key_expansion key) (length x div 16) iv x) div 16) iv
      (length (cbc_encrypt (key_expansion key) (length x div 16) iv x) - 16)
      (cbc_encrypt (key_expansion key) (length x div 16) iv x) = x" if "16 dvd length x" for x
    using cbc_roundtrip [OF tab, of x "length x div 16" iv]
      conjunct1 [OF cbc_encrypt_blocks [OF tab, of x "length x div 16" iv]] that key by simp
  define k where "k = 16 - length t mod 16"
  have k: "1 \<le> k" "k \<le> 16" by (simp_all add: k_def Suc_le_eq)
  have pad: "PKCS7_EnPadding t = t @ replicate k (of_nat k)" by (simp add: PKCS7_EnPadding_def k_def Let_def)
  have "length t + k = 16 * (length t div 16 + 1)"
    unfolding k_def by presburger
  then have "16 dvd length (PKCS7_EnPadding t)" by (simp add: pad)
  note inverse = rt [OF this]
  have "rd (PKCS7_EnPadding t) (int (length (PKCS7_EnPadding t)) - 1) = Ret (of_nat k)"
  proof (cases k)
    case (Suc j)
    then show ?thesis
      using rd_nat [of "length t + j" "PKCS7_EnPadding t"] by (simp add: pad nth_append del: replicate_Suc)
  qed (use k in simp)
  moreover have "(of_nat k :: u8) \<le> 16" "unat (of_nat k :: u8) = k"
    using k by (simp_all add: word_le_nat_alt unat_of_nat_small')
  ultimately have "PKCS7_DePadding (PKCS7_EnPadding t) = Ret (length t)"
    using k by (simp add: PKCS7_DePadding_def pad)
  moreover have "take (length t) (PKCS7_EnPadding t) = t" by (simp add: pad)
  moreover have "length (PKCS7_EnPadding t) = PKCS7_EnPadding_totalsize (length t)"
    by (simp add: pad k_def PKCS7_EnPadding_totalsize_def)
  ultimately show ?thesis
    using rt [of m] inverse key
    by (simp add: AES_Decrypt_def AES_Encrypt_def AES_Init_def DM_AES_Decrypt_def DM_AES_Encrypt_def
        DM_AES_Init_def Let_def)
qed

theorem aes_roundtrip_witness:
  "AES_Decrypt (AES_Init (replicate 16 1)) (replicate 16 2)
     (AES_Encrypt (AES_Init (replicate 16 1)) (replicate 16 2) (replicate 32 3)) = replicate 32 3"
  using aes_roundtrip [of "replicate 16 1" "replicate 16 2" "replicate 32 3"] by simp

text \<open>
  The decryption table inverts the encryption table on every byte, and the example of FIPS 197
  (appendix C.1), encrypted as one block with a start vector of zeros, gives the published block and is
  decrypted to its text.
\<close>

theorem aes_standard:
  "(\<forall>b. InvSBox ! unat (SBox ! unat b) = b) \<and>
   (let key = [0x00, 0x01, 0x02, 0x03, 0x04, 0x05, 0x06, 0x07, 0x08, 0x09, 0x0a, 0x0b, 0x0c, 0x0d, 0x0e, 0x0f];
        text = [0x00, 0x11, 0x22, 0x33, 0x44, 0x55, 0x66, 0x77, 0x88, 0x99, 0xaa, 0xbb, 0xcc, 0xdd, 0xee, 0xff]
    in AES_Encrypt (AES_Init key) (replicate 16 0) text =
         [0x69, 0xc4, 0xe0, 0xd8, 0x6a, 0x7b, 0x04, 0x30, 0xd8, 0xcd, 0xb7, 0x80, 0x70, 0xb4, 0xc5, 0x5a] \<and>
       BlockDecrypt (AES_Init key)
         [0x69, 0xc4, 0xe0, 0xd8, 0x6a, 0x7b, 0x04, 0x30, 0xd8, 0xcd, 0xb7, 0x80, 0x70, 0xb4, 0xc5, 0x5a] = text)"
  unfolding Let_def by (intro conjI allI InvSBox_SBox fips_197 fips_decrypt)

end
