(* ===== verification/Md5.thy ===== *)
theory Md5
  imports Prelude
begin

text \<open>
  The message digest MD5, \<open>sdccp/cc_md5.c\<close> and \<open>cc_md5.h\<close>, with which the gateway proves to the BJDC
  platform that it knows the common key.  The code keeps a context to which bytes are added in pieces
  of any length; the specification here is the one of RFC 1321 on the whole message.
\<close>

section \<open>The code\<close>

record md5_ctx =
  md_i :: "u32 list"
  md_buf :: "u32 list"
  md_in :: bytes
  md_digest :: bytes

definition PADDING :: bytes where
  "PADDING = 0x80 # replicate 63 0"

definition md_F :: "u32 \<Rightarrow> u32 \<Rightarrow> u32 \<Rightarrow> u32" where "md_F x y z = (x AND y) OR (NOT x AND z)"
definition md_G :: "u32 \<Rightarrow> u32 \<Rightarrow> u32 \<Rightarrow> u32" where "md_G x y z = (x AND z) OR (y AND NOT z)"
definition md_H :: "u32 \<Rightarrow> u32 \<Rightarrow> u32 \<Rightarrow> u32" where "md_H x y z = x XOR y XOR z"
definition md_I :: "u32 \<Rightarrow> u32 \<Rightarrow> u32 \<Rightarrow> u32" where "md_I x y z = y XOR (x OR NOT z)"

definition ROTATE_LEFT :: "u32 \<Rightarrow> nat \<Rightarrow> u32" where
  "ROTATE_LEFT x n = push_bit n x OR drop_bit (32 - n) x"

text \<open>
  The macros \<open>FF\<close>, \<open>GG\<close>, \<open>HH\<close>, \<open>II\<close> change one of the registers a, b, c, d, which are the positions 0 to 3
  here; the other three arguments are the registers that follow it cyclically.
\<close>

definition md_macro :: "(u32 \<Rightarrow> u32 \<Rightarrow> u32 \<Rightarrow> u32) \<Rightarrow> u32 list \<Rightarrow> nat \<times> nat \<times> nat \<times> u32 \<Rightarrow> u32 list \<Rightarrow> u32 list" where
  "md_macro f x row v =
     (case row of (r, k, s, ac) \<Rightarrow>
        let b = v ! ((r + 1) mod 4); c = v ! ((r + 2) mod 4); d = v ! ((r + 3) mod 4);
            a = v ! r + f b c d + x ! k + ac
        in v[r := ROTATE_LEFT a s + b])"

text \<open>The lines of \<open>Transform\<close>: register, word of the block, shift, constant.\<close>

definition md_round1 :: "(nat \<times> nat \<times> nat \<times> u32) list" where
  "md_round1 =
    [(0, 0, 7, 3614090360), (3, 1, 12, 3905402710), (2, 2, 17, 606105819), (1, 3, 22, 3250441966),
     (0, 4, 7, 4118548399), (3, 5, 12, 1200080426), (2, 6, 17, 2821735955), (1, 7, 22, 4249261313),
     (0, 8, 7, 1770035416), (3, 9, 12, 2336552879), (2, 10, 17, 4294925233), (1, 11, 22, 2304563134),
     (0, 12, 7, 1804603682), (3, 13, 12, 4254626195), (2, 14, 17, 2792965006), (1, 15, 22, 1236535329)]"

definition md_round2 :: "(nat \<times> nat \<times> nat \<times> u32) list" where
  "md_round2 =
    [(0, 1, 5, 4129170786), (3, 6, 9, 3225465664), (2, 11, 14, 643717713), (1, 0, 20, 3921069994),
     (0, 5, 5, 3593408605), (3, 10, 9, 38016083), (2, 15, 14, 3634488961), (1, 4, 20, 3889429448),
     (0, 9, 5, 568446438), (3, 14, 9, 3275163606), (2, 3, 14, 4107603335), (1, 8, 20, 1163531501),
     (0, 13, 5, 2850285829), (3, 2, 9, 4243563512), (2, 7, 14, 1735328473), (1, 12, 20, 2368359562)]"

definition md_round3 :: "(nat \<times> nat \<times> nat \<times> u32) list" where
  "md_round3 =
    [(0, 5, 4, 4294588738), (3, 8, 11, 2272392833), (2, 11, 16, 1839030562), (1, 14, 23, 4259657740),
     (0, 1, 4, 2763975236), (3, 4, 11, 1272893353), (2, 7, 16, 4139469664), (1, 10, 23, 3200236656),
     (0, 13, 4, 681279174), (3, 0, 11, 3936430074), (2, 3, 16, 3572445317), (1, 6, 23, 76029189),
     (0, 9, 4, 3654602809), (3, 12, 11, 3873151461), (2, 15, 16, 530742520), (1, 2, 23, 3299628645)]"

definition md_round4 :: "(nat \<times> nat \<times> nat \<times> u32) list" where
  "md_round4 =
    [(0, 0, 6, 4096336452), (3, 7, 10, 1126891415), (2, 14, 15, 2878612391), (1, 5, 21, 4237533241),
     (0, 12, 6, 1700485571), (3, 3, 10, 2399980690), (2, 10, 15, 4293915773), (1, 1, 21, 2240044497),
     (0, 8, 6, 1873313359), (3, 15, 10, 4264355552), (2, 6, 15, 2734768916), (1, 13, 21, 1309151649),
     (0, 4, 6, 4149444226), (3, 11, 10, 3174756917), (2, 2, 15, 718787259), (1, 9, 21, 3951481745)]"

definition Transform :: "u32 list \<Rightarrow> u32 list \<Rightarrow> u32 list" where
  "Transform buf x =
     (let v = fold (md_macro md_I x) md_round4 (fold (md_macro md_H x) md_round3
                (fold (md_macro md_G x) md_round2 (fold (md_macro md_F x) md_round1 buf)))
      in map2 (+) buf v)"

definition CC_MD5Init :: "md5_ctx \<Rightarrow> md5_ctx" where
  "CC_MD5Init c = c\<lparr>md_i := [0, 0], md_buf := [0x67452301, 0xefcdab89, 0x98badcfe, 0x10325476]\<rparr>"

text \<open>The first words of a piece of memory, least significant byte first.\<close>

definition md_words :: "nat \<Rightarrow> bytes \<Rightarrow> u32 list" where
  "md_words n m = map (\<lambda>i. push_bit 24 (ucast (m ! (4 * i + 3))) OR push_bit 16 (ucast (m ! (4 * i + 2))) OR
     push_bit 8 (ucast (m ! (4 * i + 1))) OR ucast (m ! (4 * i))) [0..<n]"

fun md_loop :: "bytes \<Rightarrow> nat \<Rightarrow> md5_ctx \<Rightarrow> md5_ctx" where
  "md_loop [] mdi c = c"
| "md_loop (b # inBuf) mdi c =
     (let m = (md_in c)[mdi := b] in
      if mdi + 1 = 0x40
      then md_loop inBuf 0 (c\<lparr>md_in := m, md_buf := Transform (md_buf c) (md_words 16 m)\<rparr>)
      else md_loop inBuf (mdi + 1) (c\<lparr>md_in := m\<rparr>))"

definition md_mdi :: "md5_ctx \<Rightarrow> nat" where
  "md_mdi c = unat (drop_bit 3 (md_i c ! 0) AND 0x3F)"

definition CC_MD5Update :: "bytes \<Rightarrow> md5_ctx \<Rightarrow> md5_ctx" where
  "CC_MD5Update inBuf c =
     (let inLen = of_nat (length inBuf) :: u32;
          i0 = md_i c ! 0; i1 = md_i c ! 1;
          j1 = (if i0 + push_bit 3 inLen < i0 then i1 + 1 else i1)
      in md_loop inBuf (md_mdi c) (c\<lparr>md_i := [i0 + push_bit 3 inLen, j1 + drop_bit 29 inLen]\<rparr>))"

definition CC_MD5Final :: "md5_ctx \<Rightarrow> md5_ctx" where
  "CC_MD5Final c =
     (let mdi = md_mdi c;
          padLen = (if mdi < 56 then 56 - mdi else 120 - mdi);
          c1 = CC_MD5Update (take padLen PADDING) c;
          buf = Transform (md_buf c1) (md_words 14 (md_in c1) @ md_i c)
      in c1\<lparr>md_buf := buf, md_digest := concat (map le32 buf)\<rparr>)"

text \<open>The common use: a context on the stack, the pieces, the digest.\<close>

definition md5_of :: "md5_ctx \<Rightarrow> bytes list \<Rightarrow> bytes" where
  "md5_of c pieces = md_digest (CC_MD5Final (fold CC_MD5Update pieces (CC_MD5Init c)))"

section \<open>RFC 1321\<close>

text \<open>
  The specification numbers the 64 steps of a block, computes word and shift of each from its number
  and passes the four registers on in rotation.  The additive constants, which the standard defines
  by a sine, are taken from the code.
\<close>

definition rfc_f :: "nat \<Rightarrow> u32 \<Rightarrow> u32 \<Rightarrow> u32 \<Rightarrow> u32" where
  "rfc_f i = (if i < 16 then md_F else if i < 32 then md_G else if i < 48 then md_H else md_I)"

definition rfc_k :: "nat \<Rightarrow> nat" where
  "rfc_k i = (if i < 16 then i else if i < 32 then (5 * i + 1) mod 16
              else if i < 48 then (3 * i + 5) mod 16 else 7 * i mod 16)"

definition rfc_s :: "nat \<Rightarrow> nat" where
  "rfc_s i = [[7, 12, 17, 22], [5, 9, 14, 20], [4, 11, 16, 23], [6, 10, 15, 21]] ! (i div 16) ! (i mod 4)"

definition rfc_T :: "nat \<Rightarrow> u32" where
  "rfc_T i =
     (let r = (if i < 16 then md_round1 else if i < 32 then md_round2 else if i < 48 then md_round3 else md_round4)
      in (case r ! (i mod 16) of (_, _, _, ac) \<Rightarrow> ac))"

definition rfc_step :: "u32 list \<Rightarrow> nat \<Rightarrow> u32 \<times> u32 \<times> u32 \<times> u32 \<Rightarrow> u32 \<times> u32 \<times> u32 \<times> u32" where
  "rfc_step x i = (\<lambda>(a, b, c, d). (d, b + ROTATE_LEFT (a + rfc_f i b c d + x ! rfc_k i + rfc_T i) (rfc_s i), b, c))"

definition rfc_compress :: "u32 list \<Rightarrow> u32 list \<Rightarrow> u32 list" where
  "rfc_compress x v =
     (case fold (rfc_step x) [0..<64] (v ! 0, v ! 1, v ! 2, v ! 3) of
        (a, b, c, d) \<Rightarrow> [v ! 0 + a, v ! 1 + b, v ! 2 + c, v ! 3 + d])"

text \<open>All whole blocks of a message.\<close>

fun rfc_blocks :: "u32 list \<Rightarrow> bytes \<Rightarrow> u32 list" where
  "rfc_blocks v m = (if length m < 64 then v else rfc_blocks (rfc_compress (md_words 16 m) v) (drop 64 m))"

declare rfc_blocks.simps [simp del]

text \<open>A one bit, zeros up to 56 bytes modulo 64, and the length in bits as 64 bit integer.\<close>

definition rfc_pad :: "bytes \<Rightarrow> bytes" where
  "rfc_pad m = m @ [0x80] @ replicate ((119 - length m mod 64) mod 64) 0 @
     le32 (of_nat (8 * length m)) @ le32 (of_nat (8 * length m div 2 ^ 32))"

definition rfc_md5 :: "bytes \<Rightarrow> bytes" where
  "rfc_md5 m =
     concat (map le32 (rfc_blocks [0x67452301, 0xefcdab89, 0x98badcfe, 0x10325476] (rfc_pad m)))"

section \<open>The code transforms blocks like the standard\<close>

definition md_reg :: "nat \<Rightarrow> nat" where "md_reg i = (64 - i) mod 4"

definition md_row :: "nat \<Rightarrow> nat \<times> nat \<times> nat \<times> u32" where
  "md_row i = (md_reg i, rfc_k i, rfc_s i, rfc_T i)"

lemma upt_blocks:
  "[0..<16] = [0, 1, 2, 3, 4, 5, 6, 7, 8, 9, 10, 11, 12, 13, 14, 15]"
  "[16..<32] = [16, 17, 18, 19, 20, 21, 22, 23, 24, 25, 26, 27, 28, 29, 30, 31]"
  "[32..<48] = [32, 33, 34, 35, 36, 37, 38, 39, 40, 41, 42, 43, 44, 45, 46, 47]"
  "[48..<64] = [48, 49, 50, 51, 52, 53, 54, 55, 56, 57, 58, 59, 60, 61, 62, 63]"
  by (simp_all add: upt_rec)

lemma md_columns:
  "map (\<lambda>(r, k, s, ac). (r, k, s)) md_round1 = map (\<lambda>i. (md_reg i, rfc_k i, rfc_s i)) [0..<16]"
  "map (\<lambda>(r, k, s, ac). (r, k, s)) md_round2 = map (\<lambda>i. (md_reg i, rfc_k i, rfc_s i)) [16..<32]"
  "map (\<lambda>(r, k, s, ac). (r, k, s)) md_round3 = map (\<lambda>i. (md_reg i, rfc_k i, rfc_s i)) [32..<48]"
  "map (\<lambda>(r, k, s, ac). (r, k, s)) md_round4 = map (\<lambda>i. (md_reg i, rfc_k i, rfc_s i)) [48..<64]"
  unfolding upt_blocks md_round1_def md_round2_def md_round3_def md_round4_def
  by (simp_all add: md_reg_def rfc_k_def rfc_s_def)

lemma md_rounds_aux:
  assumes hi: "hi = lo + 16"
    and cols: "map (\<lambda>(r, k, s, ac). (r, k, s)) R = map (\<lambda>i. (md_reg i, rfc_k i, rfc_s i)) [lo..<hi]"
    and ac: "\<And>i. i < 16 \<Longrightarrow> rfc_T (lo + i) = (case R ! i of (_, _, _, ac) \<Rightarrow> ac)"
  shows "R = map md_row [lo..<hi]"
proof (rule nth_equalityI)
  show len: "length R = length (map md_row [lo..<hi])"
    using arg_cong [OF cols, of length] by simp
  fix i assume i: "i < length R"
  then have "(case R ! i of (r, k, s, ac) \<Rightarrow> (r, k, s)) = (md_reg (lo + i), rfc_k (lo + i), rfc_s (lo + i))"
    using arg_cong [OF cols, of "\<lambda>l. l ! i"] len hi by simp
  then show "R ! i = map md_row [lo..<hi] ! i"
    using ac [of i] i len hi by (cases "R ! i") (simp add: md_row_def)
qed

lemma mod_16: "(32 + i) mod 16 = i mod 16" "(48 + i) mod 16 = i mod 16" for i :: nat
  using mod_mult_self3 [of 2 16 i] mod_mult_self3 [of 3 16 i] by simp_all

lemma md_rounds: "md_round1 = map md_row [0..<16]" "md_round2 = map md_row [16..<32]"
    "md_round3 = map md_row [32..<48]" "md_round4 = map md_row [48..<64]"
  by (rule md_rounds_aux [OF _ md_columns(1)]; simp add: rfc_T_def)
     (rule md_rounds_aux [OF _ md_columns(2)] md_rounds_aux [OF _ md_columns(3)]
        md_rounds_aux [OF _ md_columns(4)]; simp add: rfc_T_def mod_16)+

definition md_rot :: "nat \<Rightarrow> u32 list \<Rightarrow> u32 \<times> u32 \<times> u32 \<times> u32" where
  "md_rot i v = (v ! md_reg i, v ! ((md_reg i + 1) mod 4), v ! ((md_reg i + 2) mod 4), v ! ((md_reg i + 3) mod 4))"

lemma md_step:
  assumes v: "length v = 4" and i: "i < 64"
  shows "rfc_step x i (md_rot i v) = md_rot (Suc i) (md_macro (rfc_f i) x (md_row i) v)"
    and "length (md_macro (rfc_f i) x (md_row i) v) = 4"
proof -
  obtain a b c d where eq: "v = [a, b, c, d]" using v by (auto simp: numeral_eq_Suc length_Suc_conv)
  have "md_reg i \<in> {0, 1, 2, 3}" by (auto simp: md_reg_def)
  moreover have "md_reg (Suc i) = (md_reg i + 3) mod 4"
  proof -
    have "m mod 4 = (Suc m mod 4 + 3) mod 4" for m :: nat by presburger
    moreover have "64 - i = Suc (64 - Suc i)" using i by simp
    ultimately show ?thesis by (simp only: md_reg_def)
  qed
  ultimately show "rfc_step x i (md_rot i v) = md_rot (Suc i) (md_macro (rfc_f i) x (md_row i) v)"
    unfolding eq by (auto simp: md_rot_def md_macro_def md_row_def rfc_step_def Let_def add.commute)
qed (use v in \<open>simp add: md_macro_def md_row_def Let_def\<close>)

lemma md_steps:
  assumes v: "length v = 4" and n: "n \<le> 64"
  shows "fold (rfc_step x) [0..<n] (md_rot 0 v) = md_rot n (fold (\<lambda>i. md_macro (rfc_f i) x (md_row i)) [0..<n] v) \<and>
    length (fold (\<lambda>i. md_macro (rfc_f i) x (md_row i)) [0..<n] v) = 4"
  using n by (induction n) (use v md_step in \<open>auto\<close>)

lemma md_fold_round:
  assumes "\<And>i. i \<in> set is \<Longrightarrow> rfc_f i = f"
  shows "fold (md_macro f x) (map md_row is) v = fold (\<lambda>i. md_macro (rfc_f i) x (md_row i)) is v"
  using assms by (simp add: fold_map comp_def cong: fold_cong)

lemma md_map2: "length v = 4 \<Longrightarrow> length w = 4 \<Longrightarrow>
    map2 (+) v w = [v ! 0 + w ! 0, v ! 1 + w ! 1, v ! 2 + w ! 2, v ! 3 + w ! (3::nat) :: u32]"
  by (auto simp: numeral_eq_Suc length_Suc_conv)

lemma Transform_rfc:
  assumes v: "length v = 4"
  shows "Transform v x = rfc_compress x v"
proof -
  let ?g = "\<lambda>i. md_macro (rfc_f i) x (md_row i)"
  have f: "\<And>i. i \<in> set [0..<16] \<Longrightarrow> rfc_f i = md_F" "\<And>i. i \<in> set [16..<32] \<Longrightarrow> rfc_f i = md_G"
    "\<And>i. i \<in> set [32..<48] \<Longrightarrow> rfc_f i = md_H" "\<And>i. i \<in> set [48..<64] \<Longrightarrow> rfc_f i = md_I"
    by (simp_all only: set_upt atLeastLessThan_iff rfc_f_def, simp_all)
  have "[0..<64] = [0..<16] @ [16..<32] @ [32..<48] @ [48..<64]"
    by (simp only: upt_add_eq_append [of 0 16 48, simplified] upt_add_eq_append [of 16 32 32, simplified]
        upt_add_eq_append [of 32 48 16, simplified]) simp
  then have "fold (md_macro md_I x) md_round4 (fold (md_macro md_H x) md_round3
      (fold (md_macro md_G x) md_round2 (fold (md_macro md_F x) md_round1 v))) = fold ?g [0..<64] v"
    by (simp only: md_rounds md_fold_round [OF f(1)] md_fold_round [OF f(2)] md_fold_round [OF f(3)]
        md_fold_round [OF f(4)] fold_append comp_def)
  moreover define w where "w = fold ?g [0..<64] v"
  moreover have "fold (rfc_step x) [0..<64] (md_rot 0 v) = md_rot 64 w" "length w = 4"
    using md_steps [OF v, of 64 x] by (simp_all only: w_def order_refl simp_thms)
  moreover have "md_rot 0 v = (v ! 0, v ! 1, v ! 2, v ! 3)" "md_rot 64 w = (w ! 0, w ! 1, w ! 2, w ! 3)"
    by (simp_all add: md_rot_def md_reg_def) (simp_all add: numeral_2_eq_2)
  ultimately show ?thesis
    by (simp only: Transform_def rfc_compress_def Let_def prod.case) (rule md_map2 [OF v])
qed

section \<open>The context while bytes are added\<close>

lemma length_Transform: "length v = 4 \<Longrightarrow> length (Transform v x) = 4"
  by (simp add: Transform_rfc rfc_compress_def split: prod.split)

text \<open>Blocks of a message with a rest that is no block.\<close>

lemma rfc_blocks_rest: "length r < 64 \<Longrightarrow> rfc_blocks v r = v"
  by (simp add: rfc_blocks.simps)

lemma rfc_blocks_append:
  assumes "64 dvd length m"
  shows "rfc_blocks v (m @ x) = rfc_blocks (rfc_blocks v m) x"
  using assms
proof (induction "length m div 64" arbitrary: m v)
  case 0
  then have "m = []" by (auto elim!: dvdE)
  then show ?case by (simp add: rfc_blocks_rest)
next
  case (Suc n)
  then have l: "64 \<le> length m" by (auto elim!: dvdE)
  have w: "md_words 16 (m @ x) = md_words 16 m" using l by (simp add: md_words_def nth_append)
  have "n = length (drop 64 m) div 64" "64 dvd length (drop 64 m)" using Suc.hyps(2) Suc.prems l by auto
  from Suc.hyps(1) [OF this, of "rfc_compress (md_words 16 m) v"] show ?case
    using l by (simp add: rfc_blocks.simps [of v "m @ x"] rfc_blocks.simps [of v m] w)
qed

lemma rfc_blocks_one: "length x = 64 \<Longrightarrow> rfc_blocks v x = rfc_compress (md_words 16 x) v"
  by (simp add: rfc_blocks.simps [of v x] rfc_blocks_rest)

text \<open>The context holds the blocks so far in the registers and the rest in the buffer.\<close>

definition md_holds :: "u32 list \<Rightarrow> bytes \<Rightarrow> md5_ctx \<Rightarrow> bool" where
  "md_holds v m c \<longleftrightarrow> length (md_in c) = 64 \<and> length (md_buf c) = 4 \<and>
     (\<exists>full rest. m = full @ rest \<and> 64 dvd length full \<and> length rest < 64 \<and>
        md_buf c = rfc_blocks v full \<and> take (length rest) (md_in c) = rest)"

lemma md_loop_holds:
  "md_holds v m c \<Longrightarrow> mdi = length m mod 64 \<Longrightarrow>
   md_holds v (m @ bs) (md_loop bs mdi c) \<and> md_i (md_loop bs mdi c) = md_i c"
proof (induction bs arbitrary: m mdi c)
  case (Cons b bs)
  obtain full rest where h: "length (md_in c) = 64" "length (md_buf c) = 4" "m = full @ rest"
    "64 dvd length full" "length rest < 64" "md_buf c = rfc_blocks v full" "take (length rest) (md_in c) = rest"
    using Cons.prems(1) by (auto simp: md_holds_def)
  have mdi: "mdi = length rest" using Cons.prems(2) h by (auto elim!: dvdE)
  have tk: "take (Suc mdi) ((md_in c)[mdi := b]) = rest @ [b]"
    using h mdi by (simp add: take_Suc_conv_app_nth)
  show ?case
  proof (cases "mdi + 1 = 64")
    case True
    let ?m = "(md_in c)[mdi := b]"
    let ?c = "c\<lparr>md_in := ?m, md_buf := Transform (md_buf c) (md_words 16 ?m)\<rparr>"
    have m: "?m = rest @ [b]" using tk True h by (metis Suc_eq_plus1 length_list_update take_all order_refl)
    have "md_holds v (m @ [b]) ?c"
      unfolding md_holds_def
    proof (intro conjI exI)
      show "m @ [b] = (full @ rest @ [b]) @ []" using h by simp
      show "md_buf ?c = rfc_blocks v (full @ rest @ [b])"
        using h True mdi m by (simp add: rfc_blocks_append rfc_blocks_one Transform_rfc)
    qed (use h True mdi m in \<open>auto simp: length_Transform\<close>)
    moreover have "0 = length (m @ [b]) mod 64" using h True mdi by (auto elim!: dvdE)
    ultimately show ?thesis using Cons.IH [of "m @ [b]" ?c 0] True by (simp add: Let_def)
  next
    case False
    let ?c = "c\<lparr>md_in := (md_in c)[mdi := b]\<rparr>"
    have "md_holds v (m @ [b]) ?c"
      unfolding md_holds_def
    proof (intro conjI exI)
      show "m @ [b] = full @ (rest @ [b])" using h by simp
    qed (use h False mdi tk in auto)
    moreover have "mdi + 1 = length (m @ [b]) mod 64" using h False mdi by (auto elim!: dvdE)
    ultimately show ?thesis using Cons.IH [of "m @ [b]" ?c "mdi + 1"] False by (simp add: Let_def)
  qed
qed simp

section \<open>The 64 bit length\<close>

definition md_counts :: "nat \<Rightarrow> md5_ctx \<Rightarrow> bool" where
  "md_counts n c \<longleftrightarrow> md_i c = [of_nat (8 * n), of_nat (8 * n div 2 ^ 32)]"

lemma md_mdi: "md_counts n c \<Longrightarrow> md_mdi c = n mod 64"
proof -
  assume c: "md_counts n c"
  have "(0x3F :: u32) = mask 6" by (simp add: mask_eq_decr_exp)
  then have "md_mdi c = unat (take_bit 6 (drop_bit 3 (of_nat (8 * n) :: u32)))"
    using c by (simp add: md_mdi_def md_counts_def take_bit_eq_mask)
  also have "\<dots> = 8 * n mod 2 ^ 32 div 8 mod 64"
    by (simp add: take_bit_eq_mod drop_bit_eq_div unat_div_distrib unat_mod_distrib unat_of_nat del: of_nat_mult)
  also have "8 * n mod 2 ^ 32 div 8 = n mod 2 ^ 29"
    using mult_mod_right [of 8 n "2 ^ 29"] by simp
  also have "\<dots> mod 64 = n mod 64" by (simp add: mod_mod_cancel)
  finally show ?thesis .
qed

lemma md_carry: "a + b < a \<longleftrightarrow> 2 ^ 32 \<le> unat a + unat b" for a b :: u32
proof -
  have "unat a < 2 ^ 32" "unat b < 2 ^ 32"
    using unsigned_less [of a, where ?'a = nat] unsigned_less [of b, where ?'a = nat] by simp_all
  then show ?thesis
    by (simp add: word_less_nat_alt unat_word_ariths(1)) (auto simp: mod_if not_less)
qed

lemma div_carry:
  fixes x y M :: nat
  assumes M: "0 < M"
  shows "(x + y) div M = x div M + y div M + (if M \<le> x mod M + y mod M then 1 else 0)"
proof -
  have "x mod M + y mod M < M + M" using M by (simp add: add_strict_mono)
  then have "(x mod M + y mod M) div M = (if M \<le> x mod M + y mod M then 1 else 0)"
    by (auto simp: le_div_geq)
  then show ?thesis by (simp add: div_add1_eq [of x y M])
qed

lemma md_update_counts:
  assumes c: "md_counts n c" and L: "length bs < 2 ^ 32"
  shows "md_counts (n + length bs)
    (c\<lparr>md_i := [md_i c ! 0 + push_bit 3 (of_nat (length bs)),
      (if md_i c ! 0 + push_bit 3 (of_nat (length bs)) < md_i c ! 0 then md_i c ! 1 + 1 else md_i c ! 1) +
        drop_bit 29 (of_nat (length bs))]\<rparr>)"
proof -
  let ?L = "length bs" and ?M = "2 ^ 32 :: nat"
  let ?a = "of_nat (8 * n) :: u32" and ?b = "push_bit 3 (of_nat ?L) :: u32"
  have b: "?b = of_nat (8 * ?L)" by (simp add: push_bit_eq_mult)
  have u: "unat ?a = 8 * n mod ?M" "unat ?b = 8 * ?L mod ?M"
    unfolding b by (simp_all add: unat_of_nat take_bit_eq_mod del: of_nat_mult)
  have "unat (drop_bit 29 (of_nat ?L :: u32)) = ?L div 2 ^ 29"
    using L by (simp add: drop_bit_eq_div unat_div_distrib unat_of_nat take_bit_nat_eq_self)
  then have "drop_bit 29 (of_nat ?L :: u32) = of_nat (?L div 2 ^ 29)"
    by (metis of_nat_unat ucast_id)
  moreover have "8 * ?L div ?M = ?L div 2 ^ 29" using div_mult_mult1 [of 8 ?L "2 ^ 29"] by simp
  ultimately have hi: "drop_bit 29 (of_nat ?L :: u32) = of_nat (8 * ?L div ?M)" by simp
  have "8 * (n + ?L) div ?M = 8 * n div ?M + 8 * ?L div ?M + (if ?a + ?b < ?a then 1 else 0)"
    using div_carry [of ?M "8 * n" "8 * ?L"] unfolding md_carry u distrib_left by simp
  then show ?thesis
    using c by (simp add: md_counts_def b hi distrib_left)
qed

lemma CC_MD5Update_holds:
  assumes h: "md_holds v m c" and c: "md_counts (length m) c" and L: "length bs < 2 ^ 32"
  shows "md_holds v (m @ bs) (CC_MD5Update bs c)" and "md_counts (length (m @ bs)) (CC_MD5Update bs c)"
proof -
  define c1 where "c1 = c\<lparr>md_i := [md_i c ! 0 + push_bit 3 (of_nat (length bs)),
      (if md_i c ! 0 + push_bit 3 (of_nat (length bs)) < md_i c ! 0 then md_i c ! 1 + 1 else md_i c ! 1) +
        drop_bit 29 (of_nat (length bs))]\<rparr>"
  have up: "CC_MD5Update bs c = md_loop bs (md_mdi c) c1"
    by (simp add: CC_MD5Update_def Let_def c1_def)
  have "md_holds v m c1" using h by (simp add: md_holds_def c1_def)
  from md_loop_holds [OF this md_mdi [OF c], of bs]
  show "md_holds v (m @ bs) (CC_MD5Update bs c)" "md_counts (length (m @ bs)) (CC_MD5Update bs c)"
    using md_update_counts [OF c L, folded c1_def] by (simp_all add: up md_counts_def)
qed

lemma CC_MD5Update_pieces:
  "md_holds v m c \<Longrightarrow> md_counts (length m) c \<Longrightarrow> \<forall>p \<in> set ps. length p < 2 ^ 32 \<Longrightarrow>
   md_holds v (m @ concat ps) (fold CC_MD5Update ps c) \<and>
   md_counts (length (m @ concat ps)) (fold CC_MD5Update ps c)"
proof (induction ps arbitrary: m c)
  case (Cons p ps)
  then show ?case
    using Cons.IH [of "m @ p" "CC_MD5Update p c"] CC_MD5Update_holds [of v m c p] by simp
qed simp

section \<open>The digest\<close>

lemma md_words_take: "4 * n \<le> k \<Longrightarrow> md_words n (take k m) = md_words n m"
  by (simp add: md_words_def)

lemma md_words_append:
  assumes "length m = 4 * n"
  shows "md_words (n + k) (m @ x) = md_words n m @ md_words k x"
proof -
  have upt: "[0..<n + k] = [0..<n] @ map (\<lambda>i. i + n) [0..<k]"
    using upt_add_eq_append [of 0 n k] map_add_upt [of n k] by (simp add: add.commute)
  have lo: "(m @ x) ! (4 * i + j) = m ! (4 * i + j)" if "i < n" "j < 4" for i j
    using that assms by (simp add: nth_append)
  have hi: "(m @ x) ! (4 * (i + n) + j) = x ! (4 * i + j)" for i j
    using assms nth_append_length_plus [of m x "4 * i + j"] by (simp add: distrib_left add.commute add.left_commute)
  show ?thesis
    unfolding md_words_def upt map_append map_map comp_def
    using lo [of _ 3] lo [of _ 2] lo [of _ 1] lo [of _ 0] hi [of _ 3] hi [of _ 2] hi [of _ 1] hi [of _ 0]
    by (auto cong: map_cong)
qed

lemma md_word_le32: "md_words 1 (le32 w) = [w]"
proof -
  have "push_bit 24 (ucast (le32 w ! 3)) OR push_bit 16 (ucast (le32 w ! 2)) OR push_bit 8 (ucast (le32 w ! 1)) OR
      ucast (le32 w ! 0) = w"
  proof (rule bit_eqI)
    fix n
    show "bit (push_bit 24 (ucast (le32 w ! 3)) OR push_bit 16 (ucast (le32 w ! 2)) OR
        push_bit 8 (ucast (le32 w ! 1)) OR ucast (le32 w ! 0) :: u32) n = bit w n"
      by (cases "n < 8"; cases "n < 16"; cases "n < 24")
         (auto simp: le32_def bit_simps dest: bit_imp_le_length)
  qed
  then show ?thesis by (simp add: md_words_def) (simp add: numeral_2_eq_2)
qed

lemma md_words_last:
  assumes "length m = 56"
  shows "md_words 16 (m @ le32 a @ le32 b) = md_words 14 m @ [a, b]"
proof -
  have "md_words (1 + 1) (le32 a @ le32 b) = [a, b]"
    by (subst md_words_append) (simp_all add: md_word_le32 del: One_nat_def)
  then have "md_words 2 (le32 a @ le32 b) = [a, b]" by (simp add: numeral_2_eq_2)
  then show ?thesis using md_words_append [of m 14 2 "le32 a @ le32 b"] assms by simp
qed

lemma take_PADDING: "0 < n \<Longrightarrow> n \<le> 64 \<Longrightarrow> take n PADDING = 0x80 # replicate (n - 1) 0"
  by (cases n) (simp_all add: PADDING_def)

lemma md_pad_length:
  fixes l :: nat
  defines "n \<equiv> (if l mod 64 < 56 then 56 - l mod 64 else 120 - l mod 64)"
  shows "0 < n" "n \<le> 64" "n - 1 = (119 - l mod 64) mod 64" "(l + n) mod 64 = 56"
proof -
  define r where "r = l mod 64"
  have r: "r < 64" by (simp add: r_def)
  show "0 < n" "n \<le> 64" using r by (auto simp: n_def r_def [symmetric])
  have "n - 1 = (119 - r) mod 64 \<and> (r + n) mod 64 = 56"
  proof (cases "r < 56")
    case True
    then have "119 - r = (55 - r) + 64" by simp
    then have "(119 - r) mod 64 = 55 - r" using True by (simp only: mod_add_self2) simp
    then show ?thesis using True by (simp add: n_def r_def [symmetric])
  next
    case False
    then have "119 - r < 64" "r + n = 120" using r by (simp_all add: n_def r_def [symmetric])
    then show ?thesis using False by (simp add: n_def r_def [symmetric])
  qed
  then show "n - 1 = (119 - l mod 64) mod 64" "(l + n) mod 64 = 56"
    by (simp_all add: r_def mod_add_left_eq)
qed

text \<open>Padding and length complete the last block.\<close>

lemma CC_MD5Final_digest:
  assumes h: "md_holds v m c" and c: "md_counts (length m) c"
  shows "md_digest (CC_MD5Final c) = concat (map le32 (rfc_blocks v (rfc_pad m)))"
proof -
  let ?r = "length m mod 64"
  define n where "n = (if ?r < 56 then 56 - ?r else 120 - ?r)"
  define c1 where "c1 = CC_MD5Update (take n PADDING) c"
  have n: "0 < n" "n \<le> 64" "n - 1 = (119 - ?r) mod 64" "(length m + n) mod 64 = 56"
    unfolding n_def by (rule md_pad_length)+
  define m1 where "m1 = m @ take n PADDING"
  have h1: "md_holds v m1 c1"
    using CC_MD5Update_holds(1) [OF h c, of "take n PADDING"] n(2) by (simp add: c1_def m1_def)
  have len1: "length m1 mod 64 = 56" using n by (simp add: m1_def PADDING_def)
  obtain full rest where f: "length (md_in c1) = 64" "length (md_buf c1) = 4" "m1 = full @ rest"
    "64 dvd length full" "length rest < 64" "md_buf c1 = rfc_blocks v full" "take (length rest) (md_in c1) = rest"
    using h1 by (auto simp: md_holds_def)
  have rest: "length rest = 56" using len1 f by (auto elim!: dvdE)
  have pad: "rfc_pad m = full @ rest @ le32 (md_i c ! 0) @ le32 (md_i c ! 1)"
    using f(3) c n by (simp add: rfc_pad_def m1_def take_PADDING md_counts_def)
  have "md_words 14 (md_in c1) = md_words 14 rest"
    using md_words_take [of 14 56 "md_in c1"] f(7) rest by simp
  moreover have "md_i c = [md_i c ! 0, md_i c ! 1]" using c by (simp add: md_counts_def)
  ultimately have "md_words 14 (md_in c1) @ md_i c = md_words 16 (rest @ le32 (md_i c ! 0) @ le32 (md_i c ! 1))"
    using md_words_last [OF rest] by metis
  then have "Transform (md_buf c1) (md_words 14 (md_in c1) @ md_i c) = rfc_blocks v (rfc_pad m)"
    using f(2) rest by (simp add: pad Transform_rfc f(6) rfc_blocks_append [OF f(4)] rfc_blocks_one)
  then show ?thesis
    using md_mdi [OF c] by (simp add: CC_MD5Final_def Let_def c1_def n_def)
qed

text \<open>The example of the standard, "abc".\<close>

definition md_abc :: "u32 list" where "md_abc = 0x80636261 # replicate 13 0 @ [24, 0]"

lemma md_abc_rounds:
  "fold (md_macro md_F md_abc) md_round1 [0x67452301, 0xefcdab89, 0x98badcfe, 0x10325476] =
    [0xdda9b9a6, 0x72aff2e0, 0xe396856b, 0xa1051895]"
  "fold (md_macro md_G md_abc) md_round2 [0xdda9b9a6, 0x72aff2e0, 0xe396856b, 0xa1051895] =
    [0x790a77fb, 0x726342d3, 0xa62884aa, 0x9f47e4f8]"
  "fold (md_macro md_H md_abc) md_round3 [0x790a77fb, 0x726342d3, 0xa62884aa, 0x9f47e4f8] =
    [0x7f2e507b, 0x7beb9700, 0x8fae6399, 0x99d9679d]"
  "fold (md_macro md_I md_abc) md_round4 [0x7f2e507b, 0x7beb9700, 0x8fae6399, 0x99d9679d] =
    [0x310ade8f, 0xc08226b3, 0xe484b9d8, 0x624d8cb2]"
  by code_simp+

lemma rfc_pad_abc: "rfc_pad [0x61, 0x62, 0x63] = [0x61, 0x62, 0x63, 0x80] @ replicate 52 0 @ [24, 0, 0, 0, 0, 0, 0, 0]"
proof -
  have "(0x80 :: u8) # replicate 52 0 @ le32 24 @ le32 0 = 0x80 # replicate 52 0 @ [24, 0, 0, 0, 0, 0, 0, 0]"
    by (simp add: le32_def)
  then show ?thesis by (simp add: rfc_pad_def)
qed

lemma md_abc_words: "md_words 16 ([0x61, 0x62, 0x63, 0x80] @ replicate 52 0 @ [24, 0, 0, 0, 0, 0, 0, 0]) = md_abc"
proof -
  have "[0x61, 0x62, 0x63, 0x80] @ replicate 52 0 @ [24, 0, 0, 0, 0, 0, 0, 0] =
      ([0x61, 0x62, 0x63, 0x80] @ replicate 52 0) @ le32 24 @ le32 0"
    by (simp add: le32_def)
  moreover have "md_words 14 ([0x61, 0x62, 0x63, 0x80] @ replicate 52 0) @ [24, 0] = md_abc"
    by code_simp
  ultimately show ?thesis using md_words_last [of "[0x61, 0x62, 0x63, 0x80] @ replicate 52 0" 24 0] by simp
qed

lemma rfc_md5_abc: "rfc_md5 [0x61, 0x62, 0x63] =
    [0x90, 0x01, 0x50, 0x98, 0x3c, 0xd2, 0x4f, 0xb0, 0xd6, 0x96, 0x3f, 0x7d, 0x28, 0xe1, 0x7f, 0x72]"
proof -
  have "Transform [0x67452301, 0xefcdab89, 0x98badcfe, 0x10325476] md_abc =
      [0x98500190, 0xb04fd23c, 0x7d3f96d6, 0x727fe128]"
    by (simp add: Transform_def md_abc_rounds Let_def)
  then have "rfc_blocks [0x67452301, 0xefcdab89, 0x98badcfe, 0x10325476] (rfc_pad [0x61, 0x62, 0x63]) =
      [0x98500190, 0xb04fd23c, 0x7d3f96d6, 0x727fe128]"
    unfolding rfc_pad_abc by (subst rfc_blocks_one) (simp_all only: md_abc_words Transform_rfc [symmetric] list.size length_append, simp_all)
  then show ?thesis by (simp add: rfc_md5_def le32_def)
qed

lemma md5_of_pieces:
  assumes c: "length (md_in c) = 64" and pieces: "\<forall>p \<in> set pieces. length p < 2 ^ 32"
  shows "md5_of c pieces = rfc_md5 (concat pieces)"
proof -
  let ?v = "[0x67452301, 0xefcdab89, 0x98badcfe, 0x10325476]"
  have "md_holds ?v [] (CC_MD5Init c)" using c by (simp add: md_holds_def CC_MD5Init_def rfc_blocks_rest)
  moreover have "md_counts (length ([] :: bytes)) (CC_MD5Init c)" by (simp add: md_counts_def CC_MD5Init_def)
  ultimately have "md_holds ?v ([] @ concat pieces) (fold CC_MD5Update pieces (CC_MD5Init c)) \<and>
      md_counts (length ([] @ concat pieces)) (fold CC_MD5Update pieces (CC_MD5Init c))"
    using pieces by (rule CC_MD5Update_pieces)
  then show ?thesis by (simp add: md5_of_def CC_MD5Final_digest rfc_md5_def)
qed



end
