(* ===== verification/Cfloat.thy ===== *)
theory Cfloat
  imports Prelude "HOL-Library.Log_Nat" Complex_Main
begin

text \<open>
  The floating point arithmetic the meter drivers use: rational numbers rounded to the nearest
  value with \<open>p\<close> significant bits, ties to even, as IEEE 754 rounds a \<open>float\<close> (24 bits) and a
  \<open>double\<close> (53 bits), with overflow to an infinity.  Every value the drivers compute is 0 or of
  magnitude at least 0.0001, so subnormal numbers are left out; a negative zero is 0.  And the two
  library functions between them: \<open>sprintf\<close> with \<open>%02x\<close> and \<open>atof\<close> on the strings it gives.
\<close>

section \<open>Rounding\<close>

text \<open>The exponent of the leading bit of a number that is not 0.\<close>

definition rat_exp :: "rat \<Rightarrow> int" where
  "rat_exp x =
     (let (n, d) = quotient_of x; k = bitlen \<bar>n\<bar> - bitlen d
      in if 2 powi k \<le> \<bar>x\<bar> then k else k - 1)"

definition rne :: "rat \<Rightarrow> int" where
  "rne x =
     (let f = \<lfloor>x\<rfloor>; r = x - of_int f
      in if r < 1 / 2 then f else if 1 / 2 < r then f + 1 else if even f then f else f + 1)"

definition rnd :: "nat \<Rightarrow> rat \<Rightarrow> rat" where
  "rnd p x =
     (if x = 0 then 0
      else let e = rat_exp x - int p + 1 in of_int (rne (x / 2 powi e)) * 2 powi e)"

datatype cfloat = Fin rat | PInf | NInf

definition to_format :: "nat \<Rightarrow> nat \<Rightarrow> rat \<Rightarrow> cfloat" where
  "to_format p emax x =
     (let r = rnd p x in if 2 ^ emax \<le> r then PInf else if r \<le> - (2 ^ emax) then NInf else Fin r)"

definition to_float :: "rat \<Rightarrow> cfloat" where
  "to_float = to_format 24 128"

definition to_double :: "rat \<Rightarrow> cfloat" where
  "to_double = to_format 53 1024"

fun float_of_double :: "cfloat \<Rightarrow> cfloat" where
  "float_of_double (Fin x) = to_float x"
| "float_of_double y = y"

text \<open>Division of a \<open>float\<close> by a positive constant.\<close>

fun float_div :: "cfloat \<Rightarrow> rat \<Rightarrow> cfloat" where
  "float_div (Fin x) d = to_float (x / d)"
| "float_div y d = y"

section \<open>Strings\<close>

definition hex_digit :: "nat \<Rightarrow> char" where
  "hex_digit n = (if n < 10 then char_of (48 + n) else char_of (87 + n))"

text \<open>\<open>sprintf("%02x", b)\<close>\<close>

definition hex2 :: "u8 \<Rightarrow> string" where
  "hex2 b = [hex_digit (unat b div 16), hex_digit (unat b mod 16)]"

definition is_digit :: "char \<Rightarrow> bool" where
  "is_digit c = (48 \<le> (of_char c :: nat) \<and> (of_char c :: nat) \<le> 57)"

definition dec_val :: "string \<Rightarrow> nat" where
  "dec_val s = fold (\<lambda>c n. 10 * n + (of_char c - 48)) s 0"

text \<open>
  \<open>atof\<close> on a string of hexadecimal digits, perhaps after a minus sign: the longest decimal number
  at its start, with an exponent when an \<open>e\<close> and digits follow.
\<close>

definition atof :: "string \<Rightarrow> cfloat" where
  "atof s =
     (let neg = (case s of c # _ \<Rightarrow> c = CHR ''-'' | [] \<Rightarrow> False);
          s1 = (if neg then tl s else s);
          ds = takeWhile is_digit s1;
          rest = dropWhile is_digit s1;
          ex = (case rest of c # t \<Rightarrow> if c = CHR ''e'' then dec_val (takeWhile is_digit t) else 0
                | [] \<Rightarrow> 0)
      in to_double ((if neg then - 1 else 1) * of_nat (dec_val ds) * 10 ^ ex))"

section \<open>Exactness and error\<close>

lemma rat_exp_bounds:
  assumes "x \<noteq> 0"
  shows "2 powi rat_exp x \<le> \<bar>x\<bar>" and "\<bar>x\<bar> < 2 powi (rat_exp x + 1)"
proof -
  obtain n d where q: "quotient_of x = (n, d)" by fastforce
  have d: "0 < d" by (rule quotient_of_denom_pos [OF q])
  have x: "x = of_int n / of_int d" by (rule quotient_of_div [OF q])
  with assms have n: "0 < \<bar>n\<bar>" by auto
  define a b where "a = bitlen \<bar>n\<bar>" and "b = bitlen d"
  have ab: "0 < a" "0 < b" using n d bitlen_eq_zero_iff [of "\<bar>n\<bar>"] bitlen_eq_zero_iff [of d]
      bitlen_nonneg [of "\<bar>n\<bar>"] bitlen_nonneg [of d] by (simp_all only: a_def b_def) linarith+
  have pw: "(2 :: rat) powi k = of_int (2 ^ nat k)" if "0 \<le> k" for k
    using that by (simp add: power_int_def)
  have nb: "(2 :: rat) powi (a - 1) \<le> of_int \<bar>n\<bar>" "of_int \<bar>n\<bar> < (2 :: rat) powi a"
    using bitlen_bounds [OF n] ab by (simp_all only: pw of_int_le_iff of_int_less_iff a_def [symmetric])
  have db: "(2 :: rat) powi (b - 1) \<le> of_int d" "of_int d < (2 :: rat) powi b"
    using bitlen_bounds [OF d] ab by (simp_all only: pw of_int_le_iff of_int_less_iff b_def [symmetric])
  have ax: "\<bar>x\<bar> * of_int d = of_int \<bar>n\<bar>" using d by (simp add: x abs_divide)
  have pos: "0 < \<bar>x\<bar>" using assms by simp
  have lo: "2 powi (a - b - 1) < \<bar>x\<bar>"
  proof -
    have "2 powi (a - b - 1) * 2 powi b \<le> \<bar>x\<bar> * of_int d"
      using nb(1) by (simp add: ax power_int_add [symmetric])
    also have "\<dots> < \<bar>x\<bar> * 2 powi b" using db(2) pos by simp
    finally show ?thesis by simp
  qed
  have hi: "\<bar>x\<bar> < 2 powi (a - b + 1)"
  proof -
    have "\<bar>x\<bar> * 2 powi (b - 1) \<le> \<bar>x\<bar> * of_int d" using db(1) pos by simp
    also have "\<dots> < 2 powi (a - b + 1) * 2 powi (b - 1)"
      using nb(2) by (simp add: ax power_int_add [symmetric])
    finally show ?thesis by simp
  qed
  have e: "rat_exp x = (if 2 powi (a - b) \<le> \<bar>x\<bar> then a - b else a - b - 1)"
    by (simp add: rat_exp_def q a_def b_def)
  show "2 powi rat_exp x \<le> \<bar>x\<bar>" and "\<bar>x\<bar> < 2 powi (rat_exp x + 1)"
    using lo hi by (auto simp: e)
qed

lemma rne_of_int [simp]: "rne (of_int n) = n"
  by (simp add: rne_def)

lemma rne_error: "\<bar>of_int (rne x) - x\<bar> \<le> 1 / 2"
proof -
  define f where "f = \<lfloor>x\<rfloor>"
  have "of_int f \<le> x" "x < of_int f + 1" using floor_correct [of x] by (simp_all add: f_def)
  then show ?thesis by (auto simp: rne_def Let_def abs_le_iff simp flip: f_def)
qed

text \<open>An integer of at most \<open>p\<close> bits is not rounded.\<close>

lemma rnd_int:
  assumes "\<bar>m\<bar> < 2 ^ p"
  shows "rnd p (of_int m) = of_int m"
proof (cases "m = 0")
  case False
  define e where "e = rat_exp (of_int m) - int p + 1"
  have m0: "(of_int m :: rat) \<noteq> 0" using False by simp
  have "\<bar>of_int m :: rat\<bar> < 2 ^ p"
    using assms by (metis of_int_abs of_int_less_iff of_int_numeral of_int_power)
  with rat_exp_bounds(1) [OF m0] have "(2 :: rat) powi rat_exp (of_int m) < 2 powi (int p)"
    by simp
  moreover have "(2 :: rat) powi (int p) \<le> 2 powi rat_exp (of_int m)" if "int p \<le> rat_exp (of_int m)"
    using that by (intro power_int_increasing) simp_all
  ultimately have "rat_exp (of_int m) < int p" by (meson not_less)
  then have "e \<le> 0" by (simp add: e_def)
  then obtain k where k: "e = - int k" using nonpos_int_cases by blast
  have q: "(of_int m :: rat) / 2 powi e = of_int (m * 2 ^ k)"
    by (simp add: k power_int_minus divide_inverse)
  have "rnd p (of_int m) = of_int (rne (of_int m / 2 powi e)) * 2 powi e"
    using False by (simp add: rnd_def e_def Let_def)
  also have "\<dots> = of_int (m * 2 ^ k) * 2 powi e" by (simp only: q rne_of_int)
  also have "\<dots> = of_int m" by (simp add: k power_int_minus)
  finally show ?thesis .
qed (simp add: rnd_def)

text \<open>The error of one rounding, relative to the value.\<close>

lemma rnd_error: "\<bar>rnd p x - x\<bar> \<le> \<bar>x\<bar> / 2 ^ p"
proof (cases "x = 0")
  case False
  define e where "e = rat_exp x - int p + 1"
  have "rnd p x - x = (of_int (rne (x / 2 powi e)) - x / 2 powi e) * 2 powi e"
    using False by (simp add: rnd_def left_diff_distrib flip: e_def)
  then have "\<bar>rnd p x - x\<bar> = \<bar>of_int (rne (x / 2 powi e)) - x / 2 powi e\<bar> * 2 powi e"
    by (simp add: abs_mult power_int_abs)
  also have "\<dots> \<le> 1 / 2 * 2 powi e" by (intro mult_right_mono rne_error) simp
  also have "\<dots> = 2 powi rat_exp x / 2 ^ p"
    by (simp add: e_def power_int_add power_int_diff power_int_1_right)
  also have "\<dots> \<le> \<bar>x\<bar> / 2 ^ p"
    using rat_exp_bounds(1) [OF False] by (simp add: divide_right_mono)
  finally show ?thesis .
qed (simp add: rnd_def)

lemma to_format_int:
  assumes m: "\<bar>m\<bar> < 2 ^ p" and p: "p \<le> emax"
  shows "to_format p emax (of_int m) = Fin (of_int m)"
proof -
  have "(2 :: rat) ^ p \<le> 2 ^ emax" using p by simp
  moreover have "\<bar>of_int m :: rat\<bar> < 2 ^ p"
    using m by (metis of_int_abs of_int_less_iff of_int_numeral of_int_power)
  ultimately have "(of_int m :: rat) < 2 ^ emax" "- (2 ^ emax) < (of_int m :: rat)" by linarith+
  then show ?thesis using m by (simp add: to_format_def rnd_int)
qed

lemma to_double_int: "\<bar>m\<bar> < 2 ^ 53 \<Longrightarrow> to_double (of_int m) = Fin (of_int m)"
  unfolding to_double_def by (rule to_format_int) simp_all

lemma to_float_int: "\<bar>m\<bar> < 2 ^ 24 \<Longrightarrow> to_float (of_int m) = Fin (of_int m)"
  unfolding to_float_def by (rule to_format_int) simp_all

text \<open>A result that is far from overflow is the rounded value.\<close>

lemma to_float_fin:
  assumes "\<bar>x\<bar> < 2 ^ 100"
  shows "to_float x = Fin (rnd 24 x)"
proof -
  have "\<bar>x\<bar> / 2 ^ 24 \<le> \<bar>x\<bar>" by (simp add: field_simps) 
  with rnd_error [of 24 x] have "\<bar>rnd 24 x\<bar> \<le> 2 * \<bar>x\<bar>" by linarith
  moreover have "2 * \<bar>x\<bar> < 2 ^ 101" using assms by simp
  moreover have "(2 :: rat) ^ 101 \<le> 2 ^ 128" by simp
  ultimately have "\<bar>rnd 24 x\<bar> < 2 ^ 128" by linarith
  then show ?thesis by (auto simp: to_float_def to_format_def Let_def abs_less_iff)
qed

section \<open>Packed decimals\<close>

text \<open>A byte of two decimal digits, and a number of such bytes with the highest first.\<close>

definition bcd_ok :: "u8 \<Rightarrow> bool" where
  "bcd_ok b \<longleftrightarrow> unat b div 16 \<le> 9 \<and> unat b mod 16 \<le> 9"

definition bcd :: "u8 \<Rightarrow> nat" where
  "bcd b = 10 * (unat b div 16) + unat b mod 16"

definition bcd_val :: "bytes \<Rightarrow> nat" where
  "bcd_val bs = fold (\<lambda>b n. 100 * n + bcd b) bs 0"

lemma hex_digit_dec:
  assumes "n \<le> 9"
  shows "(of_char (hex_digit n) :: nat) = 48 + n" and "is_digit (hex_digit n)"
  using assms by (simp_all add: hex_digit_def is_digit_def)

lemma hex2_digits: "bcd_ok b \<Longrightarrow> c \<in> set (hex2 b) \<Longrightarrow> is_digit c"
  by (auto simp: hex2_def bcd_ok_def hex_digit_dec)

lemma dec_val_hex: "\<forall>b \<in> set bs. bcd_ok b \<Longrightarrow> dec_val (concat (map hex2 bs)) = bcd_val bs"
proof -
  assume ok: "\<forall>b \<in> set bs. bcd_ok b"
  have "fold (\<lambda>c n. 10 * n + (of_char c - 48)) (concat (map hex2 bs)) k = fold (\<lambda>b n. 100 * n + bcd b) bs k"
    for k using ok
  proof (induction bs arbitrary: k)
    case (Cons b bs)
    then have "fold (\<lambda>c n. 10 * n + (of_char c - 48)) (hex2 b) k = 100 * k + bcd b"
      by (simp add: hex2_def bcd_ok_def hex_digit_dec bcd_def)
    with Cons show ?case by simp
  qed simp
  then show ?thesis by (simp add: dec_val_def bcd_val_def)
qed

lemma bcd_val_bound: "\<forall>b \<in> set bs. bcd_ok b \<Longrightarrow> bcd_val bs < 100 ^ length bs"
proof -
  assume ok: "\<forall>b \<in> set bs. bcd_ok b"
  have "fold (\<lambda>b n. 100 * n + bcd b) bs k < (k + 1) * 100 ^ length bs" for k
    using ok
  proof (induction bs arbitrary: k)
    case (Cons b bs)
    have "bcd b < 100" using Cons.prems by (auto simp: bcd_ok_def bcd_def)
    then have "100 * k + bcd b + 1 \<le> 100 * (k + 1)" by simp
    then have "(100 * k + bcd b + 1) * 100 ^ length bs \<le> 100 * (k + 1) * 100 ^ length bs"
      by (rule mult_right_mono) simp
    moreover have "fold (\<lambda>b n. 100 * n + bcd b) bs (100 * k + bcd b) <
        (100 * k + bcd b + 1) * 100 ^ length bs" using Cons by simp
    ultimately have "fold (\<lambda>b n. 100 * n + bcd b) bs (100 * k + bcd b) < 100 * (k + 1) * 100 ^ length bs"
      by (rule less_le_trans [rotated])
    then show ?case by (simp add: algebra_simps)
  qed simp
  from this [of 0] show ?thesis by (simp add: bcd_val_def)
qed

lemma concat_hex2_digits: "\<forall>b \<in> set bs. bcd_ok b \<Longrightarrow> \<forall>c \<in> set (concat (map hex2 bs)). is_digit c"
  using hex2_digits by auto

lemma atof_hex:
  assumes ok: "\<forall>b \<in> set bs. bcd_ok b" and len: "length bs \<le> 7"
  shows "atof (concat (map hex2 bs)) = Fin (of_nat (bcd_val bs))"
    and "atof (CHR ''-'' # concat (map hex2 bs)) = Fin (- of_nat (bcd_val bs))"
proof -
  let ?s = "concat (map hex2 bs)"
  have dig: "\<forall>c \<in> set ?s. is_digit c" by (rule concat_hex2_digits [OF ok])
  then have tw: "takeWhile is_digit ?s = ?s" "dropWhile is_digit ?s = []" by simp_all
  have "(case t of c # _ \<Rightarrow> c = CHR ''-'' | [] \<Rightarrow> False) = False" if "\<forall>c \<in> set t. is_digit c" for t
    using that by (cases t) (auto simp: is_digit_def)
  note neg = this [OF dig]
  have "bcd_val bs < 100 ^ length bs" by (rule bcd_val_bound [OF ok])
  also have "(100 :: nat) ^ length bs \<le> 100 ^ 7" using len by (intro power_increasing) simp_all
  also have "(100 :: nat) ^ 7 < 2 ^ 53" by simp
  finally have b: "int (bcd_val bs) < 2 ^ 53" by simp
  have "to_double (of_int (int (bcd_val bs))) = Fin (of_int (int (bcd_val bs)))"
    using b by (intro to_double_int) simp
  then show "atof ?s = Fin (of_nat (bcd_val bs))"
    unfolding atof_def neg by (simp add: tw dec_val_hex [OF ok])
  have "to_double (of_int (- int (bcd_val bs))) = Fin (of_int (- int (bcd_val bs)))"
    using b by (intro to_double_int) simp
  then show "atof (CHR ''-'' # ?s) = Fin (- of_nat (bcd_val bs))"
    unfolding atof_def by (simp add: tw dec_val_hex [OF ok])
qed

end
