(* ===== verification/Meter_Memory.thy ===== *)
theory Meter_Memory
  imports Cfloat
begin

text \<open>
  What the serial meter drivers share: the receive buffer of the serial thread as one memory
  object, of which a driver gets the first bytes, and the result queue with one slot.
\<close>

section \<open>Memory of a driver\<close>

text \<open>\<open>for (i = 0; i < len; i++) sum += buf[i]\<close> over the bytes from \<open>base\<close>; nothing is read for \<open>len <= 0\<close>.\<close>

definition sum_from :: "bytes \<Rightarrow> int \<Rightarrow> int \<Rightarrow> u8 outcome" where
  "sum_from mem base len =
     (if len \<le> 0 then Ret 0 else bindO (copy_out mem base (nat len)) (\<lambda>d. Ret (sum_list d)))"

text \<open>\<open>for (i = 0; i < len; i++) p[i] = p[i] - k\<close>, with the bytes afterwards.\<close>

definition sub_bytes :: "u8 \<Rightarrow> bytes \<Rightarrow> int \<Rightarrow> nat \<Rightarrow> (bytes \<times> bytes) outcome" where
  "sub_bytes k mem base len =
     bindO (copy_out mem base len) (\<lambda>d.
       let d' = map (\<lambda>b. b - k) d
       in bindO (copy_in mem base d') (\<lambda>mem'. Ret (d', mem')))"

section \<open>The result queue\<close>

text \<open>
  A message queue of the contract of \<open>block_msg_queue.c\<close> as its messages: \<open>rt_mq_send\<close> on a full
  queue is refused and the drivers ignore that, a receive without wait takes the oldest message.
\<close>

definition slot_send :: "'a \<Rightarrow> 'a list option \<Rightarrow> 'a list option" where
  "slot_send x q = map_option (\<lambda>ms. if length ms < 1 then ms @ [x] else ms) q"

definition slot_flush :: "'a list option \<Rightarrow> 'a list option" where
  "slot_flush q = map_option tl q"

lemma copy_out_slice:
  "xs \<noteq> [] \<Longrightarrow> copy_out (pre @ xs @ post) (int (length pre)) (length xs) = Ret xs"
  by (simp add: copy_out_nat)

lemma copy_out_at:
  assumes "mem = pre @ xs @ post" and "i = int (length pre)" and "n = length xs"
  shows "copy_out mem i n = Ret xs"
  by (simp add: assms copy_out_nat)

lemma rd_at:
  assumes "mem = pre @ x # post" and "i = int (length pre)"
  shows "rd mem i = Ret x"
  by (simp add: assms rd_nat nth_append)

lemma copy_in_at:
  assumes "mem = pre @ xs @ post" and "i = int (length pre)" and "length ys = length xs"
  shows "copy_in mem i ys = Ret (pre @ ys @ post)"
  by (simp add: assms copy_in_nat)

lemma sub_bytes_ok:
  assumes "0 \<le> base" "base + int len \<le> int (length mem)"
  shows "\<exists>d mem'. sub_bytes k mem base len = Ret (d, mem') \<and> length mem' = length mem"
proof -
  obtain d where d: "copy_out mem base len = Ret d" "length d = len"
    using copy_out_ok [OF assms] by blast
  then obtain mem' where "copy_in mem base (map (\<lambda>b. b - k) d) = Ret mem'" "length mem' = length mem"
    using copy_in_ok [of base "map (\<lambda>b. b - k) d" mem] assms by auto
  with d show ?thesis by (simp add: sub_bytes_def Let_def)
qed

lemma sum_from_ok: "0 \<le> base \<Longrightarrow> base + len \<le> int (length mem) \<Longrightarrow> \<exists>c. sum_from mem base len = Ret c"
  using copy_out_ok [of base "nat len" mem] by (auto simp: sum_from_def)

end
