(* ===== verification/Dlt645.thy ===== *)
theory Dlt645
  imports Meter_Memory
begin

text \<open>
  The driver of the DL/T 645-2007 electricity meters, \<open>sdccp/dlt645.c\<close> and \<open>dlt645.h\<close>: it builds
  request frames, parses the frame in the receive buffer of its serial port (in place) and puts
  the decoded reading into a queue that the reader of \<open>bDlt645ReadData\<close> waits on.
\<close>

section \<open>Types and constants\<close>

definition DLT645_PRE :: u8 where "DLT645_PRE = 0x68"
definition DLT645_MID :: u8 where "DLT645_MID = 0x68"
definition DLT645_EOM :: u8 where "DLT645_EOM = 0x16"

text \<open>The data markers of \<open>dlt645.h\<close>, in its order.\<close>

definition energy_data_marks :: "u32 list" where
  "energy_data_marks = [
    0x00000000, 0x00000100, 0x00000200, 0x00000300, 0x00000400, 0x00010000, 0x00010100,
    0x00010200, 0x00010300, 0x00010400, 0x00020000, 0x00020100, 0x00020200, 0x00020300,
    0x00020400, 0x00030000, 0x00030100, 0x00030200, 0x00030300, 0x00030400, 0x00040000,
    0x00040100, 0x00040200, 0x00040300, 0x00040400, 0x00050000, 0x00050100, 0x00050200,
    0x00050300, 0x00050400, 0x00060000, 0x00060100, 0x00060200, 0x00060300, 0x00060400,
    0x00070000, 0x00070100, 0x00070200, 0x00070300, 0x00070400, 0x00080000, 0x00080100,
    0x00080200, 0x00080300, 0x00080400, 0x00150000, 0x00160000, 0x00170000, 0x00180000,
    0x00190000, 0x001A0000, 0x001B0000, 0x001C0000, 0x00290000, 0x002A0000, 0x002B0000,
    0x002C0000, 0x002D0000, 0x002E0000, 0x002F0000, 0x00300000, 0x003D0000, 0x003E0000,
    0x003F0000, 0x00400000, 0x00410000, 0x00420000, 0x00430000, 0x00440000]"

definition var_data_marks :: "u32 list" where
  "var_data_marks = [
    0x02010100, 0x02010200, 0x02010300, 0x0201FF00, 0x02020100, 0x02020200, 0x02020300,
    0x0202FF00, 0x02030000, 0x02030100, 0x02030200, 0x02030300, 0x0203FF00, 0x02040000,
    0x02040100, 0x02040200, 0x02040300, 0x0204FF00, 0x02050000, 0x02050100, 0x02050200,
    0x02050300, 0x0205FF00, 0x02060000, 0x02060100, 0x02060200, 0x02060300, 0x0206FF00,
    0x02070100, 0x02070200, 0x02070300, 0x02070400, 0x01010000, 0x01020000, 0x01030000,
    0x01040000]"

definition C_CODE_CHECK_TIME :: u8 where "C_CODE_CHECK_TIME = 0x08"
definition C_CODE_READ_DATA :: u8 where "C_CODE_READ_DATA = 0x11"
definition C_CODE_READ_ADDR :: u8 where "C_CODE_READ_ADDR = 0x13"
definition C_CODE_SET_BAUD :: u8 where "C_CODE_SET_BAUD = 0x17"

lemmas dlt_consts = DLT645_PRE_def DLT645_MID_def DLT645_EOM_def C_CODE_CHECK_TIME_def
  C_CODE_READ_DATA_def C_CODE_READ_ADDR_def C_CODE_SET_BAUD_def

text \<open>The control byte: bit fields \<open>C_CODE:5\<close>, \<open>FCK:1\<close>, \<open>ACK:1\<close>, \<open>DIR:1\<close> from the lowest bit up.\<close>

definition dlt_con :: "u8 \<Rightarrow> u8 \<Rightarrow> u8 \<Rightarrow> u8 \<Rightarrow> u8" where
  "dlt_con code fck ack dir =
     take_bit 5 code OR push_bit 5 (take_bit 1 fck) OR push_bit 6 (take_bit 1 ack) OR
     push_bit 7 (take_bit 1 dir)"

definition con_code :: "u8 \<Rightarrow> u8" where "con_code c = take_bit 5 c"
definition con_ack :: "u8 \<Rightarrow> u8" where "con_ack c = take_bit 1 (drop_bit 6 c)"
definition con_dir :: "u8 \<Rightarrow> u8" where "con_dir c = drop_bit 7 c"

text \<open>The first 10 bytes of a frame, and the address of its data in the buffer.\<close>

record dlt_package =
  p_addr :: bytes
  p_con :: u8
  p_len :: u8
  p_data :: int

record dlt_result =
  r_index :: int
  r_addr :: bytes
  r_op :: u32
  r_val :: cfloat

text \<open>
  The static variables: the address of the last answer, the queue of every port (\<open>None\<close> where it
  was not created), and whether a send function is set; \<open>dlt_sent\<close> logs what it was given.
\<close>

record dlt_state =
  gDlt645Addr :: bytes
  s_dlt645_queue :: "dlt_result list option list"
  prvDlt645SendData :: bool
  dlt_sent :: "(int \<times> bytes) list"

section \<open>Frames\<close>

definition CheckSum :: "bytes \<Rightarrow> int \<Rightarrow> int \<Rightarrow> u8 outcome" where
  "CheckSum mem base len = sum_from mem base len"

text \<open>
  \<open>vCreatePaket\<close> fills a static buffer of 64 bytes; a frame that does not fit runs over its end.
  \<open>pData\<close> is \<open>None\<close> for a NULL pointer.
\<close>

definition vCreatePaket :: "bytes \<Rightarrow> u8 \<Rightarrow> bytes option \<Rightarrow> u8 \<Rightarrow> bytes outcome" where
  "vCreatePaket xAddr xCon pData xDataLen =
     (let hd = [DLT645_PRE] @ xAddr @ [DLT645_MID, xCon, xDataLen];
          dat = (if 0 < xDataLen then (case pData of Some d \<Rightarrow> copy_out d 0 (unat xDataLen)
                                       | None \<Rightarrow> Ret []) else Ret [])
      in bindO dat (\<lambda>d.
         bindO (CheckSum (hd @ d) 0 (int (length (hd @ d)))) (\<lambda>check.
           if length (hd @ d) + 2 \<le> 64 then Ret (hd @ d @ [check, DLT645_EOM]) else Fault)))"

definition dlt_send :: "int \<Rightarrow> bytes \<Rightarrow> dlt_state \<Rightarrow> dlt_state" where
  "dlt_send index pbuf s =
     (if prvDlt645SendData s then s\<lparr>dlt_sent := dlt_sent s @ [(index, pbuf)]\<rparr> else s)"

definition dlt645_init :: "nat \<Rightarrow> bool \<Rightarrow> dlt_state \<Rightarrow> dlt_state" where
  "dlt645_init index mq_ok s =
     (if mq_ok then s\<lparr>s_dlt645_queue := (s_dlt645_queue s)[index := Some []],
                     prvDlt645SendData := True\<rparr>
      else s\<lparr>s_dlt645_queue := (s_dlt645_queue s)[index := None]\<rparr>)"

text \<open>The time of a broadcast: year, month, day, hour, minute, second; the caller's copy changes.\<close>

definition vDlt645RequestCheckTime ::
  "bytes \<Rightarrow> bytes \<Rightarrow> dlt_state \<Rightarrow> (bytes \<times> dlt_state) outcome" where
  "vDlt645RequestCheckTime xaddr ptime s =
     (let t = map (\<lambda>b. b + 0x33) ptime
      in bindO (vCreatePaket xaddr (dlt_con C_CODE_CHECK_TIME 0 0 0) (Some t) 6) (\<lambda>pbuf.
         Ret (t, dlt_send 0 pbuf s)))"

definition vDlt645ReadAddr :: "dlt_state \<Rightarrow> dlt_state outcome" where
  "vDlt645ReadAddr s =
     bindO (vCreatePaket [0xaa, 0xaa, 0xaa, 0xaa, 0xaa, 0xaa] (dlt_con C_CODE_READ_ADDR 0 0 0) None 0)
       (\<lambda>pbuf. Ret (dlt_send 3 pbuf s))"

definition vDlt645ResponAddr :: "dlt_state \<Rightarrow> dlt_state outcome" where
  "vDlt645ResponAddr s =
     (let xaddr = [0x12, 0x34, 0x56, 0x78, 0x90, 0x1A]
      in bindO (vCreatePaket xaddr (dlt_con C_CODE_READ_ADDR 0 0 1) (Some xaddr) 6)
           (\<lambda>pbuf. Ret (dlt_send 0 pbuf s)))"

definition vDlt645SetBaud :: "bytes \<Rightarrow> u8 \<Rightarrow> dlt_state \<Rightarrow> dlt_state outcome" where
  "vDlt645SetBaud xaddr baud s =
     bindO (vCreatePaket xaddr (dlt_con C_CODE_SET_BAUD 0 0 0) (Some [baud]) 1)
       (\<lambda>pbuf. Ret (dlt_send 0 pbuf s))"

text \<open>
  \<open>bDlt645ReadData\<close>: \<open>arrivals\<close> are the results that the receives with a timeout deliver after
  the request was sent, until one of them times out.
\<close>

fun dlt_wait_result :: "bytes \<Rightarrow> u32 \<Rightarrow> dlt_result list \<Rightarrow> dlt_result option" where
  "dlt_wait_result xaddr op [] = None"
| "dlt_wait_result xaddr op (r # rs) =
     (if r_addr r = xaddr \<and> r_op r = op then Some r else dlt_wait_result xaddr op rs)"

definition bDlt645ReadData ::
  "int \<Rightarrow> bytes \<Rightarrow> u32 \<Rightarrow> dlt_result list \<Rightarrow> dlt_state \<Rightarrow> (dlt_result option \<times> dlt_state) outcome" where
  "bDlt645ReadData index xaddr DataMarker arrivals s =
     bindO (vCreatePaket xaddr (dlt_con C_CODE_READ_DATA 0 0 0)
              (Some (le32 (DataMarker + 0x33333333))) 4) (\<lambda>pbuf.
     bindO (rd (s_dlt645_queue s) index) (\<lambda>q.
       let s1 = s\<lparr>s_dlt645_queue := (s_dlt645_queue s)[nat index := slot_flush q]\<rparr>;
           s2 = dlt_send index pbuf s1
       in Ret (if q \<noteq> None then dlt_wait_result xaddr DataMarker arrivals else None, s2)))"

section \<open>Values\<close>

text \<open>
  \<open>DataToDouble\<close> and \<open>__DataToDouble\<close> take the offset 0x33 off the data in place, write the bytes
  in hexadecimal and read them as a decimal number.  The second one looks for the sign bit with
  \<open>pData[len - 1] && 0x80\<close>, a logical and.
\<close>

definition hex_string :: "bytes \<Rightarrow> string" where
  "hex_string bs = concat (map hex2 bs)"

definition DataToDouble :: "bytes \<Rightarrow> int \<Rightarrow> nat \<Rightarrow> (cfloat \<times> bytes) outcome" where
  "DataToDouble mem base len =
     bindO (sub_bytes 0x33 mem base len) (\<lambda>(d, mem').
       Ret (atof (if len = 8 then hex_string [d ! 7, d ! 6, d ! 5]
                  else if len = 4 then hex_string [d ! 3, d ! 2, d ! 1, d ! 0]
                  else if len = 3 then hex_string [d ! 2, d ! 1, d ! 0]
                  else if len = 2 then hex_string [d ! 1, d ! 0]
                  else if len = 1 then hex_string [d ! 0]
                  else []), mem'))"

definition signed_string :: "u8 \<Rightarrow> bytes \<Rightarrow> string" where
  "signed_string hi rest =
     (if hi \<noteq> 0 \<and> (0x80 :: u8) \<noteq> 0 then CHR ''-'' # hex_string ((hi AND 0x7f) # rest)
      else hex_string ((hi AND 0x7f) # rest))"

definition DataToDouble_signed :: "bytes \<Rightarrow> int \<Rightarrow> nat \<Rightarrow> (cfloat \<times> bytes) outcome" where
  "DataToDouble_signed mem base len =
     bindO (sub_bytes 0x33 mem base len) (\<lambda>(d, mem').
       Ret (atof (if len = 4 then signed_string (d ! 3) [d ! 2, d ! 1, d ! 0]
                  else if len = 3 then signed_string (d ! 2) [d ! 1, d ! 0]
                  else if len = 2 then signed_string (d ! 1) [d ! 0]
                  else if len = 1 then signed_string (d ! 0) []
                  else []), mem'))"

text \<open>One branch of \<open>vPraseData\<close>: a conversion and a division; nothing when the length is wrong.\<close>

definition dlt_scaled ::
  "(bytes \<Rightarrow> int \<Rightarrow> nat \<Rightarrow> (cfloat \<times> bytes) outcome) \<Rightarrow> rat \<Rightarrow> bytes \<Rightarrow> int \<Rightarrow> nat
   \<Rightarrow> (cfloat option \<times> bytes) outcome" where
  "dlt_scaled conv k mem base len =
     bindO (conv mem base len) (\<lambda>(v, mem'). Ret (Some (float_div (float_of_double v) k), mem'))"

definition vPraseData ::
  "bytes \<Rightarrow> int \<Rightarrow> nat \<Rightarrow> u32 \<Rightarrow> (cfloat option \<times> bytes) outcome" where
  "vPraseData mem base len DataMark =
     (if len = 0 then Ret (None, mem)
      else if DataMark \<ge> 0x00000000 \<and> DataMark \<le> 0x00440000 then
        (if len = 4 then
           (if (DataMark \<ge> 0x00000000 \<and> DataMark \<le> 0x00000400) \<or>
               (DataMark \<ge> 0x00030000 \<and> DataMark \<le> 0x00030400) \<or>
               (DataMark \<le> 0x00040000 \<and> DataMark \<ge> 0x00040400)
            then dlt_scaled DataToDouble_signed 100 mem base len
            else dlt_scaled DataToDouble 100 mem base len)
         else Ret (None, mem))
      else if DataMark \<ge> 0x02010100 \<and> DataMark \<le> 0x0201FF00 then
        (if len = 2 then dlt_scaled DataToDouble 10 mem base len else Ret (None, mem))
      else if DataMark \<ge> 0x02020100 \<and> DataMark \<le> 0x0202FF00 then
        (if len = 3 then dlt_scaled DataToDouble_signed 1000 mem base len else Ret (None, mem))
      else if DataMark \<ge> 0x02030000 \<and> DataMark \<le> 0x0205FF00 then
        (if len = 3 then dlt_scaled DataToDouble_signed 10000 mem base len else Ret (None, mem))
      else if DataMark \<ge> 0x02060000 \<and> DataMark \<le> 0x0206FF00 then
        (if len = 2 then dlt_scaled DataToDouble 1000 mem base len else Ret (None, mem))
      else if DataMark \<ge> 0x02070100 \<and> DataMark \<le> 0x02070400 then
        (if len = 2 then dlt_scaled DataToDouble 10 mem base len else Ret (None, mem))
      else if DataMark \<ge> 0x01010000 \<and> DataMark \<le> 0x01040000 then
        (if len = 8 then dlt_scaled DataToDouble 10000 mem base len else Ret (None, mem))
      else Ret (None, mem))"

section \<open>Received frames\<close>

text \<open>
  The buffer may be changed in place.  A branch that only reads bytes to print them still reads
  them.
\<close>

definition Dlt645_ParsePack ::
  "int \<Rightarrow> dlt_package \<Rightarrow> bytes \<Rightarrow> dlt_state \<Rightarrow> (bytes \<times> dlt_state) outcome" where
  "Dlt645_ParsePack index pk mem s =
     (if con_dir (p_con pk) \<noteq> 1 \<or> con_ack (p_con pk) \<noteq> 0 then
        (if p_len pk = 1 then bindO (copy_out mem (p_data pk) 1) (\<lambda>_. Ret (mem, s)) else Ret (mem, s))
      else if con_code (p_con pk) = C_CODE_CHECK_TIME then Ret (mem, s)
      else if con_code (p_con pk) = C_CODE_READ_ADDR then
        (if p_len pk = 6 then bindO (copy_out mem (p_data pk) 6) (\<lambda>a. Ret (mem, s\<lparr>gDlt645Addr := a\<rparr>))
         else Ret (mem, s))
      else if con_code (p_con pk) = C_CODE_SET_BAUD then
        (if p_len pk = 1 then bindO (copy_out mem (p_data pk) 1) (\<lambda>_. Ret (mem, s)) else Ret (mem, s))
      else if con_code (p_con pk) = C_CODE_READ_DATA then
        (if 4 \<le> p_len pk then
           bindO (copy_out mem (p_data pk) 4) (\<lambda>m.
             let DataMark = of_le32 m - 0x33333333 in
             bindO (vPraseData mem (p_data pk + 4) (unat (p_len pk) - 4) DataMark) (\<lambda>(v, mem').
               case v of
                 None \<Rightarrow> Ret (mem', s)
               | Some fdata \<Rightarrow> bindO (rd (s_dlt645_queue s) index) (\<lambda>q.
                   Ret (mem', s\<lparr>s_dlt645_queue := (s_dlt645_queue s)[nat index :=
                     slot_send \<lparr>r_index = index, r_addr = p_addr pk, r_op = DataMark,
                               r_val = fdata\<rparr> q]\<rparr>))))
         else Ret (mem, s))
      else Ret (mem, s))"

text \<open>
  \<open>Dlt645_PutBytes\<close>: the first \<open>n\<close> bytes of the buffer are new.  The result is \<open>Some False\<close> for a
  refused frame; after a parsed frame the function ends without a \<open>return\<close>, so its value is
  indeterminate (\<open>None\<close>).  The driver of the older protocol has the same function around another
  parser, so the parser is an argument.
\<close>

definition dlt_put_bytes ::
  "(int \<Rightarrow> dlt_package \<Rightarrow> bytes \<Rightarrow> 's \<Rightarrow> (bytes \<times> 's) outcome) \<Rightarrow> int \<Rightarrow> bytes \<Rightarrow> nat \<Rightarrow> 's
   \<Rightarrow> ((bool option \<times> bytes) \<times> 's) outcome" where
  "dlt_put_bytes parse index mem n s =
     bindO (copy_out mem 0 n) (\<lambda>d.
       let i = length (takeWhile (\<lambda>b. b \<noteq> DLT645_PRE) d); base = int i; len = int n - int i in
       bindO (rd mem base) (\<lambda>b0.
       if b0 \<noteq> DLT645_PRE then Ret ((Some False, mem), s) else
       bindO (rd mem (base + 7)) (\<lambda>b7.
       if b7 \<noteq> DLT645_MID then Ret ((Some False, mem), s) else
       bindO (rd mem (base + len - 1)) (\<lambda>be.
       if be \<noteq> DLT645_EOM then Ret ((Some False, mem), s) else
       bindO (CheckSum mem base (len - 2)) (\<lambda>check.
       bindO (rd mem (base + len - 2)) (\<lambda>bc.
       if check \<noteq> bc then Ret ((Some False, mem), s) else
       bindO (copy_out mem base 10) (\<lambda>h.
       bindO (parse index \<lparr>p_addr = take 6 (drop 1 h), p_con = h ! 8, p_len = h ! 9,
                p_data = base + 10\<rparr> mem s) (\<lambda>(mem', s').
         Ret ((None, mem'), s')))))))))"

definition Dlt645_PutBytes ::
  "int \<Rightarrow> bytes \<Rightarrow> nat \<Rightarrow> dlt_state \<Rightarrow> ((bool option \<times> bytes) \<times> dlt_state) outcome" where
  "Dlt645_PutBytes = dlt_put_bytes Dlt645_ParsePack"

section \<open>Frames as they are on the wire\<close>

text \<open>A frame: start, address, start, control, length, data, check sum, end.\<close>

definition dlt_frame :: "bytes \<Rightarrow> u8 \<Rightarrow> bytes \<Rightarrow> bytes" where
  "dlt_frame addr con dat =
     (let f = [0x68] @ addr @ [0x68, con, of_nat (length dat)] @ dat in f @ [sum_list f, 0x16])"

text \<open>The offset the protocol puts on every data byte.\<close>

definition add33 :: "bytes \<Rightarrow> bytes" where
  "add33 = map (\<lambda>b. b + 0x33)"

lemma length_add33 [simp]: "length (add33 d) = length d"
  by (simp add: add33_def)

lemma length_dlt_frame: "length addr = 6 \<Longrightarrow> length (dlt_frame addr con dat) = length dat + 12"
  by (simp add: dlt_frame_def Let_def)

lemma unat_byte_length: "length d < 256 \<Longrightarrow> unat (of_nat (length d) :: u8) = length d"
  by (intro unat_of_nat_small') simp

lemma CheckSum_slice:
  "mem = pre @ f @ post \<Longrightarrow> base = int (length pre) \<Longrightarrow> len = int (length f) \<Longrightarrow>
   CheckSum mem base len = Ret (sum_list f)"
  by (simp add: CheckSum_def sum_from_def copy_out_nat)

lemma CheckSum_all: "CheckSum f 0 (int (length f)) = Ret (sum_list f)"
  by (rule CheckSum_slice [where pre = "[]" and post = "[]"]) simp_all

lemma vCreatePaket_frame:
  assumes addr: "length addr = 6" and d: "length d \<le> 52"
  shows "vCreatePaket addr con (Some d) (of_nat (length d)) = Ret (dlt_frame addr con d)"
proof -
  have u: "unat (of_nat (length d) :: u8) = length d" using d by (simp add: unat_byte_length)
  show ?thesis
  proof (cases "d = []")
    case True
    then show ?thesis
      using addr CheckSum_all [of "0x68 # addr @ [0x68, con, 0]"]
      by (simp add: vCreatePaket_def dlt_consts dlt_frame_def Let_def)
  next
    case False
    with u have "0 < (of_nat (length d) :: u8)" by (simp add: word_less_nat_alt)
    moreover have "copy_out d 0 (unat (of_nat (length d) :: u8)) = Ret d" by (simp add: u c_simps)
    ultimately show ?thesis
      using addr d CheckSum_all [of "0x68 # addr @ 0x68 # con # of_nat (length d) # d"]
      by (simp add: vCreatePaket_def dlt_consts dlt_frame_def Let_def)
  qed
qed

text \<open>A frame anywhere in the buffer, after bytes that are no start byte, reaches the parser.\<close>

lemma PutBytes_frame:
  assumes mem: "mem = pre @ dlt_frame addr con dat @ post" and pre: "0x68 \<notin> set pre"
    and addr: "length addr = 6" and n: "n = length pre + length (dlt_frame addr con dat)"
  shows "dlt_put_bytes parse index mem n s =
    bindO (parse index \<lparr>p_addr = addr, p_con = con, p_len = of_nat (length dat),
        p_data = int (length pre) + 10\<rparr> mem s)
      (\<lambda>(mem', s'). Ret ((None, mem'), s'))"
proof -
  define f where "f = [0x68] @ addr @ [0x68, con, of_nat (length dat)] @ dat"
  have fr: "dlt_frame addr con dat = f @ [sum_list f, 0x16]" by (simp add: dlt_frame_def f_def)
  have lf: "length f = length dat + 10" using addr by (simp add: f_def)
  have len: "int n - int (length pre) = int (length f) + 2" using n by (simp add: fr)
  have new: "copy_out mem 0 n = Ret (pre @ dlt_frame addr con dat)"
    by (simp add: mem n copy_out_0)
  have first: "takeWhile (\<lambda>b. b \<noteq> 0x68) (pre @ dlt_frame addr con dat) = pre"
    using pre by (subst takeWhile_append2) (auto simp: dlt_frame_def Let_def)
  have b0: "rd mem (int (length pre)) = Ret 0x68"
    by (rule rd_at [where pre = pre]) (simp_all add: mem dlt_frame_def Let_def)
  have b7: "rd mem (int (length pre) + 7) = Ret 0x68"
    by (rule rd_at [where pre = "pre @ [0x68] @ addr" and post = "[con, of_nat (length dat)] @ dat @ [sum_list f, 0x16] @ post"])
       (simp_all add: mem fr f_def addr)
  have be: "rd mem (1 + (int (length pre) + int (length f))) = Ret 0x16"
    by (rule rd_at [where pre = "pre @ f @ [sum_list f]" and post = post]) (simp_all add: mem fr)
  have bc: "rd mem (int (length pre) + int (length f)) = Ret (sum_list f)"
    by (rule rd_at [where pre = "pre @ f" and post = "0x16 # post"]) (simp_all add: mem fr)
  have cs: "CheckSum mem (int (length pre)) (int (length f)) = Ret (sum_list f)"
    by (rule CheckSum_slice [where pre = pre and post = "[sum_list f, 0x16] @ post"]) (simp_all add: mem fr)
  have hd: "copy_out mem (int (length pre)) 10 = Ret ([0x68] @ addr @ [0x68, con, of_nat (length dat)])"
    by (rule copy_out_at [where pre = pre and post = "dat @ [sum_list f, 0x16] @ post"])
       (simp_all add: mem fr f_def addr)
  obtain a0 a1 a2 a3 a4 a5 where six: "addr = [a0, a1, a2, a3, a4, a5]"
    using addr by (auto simp: numeral_eq_Suc length_Suc_conv)
  show ?thesis
    by (simp add: dlt_put_bytes_def new Let_def dlt_consts first b0 b7 len be bc cs hd)
       (simp add: six)
qed

section \<open>Readings\<close>

text \<open>
  What the driver knows of a marker: the number of data bytes it accepts, whether it looks for a
  sign, and the divisor of the integer reading (a decimal point).
\<close>

definition dlt_class :: "u32 \<Rightarrow> (nat \<times> bool \<times> rat) option" where
  "dlt_class m =
     (if m \<le> 0x00440000 then
        Some (4, m \<le> 0x00000400 \<or> (0x00030000 \<le> m \<and> m \<le> 0x00030400), 100)
      else if 0x02010100 \<le> m \<and> m \<le> 0x0201FF00 then Some (2, False, 10)
      else if 0x02020100 \<le> m \<and> m \<le> 0x0202FF00 then Some (3, True, 1000)
      else if 0x02030000 \<le> m \<and> m \<le> 0x0205FF00 then Some (3, True, 10000)
      else if 0x02060000 \<le> m \<and> m \<le> 0x0206FF00 then Some (2, False, 1000)
      else if 0x02070100 \<le> m \<and> m \<le> 0x02070400 then Some (2, False, 10)
      else if 0x01010000 \<le> m \<and> m \<le> 0x01040000 then Some (8, False, 10000)
      else None)"

lemma vPraseData_class:
  "vPraseData mem base len m =
     (if len = 0 then Ret (None, mem) else
      case dlt_class m of
        None \<Rightarrow> Ret (None, mem)
      | Some (l, sg, k) \<Rightarrow>
          if len = l then dlt_scaled (if sg then DataToDouble_signed else DataToDouble) k mem base len
          else Ret (None, mem))"
proof -
  have none: "(m \<le> 0x00040000 \<and> m \<ge> 0x00040400) = False" by (auto simp: word_le_nat_alt)
  have zero: "(m \<ge> 0) = True" by simp
  have push: "(case (if c then x else y) of None \<Rightarrow> a | Some z \<Rightarrow> f z) =
      (if c then (case x of None \<Rightarrow> a | Some z \<Rightarrow> f z) else (case y of None \<Rightarrow> a | Some z \<Rightarrow> f z))"
    for c and x y :: "(nat \<times> bool \<times> rat) option" and a :: "(cfloat option \<times> bytes) outcome" and f
    by simp
  have pull: "(if c then dlt_scaled f k mem base l else dlt_scaled g k mem base l) =
      dlt_scaled (if c then f else g) k mem base l" for c f g k l by simp
  show ?thesis
    unfolding vPraseData_def dlt_class_def none zero push pull simp_thms option.case prod.case if_False if_True ..
qed

text \<open>The integer the driver makes of the decoded data bytes (lowest byte first).\<close>

definition dlt_integer :: "bool \<Rightarrow> bytes \<Rightarrow> int" where
  "dlt_integer sg d =
     (if sg then (if last d \<noteq> 0 then - 1 else 1) * int (bcd_val ((last d AND 0x7f) # tl (rev d)))
      else int (bcd_val (rev d)))"

definition dlt_digits :: "bool \<Rightarrow> bytes \<Rightarrow> bool" where
  "dlt_digits sg d \<longleftrightarrow>
     (\<forall>b \<in> set (if sg then (last d AND 0x7f) # tl (rev d) else rev d). bcd_ok b)"

definition dlt_value :: "bool \<Rightarrow> rat \<Rightarrow> bytes \<Rightarrow> rat" where
  "dlt_value sg k d = rnd 24 (rnd 24 (of_int (dlt_integer sg d)) / k)"

lemma sub_bytes_add33:
  "mem = pre @ add33 d @ post \<Longrightarrow> base = int (length pre) \<Longrightarrow> len = length d \<Longrightarrow>
   sub_bytes 0x33 mem base len = Ret (d, pre @ d @ post)"
  using copy_out_at [of mem pre "add33 d" post base len] copy_in_at [of mem pre "add33 d" post base d]
  by (simp add: sub_bytes_def add33_def comp_def Let_def)

lemma length_cases_4:
  assumes "length d \<in> {1, 2, 3, 4}"
  obtains a where "d = [a]" | a b where "d = [a, b]" | a b c where "d = [a, b, c]"
  | a b c e where "d = [a, b, c, e]"
  using assms by (auto simp: numeral_eq_Suc length_Suc_conv)

lemma DataToDouble_bcd:
  assumes mem: "mem = pre @ add33 d @ post" "base = int (length pre)" and len: "length d \<in> {1, 2, 3, 4}"
    and dig: "dlt_digits False d"
  shows "DataToDouble mem base (length d) = Ret (Fin (of_int (dlt_integer False d)), pre @ d @ post)"
proof -
  have "\<forall>b \<in> set (rev d). bcd_ok b" using dig by (simp add: dlt_digits_def)
  then have a: "atof (hex_string (rev d)) = Fin (of_nat (bcd_val (rev d)))"
    using len unfolding hex_string_def by (intro atof_hex) auto
  from len show ?thesis
    by (cases rule: length_cases_4)
       (use a sub_bytes_add33 [OF mem refl] in \<open>simp_all add: DataToDouble_def dlt_integer_def\<close>)
qed

lemma DataToDouble_signed_bcd:
  assumes mem: "mem = pre @ add33 d @ post" "base = int (length pre)" and len: "length d \<in> {1, 2, 3, 4}"
    and dig: "dlt_digits True d"
  shows "DataToDouble_signed mem base (length d) =
    Ret (Fin (of_int (dlt_integer True d)), pre @ d @ post)"
proof -
  let ?b = "(last d AND 0x7f) # tl (rev d)"
  have ok: "\<forall>b \<in> set ?b. bcd_ok b" and l: "length ?b \<le> 7"
    using dig len by (auto simp: dlt_digits_def)
  note a = atof_hex [OF ok l]
  have "atof (signed_string (last d) (tl (rev d))) = Fin (of_int (dlt_integer True d))"
    using a by (cases "last d = 0") (simp_all add: signed_string_def dlt_integer_def hex_string_def)
  then show ?thesis using len sub_bytes_add33 [OF mem refl]
    by (cases rule: length_cases_4 [OF len]) (simp_all add: DataToDouble_signed_def)
qed

lemma dlt_integer_bound:
  assumes "dlt_digits sg d" and "length d \<le> 4" and "d \<noteq> []"
  shows "\<bar>dlt_integer sg d\<bar> < 10 ^ 8"
proof -
  let ?b = "if sg then (last d AND 0x7f) # tl (rev d) else rev d"
  have "bcd_val ?b < 100 ^ length ?b" using assms(1) by (intro bcd_val_bound) (simp add: dlt_digits_def)
  also have "length ?b = length d" using assms(3) by (cases d rule: rev_cases) auto
  also have "(100 :: nat) ^ length d \<le> 100 ^ 4" using assms(2) by (intro power_increasing) simp_all
  finally have "int (bcd_val ?b) < 10 ^ 8" by simp
  then show ?thesis by (auto simp: dlt_integer_def split: if_splits)
qed

lemma scaled_value:
  assumes i: "\<bar>i\<bar> < 10 ^ 8" and k: "1 \<le> k"
  shows "float_div (float_of_double (Fin (of_int i))) k = Fin (rnd 24 (rnd 24 (of_int i) / k))"
proof -
  have b: "\<bar>of_int i :: rat\<bar> < 10 ^ 8" using i by (metis of_int_abs of_int_less_iff of_int_numeral of_int_power)
  then have "\<bar>of_int i :: rat\<bar> < 2 ^ 100" by (rule less_trans) simp
  then have f: "to_float (of_int i) = Fin (rnd 24 (of_int i))" by (rule to_float_fin)
  have "\<bar>rnd 24 (of_int i)\<bar> \<le> 2 * \<bar>of_int i :: rat\<bar>"
  proof -
    have "\<bar>of_int i :: rat\<bar> / 2 ^ 24 \<le> \<bar>of_int i\<bar>" by (simp add: field_simps)
    with rnd_error [of 24 "of_int i"] show ?thesis by linarith
  qed
  moreover have "\<bar>rnd 24 (of_int i) / k\<bar> \<le> \<bar>rnd 24 (of_int i)\<bar>"
    using k by (simp add: abs_divide divide_le_eq mult_right_le_one_le mult_le_cancel_left1)
  ultimately have "\<bar>rnd 24 (of_int i) / k\<bar> < 2 * 10 ^ 8" using b by linarith
  then have "\<bar>rnd 24 (of_int i) / k\<bar> < 2 ^ 100" by (rule less_trans) simp
  then show ?thesis by (simp add: f to_float_fin)
qed

text \<open>
  The offset on the four bytes of a marker: the code adds and subtracts \<open>0x33333333\<close> as one 32 bit
  number, which is the bytewise offset only when no byte produces a carry.
\<close>

definition no_carry :: "u32 \<Rightarrow> bool" where
  "no_carry m \<longleftrightarrow> (\<forall>b \<in> set (le32 m). b \<le> 0xCC)"

lemma of_le32_add33:
  assumes "no_carry m"
  shows "of_le32 (add33 (le32 m)) = m + 0x33333333"
proof -
  obtain a b c d where l: "le32 m = [a, b, c, d]" by (simp add: le32_def)
  have nc: "unat (x + 0x33) = unat x + 51" if "x \<le> 0xCC" for x :: u8
    using that by (subst unat_add_lem [THEN iffD1]) (simp_all add: word_le_nat_alt)
  have "of_le32 (add33 (le32 m)) = of_nat (unat (a + 0x33) + 2 ^ 8 * unat (b + 0x33) +
      2 ^ 16 * unat (c + 0x33) + 2 ^ 24 * unat (d + 0x33))"
    by (simp only: l add33_def list.map of_le32_nat)
  also have "\<dots> = of_nat (unat a + 2 ^ 8 * unat b + 2 ^ 16 * unat c + 2 ^ 24 * unat d) + 0x33333333"
    using assms by (simp add: no_carry_def l nc algebra_simps)
  also have "of_nat (unat a + 2 ^ 8 * unat b + 2 ^ 16 * unat c + 2 ^ 24 * unat d) = of_le32 (le32 m)"
    by (simp only: l of_le32_nat)
  finally show ?thesis by (simp only: of_le32_le32)
qed

lemma le32_add33: "no_carry m \<Longrightarrow> le32 (m + 0x33333333) = add33 (le32 m)"
  using of_le32_add33 [of m] le32_of_le32 [of "add33 (le32 m)"] by simp

lemma dlt_class_len: "dlt_class m = Some (l, sg, k) \<Longrightarrow> l \<in> {2, 3, 4, 8} \<and> 1 \<le> k"
  by (auto simp: dlt_class_def split: if_splits)

lemma vPraseData_bcd:
  assumes m: "mem = pre @ add33 d @ post" "b = int (length pre)" and cl: "dlt_class o1 = Some (length d, sg, k)" "length d \<noteq> 8"
    and dig: "dlt_digits sg d"
  shows "vPraseData mem b (length d) o1 = Ret (Some (Fin (dlt_value sg k d)), pre @ d @ post)"
proof -
  have dl: "length d \<in> {2, 3, 4}" and k: "1 \<le> k" using dlt_class_len [OF cl(1)] cl(2) by auto
  have l: "length d \<noteq> 0" "length d \<in> {1, 2, 3, 4}" "d \<noteq> []" "length d \<le> 4" using dl by auto
  have conv: "(if sg then DataToDouble_signed else DataToDouble) mem b (length d) =
      Ret (Fin (of_int (dlt_integer sg d)), pre @ d @ post)"
    using DataToDouble_bcd [OF m l(2)] DataToDouble_signed_bcd [OF m l(2)] dig by (cases sg) auto
  have "\<bar>dlt_integer sg d\<bar> < 10 ^ 8" using dlt_integer_bound [OF dig] l by blast
  then have val: "float_div (float_of_double (Fin (of_int (dlt_integer sg d)))) k = Fin (dlt_value sg k d)"
    unfolding dlt_value_def by (rule scaled_value [OF _ k])
  have "dlt_scaled (if sg then DataToDouble_signed else DataToDouble) k mem b (length d) =
      Ret (Some (Fin (dlt_value sg k d)), pre @ d @ post)"
    unfolding dlt_scaled_def conv by (simp only: bindO.simps prod.case val)
  then show ?thesis unfolding vPraseData_class cl(1) using l(1) by simp
qed

text \<open>The parts of a frame the parsers look at: the ten bytes of head, the data, the tail.\<close>

lemma dlt_frame_split:
  assumes "length addr = 6"
  obtains f e where "dlt_frame addr con dat = f @ dat @ e" "length f = 10"
proof -
  let ?f = "[0x68] @ addr @ [0x68, con, of_nat (length dat)]"
  show thesis
  proof (rule that [of ?f])
    show "dlt_frame addr con dat = ?f @ dat @ [sum_list (?f @ dat), 0x16]" by (simp add: dlt_frame_def Let_def)
  qed (simp add: assms)
qed

lemma unat_len_u8: "n < 256 \<Longrightarrow> unat (of_nat n :: u8) = n"
  by (rule unat_of_nat_small') simp

section \<open>Properties\<close>


definition demo_dlt :: dlt_state where
  "demo_dlt = \<lparr>gDlt645Addr = replicate 6 0xaa, s_dlt645_queue = [Some [], None, None, None, None],
     prvDlt645SendData = True, dlt_sent = []\<rparr>"


lemma rnd_neg:
  assumes "x < 0"
  shows "rnd (Suc p) x < 0"
proof -
  have "(1 :: rat) < 2 ^ Suc p" by (rule one_less_power) simp_all
  then have "\<bar>x\<bar> * 1 < \<bar>x\<bar> * 2 ^ Suc p" using assms by (intro mult_strict_left_mono) simp_all
  then have "\<bar>x\<bar> / 2 ^ Suc p < \<bar>x\<bar>" by (simp only: divide_less_eq mult_1_right) simp
  with rnd_error [of "Suc p" x] assms show ?thesis by linarith
qed

lemma rnd_lower: "0 \<le> x \<Longrightarrow> x * (1 - 1 / 2 ^ p) \<le> rnd p x"
  using rnd_error [of p x] by (simp add: abs_le_iff algebra_simps)

lemma bcd_val_pos: "0 < bcd b \<Longrightarrow> 0 < bcd_val (b # bs)"
proof -
  have "0 < k \<Longrightarrow> 0 < fold (\<lambda>b n. 100 * n + bcd b) bs k" for k
    by (induction bs arbitrary: k) simp_all
  then show "0 < bcd b \<Longrightarrow> 0 < bcd_val (b # bs)" by (simp add: bcd_val_def)
qed

text \<open>
  \<open>pData[len - 1] && 0x80\<close> is true for every top byte but 0: for the markers whose
  reading has a sign bit, each positive reading with a top digit pair other than 00 is reported as
  negative (its decimal value, negated), for example every current of 1 A and more.
\<close>

lemma dlt_positive_reported_negative:
  assumes mem: "mem = pre @ add33 d @ post" and m: "dlt_class m = Some (length d, True, k)"
    and digits: "\<forall>b \<in> set d. bcd_ok b" and d: "0 < last d" "last d < 0x80"
  shows "\<exists>v mem'. vPraseData mem (int (length pre)) (length d) m = Ret (Some (Fin v), mem') \<and>
    v = rnd 24 (rnd 24 (- of_nat (bcd_val (rev d))) / k) \<and> v < 0"
proof -
  have len: "length d \<in> {1, 2, 3, 4}" "length d \<noteq> 8" and k: "1 \<le> k" and ne: "d \<noteq> []"
    using m by (auto simp: dlt_class_def split: if_splits)
  have dk: "rev d = last d # tl (rev d)" using ne by (cases d rule: rev_cases) auto
  have "last d AND 0x7f = last d"
  proof -
    have "(0x7f :: u8) = mask 7" by (simp add: mask_eq_exp_minus_1)
    then have "last d AND 0x7f = take_bit 7 (last d)" by (simp only: take_bit_eq_mask)
    also have "\<dots> = last d"
      using d(2) by (simp add: word_unat_eq_iff word_less_nat_alt unsigned_take_bit_eq take_bit_nat_eq_self)
    finally show ?thesis .
  qed
  note m7 = this
  then have dig: "dlt_digits True d"
    using digits ne list.set_sel(2) [of "rev d"] by (auto simp: dlt_digits_def)
  have "dlt_integer True d = - int (bcd_val (last d # tl (rev d)))"
    using d(1) m7 by (auto simp: dlt_integer_def)
  then have int: "dlt_integer True d = - int (bcd_val (rev d))" by (simp only: dk [symmetric])
  have "d \<noteq> []" "length d \<le> 4" using len ne by auto
  then have "\<bar>dlt_integer True d\<bar> < 10 ^ 8" using dlt_integer_bound [OF dig] by blast
  note val = scaled_value [OF this k]
  have "vPraseData mem (int (length pre)) (length d) m = Ret (Some (Fin (dlt_value True k d)), pre @ d @ post)"
    using DataToDouble_signed_bcd [OF mem refl len(1) dig] ne val
    by (simp add: vPraseData_class m dlt_scaled_def dlt_value_def)
  moreover have "dlt_value True k d < 0"
  proof -
    have "last d \<noteq> 0" using d(1) by auto
    then have "0 < bcd (last d)" by (auto simp: bcd_def word_unat_eq_iff) 
    then have "0 < bcd_val (rev d)" by (subst dk) (simp add: bcd_val_pos)
    then have "rnd 24 (of_int (dlt_integer True d)) < 0"
      using rnd_neg [of "of_int (dlt_integer True d)" 23] by (simp add: int)
    then have "rnd 24 (of_int (dlt_integer True d)) / k < 0" using k by (simp add: divide_less_0_iff)
    then show ?thesis using rnd_neg [of _ 23] by (simp add: dlt_value_def)
  qed
  ultimately show ?thesis by (auto simp: dlt_value_def int)
qed

text \<open>
  The markers of the second combined reactive energy are compared with the test
  \<open>DataMark <= E0 && DataMark >= E4\<close>, which no number passes: for them the sign bit is never
  looked at, and a negative reading (top byte 0x80 to 0x99) is reported as a positive number above
  799999.
\<close>

lemma dlt_combined_sign_lost:
  assumes mem: "mem = pre @ add33 d @ post" and m: "0x00040000 \<le> m" "m \<le> 0x00040400"
    and d: "length d = 4" "\<forall>b \<in> set d. bcd_ok b" "0x80 \<le> last d"
  shows "\<exists>v mem'. vPraseData mem (int (length pre)) 4 m = Ret (Some (Fin v), mem') \<and>
    v = rnd 24 (rnd 24 (of_nat (bcd_val (rev d))) / 100) \<and> 799999 < v"
proof -
  have cls: "dlt_class m = Some (4, False, 100)"
    using m by (auto simp: dlt_class_def word_le_nat_alt)
  have dig: "dlt_digits False d" using d by (simp add: dlt_digits_def)
  have int: "dlt_integer False d = int (bcd_val (rev d))" by (simp add: dlt_integer_def)
  have "d \<noteq> []" "length d \<le> 4" using d by auto
  then have "\<bar>dlt_integer False d\<bar> < 10 ^ 8" using dlt_integer_bound [OF dig] by blast
  note val = scaled_value [OF this, of 100]
  have res: "vPraseData mem (int (length pre)) 4 m = Ret (Some (Fin (dlt_value False 100 d)), pre @ d @ post)"
    using DataToDouble_bcd [OF mem refl _ dig] d(1) val
    by (simp add: vPraseData_class cls dlt_scaled_def dlt_value_def)
  define N where "N = bcd_val (rev d)"
  have "80000000 \<le> N"
  proof -
    obtain a b c e where de: "d = [a, b, c, e]"
      using d(1) by (auto simp: numeral_eq_Suc length_Suc_conv)
    have "128 \<le> unat e" using d(3) by (simp add: de word_le_nat_alt)
    then have "8 \<le> unat e div 16" by simp
    then have "80 \<le> bcd e" unfolding bcd_def by linarith
    then show ?thesis by (simp add: N_def de bcd_val_def)
  qed
  then have x: "(80000000 :: rat) \<le> of_nat N" by (metis of_nat_le_iff of_nat_numeral)
  have r1: "of_nat N * (1 - 1 / 2 ^ 24) \<le> rnd 24 (of_nat N)" by (rule rnd_lower) simp
  have "(80000000 :: rat) * (1 - 1 / 2 ^ 24) \<le> of_nat N * (1 - 1 / 2 ^ 24)"
    using x by (intro mult_right_mono) simp_all
  with r1 have y: "79999990 \<le> rnd 24 (of_nat N)" by simp
  then have "rnd 24 (of_nat N) / 100 * (1 - 1 / 2 ^ 24) \<le> rnd 24 (rnd 24 (of_nat N) / 100)"
    by (intro rnd_lower) simp
  moreover have "79999990 / 100 * (1 - 1 / 2 ^ 24) \<le> rnd 24 (of_nat N) / 100 * (1 - 1 / 2 ^ 24)"
    using y by (intro mult_right_mono divide_right_mono) simp_all
  ultimately have "799999 < rnd 24 (rnd 24 (of_nat N) / 100)" by simp
  with res show ?thesis by (auto simp: dlt_value_def int N_def)
qed

text \<open>
  The signs of the readings.  For the markers that can be negative, a positive reading with a
  non-zero top byte is reported as the same number below zero (\<open>&&\<close> for \<open>&\<close> in the sign test); for the
  markers of the second combined reactive energy, whose range test is never true, a negative
  reading (top byte 0x80 to 0x99) is reported as a positive number above 799999.
\<close>

theorem dlt645_signs:
  assumes mem: "mem = pre @ add33 d @ post" and digits: "\<forall>b \<in> set d. bcd_ok b"
  shows "(dlt_class m = Some (length d, True, k) \<and> 0 < last d \<and> last d < 0x80 \<longrightarrow>
      (\<exists>v mem'. vPraseData mem (int (length pre)) (length d) m = Ret (Some (Fin v), mem') \<and>
        v = rnd 24 (rnd 24 (- of_nat (bcd_val (rev d))) / k) \<and> v < 0)) \<and>
    (0x00040000 \<le> m \<and> m \<le> 0x00040400 \<and> length d = 4 \<and> 0x80 \<le> last d \<longrightarrow>
      (\<exists>v mem'. vPraseData mem (int (length pre)) 4 m = Ret (Some (Fin v), mem') \<and>
        v = rnd 24 (rnd 24 (of_nat (bcd_val (rev d))) / 100) \<and> 799999 < v))"
  using dlt_positive_reported_negative [OF mem _ digits, of m k] dlt_combined_sign_lost [OF mem _ _ _ digits, of m]
  by blast

theorem dlt645_signs_witness:
  "(\<exists>v mem'. vPraseData (add33 [0x56, 0x34, 0x12]) 0 3 0x02020100 = Ret (Some (Fin v), mem') \<and> v < 0) \<and>
   (\<exists>v mem'. vPraseData (add33 [0x11, 0, 0, 0x80]) 0 4 0x00040000 = Ret (Some (Fin v), mem') \<and> 799999 < v)"
proof
  show "\<exists>v mem'. vPraseData (add33 [0x56, 0x34, 0x12]) 0 3 0x02020100 = Ret (Some (Fin v), mem') \<and> v < 0"
    using conjunct1 [OF dlt645_signs [where mem = "add33 [0x56, 0x34, 0x12]" and pre = "[]" and
      post = "[]" and d = "[0x56, 0x34, 0x12]" and m = "0x02020100" and k = 1000]]
    by (auto simp: dlt_class_def bcd_ok_def numeral_3_eq_3)
  show "\<exists>v mem'. vPraseData (add33 [0x11, 0, 0, 0x80]) 0 4 0x00040000 = Ret (Some (Fin v), mem') \<and> 799999 < v"
    using conjunct2 [OF dlt645_signs [where mem = "add33 [0x11, 0, 0, 0x80]" and pre = "[]" and
      post = "[]" and d = "[0x11, 0, 0, 0x80]" and m = "0x00040000"]]
    by (auto simp: bcd_ok_def)
qed

text \<open>
  \<open>bDlt645ReadData\<close> sends one well-formed request for the address and the marker, with
  the bytewise offset of the protocol, empties the queue first, and returns the first result of
  the right address and marker that arrives, for every marker without a carry; of the markers of
  \<open>dlt645.h\<close> exactly the six block markers with a byte 0xFF have one.
\<close>

theorem dlt645_request:
  assumes "length addr = 6" and "no_carry m" and "i < length (s_dlt645_queue s)"
    and "s_dlt645_queue s ! i = Some old" and "prvDlt645SendData s"
  shows "(\<exists>s'. bDlt645ReadData (int i) addr m arrivals s =
      Ret (List.find (\<lambda>r. r_addr r = addr \<and> r_op r = m) arrivals, s') \<and>
      dlt_sent s' = dlt_sent s @ [(int i, dlt_frame addr 0x11 (add33 (le32 m)))] \<and>
      s_dlt645_queue s' = (s_dlt645_queue s)[i := Some (tl old)]) \<and>
    {x \<in> set (energy_data_marks @ var_data_marks). \<not> no_carry x} =
      {0x0201FF00, 0x0202FF00, 0x0203FF00, 0x0204FF00, 0x0205FF00, 0x0206FF00}"
proof
  have "dlt_con C_CODE_READ_DATA 0 0 0 = 0x11" by (simp add: dlt_con_def dlt_consts)
  moreover have "vCreatePaket addr 0x11 (Some (add33 (le32 m))) 4 = Ret (dlt_frame addr 0x11 (add33 (le32 m)))"
    using vCreatePaket_frame [OF assms(1), where d = "add33 (le32 m)" and con = "0x11"] by simp
  moreover have "dlt_wait_result addr m rs = List.find (\<lambda>r. r_addr r = addr \<and> r_op r = m) rs" for rs
    by (induction rs) simp_all
  ultimately show "\<exists>s'. bDlt645ReadData (int i) addr m arrivals s =
      Ret (List.find (\<lambda>r. r_addr r = addr \<and> r_op r = m) arrivals, s') \<and>
      dlt_sent s' = dlt_sent s @ [(int i, dlt_frame addr 0x11 (add33 (le32 m)))] \<and>
      s_dlt645_queue s' = (s_dlt645_queue s)[i := Some (tl old)]"
    using assms by (simp add: bDlt645ReadData_def le32_add33 rd_nat slot_flush_def dlt_send_def Let_def)
  have "filter (\<lambda>x. \<not> no_carry x) (energy_data_marks @ var_data_marks) =
      [0x0201FF00, 0x0202FF00, 0x0203FF00, 0x0204FF00, 0x0205FF00, 0x0206FF00]"
    by (simp add: energy_data_marks_def var_data_marks_def no_carry_def le32_def)
  then have "set (filter (\<lambda>x. \<not> no_carry x) (energy_data_marks @ var_data_marks)) =
      {0x0201FF00, 0x0202FF00, 0x0203FF00, 0x0204FF00, 0x0205FF00, 0x0206FF00}" by simp
  then show "{x \<in> set (energy_data_marks @ var_data_marks). \<not> no_carry x} =
      {0x0201FF00, 0x0202FF00, 0x0203FF00, 0x0204FF00, 0x0205FF00, 0x0206FF00}"
    by (simp only: set_filter)
qed

theorem dlt645_request_witness:
  "\<exists>s'. bDlt645ReadData 0 [1, 2, 3, 4, 5, 6] 0x00010000 [] demo_dlt = Ret (None, s') \<and>
    dlt_sent s' = [(0, dlt_frame [1, 2, 3, 4, 5, 6] 0x11 (add33 (le32 0x00010000)))]"
proof -
  have "no_carry 0x00010000" by (simp add: no_carry_def le32_def)
  from conjunct1 [OF dlt645_request [where addr = "[1, 2, 3, 4, 5, 6]" and i = 0 and s = demo_dlt and
      m = "0x00010000" and old = "[]" and arrivals = "[]", OF _ this]]
  show ?thesis by (auto simp: demo_dlt_def)
qed

section \<open>Robustness\<close>

lemma dlt_scaled_ok:
  assumes "0 \<le> base" "base + int len \<le> int (length mem)" "f = DataToDouble \<or> f = DataToDouble_signed"
  shows "\<exists>v mem'. dlt_scaled f k mem base len = Ret (v, mem') \<and> length mem' = length mem"
  using sub_bytes_ok [OF assms(1,2), where k = "0x33"] assms(3)
  by (auto simp: dlt_scaled_def DataToDouble_def DataToDouble_signed_def)

lemma vPraseData_ok:
  assumes "0 \<le> base" "base + int len \<le> int (length mem)"
  shows "\<exists>v mem'. vPraseData mem base len m = Ret (v, mem') \<and> length mem' = length mem"
  unfolding vPraseData_class using dlt_scaled_ok [OF assms] by (auto split: option.split)

lemma ParsePack_ok:
  assumes b: "0 \<le> p_data pk" "p_data pk + 255 \<le> int (length mem)" and i: "i < length (s_dlt645_queue s)"
  shows "\<exists>mem' s'. Dlt645_ParsePack (int i) pk mem s = Ret (mem', s') \<and> length mem' = length mem"
proof -
  have c: "\<exists>xs. copy_out mem (p_data pk) k = Ret xs \<and> length xs = k" if "k \<le> 255" for k
    using copy_out_ok [of "p_data pk" k mem] b that by auto
  obtain x1 x4 x6 where x: "copy_out mem (p_data pk) 1 = Ret x1" "copy_out mem (p_data pk) 4 = Ret x4"
      "copy_out mem (p_data pk) 6 = Ret x6"
    using c [of 1] c [of 4] c [of 6] by auto
  have "unat (p_len pk) \<le> 255" using unsigned_less [of "p_len pk", where 'a = nat] by simp
  then have le: "int (unat (p_len pk) - 4) \<le> 251" by linarith
  have "p_data pk + 4 + int (unat (p_len pk) - 4) \<le> int (length mem)" if "4 \<le> p_len pk"
    using le b(2) by linarith
  then obtain v mem' where v: "4 \<le> p_len pk \<Longrightarrow> vPraseData mem (p_data pk + 4) (unat (p_len pk) - 4)
      (of_le32 x4 - 0x33333333) = Ret (v, mem') \<and> length mem' = length mem"
    using vPraseData_ok [of "p_data pk + 4" "unat (p_len pk) - 4" mem] b(1)
    by (metis add_nonneg_nonneg zero_le_numeral)
  have one: "copy_out mem (p_data pk) (Suc 0) = Ret x1" using x(1) by simp
  show ?thesis using i v
    by (cases "4 \<le> p_len pk"; cases v) (simp_all add: Dlt645_ParsePack_def x one Let_def rd_nat)
qed

text \<open>
  Claim C39.  Whatever two or more bytes arrive, \<open>Dlt645_PutBytes\<close> stays inside the receive buffer
  when 265 bytes lie behind the new ones (the length byte of a frame is never compared with the
  number of bytes received), and a refused frame changes neither the buffer nor the driver.
\<close>

theorem dlt645_put_bytes_safe:
  assumes n: "2 \<le> n" "n + 265 \<le> length mem" and i: "i < length (s_dlt645_queue s)"
  shows "\<exists>ret mem' s'. Dlt645_PutBytes (int i) mem n s = Ret ((ret, mem'), s') \<and>
    length mem' = length mem \<and> (ret = Some False \<longrightarrow> mem' = mem \<and> s' = s)"
proof -
  obtain d where d: "copy_out mem 0 n = Ret d" "length d = n" using copy_out_ok [of 0 n mem] n by auto
  define b where "b = length (takeWhile (\<lambda>x. x \<noteq> DLT645_PRE) d)"
  have b: "b \<le> n" unfolding b_def using length_takeWhile_le [of _ d] d(2) by simp
  have r: "\<exists>x. rd mem k = Ret x" if "0 \<le> k" "k < int (length mem)" for k by (rule rd_ok [OF that])
  obtain b0 where b0: "rd mem (int b) = Ret b0" using r [of "int b"] b n by auto
  obtain b7 where b7: "rd mem (int b + 7) = Ret b7" using r [of "int b + 7"] b n by auto
  obtain be where be: "rd mem (int b + (int n - int b) - 1) = Ret be" using r [of "int n - 1"] n by auto
  obtain bc where bc: "rd mem (int b + (int n - int b) - 2) = Ret bc" using r [of "int n - 2"] n by auto
  obtain c where c: "CheckSum mem (int b) (int n - int b - 2) = Ret c"
    unfolding CheckSum_def using sum_from_ok [of "int b" "int n - int b - 2" mem] n by auto
  obtain h where h: "copy_out mem (int b) 10 = Ret h" using copy_out_ok [of "int b" 10 mem] b n by auto
  have "\<exists>mem' s'. Dlt645_ParsePack (int i) \<lparr>p_addr = take 6 (drop 1 h), p_con = h ! 8, p_len = h ! 9,
      p_data = int b + 10\<rparr> mem s = Ret (mem', s') \<and> length mem' = length mem"
    by (rule ParsePack_ok [OF _ _ i]) (use b n in simp_all)
  then obtain mem' s' where p: "Dlt645_ParsePack (int i) \<lparr>p_addr = take 6 (drop 1 h), p_con = h ! 8,
      p_len = h ! 9, p_data = int b + 10\<rparr> mem s = Ret (mem', s')" "length mem' = length mem" by blast
  show ?thesis
    unfolding Dlt645_PutBytes_def dlt_put_bytes_def d Let_def bindO.simps b_def [symmetric] b0 b7 be bc c h p(1)
    using p(2) by simp
qed

theorem dlt645_put_bytes_safe_witness:
  "\<exists>ret mem' s'. Dlt645_PutBytes 0 (replicate 1024 0) 20 demo_dlt = Ret ((ret, mem'), s') \<and>
    length mem' = 1024"
proof -
  have "0 < length (s_dlt645_queue demo_dlt)" by (simp add: demo_dlt_def)
  from dlt645_put_bytes_safe [of 20 "replicate 1024 0", OF _ _ this] show ?thesis by auto
qed

end
