(* ===== verification/Dlt645_1997.thy ===== *)
theory Dlt645_1997
  imports Dlt645
begin

text \<open>
  The driver of the older DL/T 645-1997 meters, \<open>sdccp/dlt645_1997.c\<close> and its header.  It has the
  frame layout and the receive function of the 2007 driver (the same packed structures, so the same
  records here), markers of 16 bits, other function codes and other decimal points.
\<close>

section \<open>Types and constants\<close>

definition energy_1997_data_marks :: "u16 list" where
  "energy_1997_data_marks = [
    0x9010, 0x9011, 0x9012, 0x9013, 0x9014, 0x9020, 0x9021, 0x9022, 0x9023, 0x9024,
    0x9110, 0x9111, 0x9112, 0x9113, 0x9114, 0x9120, 0x9121, 0x9122, 0x9123, 0x9124,
    0x9130, 0x9131, 0x9132, 0x9133, 0x9134, 0x9140, 0x9141, 0x9142, 0x9143, 0x9144,
    0x9150, 0x9151, 0x9152, 0x9153, 0x9154, 0x9160, 0x9161, 0x9162, 0x9163, 0x9164,
    0xA010, 0xA020, 0xA110, 0xA120]"

definition var_1997_data_marks :: "u16 list" where
  "var_1997_data_marks = [
    0xB611, 0xB612, 0xB613, 0xB621, 0xB622, 0xB623, 0xB630, 0xB631, 0xB632, 0xB633,
    0xB640, 0xB641, 0xB642, 0xB643, 0xB650, 0xB651, 0xB652, 0xB653]"

definition C_1997_CODE_CHECK_TIME :: u8 where "C_1997_CODE_CHECK_TIME = 0x08"
definition C_1997_CODE_READ_DATA :: u8 where "C_1997_CODE_READ_DATA = 0x01"
definition C_1997_CODE_SET_BAUD :: u8 where "C_1997_CODE_SET_BAUD = 0x0c"

lemmas dlt97_consts = C_1997_CODE_CHECK_TIME_def C_1997_CODE_READ_DATA_def C_1997_CODE_SET_BAUD_def

section \<open>Requests\<close>

definition dlt645_1997_init :: "nat \<Rightarrow> bool \<Rightarrow> dlt_state \<Rightarrow> dlt_state" where
  "dlt645_1997_init index mq_ok s =
     (if mq_ok then s\<lparr>s_dlt645_queue := (s_dlt645_queue s)[index := Some []],
                     prvDlt645SendData := True\<rparr>
      else s\<lparr>s_dlt645_queue := (s_dlt645_queue s)[index := None]\<rparr>)"

definition CheckSum_1997 :: "bytes \<Rightarrow> int \<Rightarrow> int \<Rightarrow> u8 outcome" where
  "CheckSum_1997 mem base len = sum_from mem base len"

definition vCreatePaket_1997 :: "bytes \<Rightarrow> u8 \<Rightarrow> bytes option \<Rightarrow> u8 \<Rightarrow> bytes outcome" where
  "vCreatePaket_1997 xAddr xCon pData xDataLen =
     (let hd = [DLT645_PRE] @ xAddr @ [DLT645_MID, xCon, xDataLen];
          dat = (if 0 < xDataLen then (case pData of Some d \<Rightarrow> copy_out d 0 (unat xDataLen)
                                       | None \<Rightarrow> Ret []) else Ret [])
      in bindO dat (\<lambda>d.
         bindO (CheckSum_1997 (hd @ d) 0 (int (length (hd @ d)))) (\<lambda>check.
           if length (hd @ d) + 2 \<le> 64 then Ret (hd @ d @ [check, DLT645_EOM]) else Fault)))"

text \<open>
  \<open>(mdUINT16)DataMarker + 0x3333\<close> is computed as an \<open>int\<close> and stored in 32 bits, of which the two
  low bytes are sent.
\<close>

definition bDlt645_1997ReadData ::
  "int \<Rightarrow> bytes \<Rightarrow> u16 \<Rightarrow> dlt_result list \<Rightarrow> dlt_state \<Rightarrow> (dlt_result option \<times> dlt_state) outcome" where
  "bDlt645_1997ReadData index xaddr DataMarker arrivals s =
     bindO (vCreatePaket_1997 xaddr (dlt_con C_1997_CODE_READ_DATA 0 0 0)
              (Some (le32 (ucast DataMarker + 0x3333))) 2) (\<lambda>pbuf.
     bindO (rd (s_dlt645_queue s) index) (\<lambda>q.
       let s1 = s\<lparr>s_dlt645_queue := (s_dlt645_queue s)[nat index := slot_flush q]\<rparr>;
           s2 = dlt_send index pbuf s1
       in Ret (if q \<noteq> None then dlt_wait_result xaddr (ucast DataMarker) arrivals else None, s2)))"

section \<open>Values\<close>

definition DataToDouble_1997 :: "bytes \<Rightarrow> int \<Rightarrow> nat \<Rightarrow> (cfloat \<times> bytes) outcome" where
  "DataToDouble_1997 mem base len =
     bindO (sub_bytes 0x33 mem base len) (\<lambda>(d, mem').
       Ret (atof (if len = 4 then hex_string [d ! 3, d ! 2, d ! 1, d ! 0]
                  else if len = 3 then hex_string [d ! 2, d ! 1, d ! 0]
                  else if len = 2 then hex_string [d ! 1, d ! 0]
                  else if len = 1 then hex_string [d ! 0]
                  else []), mem'))"

definition vPraseData_1997 ::
  "bytes \<Rightarrow> int \<Rightarrow> nat \<Rightarrow> u16 \<Rightarrow> (cfloat option \<times> bytes) outcome" where
  "vPraseData_1997 mem base len DataMark =
     (if len = 0 then Ret (None, mem)
      else if DataMark \<ge> 0x9010 \<and> DataMark \<le> 0x9164 then
        (if len = 4 then dlt_scaled DataToDouble_1997 100 mem base len else Ret (None, mem))
      else if DataMark \<ge> 0xB611 \<and> DataMark \<le> 0xB613 then
        (if len = 2 then dlt_scaled DataToDouble_1997 10 mem base len else Ret (None, mem))
      else if DataMark \<ge> 0xB621 \<and> DataMark \<le> 0xB623 then
        (if len = 2 then dlt_scaled DataToDouble_1997 100 mem base len else Ret (None, mem))
      else if DataMark \<ge> 0xB630 \<and> DataMark \<le> 0xB633 then
        (if len = 3 then dlt_scaled DataToDouble_1997 10000 mem base len else Ret (None, mem))
      else if DataMark \<ge> 0xB640 \<and> DataMark \<le> 0xB643 then
        (if len = 2 then dlt_scaled DataToDouble_1997 100 mem base len else Ret (None, mem))
      else if DataMark \<ge> 0xB650 \<and> DataMark \<le> 0xB653 then
        (if len = 2 then dlt_scaled DataToDouble_1997 1000 mem base len else Ret (None, mem))
      else if DataMark \<ge> 0xA010 \<and> DataMark \<le> 0xA120 then
        (if len = 3 then dlt_scaled DataToDouble_1997 10000 mem base len else Ret (None, mem))
      else Ret (None, mem))"

section \<open>Received frames\<close>

definition Dlt645_1997_ParsePack ::
  "int \<Rightarrow> dlt_package \<Rightarrow> bytes \<Rightarrow> dlt_state \<Rightarrow> (bytes \<times> dlt_state) outcome" where
  "Dlt645_1997_ParsePack index pk mem s =
     (if con_dir (p_con pk) \<noteq> 1 \<or> con_ack (p_con pk) \<noteq> 0 then
        (if p_len pk = 1 then bindO (copy_out mem (p_data pk) 1) (\<lambda>_. Ret (mem, s)) else Ret (mem, s))
      else if con_code (p_con pk) = C_1997_CODE_CHECK_TIME then Ret (mem, s)
      else if con_code (p_con pk) = C_1997_CODE_SET_BAUD then
        (if p_len pk = 1 then bindO (copy_out mem (p_data pk) 1) (\<lambda>_. Ret (mem, s)) else Ret (mem, s))
      else if con_code (p_con pk) = C_1997_CODE_READ_DATA then
        (if 2 \<le> p_len pk then
           bindO (copy_out mem (p_data pk) 2) (\<lambda>m.
             let DataMark = of_le16 m - 0x3333 in
             bindO (vPraseData_1997 mem (p_data pk + 2) (unat (p_len pk) - 2) DataMark) (\<lambda>(v, mem').
               case v of
                 None \<Rightarrow> Ret (mem', s)
               | Some fdata \<Rightarrow> bindO (rd (s_dlt645_queue s) index) (\<lambda>q.
                   Ret (mem', s\<lparr>s_dlt645_queue := (s_dlt645_queue s)[nat index :=
                     slot_send \<lparr>r_index = index, r_addr = p_addr pk, r_op = ucast DataMark,
                               r_val = fdata\<rparr> q]\<rparr>))))
         else Ret (mem, s))
      else Ret (mem, s))"

definition Dlt645_1997_PutBytes ::
  "int \<Rightarrow> bytes \<Rightarrow> nat \<Rightarrow> dlt_state \<Rightarrow> ((bool option \<times> bytes) \<times> dlt_state) outcome" where
  "Dlt645_1997_PutBytes = dlt_put_bytes Dlt645_1997_ParsePack"

section \<open>Lemmas\<close>

text \<open>The copies of the functions of the 2007 driver compute what the originals do.\<close>

lemma vCreatePaket_1997_eq: "vCreatePaket_1997 = vCreatePaket"
  by (simp add: vCreatePaket_1997_def [abs_def] vCreatePaket_def [abs_def] CheckSum_1997_def CheckSum_def)

lemma DataToDouble_1997_eq: "len \<noteq> 8 \<Longrightarrow> DataToDouble_1997 mem base len = DataToDouble mem base len"
  by (simp add: DataToDouble_1997_def DataToDouble_def)

text \<open>The data bytes and the divisor of a marker.\<close>

definition dlt97_class :: "u16 \<Rightarrow> (nat \<times> rat) option" where
  "dlt97_class m =
     (if 0x9010 \<le> m \<and> m \<le> 0x9164 then Some (4, 100)
      else if 0xB611 \<le> m \<and> m \<le> 0xB613 then Some (2, 10)
      else if 0xB621 \<le> m \<and> m \<le> 0xB623 then Some (2, 100)
      else if 0xB630 \<le> m \<and> m \<le> 0xB633 then Some (3, 10000)
      else if 0xB640 \<le> m \<and> m \<le> 0xB643 then Some (2, 100)
      else if 0xB650 \<le> m \<and> m \<le> 0xB653 then Some (2, 1000)
      else if 0xA010 \<le> m \<and> m \<le> 0xA120 then Some (3, 10000)
      else None)"

lemma vPraseData_1997_class:
  "vPraseData_1997 mem base len m =
     (if len = 0 then Ret (None, mem) else
      case dlt97_class m of
        None \<Rightarrow> Ret (None, mem)
      | Some (l, k) \<Rightarrow>
          if len = l then dlt_scaled DataToDouble_1997 k mem base len else Ret (None, mem))"
proof -
  have push: "(case (if c then x else y) of None \<Rightarrow> a | Some z \<Rightarrow> f z) =
      (if c then (case x of None \<Rightarrow> a | Some z \<Rightarrow> f z) else (case y of None \<Rightarrow> a | Some z \<Rightarrow> f z))"
    for c and x y :: "(nat \<times> rat) option" and a :: "(cfloat option \<times> bytes) outcome" and f
    by simp
  show ?thesis
    unfolding vPraseData_1997_def dlt97_class_def push option.case prod.case ..
qed

lemma dlt97_class_len: "dlt97_class m = Some (l, k) \<Longrightarrow> l \<in> {2, 3, 4} \<and> 1 \<le> k"
  by (auto simp: dlt97_class_def split: if_splits)

definition no_carry16 :: "u16 \<Rightarrow> bool" where
  "no_carry16 m \<longleftrightarrow> (\<forall>b \<in> set (le16 m). b \<le> 0xCC)"

lemma of_le16_add33:
  assumes "no_carry16 m"
  shows "of_le16 (add33 (le16 m)) = m + 0x3333"
proof -
  obtain a b where l: "le16 m = [a, b]" by (simp add: le16_def)
  have nc: "unat (x + 0x33) = unat x + 51" if "x \<le> 0xCC" for x :: u8
    using that by (subst unat_add_lem [THEN iffD1]) (simp_all add: word_le_nat_alt)
  have "of_le16 (add33 (le16 m)) = of_nat (unat (a + 0x33) + 2 ^ 8 * unat (b + 0x33))"
    by (simp only: l add33_def list.map of_le16_nat)
  also have "\<dots> = of_nat (unat a + 2 ^ 8 * unat b) + 0x3333"
    using assms by (simp add: no_carry16_def l nc algebra_simps)
  also have "of_nat (unat a + 2 ^ 8 * unat b) = of_le16 (le16 m)" by (simp only: l of_le16_nat)
  finally show ?thesis by (simp only: of_le16_le16)
qed

lemma le16_add33: "no_carry16 m \<Longrightarrow> le16 (m + 0x3333) = add33 (le16 m)"
  using of_le16_add33 [of m] le16_of_le16 [of "add33 (le16 m)"] by simp

section \<open>Properties\<close>

text \<open>
  An answer of a 1997 meter to a read request for a known marker, with two to four packed
  decimal digit pairs and anywhere in the receive buffer after bytes that are no start byte, puts
  the reading, scaled by the marker's decimal point and rounded to a \<open>float\<close>, into the empty queue
  of the port, with the address and the marker.
\<close>

theorem dlt645_1997_response_decoded:
  assumes mem: "mem = pre @ dlt_frame addr con (add33 (le16 m @ d)) @ post" and pre: "0x68 \<notin> set pre"
    and addr: "length addr = 6" and n: "n = length pre + length d + 14"
    and con: "con_dir con = 1" "con_ack con = 0" "con_code con = C_1997_CODE_READ_DATA"
    and m: "no_carry16 m" "dlt97_class m = Some (length d, k)" and dig: "\<forall>b \<in> set d. bcd_ok b"
    and q: "i < length (s_dlt645_queue s)" "s_dlt645_queue s ! i = Some []"
  shows "\<exists>mem'. Dlt645_1997_PutBytes (int i) mem n s = Ret ((None, mem'), s\<lparr>s_dlt645_queue :=
    (s_dlt645_queue s)[i := Some [\<lparr>r_index = int i, r_addr = addr, r_op = ucast m,
      r_val = Fin (rnd 24 (rnd 24 (of_nat (bcd_val (rev d))) / k))\<rparr>]]\<rparr>)"
proof -
  define dat where "dat = add33 (le16 m @ d)"
  obtain f e where fr: "dlt_frame addr con dat = f @ dat @ e" "length f = 10" using addr by (rule dlt_frame_split)
  have dl: "length d \<in> {2, 3, 4}" and k: "1 \<le> k" using dlt97_class_len [OF m(2)] by auto
  have digits: "dlt_digits False d" using dig by (simp add: dlt_digits_def)
  have ldat: "length dat = length d + 2" by (simp add: dat_def)
  have lbyte: "unat (of_nat (length dat) :: u8) = length d + 2" using dl ldat by (subst unat_len_u8) auto
  have n': "n = length pre + length (dlt_frame addr con dat)"
    using n by (simp add: length_dlt_frame [OF addr] ldat)
  note put = PutBytes_frame [OF mem [folded dat_def] pre addr n', of Dlt645_1997_ParsePack "int i" s]
  have memd: "mem = (pre @ f) @ add33 (le16 m) @ (add33 d @ e @ post)"
    and memd2: "mem = (pre @ f @ add33 (le16 m)) @ add33 d @ (e @ post)"
    using mem fr(1) by (simp_all add: dat_def add33_def)
  have mk: "copy_out mem (int (length pre) + 10) 2 = Ret (add33 (le16 m))"
    by (rule copy_out_at [OF memd]) (simp_all add: fr(2))
  have base: "12 + int (length pre) = int (length (pre @ f @ add33 (le16 m)))" by (simp add: fr(2))
  have cl: "length d \<noteq> 0" "length d \<in> {1, 2, 3, 4}" "length d \<noteq> 8" "d \<noteq> []" "length d \<le> 4" using dl by auto
  note conv = DataToDouble_bcd [OF memd2 base cl(2) digits]
  have "\<bar>dlt_integer False d\<bar> < 10 ^ 8" using dlt_integer_bound [OF digits] cl by blast
  note val = scaled_value [OF this k]
  let ?v = "Fin (rnd 24 (rnd 24 (of_nat (bcd_val (rev d))) / k))"
  have "dlt_scaled DataToDouble_1997 k mem (12 + int (length pre)) (length d) =
      Ret (Some ?v, (pre @ f @ add33 (le16 m)) @ d @ (e @ post))"
    unfolding dlt_scaled_def DataToDouble_1997_eq [OF cl(3)] conv bindO.simps prod.case val
    by (simp add: dlt_integer_def)
  then have parse: "vPraseData_1997 mem (12 + int (length pre)) (length d) m =
      Ret (Some ?v, (pre @ f @ add33 (le16 m)) @ d @ (e @ post))"
    unfolding vPraseData_1997_class m(2) using cl(1) by simp
  have two: "(2 :: u8) \<le> of_nat (length dat)" using lbyte by (simp add: word_le_nat_alt)
  have qr: "rd (s_dlt645_queue s) (int i) = Ret (Some [])" using q by (simp add: rd_nat)
  have "Dlt645_1997_ParsePack (int i) \<lparr>p_addr = addr, p_con = con, p_len = of_nat (length dat),
      p_data = int (length pre) + 10\<rparr> mem s =
    Ret ((pre @ f @ add33 (le16 m)) @ d @ (e @ post), s\<lparr>s_dlt645_queue := (s_dlt645_queue s)[i :=
      Some [\<lparr>r_index = int i, r_addr = addr, r_op = ucast m, r_val = ?v\<rparr>]]\<rparr>)"
    using con two
    by (simp add: Dlt645_1997_ParsePack_def dlt97_consts mk Let_def of_le16_add33 [OF m(1)] lbyte parse
        qr slot_send_def)
  then show ?thesis by (simp add: Dlt645_1997_PutBytes_def put)
qed

theorem dlt645_1997_response_decoded_witness:
  "\<exists>mem'. Dlt645_1997_PutBytes 0 (dlt_frame [1, 2, 3, 4, 5, 6] 0x81
        (add33 (le16 0xB611 @ [0x05, 0x22])) @ [0]) 16 demo_dlt =
    Ret ((None, mem'), demo_dlt\<lparr>s_dlt645_queue := (s_dlt645_queue demo_dlt)[0 :=
      Some [\<lparr>r_index = 0, r_addr = [1, 2, 3, 4, 5, 6], r_op = 0xB611,
             r_val = Fin (rnd 24 (rnd 24 (of_nat (bcd_val [0x22, 0x05])) / 10))\<rparr>]]\<rparr>)"
proof -
  have "no_carry16 0xB611" by (simp add: no_carry16_def le16_def)
  then show ?thesis
    using dlt645_1997_response_decoded [where mem = "dlt_frame [1, 2, 3, 4, 5, 6] 0x81
        (add33 (le16 0xB611 @ [0x05, 0x22])) @ [0]" and pre = "[]" and post = "[0]" and
        addr = "[1, 2, 3, 4, 5, 6]" and con = "0x81" and m = "0xB611" and d = "[0x05, 0x22]" and n = 16
        and k = 10 and i = 0 and s = demo_dlt]
    by (simp add: con_dir_def con_ack_def con_code_def dlt97_consts dlt97_class_def demo_dlt_def bcd_ok_def)
qed

end
