(* ===== verification/Mbus603.thy ===== *)
theory Mbus603
  imports Meter_Memory
begin

text \<open>
  The driver of the MULTICAL 603 heat meters on M-Bus, \<open>sdccp/mbus_603.c\<close> and \<open>mbus_603.h\<close>: the
  short frame that asks for class 2 data, the parser of the long answer frame, which takes the
  records by their position, and the reading that is kept for every serial port.
\<close>

section \<open>Types\<close>

definition MBUS603_PRE :: u8 where "MBUS603_PRE = 0x68"
definition MBUS603_MID :: u8 where "MBUS603_MID = 0x68"
definition MBUS603_EOM :: u8 where "MBUS603_EOM = 0x16"

lemmas mbus_consts = MBUS603_PRE_def MBUS603_MID_def MBUS603_EOM_def

text \<open>The members of the packed package that the code uses; \<open>pk_data\<close> is an address in the buffer.\<close>

record mbus_package =
  pk_state :: u8
  pk_ver :: u8
  pk_len :: u8
  pk_data :: int

record mbus_result =
  mb_state :: u8
  mb_ver :: u8
  sum_e1 :: u32
  e3 :: u32
  e8 :: u32
  e9 :: u32
  v1 :: u32
  time_sum :: u32
  T1 :: u32
  T2 :: u32
  dt :: u32
  e1_e3 :: u32
  max_month_power :: u32
  f_rate :: u32

text \<open>The static variables, and a log of what the send function was given.\<close>

record mbus_state =
  s_mbus603_queue :: "mbus_result list option list"
  g_result :: "mbus_result list"
  prvMbus603SendData :: bool
  mbus_sent :: "(int \<times> bytes) list"

section \<open>Requests\<close>

definition Mbus603_init :: "nat \<Rightarrow> bool \<Rightarrow> mbus_state \<Rightarrow> mbus_state" where
  "Mbus603_init index mq_ok s =
     (if mq_ok then s\<lparr>s_mbus603_queue := (s_mbus603_queue s)[index := Some []],
                     prvMbus603SendData := True\<rparr>
      else s\<lparr>s_mbus603_queue := (s_mbus603_queue s)[index := None]\<rparr>)"

definition mbus_CheckSum :: "bytes \<Rightarrow> int \<Rightarrow> int \<Rightarrow> u8 outcome" where
  "mbus_CheckSum mem base len = sum_from mem base len"

definition mbus_vCreatePaket :: "u8 \<Rightarrow> bytes" where
  "mbus_vCreatePaket xAddr = [0x10, 0x5B, xAddr, 0x5B + xAddr, 0x16]"

text \<open>
  \<open>arrivals\<close> are the results that the receiver puts into the queue while the sampler waits; the
  first one, whatever its state byte, is stored.
\<close>

definition bMbus603SampleData ::
  "int \<Rightarrow> u8 \<Rightarrow> mbus_result list \<Rightarrow> mbus_state \<Rightarrow> (bool \<times> mbus_state) outcome" where
  "bMbus603SampleData index xaddr arrivals s =
     bindO (rd (s_mbus603_queue s) index) (\<lambda>q.
       let s1 = s\<lparr>s_mbus603_queue := (s_mbus603_queue s)[nat index := slot_flush q]\<rparr>;
           s2 = (if prvMbus603SendData s1
                 then s1\<lparr>mbus_sent := mbus_sent s1 @ [(index, mbus_vCreatePaket xaddr)]\<rparr> else s1)
       in case (q, arrivals) of
            (Some _, r # _) \<Rightarrow>
              bindO (rd (g_result s2) index) (\<lambda>_.
                Ret (True, s2\<lparr>g_result := (g_result s2)[nat index := r]\<rparr>))
          | _ \<Rightarrow> Ret (False, s2))"

text \<open>\<open>bMbus603ReadData\<close> copies the stored reading and always reports success.\<close>

definition bMbus603ReadData :: "int \<Rightarrow> mbus_state \<Rightarrow> (bool \<times> mbus_result) outcome" where
  "bMbus603ReadData index s = bindO (rd (g_result s) index) (\<lambda>r. Ret (True, r))"

section \<open>Received frames\<close>

text \<open>
  One record: \<open>hdr\<close> bytes of information field and \<open>len\<close> bytes of value at \<open>off\<close>; all of them are
  read (they are printed), the value is copied.
\<close>

definition mbus_record :: "bytes \<Rightarrow> int \<Rightarrow> nat \<Rightarrow> nat \<Rightarrow> u32 outcome" where
  "mbus_record mem p off hdr =
     bindO (copy_out mem (p + int off) (hdr + 4)) (\<lambda>d. Ret (of_le32 (drop hdr d)))"

definition mbus_record_short :: "bytes \<Rightarrow> int \<Rightarrow> nat \<Rightarrow> nat \<Rightarrow> u32 outcome" where
  "mbus_record_short mem p off hdr =
     bindO (copy_out mem (p + int off) (hdr + 2)) (\<lambda>d. Ret (ucast (of_le16 (drop hdr d))))"

definition Mbus603_ParsePack :: "int \<Rightarrow> mbus_package \<Rightarrow> bytes \<Rightarrow> mbus_state \<Rightarrow> mbus_state outcome" where
  "Mbus603_ParsePack index pk mem s =
     (let p = pk_data pk; four = mbus_record mem p; two = mbus_record_short mem p in
      bindO (four 0 3) (\<lambda>a. bindO (four 7 5) (\<lambda>b. bindO (four 16 3) (\<lambda>c. bindO (four 23 3) (\<lambda>d.
      bindO (four 30 2) (\<lambda>e. bindO (four 51 2) (\<lambda>f.
      bindO (two 63 2) (\<lambda>g. bindO (two 67 2) (\<lambda>h. bindO (two 71 2) (\<lambda>i.
      bindO (four 75 2) (\<lambda>j. bindO (four 81 2) (\<lambda>k. bindO (four 87 2) (\<lambda>l.
      bindO (rd (s_mbus603_queue s) index) (\<lambda>q.
        Ret (s\<lparr>s_mbus603_queue := (s_mbus603_queue s)[nat index :=
          slot_send \<lparr>mb_state = pk_state pk, mb_ver = pk_ver pk, sum_e1 = a, e3 = b, e8 = c, e9 = d,
                     v1 = e, time_sum = f, T1 = g, T2 = h, dt = i, e1_e3 = j,
                     max_month_power = k, f_rate = l\<rparr> q]\<rparr>)))))))))))))))"

text \<open>
  \<open>mem\<close> is the receive buffer from \<open>pBytes\<close> on and \<open>n\<close> is \<open>usBytesLen\<close>; the function has no
  \<open>return\<close> after a parsed frame, so its value is then \<open>None\<close>.
\<close>

definition Mbus603_PutBytes ::
  "int \<Rightarrow> bytes \<Rightarrow> nat \<Rightarrow> mbus_state \<Rightarrow> (bool option \<times> mbus_state) outcome" where
  "Mbus603_PutBytes index mem n s =
     bindO (rd mem 0) (\<lambda>b0. if b0 \<noteq> MBUS603_PRE then Ret (Some False, s) else
     bindO (rd mem 3) (\<lambda>b3. if b3 \<noteq> MBUS603_MID then Ret (Some False, s) else
     bindO (rd mem (int n - 1)) (\<lambda>be. if be \<noteq> MBUS603_EOM then Ret (Some False, s) else
     bindO (rd mem 1) (\<lambda>len.
     bindO (mbus_CheckSum mem 4 (int (unat len))) (\<lambda>check.
     bindO (rd mem (int n - 2)) (\<lambda>bc. if check \<noteq> bc then Ret (Some False, s) else
     bindO (rd mem 13) (\<lambda>ver.
     bindO (rd mem 16) (\<lambda>st.
     bindO (Mbus603_ParsePack index \<lparr>pk_state = st, pk_ver = ver, pk_len = len, pk_data = 19\<rparr> mem s)
       (\<lambda>s'. Ret (None, s'))))))))))"

section \<open>Lemmas\<close>

text \<open>
  The records of an answer: \<open>h i\<close> are the information bytes before the \<open>i\<close>th value (with the
  records that the parser skips), of the lengths below.
\<close>

definition mbus_heads :: "nat list" where
  "mbus_heads = [3, 5, 3, 3, 2, 17, 8, 2, 2, 2, 2, 2]"

definition mbus_records :: "(nat \<Rightarrow> bytes) \<Rightarrow> mbus_result \<Rightarrow> bytes" where
  "mbus_records h r =
     h 0 @ le32 (sum_e1 r) @ h 1 @ le32 (e3 r) @ h 2 @ le32 (e8 r) @ h 3 @ le32 (e9 r) @
     h 4 @ le32 (v1 r) @ h 5 @ le32 (time_sum r) @ h 6 @ le16 (ucast (T1 r)) @
     h 7 @ le16 (ucast (T2 r)) @ h 8 @ le16 (ucast (dt r)) @ h 9 @ le32 (e1_e3 r) @
     h 10 @ le32 (max_month_power r) @ h 11 @ le32 (f_rate r)"

text \<open>The user data of the frame: 9 bytes, the version, 2 bytes, the state, 2 bytes, the records.\<close>

definition mbus_body :: "bytes \<Rightarrow> bytes \<Rightarrow> bytes \<Rightarrow> (nat \<Rightarrow> bytes) \<Rightarrow> bytes \<Rightarrow> mbus_result \<Rightarrow> bytes" where
  "mbus_body x y z h rest r = x @ [mb_ver r] @ y @ [mb_state r] @ z @ mbus_records h r @ rest"

definition mbus_frame :: "bytes \<Rightarrow> bytes" where
  "mbus_frame body = [0x68, of_nat (length body), of_nat (length body), 0x68] @ body @
     [sum_list body, 0x16]"

text \<open>A record is found behind the bytes before it, whatever they are.\<close>

lemma mbus_record_drop:
  assumes "p = int (length pre)" and "take (hdr + 4) (drop off m) = h @ le32 w" and "length h = hdr"
  shows "mbus_record (pre @ m) p off hdr = Ret w"
proof -
  have "length (take (hdr + 4) (drop off m)) = hdr + 4" by (simp only: assms(2,3) length_append length_le32)
  then have "off + (hdr + 4) \<le> length m" unfolding length_take length_drop by linarith
  then have "copy_out (pre @ m) (p + int off) (hdr + 4) = Ret (h @ le32 w)"
    using copy_out_nat [of "length pre + off" _ "pre @ m"] assms(2) by (simp add: assms(1))
  then show ?thesis by (simp add: mbus_record_def of_le32_le32 flip: assms(3))
qed

lemma mbus_record_short_drop:
  assumes "p = int (length pre)" and "take (hdr + 2) (drop off m) = h @ le16 (ucast w)"
    and "length h = hdr" and "w < 0x10000"
  shows "mbus_record_short (pre @ m) p off hdr = Ret w"
proof -
  have "length (take (hdr + 2) (drop off m)) = hdr + 2" by (simp only: assms(2,3) length_append length_le16)
  then have "off + (hdr + 2) \<le> length m" unfolding length_take length_drop by linarith
  then have "copy_out (pre @ m) (p + int off) (hdr + 2) = Ret (h @ le16 (ucast w))"
    using copy_out_nat [of "length pre + off" _ "pre @ m"] assms(2) by (simp add: assms(1))
  moreover have "unat w < 2 ^ 16" using assms(4) by (simp add: word_less_nat_alt)
  then have "ucast (ucast w :: u16) = w"
    by (simp add: word_unat_eq_iff unsigned_ucast_eq unsigned_take_bit_eq take_bit_nat_eq_self)
  ultimately show ?thesis by (simp add: mbus_record_short_def of_le16_le16 flip: assms(3))
qed

text \<open>The values that the parser finds in the records.\<close>

lemma ParsePack_records:
  assumes p: "pk_data pk = int (length pre)"
    and h: "\<forall>i < 12. length (h i) = mbus_heads ! i"
    and t: "T1 r < 0x10000" "T2 r < 0x10000" "dt r < 0x10000"
    and i: "i < length (s_mbus603_queue s)"
  shows "Mbus603_ParsePack (int i) pk (pre @ mbus_records h r @ post) s =
    Ret (s\<lparr>s_mbus603_queue := (s_mbus603_queue s)[i :=
      slot_send (r\<lparr>mb_state := pk_state pk, mb_ver := pk_ver pk\<rparr>) (s_mbus603_queue s ! i)]\<rparr>)"
proof -
  have l: "length (h 0) = 3" "length (h 1) = 5" "length (h 2) = 3" "length (h 3) = 3" "length (h 4) = 2"
    "length (h 5) = 17" "length (h 6) = 8" "length (h 7) = 2" "length (h 8) = 2" "length (h 9) = 2"
    "length (h 10) = 2" "length (h 11) = 2"
    using h [rule_format, of 0] h [rule_format, of 1] h [rule_format, of 2] h [rule_format, of 3]
      h [rule_format, of 4] h [rule_format, of 5] h [rule_format, of 6] h [rule_format, of 7]
      h [rule_format, of 8] h [rule_format, of 9] h [rule_format, of 10] h [rule_format, of 11]
    by (simp_all add: mbus_heads_def numeral_eq_Suc)
  let ?m = "mbus_records h r @ post"
  note [simp] = l and [simp del] = One_nat_def
  have f0: "mbus_record (pre @ ?m) (pk_data pk) 0 3 = Ret (sum_e1 r)"
    by (rule mbus_record_drop [OF p, where h = "h 0"]) (simp_all add: mbus_records_def t)
  have f1: "mbus_record (pre @ ?m) (pk_data pk) 7 5 = Ret (e3 r)"
    by (rule mbus_record_drop [OF p, where h = "h 1"]) (simp_all add: mbus_records_def t)
  have f2: "mbus_record (pre @ ?m) (pk_data pk) 16 3 = Ret (e8 r)"
    by (rule mbus_record_drop [OF p, where h = "h 2"]) (simp_all add: mbus_records_def t)
  have f3: "mbus_record (pre @ ?m) (pk_data pk) 23 3 = Ret (e9 r)"
    by (rule mbus_record_drop [OF p, where h = "h 3"]) (simp_all add: mbus_records_def t)
  have f4: "mbus_record (pre @ ?m) (pk_data pk) 30 2 = Ret (v1 r)"
    by (rule mbus_record_drop [OF p, where h = "h 4"]) (simp_all add: mbus_records_def t)
  have f5: "mbus_record (pre @ ?m) (pk_data pk) 51 2 = Ret (time_sum r)"
    by (rule mbus_record_drop [OF p, where h = "drop 15 (h 5)"]) (simp_all add: mbus_records_def t)
  have f6: "mbus_record_short (pre @ ?m) (pk_data pk) 63 2 = Ret (T1 r)"
    by (rule mbus_record_short_drop [OF p, where h = "drop 6 (h 6)"]) (simp_all add: mbus_records_def t)
  have f7: "mbus_record_short (pre @ ?m) (pk_data pk) 67 2 = Ret (T2 r)"
    by (rule mbus_record_short_drop [OF p, where h = "h 7"]) (simp_all add: mbus_records_def t)
  have f8: "mbus_record_short (pre @ ?m) (pk_data pk) 71 2 = Ret (dt r)"
    by (rule mbus_record_short_drop [OF p, where h = "h 8"]) (simp_all add: mbus_records_def t)
  have f9: "mbus_record (pre @ ?m) (pk_data pk) 75 2 = Ret (e1_e3 r)"
    by (rule mbus_record_drop [OF p, where h = "h 9"]) (simp_all add: mbus_records_def t)
  have f10: "mbus_record (pre @ ?m) (pk_data pk) 81 2 = Ret (max_month_power r)"
    by (rule mbus_record_drop [OF p, where h = "h 10"]) (simp_all add: mbus_records_def t)
  have f11: "mbus_record (pre @ ?m) (pk_data pk) 87 2 = Ret (f_rate r)"
    by (rule mbus_record_drop [OF p, where h = "h 11"]) (simp_all add: mbus_records_def t)
  show ?thesis
    unfolding Mbus603_ParsePack_def Let_def f0 f1 f2 f3 f4 f5 f6 f7 f8 f9 f10 f11 bindO.simps
    using i by (cases r) (simp add: rd_nat)
qed

lemma mbus_record_ok:
  assumes "0 \<le> p" and "p + int off + int hdr + 4 \<le> int (length mem)"
  shows "\<exists>w. mbus_record mem p off hdr = Ret w" "\<exists>w. mbus_record_short mem p off hdr = Ret w"
  using copy_out_ok [of "p + int off" "hdr + 4" mem] copy_out_ok [of "p + int off" "hdr + 2" mem] assms
  by (auto simp: mbus_record_def mbus_record_short_def)

lemma Mbus603_ParsePack_ok:
  assumes p: "pk_data pk = 19" and m: "112 \<le> length mem" and i: "i < length (s_mbus603_queue s)"
  shows "\<exists>q. Mbus603_ParsePack (int i) pk mem s = Ret (s\<lparr>s_mbus603_queue := (s_mbus603_queue s)[i := q]\<rparr>)"
proof -
  have four: "\<exists>w. mbus_record mem 19 off hdr = Ret w" if "off + hdr \<le> 89" for off hdr
    using mbus_record_ok [of 19 off hdr mem] m that by simp
  have two: "\<exists>w. mbus_record_short mem 19 off hdr = Ret w" if "off + hdr \<le> 89" for off hdr
    using mbus_record_ok [of 19 off hdr mem] m that by simp
  obtain f0 f1 f2 f3 f4 f5 where f: "mbus_record mem 19 0 3 = Ret f0" "mbus_record mem 19 7 5 = Ret f1"
    "mbus_record mem 19 16 3 = Ret f2" "mbus_record mem 19 23 3 = Ret f3"
    "mbus_record mem 19 30 2 = Ret f4" "mbus_record mem 19 51 2 = Ret f5"
    using four [of 0 3] four [of 7 5] four [of 16 3] four [of 23 3] four [of 30 2] four [of 51 2] by auto
  obtain f6 f7 f8 f9 f10 f11 where g: "mbus_record_short mem 19 63 2 = Ret f6"
    "mbus_record_short mem 19 67 2 = Ret f7" "mbus_record_short mem 19 71 2 = Ret f8"
    "mbus_record mem 19 75 2 = Ret f9" "mbus_record mem 19 81 2 = Ret f10" "mbus_record mem 19 87 2 = Ret f11"
    using two [of 63 2] two [of 67 2] two [of 71 2] four [of 75 2] four [of 81 2] four [of 87 2] by auto
  show ?thesis
    using i by (auto simp: Mbus603_ParsePack_def Let_def p f g rd_nat)
qed

section \<open>Properties\<close>

text \<open>
  Claim C25.  A complete answer frame of the meter, followed in the receive buffer by anything, is
  decoded into exactly the reading that was encoded: version, state and the twelve values (the three
  temperatures as unsigned 16 bit numbers) reach the empty queue of the port, whatever information
  bytes stand before the values.
\<close>

theorem mbus603_frame_decoded:
  assumes body: "body = mbus_body x y z h rest r"
    and len: "length x = 9" "length y = 2" "length z = 2" "\<forall>i < 12. length (h i) = mbus_heads ! i"
      "length body < 256"
    and t: "T1 r < 0x10000" "T2 r < 0x10000" "dt r < 0x10000"
    and q: "i < length (s_mbus603_queue s)" "s_mbus603_queue s ! i = Some []"
  shows "Mbus603_PutBytes (int i) (mbus_frame body @ post) (length (mbus_frame body)) s =
    Ret (None, s\<lparr>s_mbus603_queue := (s_mbus603_queue s)[i := Some [r]]\<rparr>)"
proof -
  let ?L = "of_nat (length body) :: u8" and ?m = "mbus_frame body @ post"
  have n: "length (mbus_frame body) = length body + 6" by (simp add: mbus_frame_def)
  have m0: "?m = [] @ 0x68 # ([?L, ?L, 0x68] @ body @ [sum_list body, 0x16] @ post)"
    and m1: "?m = [0x68] @ ?L # ([?L, 0x68] @ body @ [sum_list body, 0x16] @ post)"
    and m3: "?m = [0x68, ?L, ?L] @ 0x68 # (body @ [sum_list body, 0x16] @ post)"
    and mb: "?m = [0x68, ?L, ?L, 0x68] @ body @ ([sum_list body, 0x16] @ post)"
    and mc: "?m = ([0x68, ?L, ?L, 0x68] @ body) @ sum_list body # ([0x16] @ post)"
    and me: "?m = ([0x68, ?L, ?L, 0x68] @ body @ [sum_list body]) @ 0x16 # post"
    by (simp_all add: mbus_frame_def)
  have m13: "?m = ([0x68, ?L, ?L, 0x68] @ x) @ mb_ver r # (y @ [mb_state r] @ z @ mbus_records h r @ rest @
      [sum_list body, 0x16] @ post)"
    and m16: "?m = ([0x68, ?L, ?L, 0x68] @ x @ [mb_ver r] @ y) @ mb_state r # (z @ mbus_records h r @ rest @
      [sum_list body, 0x16] @ post)"
    and m19: "?m = ([0x68, ?L, ?L, 0x68] @ x @ [mb_ver r] @ y @ [mb_state r] @ z) @ mbus_records h r @ (rest @
      [sum_list body, 0x16] @ post)"
    unfolding mb by (simp_all add: body mbus_body_def)
  have ul: "unat ?L = length body" using len(5) by (simp add: unat_of_nat_small')
  have ne: "0 < length body" by (simp add: body mbus_body_def)
  have ui: "uint ?L = int (length body)" using ul by (metis uint_nat)
  have "mbus_CheckSum ?m 4 (int (length body)) = Ret (sum_list body)"
    using copy_out_at [OF mb, of 4 "length body"] ne by (simp add: mbus_CheckSum_def sum_from_def)
  note rds = rd_at [OF m0, of 0] rd_at [OF m1, of 1] rd_at [OF m3, of 3] rd_at [OF m13, of 13]
    rd_at [OF m16, of 16] rd_at [OF mc, of "4 + int (length body)"] rd_at [OF me, of "5 + int (length body)"] this
  have "Mbus603_ParsePack (int i) \<lparr>pk_state = mb_state r, pk_ver = mb_ver r, pk_len = ?L, pk_data = 19\<rparr> ?m s =
      Ret (s\<lparr>s_mbus603_queue := (s_mbus603_queue s)[i := Some [r]]\<rparr>)"
    unfolding m19 by (subst ParsePack_records) (simp_all add: len t q slot_send_def)
  then show ?thesis
    using rds by (simp add: Mbus603_PutBytes_def n mbus_consts ul ui len)
qed

definition demo_mbus :: mbus_state where
  "demo_mbus = \<lparr>s_mbus603_queue = [Some []],
     g_result = [\<lparr>mb_state = 0, mb_ver = 0, sum_e1 = 0, e3 = 0, e8 = 0, e9 = 0, v1 = 0, time_sum = 0,
       T1 = 0, T2 = 0, dt = 0, e1_e3 = 0, max_month_power = 0, f_rate = 0\<rparr>],
     prvMbus603SendData = True, mbus_sent = []\<rparr>"

definition demo_reading :: mbus_result where
  "demo_reading = \<lparr>mb_state = 0, mb_ver = 0x35, sum_e1 = 6854, e3 = 2, e8 = 31065, e9 = 14042,
     v1 = 32276, time_sum = 6204, T1 = 9576, T2 = 3932, dt = 5644, e1_e3 = 225,
     max_month_power = 660, f_rate = 355\<rparr>"

theorem mbus603_frame_decoded_witness:
  "\<exists>f. Mbus603_PutBytes 0 (f @ [7]) (length f) demo_mbus =
    Ret (None, demo_mbus\<lparr>s_mbus603_queue := [Some [demo_reading]]\<rparr>)"
proof -
  let ?h = "\<lambda>i. replicate (mbus_heads ! i) 4"
  have "length (mbus_body (replicate 9 1) [0, 0] [0, 0] ?h [] demo_reading) < 256"
    by (simp add: mbus_body_def mbus_records_def mbus_heads_def)
  from mbus603_frame_decoded [OF refl _ _ _ _ this, where i = 0 and s = demo_mbus and post = "[7]"]
  show ?thesis by (force simp: demo_mbus_def demo_reading_def)
qed

text \<open>
  Whatever arrives, \<open>Mbus603_PutBytes\<close> stays inside the receive buffer as soon as that
  holds 259 bytes from the first one (the checksum goes over up to 255 bytes and the parser reads up
  to byte 111, whatever number of bytes was received); a refused frame changes nothing, and no frame
  changes more than the queue of its port.
\<close>

theorem mbus603_put_bytes_safe:
  assumes n: "2 \<le> n" "n \<le> length mem" "259 \<le> length mem" and i: "i < length (s_mbus603_queue s)"
  shows "\<exists>ret s' q. Mbus603_PutBytes (int i) mem n s = Ret (ret, s') \<and>
    (ret = Some False \<longrightarrow> s' = s) \<and> s' = s\<lparr>s_mbus603_queue := (s_mbus603_queue s)[i := q]\<rparr>"
proof -
  have r: "\<exists>x. rd mem k = Ret x" if "0 \<le> k" "k < int (length mem)" for k by (rule rd_ok [OF that])
  obtain b0 b1 b3 b13 b16 where b: "rd mem 0 = Ret b0" "rd mem 1 = Ret b1" "rd mem 3 = Ret b3"
      "rd mem 13 = Ret b13" "rd mem 16 = Ret b16"
    using r [of 0] r [of 1] r [of 3] r [of 13] r [of 16] n by force
  obtain be bc where e: "rd mem (int n - 1) = Ret be" "rd mem (int n - 2) = Ret bc"
    using r [of "int n - 1"] r [of "int n - 2"] n by auto
  have "unat b1 \<le> 255" using unsigned_less [of b1, where 'a = nat] by simp
  then have "4 + int (unat b1) \<le> int (length mem)" using n by linarith
  from sum_from_ok [OF _ this] obtain c where c: "mbus_CheckSum mem 4 (int (unat b1)) = Ret c"
    unfolding mbus_CheckSum_def by auto
  obtain q where q: "Mbus603_ParsePack (int i) \<lparr>pk_state = b16, pk_ver = b13, pk_len = b1, pk_data = 19\<rparr> mem s =
      Ret (s\<lparr>s_mbus603_queue := (s_mbus603_queue s)[i := q]\<rparr>)"
    using Mbus603_ParsePack_ok [OF _ _ i, of "\<lparr>pk_state = b16, pk_ver = b13, pk_len = b1, pk_data = 19\<rparr>" mem] n by auto
  have same: "s = s\<lparr>s_mbus603_queue := (s_mbus603_queue s)[i := s_mbus603_queue s ! i]\<rparr>" by simp
  show ?thesis
    unfolding Mbus603_PutBytes_def b e c bindO.simps q by (auto intro: same)
qed

theorem mbus603_put_bytes_safe_witness:
  "\<exists>ret s'. Mbus603_PutBytes 0 (replicate 1024 0x68) 20 demo_mbus = Ret (ret, s')"
proof -
  have "0 < length (s_mbus603_queue demo_mbus)" by (simp add: demo_mbus_def)
  from mbus603_put_bytes_safe [of 20 "replicate 1024 0x68", OF _ _ _ this] show ?thesis by auto
qed

text \<open>
  A sample sends one short frame with the checksum of M-Bus and reports whether a reading
  arrived; after it \<open>bMbus603ReadData\<close> gives the first reading that arrived, and when none came it
  still reports success, with the reading of before.
\<close>

theorem mbus603_sample_then_read:
  assumes i: "i < length (s_mbus603_queue s)" "i < length (g_result s)"
    and q: "s_mbus603_queue s ! i = Some old" and send: "prvMbus603SendData s"
  shows "\<exists>s'. bMbus603SampleData (int i) a arrivals s = Ret (arrivals \<noteq> [], s') \<and>
    bMbus603ReadData (int i) s' =
      Ret (True, case arrivals of [] \<Rightarrow> g_result s ! i | r # _ \<Rightarrow> r) \<and>
    mbus_sent s' = mbus_sent s @ [(int i, [0x10, 0x5B, a, sum_list [0x5B, a], 0x16])] \<and>
    s_mbus603_queue s' = (s_mbus603_queue s)[i := Some (tl old)]"
  using assms by (cases arrivals)
    (simp_all add: bMbus603SampleData_def bMbus603ReadData_def rd_nat slot_flush_def mbus_vCreatePaket_def)

theorem mbus603_sample_then_read_witness:
  "\<exists>s'. bMbus603SampleData 0 0x05 [] demo_mbus = Ret (False, s') \<and>
    bMbus603ReadData 0 s' = Ret (True, g_result demo_mbus ! 0) \<and>
    mbus_sent s' = [(0, [0x10, 0x5B, 0x05, 0x60, 0x16])]"
  using mbus603_sample_then_read [where i = 0 and s = demo_mbus and old = "[]" and a = 5 and arrivals = "[]"]
  by (auto simp: demo_mbus_def)

end
