(* ===== verification/Dust.thy ===== *)
theory Dust
  imports Meter_Memory
begin

text \<open>
  The driver of the dust sensors, \<open>sdccp/sdccp_dust.c\<close> and \<open>sdccp_dust.h\<close>: start and stop commands
  with their acknowledgements, and the measurements that a started sensor sends on its own, at
  most 60 for one start.
\<close>

section \<open>Types\<close>

definition DUST_PRE1 :: u8 where "DUST_PRE1 = 0xff"
definition DUST_PRE2 :: u8 where "DUST_PRE2 = 0x43"
definition DUST_DATA_CNT_MAX :: int where "DUST_DATA_CNT_MAX = 60"

lemmas dust_consts = DUST_PRE1_def DUST_PRE2_def DUST_DATA_CNT_MAX_def

datatype dust_code = CODE_OK | CODE_START_SAMPLE | CODE_STOP_SAMPLE | CODE_READ_DEVNO
  | CODE_READ_VERSION | CODE_DATA

primrec dust_code_val :: "dust_code \<Rightarrow> u8" where
  "dust_code_val CODE_OK = 0x00"
| "dust_code_val CODE_START_SAMPLE = 0x01"
| "dust_code_val CODE_STOP_SAMPLE = 0x02"
| "dust_code_val CODE_READ_DEVNO = 0x04"
| "dust_code_val CODE_READ_VERSION = 0x05"
| "dust_code_val CODE_DATA = 0xaa"

text \<open>
  The package: its length byte, and the address of its data, which stays uninitialised (\<open>None\<close>) in
  a frame of three bytes or less.
\<close>

record dust_package =
  dp_len :: u8
  dp_data :: "int option"

record dust_data =
  PM25 :: u16
  PM10 :: u16
  PM25Sum :: u32
  PM10Sum :: u32
  PM25Num :: u16
  PM10Num :: u16
  dust_T :: u8
  dust_H :: u8

definition no_dust_data :: dust_data where
  "no_dust_data = \<lparr>PM25 = 0, PM10 = 0, PM25Sum = 0, PM10Sum = 0, PM25Num = 0, PM10Num = 0,
     dust_T = 0, dust_H = 0\<rparr>"

text \<open>
  A result. Its union is two members here: the code writes the one that belongs to \<open>code\<close> into a
  zeroed result, and reads only that one.
\<close>

record dust_result =
  du_index :: int
  du_code :: dust_code
  du_data :: dust_data
  du_devno :: u32

definition dust_result_of :: "int \<Rightarrow> dust_code \<Rightarrow> dust_result" where
  "dust_result_of index code = \<lparr>du_index = index, du_code = code, du_data = no_dust_data, du_devno = 0\<rparr>"

record dust_state =
  s_dust_queue :: "dust_result list option list"
  s_dust_data_cnt :: "int list"
  prvDustSendData :: bool
  dust_sent :: "(int \<times> bytes) list"

text \<open>\<open>htons\<close> and \<open>htonl\<close> on the little-endian gateway.\<close>

definition htons :: "u16 \<Rightarrow> u16" where "htons w = of_le16 (rev (le16 w))"
definition htonl :: "u32 \<Rightarrow> u32" where "htonl w = of_le32 (rev (le32 w))"

section \<open>Requests\<close>

definition dust_init :: "nat \<Rightarrow> bool \<Rightarrow> dust_state \<Rightarrow> dust_state" where
  "dust_init index mq_ok s =
     (if mq_ok then s\<lparr>s_dust_queue := (s_dust_queue s)[index := Some []], prvDustSendData := True\<rparr>
      else s\<lparr>s_dust_queue := (s_dust_queue s)[index := None]\<rparr>)"

definition dust_CheckSum :: "bytes \<Rightarrow> int \<Rightarrow> int \<Rightarrow> u8 outcome" where
  "dust_CheckSum mem base len = sum_from mem base len"

definition prvCreatePaket :: "dust_code \<Rightarrow> bytes outcome" where
  "prvCreatePaket code =
     (let buf = [DUST_PRE1, DUST_PRE2, 0x01, dust_code_val code]
      in bindO (dust_CheckSum buf 2 (int (length buf) - 2)) (\<lambda>check. Ret (buf @ [check])))"

definition dust_send :: "int \<Rightarrow> bytes \<Rightarrow> dust_state \<Rightarrow> dust_state" where
  "dust_send index pbuf s =
     (if prvDustSendData s then s\<lparr>dust_sent := dust_sent s @ [(index, pbuf)]\<rparr> else s)"

text \<open>
  The wait loop: messages are taken one after another until one has the wanted code; \<open>msgs\<close> are
  the messages in the queue and those that arrive before a receive times out.
\<close>

fun dust_await :: "dust_code \<Rightarrow> dust_result list \<Rightarrow> dust_result option \<times> dust_result list" where
  "dust_await code [] = (None, [])"
| "dust_await code (r # rs) = (if du_code r = code then (Some r, rs) else dust_await code rs)"

definition dust_wait :: "nat \<Rightarrow> dust_code \<Rightarrow> dust_result list \<Rightarrow> dust_state \<Rightarrow>
    dust_result option \<times> dust_state" where
  "dust_wait index code arrivals s =
     (case s_dust_queue s ! index of
        None \<Rightarrow> (None, s)
      | Some ms \<Rightarrow> let (r, rest) = dust_await code (ms @ arrivals)
                  in (r, s\<lparr>s_dust_queue := (s_dust_queue s)[index := Some rest]\<rparr>))"

definition vDustRequestReadDevNo :: "int \<Rightarrow> dust_result list \<Rightarrow> dust_state \<Rightarrow>
    (u32 option \<times> dust_state) outcome" where
  "vDustRequestReadDevNo index arrivals s =
     bindO (prvCreatePaket CODE_READ_DEVNO) (\<lambda>pbuf.
       let s1 = dust_send 0 pbuf s in
       bindO (rd (s_dust_queue s1) index) (\<lambda>_.
         let (r, s2) = dust_wait (nat index) CODE_READ_DEVNO arrivals s1
         in Ret (map_option du_devno r, s2)))"

definition bDustStartSample :: "int \<Rightarrow> dust_result list \<Rightarrow> dust_state \<Rightarrow> (bool \<times> dust_state) outcome" where
  "bDustStartSample index arrivals s =
     bindO (prvCreatePaket CODE_START_SAMPLE) (\<lambda>pbuf.
       let s1 = dust_send 0 pbuf s in
       bindO (rd (s_dust_queue s1) index) (\<lambda>q.
         let s2 = s1\<lparr>s_dust_queue := (s_dust_queue s1)[nat index := slot_flush q]\<rparr>;
             s3 = dust_send index pbuf s2;
             (r, s4) = dust_wait (nat index) CODE_OK arrivals s3
         in case r of
              None \<Rightarrow> Ret (False, s4)
            | Some _ \<Rightarrow> bindO (rd (s_dust_data_cnt s4) index) (\<lambda>_.
                Ret (True, s4\<lparr>s_dust_data_cnt := (s_dust_data_cnt s4)[nat index := 0]\<rparr>))))"

definition bDustStopSample :: "int \<Rightarrow> dust_result list \<Rightarrow> dust_state \<Rightarrow> (bool \<times> dust_state) outcome" where
  "bDustStopSample index arrivals s =
     bindO (prvCreatePaket CODE_STOP_SAMPLE) (\<lambda>pbuf.
       let s1 = dust_send 0 pbuf s in
       bindO (rd (s_dust_queue s1) index) (\<lambda>_.
         let (r, s2) = dust_wait (nat index) CODE_OK arrivals s1
         in case r of
              None \<Rightarrow> Ret (False, s2)
            | Some _ \<Rightarrow> bindO (rd (s_dust_data_cnt s2) index) (\<lambda>_.
                Ret (True, s2\<lparr>s_dust_data_cnt := (s_dust_data_cnt s2)[nat index := DUST_DATA_CNT_MAX]\<rparr>))))"

section \<open>Received frames\<close>

text \<open>The data area of a frame, read through \<open>pPack->pData\<close>.\<close>

definition pack_data :: "dust_package \<Rightarrow> bytes \<Rightarrow> nat \<Rightarrow> bytes outcome" where
  "pack_data pk mem n = (case dp_data pk of None \<Rightarrow> Fault | Some p \<Rightarrow> copy_out mem p n)"

text \<open>
  The 27 bytes of \<open>s_Dust_Data_t\<close>: control byte, the values in network order, temperature,
  humidity and eight bytes of date. \<open>PM25Sum\<close> is not copied to the result.
\<close>

definition dust_parse_data :: "bytes \<Rightarrow> dust_data" where
  "dust_parse_data d =
     no_dust_data\<lparr>PM25 := htons (of_le16 (drop 1 d)), PM10 := htons (of_le16 (drop 3 d)),
       PM10Sum := htonl (of_le32 (drop 9 d)), PM25Num := htons (of_le16 (drop 13 d)),
       PM10Num := htons (of_le16 (drop 15 d)), dust_T := d ! 17, dust_H := d ! 18\<rparr>"

definition Dust_ParsePack :: "int \<Rightarrow> dust_package \<Rightarrow> bytes \<Rightarrow> dust_state \<Rightarrow> dust_state outcome" where
  "Dust_ParsePack index pk mem s =
     (if dp_len pk = 0 then
        bindO (rd (s_dust_queue s) index) (\<lambda>q.
          Ret (s\<lparr>s_dust_queue := (s_dust_queue s)[nat index := slot_send (dust_result_of index CODE_OK) q]\<rparr>))
      else if dp_len pk = 4 then
        bindO (rd (s_dust_queue s) index) (\<lambda>q. if q = None then Ret s else
        bindO (pack_data pk mem 4) (\<lambda>d.
          Ret (s\<lparr>s_dust_queue := (s_dust_queue s)[nat index :=
            slot_send ((dust_result_of index CODE_READ_DEVNO)\<lparr>du_devno := htonl (of_le32 d)\<rparr>) q]\<rparr>)))
      else if dp_len pk = 27 then
        bindO (pack_data pk mem 27) (\<lambda>d.
        bindO (rd (s_dust_queue s) index) (\<lambda>q. if q = None then Ret s else
        bindO (rd (s_dust_data_cnt s) index) (\<lambda>c.
          Ret (s\<lparr>s_dust_data_cnt := (s_dust_data_cnt s)[nat index := if c < DUST_DATA_CNT_MAX then c + 1 else c],
                s_dust_queue := (s_dust_queue s)[nat index :=
                  slot_send ((dust_result_of index CODE_DATA)\<lparr>du_data := dust_parse_data d\<rparr>) (Some [])]\<rparr>))))
      else Ret s)"

text \<open>
  A read waits only while measurements are expected; \<open>arrival\<close> is the message that comes before a
  wait of a positive \<open>timeout\<close> ends.  Receiving from a queue that was never created is a fault.
\<close>

definition bDust_ReadData :: "int \<Rightarrow> int \<Rightarrow> dust_result option \<Rightarrow> dust_state \<Rightarrow>
    (dust_data option \<times> dust_state) outcome" where
  "bDust_ReadData index timeout arrival s =
     bindO (rd (s_dust_data_cnt s) index) (\<lambda>c.
     let t = (if c \<ge> DUST_DATA_CNT_MAX then 0 else timeout) in
     bindO (rd (s_dust_queue s) index) (\<lambda>q.
       case q of
         None \<Rightarrow> Fault
       | Some ms \<Rightarrow>
           let msg = (case ms of r # _ \<Rightarrow> Some r | [] \<Rightarrow> if t = 0 then None else arrival);
               s' = s\<lparr>s_dust_queue := (s_dust_queue s)[nat index := Some (tl ms)]\<rparr>
           in Ret (case msg of
                     None \<Rightarrow> None
                   | Some r \<Rightarrow> if du_code r = CODE_DATA then Some (du_data r) else None, s')))"

text \<open>
  The search for the two start bytes looks one byte ahead, so past the received bytes at the end;
  the result is the position of the first start, or \<open>n\<close>.
\<close>

fun dust_find :: "bytes \<Rightarrow> nat \<Rightarrow> nat \<Rightarrow> nat outcome" where
  "dust_find mem n 0 = Ret n"
| "dust_find mem n (Suc k) =
     (let i = n - Suc k in
      bindO (rd mem (int i)) (\<lambda>a.
        if a = DUST_PRE1 then bindO (rd mem (int i + 1)) (\<lambda>b. if b = DUST_PRE2 then Ret i else dust_find mem n k)
        else dust_find mem n k))"

definition Dust_PutBytes :: "int \<Rightarrow> bytes \<Rightarrow> nat \<Rightarrow> dust_state \<Rightarrow> (bool \<times> dust_state) outcome" where
  "Dust_PutBytes index mem n s =
     bindO (dust_find mem n n) (\<lambda>i.
     let p = int i; len = int n - int i in
     bindO (rd mem p) (\<lambda>a. if a \<noteq> DUST_PRE1 then Ret (False, s) else
     bindO (rd mem (p + 1)) (\<lambda>b. if b \<noteq> DUST_PRE2 then Ret (False, s) else
     bindO (dust_CheckSum mem (p + 2) (len - 3)) (\<lambda>check.
     bindO (rd mem (p + len - 1)) (\<lambda>c. if check \<noteq> c then Ret (False, s) else
     bindO (copy_out mem p 3) (\<lambda>h.
     bindO (Dust_ParsePack index \<lparr>dp_len = h ! 2, dp_data = if len > 3 then Some (p + 3) else None\<rparr> mem s)
       (\<lambda>s'. Ret (True, s'))))))))"

section \<open>Lemmas\<close>

definition dust_frame :: "bytes \<Rightarrow> bytes" where
  "dust_frame dat = [0xff, 0x43, of_nat (length dat)] @ dat @ [sum_list (of_nat (length dat) # dat)]"

text \<open>A measurement as the sensor sends it.\<close>

definition dust_encode :: "u8 \<Rightarrow> dust_data \<Rightarrow> bytes \<Rightarrow> bytes" where
  "dust_encode c x date = [c] @ rev (le16 (PM25 x)) @ rev (le16 (PM10 x)) @ rev (le32 (PM25Sum x)) @
     rev (le32 (PM10Sum x)) @ rev (le16 (PM25Num x)) @ rev (le16 (PM10Num x)) @ [dust_T x, dust_H x] @ date"

lemma htons_be [simp]: "htons (of_le16 (rev (le16 w) @ r)) = w"
proof -
  obtain a b where l: "le16 w = [a, b]" by (simp add: le16_def)
  have "of_le16 (rev (le16 w) @ r) = of_le16 [b, a]" by (simp add: l)
  then have "htons (of_le16 (rev (le16 w) @ r)) = of_le16 (rev [b, a])"
    by (simp only: htons_def le16_of_le16 length_Cons list.size One_nat_def Suc_1 numeral_2_eq_2 add_0 plus_1_eq_Suc)
  also have "\<dots> = of_le16 (le16 w)" by (simp only: l rev.simps append.simps)
  finally show ?thesis by (simp only: of_le16_le16)
qed

lemma htonl_be [simp]: "htonl (of_le32 (rev (le32 w) @ r)) = w"
proof -
  obtain a b c d where l: "le32 w = [a, b, c, d]" by (simp add: le32_def)
  have "of_le32 (rev (le32 w) @ r) = of_le32 [d, c, b, a]" by (simp add: l)
  moreover have "le32 (of_le32 [d, c, b, a]) = [d, c, b, a]" by (rule le32_of_le32) simp
  ultimately have "htonl (of_le32 (rev (le32 w) @ r)) = of_le32 (rev [d, c, b, a])"
    by (simp only: htonl_def)
  also have "\<dots> = of_le32 (le32 w)" by (simp only: l rev.simps append.simps)
  finally show ?thesis by (simp only: of_le32_le32)
qed

lemma length_dust_encode: "length date = 8 \<Longrightarrow> length (dust_encode c x date) = 27"
  by (simp add: dust_encode_def)

lemma dust_parse_encode: "dust_parse_data (dust_encode c x date) = x\<lparr>PM25Sum := 0\<rparr>"
  by (cases x) (simp add: dust_parse_data_def dust_encode_def no_dust_data_def nth_append)

lemma dust_find_at:
  assumes "b + 1 < length mem" "mem ! b = DUST_PRE1" "mem ! (b + 1) = DUST_PRE2" "b < n"
    and "\<forall>j < b. mem ! j \<noteq> DUST_PRE1" and "n - k \<le> b" "k \<le> n"
  shows "dust_find mem n k = Ret b"
  using assms(6,7)
proof (induction k)
  case (Suc k)
  have r: "rd mem (int (n - Suc k)) = Ret (mem ! (n - Suc k))"
    using assms(1) Suc.prems by (intro rd_nat) simp
  have r1: "rd mem (int b + 1) = Ret (mem ! (b + 1))" using rd_nat [of "b + 1" mem] assms(1) by (simp add: add.commute)
  show ?case
  proof (cases "n - Suc k = b")
    case True
    with r r1 assms(2,3) show ?thesis by (simp add: Let_def)
  next
    case False
    then have "n - Suc k < b" using Suc.prems by simp
    moreover from this have "n - k \<le> b" "k \<le> n" using Suc.prems by simp_all
    ultimately show ?thesis using Suc.IH r assms(5) by (simp add: Let_def)
  qed
qed (use assms in simp)

lemma dust_find_ok:
  assumes "n < length mem" "k \<le> n"
  shows "\<exists>i \<le> n. dust_find mem n k = Ret i \<and> (i < n \<longrightarrow> mem ! i = DUST_PRE1 \<and> mem ! (i + 1) = DUST_PRE2)"
  using assms(2)
proof (induction k)
  case (Suc k)
  let ?i = "n - Suc k"
  have r: "rd mem (int ?i) = Ret (mem ! ?i)" "rd mem (int ?i + 1) = Ret (mem ! (?i + 1))"
    using assms(1) Suc.prems rd_nat [of ?i mem] rd_nat [of "?i + 1" mem] by (simp_all add: add.commute)
  have "dust_find mem n (Suc k) = (if mem ! ?i = DUST_PRE1 \<and> mem ! (?i + 1) = DUST_PRE2 then Ret ?i
      else dust_find mem n k)"
    by (simp only: dust_find.simps Let_def r bindO.simps) simp
  then show ?case using Suc by auto
qed simp

lemma dust_await_result: "fst (dust_await code rs) = List.find (\<lambda>r. du_code r = code) rs"
  by (induction rs) simp_all

lemma request_packet: "prvCreatePaket code = Ret [0xff, 0x43, 1, dust_code_val code, 1 + dust_code_val code]"
  by (simp add: prvCreatePaket_def dust_CheckSum_def sum_from_def copy_out_def dust_consts numeral_eq_Suc)

section \<open>Properties\<close>

text \<open>
  Claim C26.  A measurement frame, anywhere in the receive buffer after bytes that are no start byte,
  replaces what is in the queue of the port, and the next read, whatever its timeout, returns the
  measurement: every value as the sensor sent it (converted from network order) except the
  accumulated PM2.5 value, which always reads 0.  The count of measurements goes up to 60.
\<close>

theorem dust_measurement_read:
  assumes mem: "mem = pre @ dust_frame (dust_encode c x date) @ post" and pre: "0xff \<notin> set pre"
    and date: "length date = 8" and n: "n = length pre + 31"
    and i: "i < length (s_dust_queue s)" "i < length (s_dust_data_cnt s)" "s_dust_queue s ! i = Some old"
  shows "\<exists>s'. Dust_PutBytes (int i) mem n s = Ret (True, s') \<and>
    (\<exists>s''. bDust_ReadData (int i) timeout arrival s' = Ret (Some (x\<lparr>PM25Sum := 0\<rparr>), s'') \<and>
           s_dust_queue s'' ! i = Some []) \<and>
    s_dust_data_cnt s' = (s_dust_data_cnt s)[i := if s_dust_data_cnt s ! i < 60
      then s_dust_data_cnt s ! i + 1 else s_dust_data_cnt s ! i]"
proof -
  let ?dat = "dust_encode c x date" and ?p = "int (length pre)"
  let ?r = "(dust_result_of (int i) CODE_DATA)\<lparr>du_data := dust_parse_data ?dat\<rparr>"
  define ck where "ck = sum_list (27 # ?dat)"
  have ld: "length ?dat = 27" by (rule length_dust_encode [OF date])
  have fr: "dust_frame ?dat = [0xff, 0x43, 27] @ ?dat @ [ck]" by (simp add: dust_frame_def ld ck_def)
  have m0: "mem = pre @ 0xff # ([0x43, 27] @ ?dat @ [ck] @ post)"
    and m1: "mem = (pre @ [0xff]) @ 0x43 # ([27] @ ?dat @ [ck] @ post)"
    and mh: "mem = pre @ [0xff, 0x43, 27] @ (?dat @ [ck] @ post)"
    and mk: "mem = (pre @ [0xff, 0x43]) @ (27 # ?dat) @ ([ck] @ post)"
    and md: "mem = (pre @ [0xff, 0x43, 27]) @ ?dat @ ([ck] @ post)"
    and mc: "mem = (pre @ [0xff, 0x43, 27] @ ?dat) @ ck # post"
    by (simp_all add: mem fr)
  have "dust_find mem n n = Ret (length pre)"
  proof (rule dust_find_at)
    show "mem ! length pre = DUST_PRE1" by (simp add: m0 dust_consts)
    show "mem ! (length pre + 1) = DUST_PRE2" by (simp add: m0 nth_append dust_consts)
    show "\<forall>j < length pre. mem ! j \<noteq> DUST_PRE1" using pre by (auto simp: m0 nth_append dust_consts in_set_conv_nth)
  qed (simp_all add: n mem fr)
  moreover have "dust_CheckSum mem (?p + 2) 28 = Ret ck"
    using copy_out_at [OF mk, of "?p + 2" 28] by (simp add: dust_CheckSum_def sum_from_def ld ck_def)
  moreover note rd_at [OF m0, of ?p] rd_at [OF m1, of "?p + 1"] rd_at [OF mc, of "30 + ?p"]
    copy_out_at [OF mh, of ?p 3] copy_out_at [OF md, of "?p + 3" 27]
  ultimately have "Dust_PutBytes (int i) mem n s = Ret (True,
      s\<lparr>s_dust_data_cnt := (s_dust_data_cnt s)[i := if s_dust_data_cnt s ! i < 60
          then s_dust_data_cnt s ! i + 1 else s_dust_data_cnt s ! i],
        s_dust_queue := (s_dust_queue s)[i := Some [?r]]\<rparr>)"
    using i by (simp add: Dust_PutBytes_def Dust_ParsePack_def pack_data_def n dust_consts ld rd_nat slot_send_def Let_def)
  then show ?thesis
    using i by (simp add: bDust_ReadData_def rd_nat dust_parse_encode dust_result_of_def)
qed

definition demo_dust :: dust_state where
  "demo_dust = \<lparr>s_dust_queue = [Some [], Some []], s_dust_data_cnt = [0, 0], prvDustSendData = True, dust_sent = []\<rparr>"

theorem dust_measurement_read_witness:
  "\<exists>s' s''. Dust_PutBytes 1 (dust_frame (dust_encode 0 (no_dust_data\<lparr>PM25 := 35, PM25Sum := 7\<rparr>) (replicate 8 0))) 31
      demo_dust = Ret (True, s') \<and>
    bDust_ReadData 1 1000 None s' = Ret (Some (no_dust_data\<lparr>PM25 := 35\<rparr>), s'')"
proof -
  from dust_measurement_read [OF _ _ _ _ _ _, where pre = "[]" and post = "[]" and c = 0 and i = 1 and
      x = "no_dust_data\<lparr>PM25 := 35, PM25Sum := 7\<rparr>" and date = "replicate 8 0" and s = demo_dust and
      old = "[]" and n = 31 and timeout = 1000 and arrival = None, OF refl]
  show ?thesis by (force simp: demo_dust_def no_dust_data_def)
qed

text \<open>
  Starting a sensor sends the start frame to port 0 and then to its own port and succeeds
  exactly when an acknowledgement arrives, which resets the count of measurements; stopping it sends
  the stop frame to port 0 only, so a sensor on any other port never gets it, although the same
  acknowledgement (one already in the queue is enough) ends the waiting of later reads.
\<close>

theorem dust_commands:
  assumes i: "i < length (s_dust_queue s)" "i < length (s_dust_data_cnt s)" "s_dust_queue s ! i = Some old"
    and send: "prvDustSendData s"
  shows "(\<exists>s'. bDustStartSample (int i) arrivals s = Ret (\<exists>r \<in> set (tl old @ arrivals). du_code r = CODE_OK, s') \<and>
      dust_sent s' = dust_sent s @ [(0, [0xff, 0x43, 1, 1, 2]), (int i, [0xff, 0x43, 1, 1, 2])] \<and>
      ((\<exists>r \<in> set (tl old @ arrivals). du_code r = CODE_OK) \<longrightarrow> s_dust_data_cnt s' ! i = 0)) \<and>
    (\<exists>s'. bDustStopSample (int i) arrivals s = Ret (\<exists>r \<in> set (old @ arrivals). du_code r = CODE_OK, s') \<and>
      dust_sent s' = dust_sent s @ [(0, [0xff, 0x43, 1, 2, 3])] \<and>
      ((\<exists>r \<in> set (old @ arrivals). du_code r = CODE_OK) \<longrightarrow> s_dust_data_cnt s' ! i = 60))"
proof -
  have ex: "fst (dust_await CODE_OK ms) \<noteq> None \<longleftrightarrow> (\<exists>r \<in> set ms. du_code r = CODE_OK)" for ms
    by (auto simp: dust_await_result find_None_iff)
  obtain a1 b1 where w1: "dust_await CODE_OK (tl old @ arrivals) = (a1, b1)" by fastforce
  obtain a2 b2 where w2: "dust_await CODE_OK (old @ arrivals) = (a2, b2)" by fastforce
  show ?thesis
    using i send ex [of "tl old @ arrivals"] ex [of "old @ arrivals"]
    by (cases a1; cases a2)
       (simp_all add: bDustStartSample_def bDustStopSample_def request_packet dust_send_def dust_wait_def
          rd_nat slot_flush_def w1 w2 Let_def dust_consts)
qed

theorem dust_commands_witness:
  "\<exists>s'. bDustStopSample 1 [dust_result_of 1 CODE_OK] demo_dust = Ret (True, s') \<and>
    dust_sent s' = [(0, [0xff, 0x43, 1, 2, 3])]"
proof -
  have d: "s_dust_queue demo_dust ! 1 = Some []" "1 < length (s_dust_queue demo_dust)"
    "1 < length (s_dust_data_cnt demo_dust)" "prvDustSendData demo_dust"
    by (simp_all add: demo_dust_def)
  from conjunct2 [OF dust_commands [OF d(2,3,1,4), of "[dust_result_of 1 CODE_OK]"]]
  show ?thesis by (auto simp: demo_dust_def dust_result_of_def)
qed

lemma dust_find_first:
  assumes "dust_find mem n n = Ret b" "n < length mem" "0xff \<notin> set (take n mem)"
  shows "b = n"
proof (rule ccontr)
  obtain b' where b': "b' \<le> n" "dust_find mem n n = Ret b'" "b' < n \<Longrightarrow> mem ! b' = DUST_PRE1"
    using dust_find_ok [of n mem n] assms(2) by auto
  assume "b \<noteq> n"
  then have "b' < n" using b' assms(1) by simp
  then have "mem ! b' \<in> set (take n mem)" using assms(2) by (auto simp: in_set_conv_nth intro!: exI [of _ b'])
  with assms(3) b'(3) [OF \<open>b' < n\<close>] show False by (simp add: dust_consts)
qed

lemma Dust_ParsePack_ok:
  assumes "dp_len pk = 0 \<or> (\<exists>p \<ge> 0. dp_data pk = Some p \<and> p + 27 \<le> int (length mem))"
    and "i < length (s_dust_queue s)" "i < length (s_dust_data_cnt s)"
  shows "\<exists>s'. Dust_ParsePack (int i) pk mem s = Ret s'"
proof (cases "dp_len pk = 0")
  case False
  then obtain p where p: "dp_data pk = Some p" "0 \<le> p" "p + 27 \<le> int (length mem)" using assms(1) by auto
  obtain d4 d27 where "copy_out mem p 4 = Ret d4" "copy_out mem p 27 = Ret d27"
    using copy_out_ok [of p 4 mem] copy_out_ok [of p 27 mem] p by auto
  with False p assms(2,3) show ?thesis by (simp add: Dust_ParsePack_def pack_data_def rd_nat)
qed (use assms in \<open>simp add: Dust_ParsePack_def rd_nat\<close>)

text \<open>
  \<open>Dust_PutBytes\<close> stays inside a receive buffer with 33 bytes behind the received ones and
  a refused frame changes nothing, unless old bytes right behind the received ones happen to be a
  start: then, after a last byte 0, the package has no data pointer, and with a stale length byte
  of a measurement the parser copies from an uninitialised pointer.
\<close>

theorem dust_put_bytes_memory:
  assumes n: "1 \<le> n" "n + 33 \<le> length mem"
    and i: "i < length (s_dust_queue s)" "i < length (s_dust_data_cnt s)"
  shows "(\<not> (mem ! n = 0xff \<and> mem ! (n + 1) = 0x43) \<longrightarrow>
      (\<exists>s'. Dust_PutBytes (int i) mem n s = Ret (True, s')) \<or> Dust_PutBytes (int i) mem n s = Ret (False, s)) \<and>
    (0xff \<notin> set (take n mem) \<and> mem ! (n - 1) = 0 \<and> mem ! n = 0xff \<and> mem ! (n + 1) = 0x43 \<and> mem ! (n + 2) = 27 \<longrightarrow>
      Dust_PutBytes (int i) mem n s = Fault)"
proof (intro conjI impI)
  have R: "rd mem k = Ret (mem ! nat k)" if "0 \<le> k" "k < int (length mem)" for k
    using that by (simp add: rd_def)
  obtain b where b: "b \<le> n" "dust_find mem n n = Ret b"
      "b < n \<Longrightarrow> mem ! b = DUST_PRE1 \<and> mem ! (b + 1) = DUST_PRE2"
    using dust_find_ok [of n mem n] n by auto
  obtain h where h: "copy_out mem (int b) 3 = Ret h" "h ! 2 = mem ! (b + 2)" "length h = 3"
    using copy_out_nat [of b 3 mem] b(1) n by simp
  have r0: "rd mem (int b) = Ret (mem ! b)" using R [of "int b"] b(1) n by simp
  have r1: "rd mem (int b + 1) = Ret (mem ! (b + 1))"
    using R [of "int b + 1"] b(1) n by (simp add: nat_add_distrib)
  have re: "rd mem (int b + (int n - int b) - 1) = Ret (mem ! (n - 1))"
    using R [of "int n - 1"] n by (simp add: nat_diff_distrib)
  obtain c where c: "dust_CheckSum mem (int b + 2) (int n - int b - 3) = Ret c" "int n - int b \<le> 3 \<Longrightarrow> c = 0"
    unfolding dust_CheckSum_def using sum_from_ok [of "int b + 2" "int n - int b - 3" mem] b(1) n
    by (fastforce simp: sum_from_def)
  note step = Dust_PutBytes_def b(2) bindO.simps Let_def r0 r1 c(1) re h(1)
  {
    assume "\<not> (mem ! n = 0xff \<and> mem ! (n + 1) = 0x43)"
    have "\<exists>s'. Dust_ParsePack (int i) \<lparr>dp_len = h ! 2,
        dp_data = if 3 < int n - int b then Some (int b + 3) else None\<rparr> mem s = Ret s'"
      if "mem ! b = 0xff" "mem ! (b + 1) = 0x43" "c = mem ! (n - 1)"
    proof (rule Dust_ParsePack_ok [OF _ i])
      have "b < n" using that \<open>\<not> (mem ! n = 0xff \<and> mem ! (n + 1) = 0x43)\<close> b(1) by (cases "b = n") auto
      then consider "int n - int b > 3" | "n = b + 1" | "n = b + 2" | "n = b + 3" by linarith
      then show "dp_len \<lparr>dp_len = h ! 2, dp_data = if 3 < int n - int b then Some (int b + 3) else None\<rparr> = 0 \<or>
          (\<exists>p \<ge> 0. dp_data \<lparr>dp_len = h ! 2, dp_data = if 3 < int n - int b then Some (int b + 3) else None\<rparr> =
             Some p \<and> p + 27 \<le> int (length mem))"
        using that c(2) n b(1) by cases (auto simp: h(2))
    qed
    then show "(\<exists>s'. Dust_PutBytes (int i) mem n s = Ret (True, s')) \<or> Dust_PutBytes (int i) mem n s = Ret (False, s)"
      unfolding step by (auto simp: dust_consts)
  next
    assume a: "0xff \<notin> set (take n mem) \<and> mem ! (n - 1) = 0 \<and> mem ! n = 0xff \<and> mem ! (n + 1) = 0x43 \<and> mem ! (n + 2) = 27"
    have "b = n" using dust_find_first [OF b(2)] n a by simp
    then show "Dust_PutBytes (int i) mem n s = Fault"
      unfolding step using a c(2) h(2) by (simp add: dust_consts Dust_ParsePack_def pack_data_def)
  }
qed

theorem dust_put_bytes_memory_witness:
  "((\<exists>s'. Dust_PutBytes 0 (replicate 100 7) 20 demo_dust = Ret (True, s')) \<or>
     Dust_PutBytes 0 (replicate 100 7) 20 demo_dust = Ret (False, demo_dust)) \<and>
   Dust_PutBytes 0 ([0, 0xff, 0x43, 27] @ replicate 60 7) 1 demo_dust = Fault"
proof -
  have i: "0 < length (s_dust_queue demo_dust)" "0 < length (s_dust_data_cnt demo_dust)"
    by (simp_all add: demo_dust_def)
  show ?thesis
    using conjunct1 [OF dust_put_bytes_memory [OF _ _ i, of 20 "replicate 100 7"]]
      conjunct2 [OF dust_put_bytes_memory [OF _ _ i, of 1 "[0, 0xff, 0x43, 27] @ replicate 60 7"]]
    by (simp add: nth_append)
qed

end
