(* ===== verification/Framing.thy ===== *)
theory Framing
  imports Prelude
begin

text \<open>
  The byte by byte receivers of the two upload protocols (\<open>HJT212_PutBytes\<close>, \<open>CC_BJDC_PutBytes\<close>)
  have one shape: bytes go into a buffer at a position, a start mark is looked for at the
  beginning of the buffer, then an end mark behind the last byte.  The contract of such a loop is a
  locale here, with what follows from it alone: a frame is handed over whole, and after a wrong
  start nothing ever is.
\<close>

text \<open>Receive buffer, position, whether the start is still looked for, and the rest of the state.\<close>

record 'a rx =
  rx_buf :: bytes
  rx_pos :: nat
  rx_hunt :: bool
  rx_app :: 'a

text \<open>The loop over the received bytes.\<close>

fun rx_run :: "(u8 \<Rightarrow> 'w \<Rightarrow> 'w outcome) \<Rightarrow> bytes \<Rightarrow> 'w \<Rightarrow> 'w outcome" where
  "rx_run step [] w = Ret w"
| "rx_run step (b # bs) w = bindO (step b w) (rx_run step bs)"

lemma rx_run_append: "rx_run step (xs @ ys) w = bindO (rx_run step xs w) (rx_run step ys)"
  by (induction xs arbitrary: w) (simp_all add: bindO_assoc cong: bindO_cong)

lemma rx_run_single: "rx_run step [b] w = step b w"
  by (cases "step b w") simp_all

text \<open>One byte stored, with the position back at 0 at the end of the buffer.\<close>

definition rx_store :: "nat \<Rightarrow> u8 \<Rightarrow> 'a rx \<Rightarrow> 'a rx" where
  "rx_store cap b w =
     w\<lparr>rx_buf := (rx_buf w)[rx_pos w := b],
       rx_pos := (if rx_pos w + 1 \<ge> cap then 0 else rx_pos w + 1)\<rparr>"

definition rx_ok :: "nat \<Rightarrow> 'a rx \<Rightarrow> bool" where
  "rx_ok cap w \<longleftrightarrow> length (rx_buf w) = cap \<and> rx_pos w < cap"

text \<open>The end mark stands behind the first \<open>k\<close> bytes.\<close>

definition ends_at :: "bytes \<Rightarrow> nat \<Rightarrow> bytes \<Rightarrow> bool" where
  "ends_at eom k f \<longleftrightarrow> take (length eom) (drop (k - length eom) f) = eom"

lemma ends_at_append: "k \<le> length f \<Longrightarrow> length eom \<le> k \<Longrightarrow> ends_at eom k (f @ g) = ends_at eom k f"
  by (simp add: ends_at_def)

lemma ends_at_end: "ends_at eom (length f + length eom) (f @ eom)"
  by (simp add: ends_at_def)

locale frame_receiver =
  fixes step :: "u8 \<Rightarrow> 'a rx \<Rightarrow> 'a rx outcome"
    and cap :: nat and pre :: bytes and resume :: nat and eom :: bytes and least :: nat
    and frame :: "'a rx \<Rightarrow> 'a rx outcome"
  assumes sizes: "0 < resume" "resume < length pre" "length pre < least" "length eom \<le> least" "least < cap"
    and hunting: "rx_ok cap w \<Longrightarrow> rx_hunt w \<Longrightarrow> step b w =
      (let w' = rx_store cap b w
       in Ret (if rx_pos w' = length pre
               then if take (length pre) (rx_buf w') = pre then w'\<lparr>rx_hunt := False\<rparr>
                    else w'\<lparr>rx_pos := resume\<rparr>
               else w'))"
    and gathering: "rx_ok cap w \<Longrightarrow> \<not> rx_hunt w \<Longrightarrow> step b w =
      (let w' = rx_store cap b w
       in if least \<le> rx_pos w' \<and> ends_at eom (rx_pos w') (rx_buf w')
          then bindO (frame w') (\<lambda>w''. Ret (w''\<lparr>rx_pos := 0, rx_hunt := True\<rparr>))
          else Ret w')"
begin

text \<open>The state after the first \<open>k\<close> bytes of a frame.\<close>

definition part :: "'a rx \<Rightarrow> bytes \<Rightarrow> nat \<Rightarrow> 'a rx" where
  "part w f k = w\<lparr>rx_buf := take k f @ drop k (rx_buf w), rx_pos := k, rx_hunt := k < length pre\<rparr>"

lemma store_part:
  assumes "length (rx_buf w) = cap" "k < length f" "length f < cap"
  shows "rx_store cap (f ! k) (part w f k) = (part w f (Suc k))\<lparr>rx_hunt := k < length pre\<rparr>"
proof -
  have "(take k f @ drop k (rx_buf w))[k := f ! k] = take (Suc k) f @ drop (Suc k) (rx_buf w)"
    using assms by (simp add: list_update_append take_Suc_conv_app_nth Cons_nth_drop_Suc [symmetric])
  then show ?thesis using assms by (simp add: rx_store_def part_def)
qed

lemma part_run:
  assumes w: "length (rx_buf w) = cap" "rx_pos w = 0" "rx_hunt w"
    and f: "take (length pre) f = pre" "length f < cap"
    and no_eom: "\<And>j. least \<le> j \<Longrightarrow> j < length f \<Longrightarrow> \<not> ends_at eom j f"
    and k: "k < length f"
  shows "rx_run step (take k f) w = Ret (part w f k)"
  using k
proof (induction k)
  case 0
  then show ?case using w sizes by (cases w) (auto simp: part_def)
next
  case (Suc k)
  have ok: "rx_ok cap (part w f k)" using Suc.prems w f by (simp add: rx_ok_def part_def)
  note store = store_part [OF w(1) _ f(2), of k]
  have "step (f ! k) (part w f k) = Ret (part w f (Suc k))"
  proof (cases "k < length pre")
    case True
    have "take (length pre) (take (Suc k) f @ drop (Suc k) (rx_buf w)) = pre" if "Suc k = length pre"
      using that f(1) Suc.prems by simp
    then show ?thesis
      using hunting [OF ok, of "f ! k"] store Suc.prems True
      by (auto simp: Let_def part_def)
  next
    case False
    have "\<not> (least \<le> Suc k \<and> ends_at eom (Suc k) (take (Suc k) f @ drop (Suc k) (rx_buf w)))"
      using no_eom [of "Suc k"] Suc.prems sizes
        ends_at_append [of "Suc k" "take (Suc k) f" eom "drop (Suc k) (rx_buf w)"]
        ends_at_append [of "Suc k" "take (Suc k) f" eom "drop (Suc k) f"]
      by auto
    then show ?thesis
      using gathering [OF ok, of "f ! k"] store Suc.prems False
      by (auto simp: Let_def part_def)
  qed
  then show ?case
    using Suc by (simp add: take_Suc_conv_app_nth rx_run_append)
qed

text \<open>A frame with its end mark nowhere before its end is handed over as soon as it is complete.\<close>

lemma delivered:
  assumes w: "length (rx_buf w) = cap" "rx_pos w = 0" "rx_hunt w"
    and f: "take (length pre) f = pre" "length f < cap" "least \<le> length f" "ends_at eom (length f) f"
    and no_eom: "\<And>j. least \<le> j \<Longrightarrow> j < length f \<Longrightarrow> \<not> ends_at eom j f"
  shows "rx_run step f w =
    bindO (frame (w\<lparr>rx_buf := f @ drop (length f) (rx_buf w), rx_pos := length f, rx_hunt := False\<rparr>))
      (\<lambda>w''. Ret (w''\<lparr>rx_pos := 0, rx_hunt := True\<rparr>))"
proof -
  obtain k where k: "length f = Suc k" using f(3) sizes by (cases "length f") auto
  have run: "rx_run step (take k f) w = Ret (part w f k)"
    using part_run [OF w f(1,2) no_eom] k by simp
  have ok: "rx_ok cap (part w f k)" using k w f by (simp add: rx_ok_def part_def)
  have kp: "\<not> k < length pre" using k f(3) sizes by simp
  have "part w f (Suc k)\<lparr>rx_hunt := k < length pre\<rparr> =
      w\<lparr>rx_buf := f @ drop (length f) (rx_buf w), rx_pos := length f, rx_hunt := False\<rparr>"
    using k kp by (simp add: part_def)
  moreover have "ends_at eom (length f) (f @ drop (length f) (rx_buf w))"
    using f sizes by (simp add: ends_at_append)
  ultimately have "step (f ! k) (part w f k) =
      bindO (frame (w\<lparr>rx_buf := f @ drop (length f) (rx_buf w), rx_pos := length f, rx_hunt := False\<rparr>))
        (\<lambda>w''. Ret (w''\<lparr>rx_pos := 0, rx_hunt := True\<rparr>))"
    using gathering [OF ok, of "f ! k"] store_part [OF w(1), of k f] k kp f
    by (simp add: Let_def part_def)
  moreover have "f = take k f @ [f ! k]" using k by (simp add: take_Suc_conv_app_nth [symmetric])
  then have "rx_run step f w = step (f ! k) (part w f k)"
    using run by (metis bindO.simps(1) rx_run_append rx_run_single)
  ultimately show ?thesis by simp
qed

text \<open>
  Once the first bytes of the buffer are not those of the start mark, and the position is behind
  them, no later byte ever overwrites them: nothing is handed over any more.
\<close>

definition deaf :: "'a rx \<Rightarrow> bool" where
  "deaf w \<longleftrightarrow> length (rx_buf w) = cap \<and> rx_hunt w \<and> resume \<le> rx_pos w \<and> rx_pos w < length pre \<and>
     take resume (rx_buf w) \<noteq> take resume pre"

lemma deaf_step:
  assumes "deaf w"
  shows "\<exists>w'. step b w = Ret w' \<and> deaf w' \<and> rx_app w' = rx_app w"
proof -
  have ok: "rx_ok cap w" using assms sizes by (simp add: deaf_def rx_ok_def)
  have hd: "take resume ((rx_buf w)[rx_pos w := b]) = take resume (rx_buf w)"
    using assms by (simp add: deaf_def)
  have "take (length pre) ((rx_buf w)[rx_pos w := b]) \<noteq> pre"
  proof
    assume "take (length pre) ((rx_buf w)[rx_pos w := b]) = pre"
    then have "take resume (take (length pre) ((rx_buf w)[rx_pos w := b])) = take resume pre" by simp
    then show False using hd sizes assms by (simp add: min_def deaf_def)
  qed
  then show ?thesis
    using hunting [OF ok, of b] assms sizes hd
    by (auto simp: deaf_def rx_store_def Let_def)
qed

lemma deaf_run:
  "deaf w \<Longrightarrow> \<exists>w'. rx_run step bs w = Ret w' \<and> deaf w' \<and> rx_app w' = rx_app w"
proof (induction bs arbitrary: w)
  case (Cons b bs)
  obtain w1 where "step b w = Ret w1" "deaf w1" "rx_app w1 = rx_app w"
    using deaf_step [OF Cons.prems] by blast
  with Cons.IH [of w1] show ?case by auto
qed auto

text \<open>So a stream that does not begin with the start mark is lost for ever.\<close>

lemma wrong_start:
  assumes w: "length (rx_buf w) = cap" "rx_pos w = 0" "rx_hunt w"
    and bad: "length xs = resume" "xs \<noteq> take resume pre"
  shows "\<exists>w'. rx_run step (xs @ bs) w = Ret w' \<and> deaf w' \<and> rx_app w' = rx_app w"
proof -
  have "rx_run step (take k xs) w = Ret (w\<lparr>rx_buf := take k xs @ drop k (rx_buf w), rx_pos := k\<rparr>)"
    if "k \<le> resume" for k
    using that
  proof (induction k)
    case (Suc k)
    let ?w = "w\<lparr>rx_buf := take k xs @ drop k (rx_buf w), rx_pos := k\<rparr>"
    have "rx_ok cap ?w" using Suc.prems w sizes bad by (simp add: rx_ok_def)
    moreover have "(take k xs @ drop k (rx_buf w))[k := xs ! k] = take (Suc k) xs @ drop (Suc k) (rx_buf w)"
      using Suc.prems w sizes bad
      by (simp add: list_update_append take_Suc_conv_app_nth Cons_nth_drop_Suc [symmetric])
    ultimately have "step (xs ! k) ?w = Ret (w\<lparr>rx_buf := take (Suc k) xs @ drop (Suc k) (rx_buf w), rx_pos := Suc k\<rparr>)"
      using hunting [of ?w "xs ! k"] Suc.prems w sizes by (simp add: Let_def rx_store_def)
    then show ?case using Suc bad by (simp add: take_Suc_conv_app_nth rx_run_append)
  qed (use w in simp)
  from this [of resume] have run: "rx_run step xs w = Ret (w\<lparr>rx_buf := xs @ drop resume (rx_buf w), rx_pos := resume\<rparr>)"
    using bad by simp
  have "deaf (w\<lparr>rx_buf := xs @ drop resume (rx_buf w), rx_pos := resume\<rparr>)"
    using w sizes bad by (simp add: deaf_def)
  from deaf_run [OF this, of bs] show ?thesis by (auto simp: rx_run_append run)
qed

text \<open>A receiver whose frame handler always comes back always comes back, inside its buffer.\<close>

lemma step_total:
  assumes frame: "\<And>w. rx_ok cap w \<Longrightarrow> least \<le> rx_pos w \<Longrightarrow> \<exists>w'. frame w = Ret w' \<and> length (rx_buf w') = cap"
    and w: "rx_ok cap w"
  shows "\<exists>w'. step b w = Ret w' \<and> rx_ok cap w'"
proof -
  have ok: "rx_ok cap (rx_store cap b w)" using w sizes by (auto simp: rx_ok_def rx_store_def)
  show ?thesis
  proof (cases "rx_hunt w")
    case True
    then show ?thesis using hunting [OF w, of b] ok sizes by (auto simp: rx_ok_def Let_def)
  next
    case False
    show ?thesis
    proof (cases "least \<le> rx_pos (rx_store cap b w) \<and> ends_at eom (rx_pos (rx_store cap b w)) (rx_buf (rx_store cap b w))")
      case True
      from frame [OF ok] True obtain w' where "frame (rx_store cap b w) = Ret w'" "length (rx_buf w') = cap" by auto
      then show ?thesis using gathering [OF w False, of b] True sizes by (auto simp: rx_ok_def Let_def)
    next
      case no: False
      then show ?thesis using gathering [OF w False, of b] ok by (auto simp: Let_def)
    qed
  qed
qed

lemma run_total:
  assumes frame: "\<And>w. rx_ok cap w \<Longrightarrow> least \<le> rx_pos w \<Longrightarrow> \<exists>w'. frame w = Ret w' \<and> length (rx_buf w') = cap"
  shows "rx_ok cap w \<Longrightarrow> \<exists>w'. rx_run step bs w = Ret w' \<and> rx_ok cap w'"
proof (induction bs arbitrary: w)
  case (Cons b bs)
  obtain w1 where "step b w = Ret w1" "rx_ok cap w1" using step_total [OF frame Cons.prems] by blast
  with Cons.IH [of w1] show ?case by auto
qed auto

end

end
