(* ===== verification/C_Text.thy ===== *)
theory C_Text
  imports Prelude "HOL-Library.Sublist"
begin

text \<open>
  The string functions of the C library as far as the text protocols use them.  A string is its bytes
  without the NUL; a piece of memory is a string up to its first NUL.
\<close>

definition asc :: "string \<Rightarrow> bytes" where
  "asc s = map of_char s"

fun dec_digits :: "nat \<Rightarrow> bytes" where
  "dec_digits n = (if n < 10 then [0x30 + of_nat n] else dec_digits (n div 10) @ [0x30 + of_nat (n mod 10)])"

declare dec_digits.simps [simp del]

text \<open>\<open>%0wd\<close> of a number that is not negative.\<close>

definition dec_pad :: "nat \<Rightarrow> nat \<Rightarrow> bytes" where
  "dec_pad w n = (let d = dec_digits n in replicate (w - length d) 0x30 @ d)"

text \<open>\<open>sprintf\<close> into an array: the text and its NUL must fit.\<close>

definition sprintf_to :: "nat \<Rightarrow> bytes \<Rightarrow> bytes outcome" where
  "sprintf_to n s = (if length s + 1 \<le> n then Ret s else Fault)"

text \<open>\<open>strstr\<close>: what follows the first occurrence of the pattern.\<close>

fun after_tag :: "bytes \<Rightarrow> bytes \<Rightarrow> bytes option" where
  "after_tag pat [] = (if pat = [] then Some [] else None)"
| "after_tag pat (c # s) =
     (if take (length pat) (c # s) = pat then Some (drop (length pat) (c # s)) else after_tag pat s)"

text \<open>The C string at the start of a piece of memory; without a NUL its readers run off the end.\<close>

definition cstring :: "bytes \<Rightarrow> bytes outcome" where
  "cstring mem = (if 0 \<in> set mem then Ret (takeWhile (\<lambda>c. c \<noteq> 0) mem) else Fault)"

definition is_dec :: "u8 \<Rightarrow> bool" where
  "is_dec c \<longleftrightarrow> 0x30 \<le> c \<and> c \<le> 0x39"

definition is_space :: "u8 \<Rightarrow> bool" where
  "is_space c \<longleftrightarrow> c = 0x20 \<or> (0x09 \<le> c \<and> c \<le> 0x0d)"

definition atoi :: "bytes \<Rightarrow> int" where
  "atoi s =
     (let s1 = dropWhile is_space s;
          neg = (case s1 of c # _ \<Rightarrow> c = 0x2D | [] \<Rightarrow> False);
          sig = (case s1 of c # _ \<Rightarrow> c = 0x2D \<or> c = 0x2B | [] \<Rightarrow> False);
          v = fold (\<lambda>c n. 10 * n + (int (unat c) - 48)) (takeWhile is_dec (if sig then tl s1 else s1)) 0
      in if neg then - v else v)"

section \<open>Lemmas\<close>

lemma length_asc [simp]: "length (asc t) = length t"
  by (simp add: asc_def)

lemma cstring_text: "0 \<notin> set t \<Longrightarrow> cstring (t @ 0 # m) = Ret t"
  by (simp add: cstring_def) (subst takeWhile_append2; auto)

text \<open>Where a tag with its equality sign is found.\<close>

lemma after_tag_step:
  assumes t: "0x3D \<notin> set t" and u: "0x3D \<notin> set u"
  shows "after_tag (t @ [0x3D]) (u @ 0x3D # r) = (if suffix t u then Some r else after_tag (t @ [0x3D]) r)"
  using u
proof (induction u)
  case Nil
  have "take (Suc (length t)) (0x3D # r) = t @ [0x3D] \<longleftrightarrow> t = []"
    using t by (cases t) auto
  then show ?case by (auto simp: suffix_def)
next
  case (Cons c u)
  have eq: "take (Suc (length t)) (c # u @ 0x3D # r) = t @ [0x3D] \<longleftrightarrow> t = c # u"
  proof
    assume h: "take (Suc (length t)) (c # u @ 0x3D # r) = t @ [0x3D]"
    let ?z = "c # u @ 0x3D # r"
    have l: "length t < length ?z" using arg_cong [OF h, of length] by simp
    then have nth: "?z ! length t = 0x3D" and tk: "take (length t) ?z = t"
      using h by (auto simp add: take_Suc_conv_app_nth simp del: take_Suc_Cons nth_Cons)
    have "\<not> length t < length (c # u)"
      using nth Cons.prems nth_mem [of "length t" "c # u"] nth_append [of "c # u" "0x3D # r" "length t"]
      by (metis append_Cons)
    moreover have "\<not> length (c # u) < length t"
    proof
      assume lt: "length (c # u) < length t"
      then have "t ! length (c # u) = ?z ! length (c # u)" using tk by (metis nth_take)
      also have "\<dots> = 0x3D" by (simp add: nth_append)
      finally show False using t lt nth_mem by metis
    qed
    ultimately have "length t = length (c # u)" by simp
    then show "t = c # u" using tk by (metis append_Cons append_eq_conv_conj)
  qed auto
  show ?case
  proof (cases "t = c # u")
    case True
    then show ?thesis by (simp add: suffix_def)
  next
    case False
    then have "suffix t (c # u) \<longleftrightarrow> suffix t u" by (auto simp: suffix_Cons)
    then show ?thesis using False eq Cons by simp
  qed
qed

lemma length_dec_digits: "n < 10 ^ Suc k \<Longrightarrow> length (dec_digits n) \<le> Suc k"
proof (induction k arbitrary: n)
  case (Suc k)
  show ?case
  proof (cases "n < 10")
    case False
    have "n div 10 < 10 ^ Suc k" using Suc.prems by (simp add: div_less_iff_less_mult)
    from Suc.IH [OF this] show ?thesis using False by (simp add: dec_digits.simps [of n])
  qed (simp add: dec_digits.simps)
qed (simp add: dec_digits.simps)

lemma length_dec_pad: "n < 10 ^ Suc k \<Longrightarrow> w = Suc k \<Longrightarrow> length (dec_pad w n) = w"
  using length_dec_digits [of n k] by (simp add: dec_pad_def Let_def)

end
