(* ===== verification/Hjt212.thy ===== *)
theory Hjt212
  imports Framing C_Text Crc Cfloat
begin

text \<open>
  The HJ/T 212 protocol of the upload to the environmental authorities, \<open>sdccp/hjt212.c\<close> and
  \<open>hjt212.h\<close>: the receiver of platform commands, the parser of a command, the encoder of frames and
  the messages the gateway sends on its own or as answers.  The state is that of one connection
  (the C code has an array entry for each); text is a list of bytes, a C string one without NUL.
\<close>

section \<open>Types and constants\<close>

definition HJT212_BUF_SIZE :: nat where "HJT212_BUF_SIZE = 2048"
definition HJT212_PRE :: u16 where "HJT212_PRE = 0x2323"
definition HJT212_EOM :: u16 where "HJT212_EOM = 0x0A0D"

definition ST_LEN :: nat where "ST_LEN = 5"
definition PW_LEN :: nat where "PW_LEN = 9"
definition MN_LEN :: nat where "MN_LEN = 27"
definition QN_LEN :: nat where "QN_LEN = 20"
definition CN_LEN :: nat where "CN_LEN = 7"
definition FLAG_LEN :: nat where "FLAG_LEN = 8"

lemmas hj_lens = ST_LEN_def PW_LEN_def MN_LEN_def QN_LEN_def CN_LEN_def FLAG_LEN_def

definition CMD_REQUEST_UPLOAD_TIME :: nat where "CMD_REQUEST_UPLOAD_TIME = 1011"
definition CMD_REQUEST_RESPONSE :: nat where "CMD_REQUEST_RESPONSE = 9011"
definition CMD_REQUES_RESULT :: nat where "CMD_REQUES_RESULT = 9012"
definition CMD_LOGIN :: nat where "CMD_LOGIN = 9021"

definition RE_RETURN_SUCCESS :: nat where "RE_RETURN_SUCCESS = 1"
definition RE_RETURN_PASSWD_ERR :: nat where "RE_RETURN_PASSWD_ERR = 3"
definition EXE_RETURN_SUCCESS :: nat where "EXE_RETURN_SUCCESS = 1"

lemmas hj_cmds = CMD_REQUEST_UPLOAD_TIME_def CMD_REQUEST_RESPONSE_def CMD_REQUES_RESULT_def CMD_LOGIN_def
  RE_RETURN_SUCCESS_def RE_RETURN_PASSWD_ERR_def EXE_RETURN_SUCCESS_def

record hj_cfg =
  cfg_ST :: bytes
  cfg_PW :: bytes
  cfg_MN :: bytes

record hj_data =
  eType :: nat
  hj_QN :: bytes
  hj_PNUM :: bytes
  hj_PNO :: bytes
  hj_ST :: bytes
  hj_CN :: bytes
  hj_PW :: bytes
  hj_MN :: bytes
  hj_Flag :: bytes

text \<open>A reading of the clock: local time and milliseconds.\<close>

record hj_time =
  t_year :: nat
  t_mon :: nat
  t_mday :: nat
  t_hour :: nat
  t_min :: nat
  t_sec :: nat
  t_msec :: nat

text \<open>
  The connection without its receive buffer: configuration, the message queue to the work thread
  (three messages), what was given to \<open>cc_net_send\<close>, and the clock with the number of readings.
\<close>

record hj_app =
  hj_cfg :: hj_cfg
  hj_queue :: "hj_data list option"
  hj_sent :: "bytes list"
  hj_clock :: "nat \<Rightarrow> hj_time"
  hj_reads :: nat
  ulHjt212HeartbeatTick :: nat

section \<open>Text\<close>

text \<open>
  \<open>Hex2Str\<close> writes the two digits and the NUL of \<open>sprintf\<close> at \<open>pos\<close> of the array, then makes
  letters upper case.
\<close>

definition hex_upper :: "u8 \<Rightarrow> bytes" where
  "hex_upper b = map (\<lambda>c. if 0x61 \<le> c \<and> c \<le> 0x7a then c - 32 else c) (asc (hex2 b))"

definition Hex2Str :: "u8 \<Rightarrow> bytes \<Rightarrow> int \<Rightarrow> bytes outcome" where
  "Hex2Str hex buf pos = copy_in buf pos (hex_upper hex @ [0])"

text \<open>\<open>strstr\<close> for a tag, then \<open>sscanf\<close> with \<open>%n[^;]\<close>; the field stays empty without the tag.\<close>

definition scan_field :: "string \<Rightarrow> nat \<Rightarrow> bytes \<Rightarrow> bytes" where
  "scan_field tag n s =
     (case after_tag (asc tag) s of None \<Rightarrow> [] | Some r \<Rightarrow> take n (takeWhile (\<lambda>c. c \<noteq> 0x3B) r))"

section \<open>Encoder\<close>

definition enc_field :: "string \<Rightarrow> nat \<Rightarrow> bytes \<Rightarrow> bytes" where
  "enc_field tag n v = asc tag @ take n v @ [0x3B]"

definition enc_opt :: "('a \<Rightarrow> bytes) \<Rightarrow> 'a option \<Rightarrow> bytes" where
  "enc_opt f x = (case x of None \<Rightarrow> [] | Some v \<Rightarrow> f v)"

text \<open>The data part; a NULL argument is \<open>None\<close>, of \<open>Flag\<close> the first byte is sent.\<close>

definition hj_payload ::
  "bytes option \<Rightarrow> bytes option \<Rightarrow> bytes option \<Rightarrow> bytes option \<Rightarrow> bytes option \<Rightarrow> bytes option \<Rightarrow> bytes option
   \<Rightarrow> bytes" where
  "hj_payload QN ST CN PW MN Flag CP =
     enc_opt (enc_field ''QN='' QN_LEN) QN @ enc_opt (enc_field ''ST='' ST_LEN) ST @
     enc_opt (enc_field ''CN='' CN_LEN) CN @ enc_opt (enc_field ''PW='' PW_LEN) PW @
     enc_opt (enc_field ''MN='' MN_LEN) MN @
     enc_opt (\<lambda>f. asc ''Flag='' @ [case f of [] \<Rightarrow> 0 | c # _ \<Rightarrow> c] @ [0x3B]) Flag @
     enc_opt (\<lambda>c. asc ''CP=&&'' @ c @ asc ''&&'') CP"

text \<open>The four digits of the length field.\<close>

definition len_digits :: "nat \<Rightarrow> bytes" where
  "len_digits n = map (\<lambda>k. 0x30 + of_nat (n div 10 ^ k mod 10)) [3, 2, 1, 0]"

definition hj_frame :: "bytes \<Rightarrow> bytes" where
  "hj_frame payload =
     (let crc = hjt212_GetCrc16 payload
      in asc ''##'' @ len_digits (length payload) @ payload @
         hex_upper (ucast (drop_bit 8 crc)) @ hex_upper (ucast crc) @ [0x0d, 0x0a])"

text \<open>\<open>Hjt212Encode\<close> into a buffer of \<open>sz\<close> bytes.\<close>

definition Hjt212Encode ::
  "nat \<Rightarrow> bytes option \<Rightarrow> bytes option \<Rightarrow> bytes option \<Rightarrow> bytes option \<Rightarrow> bytes option \<Rightarrow> bytes option \<Rightarrow>
   bytes option \<Rightarrow> bytes outcome" where
  "Hjt212Encode sz QN ST CN PW MN Flag CP =
     (let f = hj_frame (hj_payload QN ST CN PW MN Flag CP)
      in if length f \<le> sz then Ret f else Fault)"

section \<open>Messages\<close>

definition time_text :: "hj_time \<Rightarrow> bytes" where
  "time_text t = dec_pad 4 (t_year t) @ dec_pad 2 (t_mon t) @ dec_pad 2 (t_mday t) @ dec_pad 2 (t_hour t) @
     dec_pad 2 (t_min t) @ dec_pad 2 (t_sec t)"

text \<open>The request number, the time with milliseconds, and one reading of the clock.\<close>

definition read_qn :: "hj_app \<Rightarrow> (bytes \<times> hj_time \<times> hj_app) outcome" where
  "read_qn s =
     (let t = hj_clock s (hj_reads s)
      in bindO (sprintf_to (QN_LEN + 1) (time_text t @ dec_pad 3 (t_msec t)))
           (\<lambda>qn. Ret (qn, t, s\<lparr>hj_reads := hj_reads s + 1\<rparr>)))"

definition cc_net_send :: "bytes \<Rightarrow> hj_app \<Rightarrow> hj_app" where
  "cc_net_send f s = s\<lparr>hj_sent := hj_sent s @ [f]\<rparr>"

definition hjt212_login_verify_req :: "hj_app \<Rightarrow> hj_app outcome" where
  "hjt212_login_verify_req s =
     bindO (read_qn s) (\<lambda>(qn, _, s1).
     bindO (sprintf_to (ST_LEN + 1) (cfg_ST (hj_cfg s1))) (\<lambda>st.
     bindO (sprintf_to (CN_LEN + 1) (dec_digits CMD_LOGIN)) (\<lambda>cn.
     bindO (Hjt212Encode 512 (Some qn) (Some st) (Some cn) (Some (cfg_PW (hj_cfg s1)))
              (Some (cfg_MN (hj_cfg s1))) (Some (asc ''5'')) (Some [])) (\<lambda>f.
       Ret (cc_net_send f s1)))))"

definition hjt212_req_respons :: "nat \<Rightarrow> hj_app \<Rightarrow> hj_app outcome" where
  "hjt212_req_respons rtn s =
     bindO (read_qn s) (\<lambda>(qn, _, s1).
     bindO (sprintf_to (ST_LEN + 1) (cfg_ST (hj_cfg s1))) (\<lambda>st.
     bindO (sprintf_to (CN_LEN + 1) (dec_digits CMD_REQUEST_RESPONSE)) (\<lambda>cn.
     bindO (sprintf_to 64 (asc ''QN='' @ qn @ asc '';QnRtn='' @ dec_digits rtn)) (\<lambda>cp.
     bindO (Hjt212Encode 512 None (Some st) (Some cn) (Some (cfg_PW (hj_cfg s1)))
              (Some (cfg_MN (hj_cfg s1))) (Some (asc ''0'')) (Some cp)) (\<lambda>f.
       Ret (cc_net_send f s1))))))"

definition hjt212_req_result :: "nat \<Rightarrow> hj_app \<Rightarrow> hj_app outcome" where
  "hjt212_req_result rtn s =
     bindO (read_qn s) (\<lambda>(qn, _, s1).
     bindO (sprintf_to (ST_LEN + 1) (cfg_ST (hj_cfg s1))) (\<lambda>st.
     bindO (sprintf_to (CN_LEN + 1) (dec_digits CMD_REQUES_RESULT)) (\<lambda>cn.
     bindO (sprintf_to 64 (asc ''QN='' @ qn @ asc '';ExeRtn='' @ dec_digits rtn)) (\<lambda>cp.
     bindO (Hjt212Encode 512 None (Some st) (Some cn) (Some (cfg_PW (hj_cfg s1)))
              (Some (cfg_MN (hj_cfg s1))) (Some (asc ''0'')) (Some cp)) (\<lambda>f.
       Ret (cc_net_send f s1))))))"

definition hjt212_report_system_time :: "hj_app \<Rightarrow> hj_app outcome" where
  "hjt212_report_system_time s =
     bindO (read_qn s) (\<lambda>(qn, t, s1).
     bindO (sprintf_to (ST_LEN + 1) (cfg_ST (hj_cfg s1))) (\<lambda>st.
     bindO (sprintf_to (CN_LEN + 1) (dec_digits CMD_REQUEST_UPLOAD_TIME)) (\<lambda>cn.
     bindO (sprintf_to 64 (asc ''QN='' @ qn @ asc '';SystemTime='' @ time_text t)) (\<lambda>cp.
     bindO (Hjt212Encode 1024 None (Some st) (Some cn) (Some (cfg_PW (hj_cfg s1)))
              (Some (cfg_MN (hj_cfg s1))) None (Some cp)) (\<lambda>f.
       Ret (cc_net_send f s1))))))"

section \<open>Commands\<close>

text \<open>
  The fields of a command; the command part \<open>CP\<close> is only copied, printed and freed.  \<open>eType\<close>,
  \<open>PNUM\<close> and \<open>PNO\<close> stay as \<open>memset\<close> left them.
\<close>

definition hj_fields :: "bytes \<Rightarrow> hj_data" where
  "hj_fields s = \<lparr>eType = 0, hj_QN = scan_field ''QN='' QN_LEN s, hj_PNUM = [], hj_PNO = [],
     hj_ST = scan_field ''ST='' ST_LEN s, hj_CN = scan_field ''CN='' CN_LEN s,
     hj_PW = scan_field ''PW='' PW_LEN s, hj_MN = scan_field ''MN='' MN_LEN s,
     hj_Flag = scan_field ''Flag='' FLAG_LEN s\<rparr>"

definition hj_enqueue :: "hj_data \<Rightarrow> hj_app \<Rightarrow> hj_app" where
  "hj_enqueue x s =
     s\<lparr>hj_queue := map_option (\<lambda>ms. if length ms < 3 then ms @ [x] else ms) (hj_queue s)\<rparr>"

text \<open>Only the request for the time is carried out, the other commands are printed.\<close>

definition HJT212_ParsePack :: "bytes \<Rightarrow> hj_app \<Rightarrow> hj_app outcome" where
  "HJT212_ParsePack pBuf s =
     bindO (cstring pBuf) (\<lambda>str.
       let xData = hj_fields str in
       if take (PW_LEN + 1) (cfg_PW (hj_cfg s)) \<noteq> take (PW_LEN + 1) (hj_PW xData)
       then hjt212_req_respons RE_RETURN_PASSWD_ERR s
       else
         let ulCmd = unat (word_of_int (atoi (hj_CN xData)) :: u16) in
         bindO (if ulCmd = CMD_REQUEST_UPLOAD_TIME then
                  bindO (hjt212_req_respons RE_RETURN_SUCCESS s) (\<lambda>s1.
                  bindO (hjt212_report_system_time s1) (\<lambda>s2.
                    hjt212_req_result EXE_RETURN_SUCCESS s2))
                else Ret s) (\<lambda>s'. Ret (hj_enqueue xData s')))"

section \<open>Receiver\<close>

text \<open>The length field as \<open>int\<close>; \<open>char\<close> is unsigned on the target.\<close>

definition hj_length :: "bytes \<Rightarrow> int" where
  "hj_length l =
     (let d = (\<lambda>i. int (unat (l ! i)) - 48) in d 0 * 1000 + d 1 * 100 + d 2 * 10 + d 3)"

text \<open>
  The checksum goes over as many bytes from offset 6 as the length field says, before that is
  compared with the bytes received.  The loop counts to \<open>int lintDataLen\<close>.
\<close>

definition hj_checksum :: "bytes \<Rightarrow> u32 \<Rightarrow> u16 outcome" where
  "hj_checksum buf ulLen =
     bindO (if sint ulLen \<le> 0 then Ret [] else copy_out buf 6 (nat (sint ulLen))) (\<lambda>d. Ret (hjt212_GetCrc16 d))"

text \<open>
  The four characters of a checksum.  The array has four bytes, and the NUL of the second
  \<open>Hex2Str\<close> goes into the byte of the stack behind it, which is the fifth here.
\<close>

definition hj_check_text :: "u16 \<Rightarrow> bytes outcome" where
  "hj_check_text crc =
     bindO (Hex2Str (ucast (drop_bit 8 crc)) (replicate 5 0) 0) (\<lambda>b.
     bindO (Hex2Str (ucast crc) b 2) (\<lambda>b'. Ret (take 4 b')))"

definition HJT212_frame :: "hj_app rx \<Rightarrow> hj_app rx outcome" where
  "HJT212_frame w =
     (let buf = rx_buf w; n = rx_pos w;
          ulLen = word_of_int (hj_length (take 4 (drop 2 buf))) :: u32 in
      bindO (hj_checksum buf ulLen) (\<lambda>xCheck.
      bindO (hj_check_text xCheck) (\<lambda>usCheck.
        if ulLen + 12 = of_nat n \<and> take 4 (drop (n - 6) buf) = usCheck
        then bindO (HJT212_ParsePack (drop 6 buf) (rx_app w)) (\<lambda>s. Ret (w\<lparr>rx_app := s\<rparr>))
        else Ret w)))"

text \<open>One turn of the loop of \<open>HJT212_PutBytes\<close>.\<close>

definition HJT212_put_byte :: "u8 \<Rightarrow> hj_app rx \<Rightarrow> hj_app rx outcome" where
  "HJT212_put_byte b w =
     (if rx_pos w < length (rx_buf w) then
        let w' = rx_store HJT212_BUF_SIZE b w in
        if rx_hunt w' then
          (if rx_pos w' = 2 then
             (if of_le16 (take 2 (rx_buf w')) = HJT212_PRE then Ret (w'\<lparr>rx_hunt := False\<rparr>)
              else Ret (w'\<lparr>rx_pos := 1\<rparr>))
           else Ret w')
        else if 4 \<le> rx_pos w' then
          (if of_le16 (take 2 (drop (rx_pos w' - 2) (rx_buf w'))) = HJT212_EOM \<and> 18 \<le> rx_pos w' then
             bindO (HJT212_frame w') (\<lambda>w''. Ret (w''\<lparr>rx_pos := 0, rx_hunt := True\<rparr>))
           else Ret w')
        else Ret w'
      else Fault)"

definition HJT212_PutBytes :: "nat \<Rightarrow> bytes \<Rightarrow> hj_app rx \<Rightarrow> hj_app rx outcome" where
  "HJT212_PutBytes now pBytes w =
     rx_run HJT212_put_byte pBytes (w\<lparr>rx_app := (rx_app w)\<lparr>ulHjt212HeartbeatTick := now\<rparr>\<rparr>)"

text \<open>A connection that was just opened.\<close>

definition hjt212_open :: "hj_app \<Rightarrow> hj_app rx" where
  "hjt212_open s = \<lparr>rx_buf = replicate HJT212_BUF_SIZE 0, rx_pos = 0, rx_hunt = True,
     rx_app = s\<lparr>hj_queue := Some []\<rparr>\<rparr>"

section \<open>The receiver is one of the contract\<close>

lemma of_le16_eq_iff: "length bs = 2 \<Longrightarrow> of_le16 bs = w \<longleftrightarrow> bs = le16 w"
  using le16_of_le16 [of bs] of_le16_le16 [of w] by auto

lemma le16_PRE: "le16 HJT212_PRE = [0x23, 0x23]" and le16_EOM: "le16 HJT212_EOM = [0x0d, 0x0a]"
  by (simp_all add: le16_def HJT212_PRE_def HJT212_EOM_def)

interpretation hj: frame_receiver HJT212_put_byte HJT212_BUF_SIZE "[0x23, 0x23]" 1 "[0x0d, 0x0a]" 18 HJT212_frame
proof unfold_locales
  fix w :: "hj_app rx" and b
  assume ok: "rx_ok HJT212_BUF_SIZE w" and hunt: "rx_hunt w"
  show "HJT212_put_byte b w = (let w' = rx_store HJT212_BUF_SIZE b w
      in Ret (if rx_pos w' = length [0x23, 0x23 :: u8]
              then if take (length [0x23, 0x23 :: u8]) (rx_buf w') = [0x23, 0x23] then w'\<lparr>rx_hunt := False\<rparr>
                   else w'\<lparr>rx_pos := 1\<rparr>
              else w'))"
    using ok hunt
    by (simp add: HJT212_put_byte_def rx_ok_def rx_store_def Let_def of_le16_eq_iff le16_PRE
        HJT212_BUF_SIZE_def) (simp add: numeral_2_eq_2)
next
  fix w :: "hj_app rx" and b
  assume ok: "rx_ok HJT212_BUF_SIZE w" and hunt: "\<not> rx_hunt w"
  show "HJT212_put_byte b w = (let w' = rx_store HJT212_BUF_SIZE b w
      in if 18 \<le> rx_pos w' \<and> ends_at [0x0d, 0x0a] (rx_pos w') (rx_buf w')
         then bindO (HJT212_frame w') (\<lambda>w''. Ret (w''\<lparr>rx_pos := 0, rx_hunt := True\<rparr>))
         else Ret w')"
    using ok hunt
    by (simp add: HJT212_put_byte_def rx_ok_def rx_store_def Let_def of_le16_eq_iff le16_EOM ends_at_def
        HJT212_BUF_SIZE_def conj_commute) (auto simp: numeral_2_eq_2)
qed (simp_all add: HJT212_BUF_SIZE_def)


section \<open>A frame of the encoder\<close>

lemma length_hex_upper [simp]: "length (hex_upper b) = 2"
  by (simp add: hex_upper_def asc_def hex2_def)

lemma length_len_digits [simp]: "length (len_digits n) = 4"
  by (simp add: len_digits_def)

lemma length_hj_frame: "length (hj_frame p) = length p + 12"
  by (simp add: hj_frame_def Let_def)

lemma digit_byte: "k < 10 \<Longrightarrow> uint (0x30 + of_nat k :: u8) = 48 + int k"
proof -
  assume k: "k < 10"
  then have "unat (of_nat (48 + k) :: u8) = 48 + k" by (intro unat_of_nat_small') simp
  then have "int (unat (0x30 + of_nat k :: u8)) = int (48 + k)" by simp
  then show ?thesis by simp
qed

lemma hj_length_digits: "n < 10000 \<Longrightarrow> hj_length (len_digits n) = int n"
proof -
  assume n: "n < 10000"
  define d where "d k = n div 10 ^ k mod 10" for k
  have d: "d k < 10" for k by (simp add: d_def)
  have "len_digits n = map (\<lambda>k. 0x30 + of_nat (d k)) [3, 2, 1, 0]"
    by (simp only: len_digits_def d_def)
  then have "hj_length (len_digits n) = int (d 3) * 1000 + int (d 2) * 100 + int (d 1) * 10 + int (d 0)"
    by (simp add: hj_length_def Let_def digit_byte [OF d] del: One_nat_def)
  also have "\<dots> = int (n div 1000 mod 10 * 1000 + n div 100 mod 10 * 100 + n div 10 mod 10 * 10 + n mod 10)"
    by (simp add: d_def)
  also have "n div 1000 mod 10 * 1000 + n div 100 mod 10 * 100 + n div 10 mod 10 * 10 + n mod 10 = n"
  proof -
    have "a * 10 + x = n \<Longrightarrow> b * 10 + y = a \<Longrightarrow> c * 10 + z = b \<Longrightarrow> c * 1000 + z * 100 + y * 10 + x = n"
      for a b c x y z :: nat by simp
    from this [OF div_mult_mod_eq div_mult_mod_eq div_mult_mod_eq]
    have "n div 10 div 10 div 10 * 1000 + n div 10 div 10 mod 10 * 100 + n div 10 mod 10 * 10 + n mod 10 = n" .
    moreover have "n div 1000 mod 10 = n div 1000" using n by simp
    moreover have "n div 100 = n div 10 div 10" "n div 1000 = n div 10 div 10 div 10"
      by (simp_all flip: div_mult2_eq)
    ultimately show ?thesis by metis
  qed
  finally show ?thesis .
qed

lemma of_char_u8: "(of_char c :: u8) = of_nat (of_char c)"
  by (rule of_nat_of_char [symmetric])

lemma hex_char_le: "n < 16 \<Longrightarrow>
    0x30 \<le> (let c = of_char (hex_digit n) in if 0x61 \<le> c \<and> c \<le> 0x7a then c - 32 else c :: u8)"
proof -
  assume "n < 16"
  then have "n \<in> set [0..<16]" by simp
  then show ?thesis
    by (simp add: upt_rec hex_digit_def of_char_u8 Let_def, elim disjE, simp_all)
qed

lemma hex_upper_no_ctl: "c \<in> set (hex_upper b) \<Longrightarrow> 0x30 \<le> c"
  proof -
  have "unat b < 256" using unsigned_less [of b, where ?'a = nat] by simp
  moreover assume "c \<in> set (hex_upper b)"
  ultimately show ?thesis
    using hex_char_le [of "unat b div 16"] hex_char_le [of "unat b mod 16"]
    by (auto simp: hex_upper_def hex2_def asc_def Let_def)
qed

lemma hex_char_no_eq: "n < 16 \<Longrightarrow>
    (let c = of_char (hex_digit n) in if 0x61 \<le> c \<and> c \<le> 0x7a then c - 32 else c :: u8) \<noteq> 0x3D"
proof -
  assume "n < 16"
  then have "n \<in> set [0..<16]" by simp
  then show ?thesis
    by (simp add: upt_rec hex_digit_def of_char_u8 Let_def, elim disjE, simp_all)
qed

lemma hex_upper_no_eq: "0x3D \<notin> set (hex_upper b)"
proof -
  have "unat b < 256" using unsigned_less [of b, where ?'a = nat] by simp
  then show ?thesis
    using hex_char_no_eq [of "unat b div 16"] hex_char_no_eq [of "unat b mod 16"]
    by (auto simp: hex_upper_def hex2_def asc_def Let_def split: if_splits)
qed

lemma len_digits_no_ctl: "c \<in> set (len_digits n) \<Longrightarrow> 0x30 \<le> c"
proof -
  have "0x30 \<le> (0x30 + of_nat k :: u8)" if "k < 10" for k
    using digit_byte [OF that] by (simp add: word_le_def)
  moreover assume "c \<in> set (len_digits n)"
  ultimately show ?thesis by (auto simp: len_digits_def)
qed

lemma hj_length_range: "length l = 4 \<Longrightarrow> - 53328 \<le> hj_length l \<and> hj_length l \<le> 229977"
proof -
  assume "length l = 4"
  then obtain a b c d where l: "l = [a, b, c, d]" by (auto simp: numeral_eq_Suc length_Suc_conv)
  have "0 \<le> uint x \<and> uint x \<le> 255" for x :: u8 using uint_lt2p [of x] by simp
  from this [of a] this [of b] this [of c] this [of d] show ?thesis
    by (simp add: l hj_length_def Let_def)
qed

text \<open>The end mark of a frame is only at its end.\<close>

lemma hj_one_eom:
  assumes u: "0x0d \<notin> set u" and j: "2 \<le> j" "j < length u + 2"
  shows "\<not> ends_at [0x0d, 0x0a] j (u @ [0x0d, 0x0a])"
proof
  assume e: "ends_at [0x0d, 0x0a] j (u @ [0x0d, 0x0a])"
  define f where "f = u @ [0x0d, 0x0a :: u8]"
  have "j < length f" using j by (simp add: f_def)
  moreover have "take 2 (drop (j - 2) f) = [0x0d, 0x0a]"
    using e by (simp add: ends_at_def f_def flip: numeral_2_eq_2)
  ultimately have "f ! (j - 2) = 0x0d"
    using j by (metis diff_le_self hd_drop_conv_nth hd_take le_less_trans list.sel(1) zero_less_numeral)
  then have "(u @ [0x0d, 0x0a]) ! (j - 2) = 0x0d" by (simp only: f_def)
  moreover have "j - 2 < length u" using j by simp
  ultimately show False using u by (metis nth_append nth_mem)
qed

text \<open>What a receiver does with bytes that are framed like a command.\<close>

lemma hj_framed_received:
  assumes w: "length (rx_buf w) = HJT212_BUF_SIZE" "rx_pos w = 0" "rx_hunt w"
    and f: "18 \<le> length f" "length f < HJT212_BUF_SIZE"
    and u: "f = [0x23, 0x23] @ u @ [0x0d, 0x0a]" "0x0d \<notin> set u"
  shows "HJT212_PutBytes now f w =
    bindO (HJT212_frame (w\<lparr>rx_buf := f @ drop (length f) (rx_buf w), rx_pos := length f, rx_hunt := False,
        rx_app := (rx_app w)\<lparr>ulHjt212HeartbeatTick := now\<rparr>\<rparr>))
      (\<lambda>w''. Ret (w''\<lparr>rx_pos := 0, rx_hunt := True\<rparr>))"
proof -
  let ?w = "w\<lparr>rx_app := (rx_app w)\<lparr>ulHjt212HeartbeatTick := now\<rparr>\<rparr>"
  have eom: "ends_at [0x0d, 0x0a] (length f) f" by (simp add: u ends_at_def)
  have no_eom: "\<not> ends_at [0x0d, 0x0a] j f" if "18 \<le> j" "j < length f" for j
    using hj_one_eom [of "[0x23, 0x23] @ u" j] u that by simp
  have "rx_run HJT212_put_byte f ?w =
      bindO (HJT212_frame (?w\<lparr>rx_buf := f @ drop (length f) (rx_buf ?w), rx_pos := length f, rx_hunt := False\<rparr>))
        (\<lambda>w''. Ret (w''\<lparr>rx_pos := 0, rx_hunt := True\<rparr>))"
    by (rule hj.delivered [OF _ _ _ _ f(2,1) eom no_eom]) (use w in \<open>simp_all add: u(1)\<close>)
  moreover have "?w\<lparr>rx_buf := b, rx_pos := n, rx_hunt := h\<rparr> = w\<lparr>rx_buf := b, rx_pos := n, rx_hunt := h,
      rx_app := (rx_app w)\<lparr>ulHjt212HeartbeatTick := now\<rparr>\<rparr>" for b n h
    by (cases w) simp
  ultimately show ?thesis by (simp add: HJT212_PutBytes_def)
qed

text \<open>The checks on an encoded frame pass.\<close>

lemma hj_check_text_hex: "hj_check_text c = Ret (hex_upper (ucast (drop_bit 8 c)) @ hex_upper (ucast c))"
  by (simp add: hj_check_text_def Hex2Str_def copy_in_def)

lemma sint_of_nat: "n < 2 ^ 31 \<Longrightarrow> sint (of_nat n :: u32) = int n"
  by (simp add: signed_of_nat signed_take_bit_int_eq_self)

lemma HJT212_frame_encoded:
  assumes p: "length p < 10000" and w: "rx_buf w = hj_frame p @ r" "rx_pos w = length (hj_frame p)"
  shows "HJT212_frame w =
    bindO (HJT212_ParsePack (drop 6 (hj_frame p) @ r) (rx_app w)) (\<lambda>s. Ret (w\<lparr>rx_app := s\<rparr>))"
proof -
  let ?c = "hjt212_GetCrc16 p"
  have buf: "rx_buf w = asc ''##'' @ len_digits (length p) @ p @
      (hex_upper (ucast (drop_bit 8 ?c)) @ hex_upper (ucast ?c)) @ [0x0d, 0x0a] @ r"
    by (simp add: w(1) hj_frame_def Let_def)
  have "hj_length (take 4 (drop 2 (rx_buf w))) = int (length p)"
    using p by (simp add: buf hj_length_digits)
  then have len: "word_of_int (hj_length (take 4 (drop 2 (rx_buf w)))) = (of_nat (length p) :: u32)"
    by simp
  have "copy_out (rx_buf w) 6 (length p) = Ret p"
    using copy_out_nat [of 6 "length p" "rx_buf w"] by (simp add: buf)
  then have crc: "hj_checksum (rx_buf w) (of_nat (length p)) = Ret ?c"
    using p sint_of_nat [of "length p"] by (simp add: hj_checksum_def)
  have "take 4 (drop (length (hj_frame p) - 6) (rx_buf w)) =
      hex_upper (ucast (drop_bit 8 ?c)) @ hex_upper (ucast ?c)"
    unfolding buf by (simp add: length_hj_frame)
  moreover have "drop 6 (rx_buf w) = drop 6 (hj_frame p) @ r"
    by (simp add: w(1) length_hj_frame)
  moreover have "of_nat (length p) + 12 = (of_nat (length (hj_frame p)) :: u32)"
    by (simp add: length_hj_frame)
  ultimately show ?thesis
    by (simp only: HJT212_frame_def Let_def len crc hj_check_text_hex bindO.simps w(2) simp_thms if_True)
qed

text \<open>What a receiver does with an encoded frame.\<close>

lemma hj_frame_received:
  assumes w: "length (rx_buf w) = HJT212_BUF_SIZE" "rx_pos w = 0" "rx_hunt w"
    and p: "6 \<le> length p" "length p < 2036" "0x0d \<notin> set p"
  shows "HJT212_PutBytes now (hj_frame p) w =
    (let buf = hj_frame p @ drop (length p + 12) (rx_buf w)
     in bindO (HJT212_ParsePack (drop 6 buf) ((rx_app w)\<lparr>ulHjt212HeartbeatTick := now\<rparr>))
          (\<lambda>s. Ret \<lparr>rx_buf = buf, rx_pos = 0, rx_hunt = True, rx_app = s\<rparr>))"
proof -
  define u where "u = len_digits (length p) @ p @
    hex_upper (ucast (drop_bit 8 (hjt212_GetCrc16 p))) @ hex_upper (ucast (hjt212_GetCrc16 p))"
  have f: "hj_frame p = [0x23, 0x23] @ u @ [0x0d, 0x0a]" by (simp add: hj_frame_def u_def Let_def asc_def)
  have lt: "\<not> (0x30::u8) \<le> 0x0d" by simp
  have "0x0d \<notin> set u"
    using p lt hex_upper_no_ctl len_digits_no_ctl by (fastforce simp: u_def)
  moreover have rec: "w\<lparr>rx_buf := b, rx_app := x, rx_pos := 0, rx_hunt := True\<rparr> =
      \<lparr>rx_buf = b, rx_pos = 0, rx_hunt = True, rx_app = x\<rparr>" for b x
    by (cases w) simp
  ultimately show ?thesis
    using hj_framed_received [OF w _ _ f, of now] p
    by (simp add: rec bindO_assoc HJT212_frame_encoded [where p = p and r = "drop (length p + 12) (rx_buf w)"]
        length_hj_frame HJT212_BUF_SIZE_def Let_def)
qed

section \<open>The fields of a command\<close>

text \<open>A field that can be told from its neighbours.\<close>

definition field_ok :: "nat \<Rightarrow> bytes \<Rightarrow> bool" where
  "field_ok n v \<longleftrightarrow> length v \<le> n \<and> (\<forall>c \<in> set v. c \<notin> {0, 0x0d, 0x3B, 0x3D})"

lemma field_no_eq: "field_ok n v \<Longrightarrow> 0x3D \<notin> set v"
  by (auto simp: field_ok_def)

lemma field_read: "field_ok n v \<Longrightarrow> take n (takeWhile (\<lambda>c. c \<noteq> 0x3B) (v @ 0x3B # r)) = v"
proof -
  assume v: "field_ok n v"
  then have "takeWhile (\<lambda>c. c \<noteq> 0x3B) (v @ 0x3B # r) = v"
    by (subst takeWhile_append2) (auto simp: field_ok_def)
  then show ?thesis using v by (simp add: field_ok_def)
qed

text \<open>The tags, which differ in their last two letters.\<close>

definition hj_tags :: "bytes list" where
  "hj_tags = [asc ''QN'', asc ''ST'', asc ''CN'', asc ''PW'', asc ''MN'', asc ''Flag'']"

lemma hj_tag_ends:
  "t \<in> set hj_tags \<Longrightarrow> a \<in> set hj_tags \<Longrightarrow> suffix t (v @ 0x3B # a) \<longleftrightarrow> t = a"
  by (auto simp: hj_tags_def asc_def suffix_to_prefix)

lemma hj_tag_first: "t \<in> set hj_tags \<Longrightarrow> suffix t (asc ''QN'') \<longleftrightarrow> t = asc ''QN''"
  by (auto simp: hj_tags_def asc_def suffix_to_prefix)

lemma hj_tag_no_eq: "t \<in> set hj_tags \<Longrightarrow> 0x3D \<notin> set t"
  by (auto simp: hj_tags_def asc_def)

lemma scan_next:
  assumes "t \<in> set hj_tags" "a \<in> set hj_tags" "0x3D \<notin> set v"
  shows "after_tag (t @ [0x3D]) (v @ 0x3B # a @ 0x3D # r) = (if t = a then Some r else after_tag (t @ [0x3D]) r)"
  using after_tag_step [of t "v @ 0x3B # a" r] assms hj_tag_no_eq hj_tag_ends
  by fastforce

lemma scan_first:
  assumes "t \<in> set hj_tags"
  shows "after_tag (t @ [0x3D]) (asc ''QN'' @ 0x3D # r) = (if t = asc ''QN'' then Some r else after_tag (t @ [0x3D]) r)"
  using after_tag_step [of t "asc ''QN''" r] assms hj_tag_no_eq [of t] hj_tag_no_eq [of "asc ''QN''"]
  by (auto simp: hj_tag_first hj_tags_def)

lemma hj_tags_distinct: "distinct hj_tags"
  by (simp add: hj_tags_def asc_def)

lemma hj_payload_tags:
  assumes "field_ok QN_LEN QN" "field_ok ST_LEN ST" "field_ok CN_LEN CN" "field_ok PW_LEN PW" "field_ok MN_LEN MN"
  shows "hj_payload (Some QN) (Some ST) (Some CN) (Some PW) (Some MN) (Some [fl]) CP @ rest =
    asc ''QN'' @ 0x3D # QN @ 0x3B # asc ''ST'' @ 0x3D # ST @ 0x3B # asc ''CN'' @ 0x3D # CN @ 0x3B #
    asc ''PW'' @ 0x3D # PW @ 0x3B # asc ''MN'' @ 0x3D # MN @ 0x3B # asc ''Flag'' @ 0x3D # [fl] @ 0x3B #
    enc_opt (\<lambda>c. asc ''CP=&&'' @ c @ asc ''&&'') CP @ rest"
  using assms by (simp add: hj_payload_def enc_opt_def enc_field_def field_ok_def asc_def)

lemma hj_fields_payload:
  assumes QN: "field_ok QN_LEN QN" and ST: "field_ok ST_LEN ST" and CN: "field_ok CN_LEN CN"
    and PW: "field_ok PW_LEN PW" and MN: "field_ok MN_LEN MN" and fl: "field_ok 1 [fl]"
  shows "hj_fields (hj_payload (Some QN) (Some ST) (Some CN) (Some PW) (Some MN) (Some [fl]) CP @ rest) =
    \<lparr>eType = 0, hj_QN = QN, hj_PNUM = [], hj_PNO = [], hj_ST = ST, hj_CN = CN, hj_PW = PW, hj_MN = MN,
     hj_Flag = [fl]\<rparr>"
proof -
  define q s c p m f where tags: "q = asc ''QN''" "s = asc ''ST''" "c = asc ''CN''" "p = asc ''PW''"
    "m = asc ''MN''" "f = asc ''Flag''"
  have all: "hj_tags = [q, s, c, p, m, f]" by (simp add: hj_tags_def tags)
  have tag: "asc ''QN='' = q @ [0x3D]" "asc ''ST='' = s @ [0x3D]" "asc ''CN='' = c @ [0x3D]"
    "asc ''PW='' = p @ [0x3D]" "asc ''MN='' = m @ [0x3D]" "asc ''Flag='' = f @ [0x3D]"
    by (simp_all add: tags asc_def)
  note str = hj_payload_tags [OF QN ST CN PW MN, folded tags]
  note scan = scan_first [folded tags(1), unfolded all] scan_next [OF _ _ field_no_eq [OF QN], unfolded all]
    scan_next [OF _ _ field_no_eq [OF ST], unfolded all] scan_next [OF _ _ field_no_eq [OF CN], unfolded all]
    scan_next [OF _ _ field_no_eq [OF PW], unfolded all] scan_next [OF _ _ field_no_eq [OF MN], unfolded all]
  have dist: "distinct [q, s, c, p, m, f]" using hj_tags_distinct by (simp add: all)
  have fl': "take FLAG_LEN (takeWhile (\<lambda>c. c \<noteq> 0x3B) ([fl] @ 0x3B # r)) = [fl]" for r
    using fl by (simp add: field_ok_def FLAG_LEN_def)
  have neq: "s \<noteq> q" "c \<noteq> q" "p \<noteq> q" "m \<noteq> q" "f \<noteq> q" "c \<noteq> s" "p \<noteq> s" "m \<noteq> s" "f \<noteq> s"
    "p \<noteq> c" "m \<noteq> c" "f \<noteq> c" "m \<noteq> p" "f \<noteq> p" "f \<noteq> m"
    using dist by auto
  show ?thesis
    unfolding hj_fields_def scan_field_def str tag
    by (simp only: scan neq field_read [OF QN] field_read [OF ST] field_read [OF CN] field_read [OF PW]
        field_read [OF MN] fl' list.set insert_iff simp_thms if_True if_False option.case)
qed

section \<open>The messages fit their buffers\<close>

definition time_ok :: "hj_time \<Rightarrow> bool" where
  "time_ok t \<longleftrightarrow> t_year t < 10000 \<and> t_mon t < 100 \<and> t_mday t < 100 \<and> t_hour t < 100 \<and> t_min t < 100 \<and>
     t_sec t < 100 \<and> t_msec t < 1000"

definition qn_text :: "hj_time \<Rightarrow> bytes" where
  "qn_text t = time_text t @ dec_pad 3 (t_msec t)"

lemma length_time_text: "time_ok t \<Longrightarrow> length (time_text t) = 14"
  by (simp add: time_ok_def time_text_def length_dec_pad [where k = 3] length_dec_pad [where k = 1])

lemma length_qn_text: "time_ok t \<Longrightarrow> length (qn_text t) = 17"
  by (simp add: qn_text_def length_time_text length_dec_pad [where k = 2] time_ok_def)

lemma read_qn_ok:
  "time_ok (hj_clock s (hj_reads s)) \<Longrightarrow> read_qn s =
     Ret (qn_text (hj_clock s (hj_reads s)), hj_clock s (hj_reads s), s\<lparr>hj_reads := hj_reads s + 1\<rparr>)"
  using length_qn_text [of "hj_clock s (hj_reads s)"]
  by (simp add: read_qn_def sprintf_to_def qn_text_def QN_LEN_def Let_def)

text \<open>An answer: no request number, the configuration of the gateway, a command number and its text.\<close>

definition hj_answer :: "hj_cfg \<Rightarrow> nat \<Rightarrow> bytes option \<Rightarrow> bytes \<Rightarrow> bytes" where
  "hj_answer c cn fl cp = hj_frame (hj_payload None (Some (cfg_ST c)) (Some (dec_digits cn)) (Some (cfg_PW c))
     (Some (cfg_MN c)) fl (Some cp))"

lemma length_hj_payload_le:
  assumes "length cp \<le> 60"
  shows "length (hj_payload q (Some ST) (Some CN) (Some PW) (Some MN) fl (Some cp)) \<le> 200"
  using assms
  by (cases q; cases fl) (auto simp: hj_payload_def enc_opt_def enc_field_def hj_lens)

lemma Hjt212Encode_fits:
  assumes "length cp \<le> 60" "212 \<le> sz"
  shows "Hjt212Encode sz q (Some ST) (Some CN) (Some PW) (Some MN) fl (Some cp) =
    Ret (hj_frame (hj_payload q (Some ST) (Some CN) (Some PW) (Some MN) fl (Some cp)))"
  using length_hj_payload_le [OF assms(1), of q ST CN PW MN fl] assms(2)
  by (simp add: Hjt212Encode_def length_hj_frame Let_def)

lemma length_cmd: "length (dec_digits CMD_LOGIN) = 4" "length (dec_digits CMD_REQUEST_RESPONSE) = 4"
    "length (dec_digits CMD_REQUES_RESULT) = 4" "length (dec_digits CMD_REQUEST_UPLOAD_TIME) = 4"
    "length (dec_digits RE_RETURN_SUCCESS) = 1" "length (dec_digits RE_RETURN_PASSWD_ERR) = 1"
    "length (dec_digits EXE_RETURN_SUCCESS) = 1"
  by (simp_all add: hj_cmds dec_digits.simps)

lemmas hj_fits = read_qn_ok length_qn_text length_time_text length_cmd sprintf_to_def hj_lens

text \<open>Each message, with the number of clock readings it makes.\<close>

lemma hj_messages:
  assumes t: "time_ok (hj_clock s (hj_reads s))" and ST: "length (cfg_ST (hj_cfg s)) \<le> ST_LEN"
  defines "qn \<equiv> qn_text (hj_clock s (hj_reads s))" and "s1 \<equiv> s\<lparr>hj_reads := hj_reads s + 1\<rparr>"
  shows "length (dec_digits rtn) \<le> 5 \<Longrightarrow> hjt212_req_respons rtn s = Ret (cc_net_send (hj_answer (hj_cfg s)
        CMD_REQUEST_RESPONSE (Some (asc ''0'')) (asc ''QN='' @ qn @ asc '';QnRtn='' @ dec_digits rtn)) s1)"
    and "length (dec_digits rtn) \<le> 5 \<Longrightarrow> hjt212_req_result rtn s = Ret (cc_net_send (hj_answer (hj_cfg s)
        CMD_REQUES_RESULT (Some (asc ''0'')) (asc ''QN='' @ qn @ asc '';ExeRtn='' @ dec_digits rtn)) s1)"
    and "hjt212_report_system_time s = Ret (cc_net_send (hj_answer (hj_cfg s) CMD_REQUEST_UPLOAD_TIME None
        (asc ''QN='' @ qn @ asc '';SystemTime='' @ time_text (hj_clock s (hj_reads s)))) s1)"
    and "hjt212_login_verify_req s = Ret (cc_net_send (hj_frame (hj_payload (Some qn) (Some (cfg_ST (hj_cfg s)))
        (Some (dec_digits CMD_LOGIN)) (Some (cfg_PW (hj_cfg s))) (Some (cfg_MN (hj_cfg s))) (Some (asc ''5''))
        (Some []))) s1)"
  using assms
  by (simp_all add: hjt212_req_respons_def hjt212_req_result_def hjt212_report_system_time_def
      hjt212_login_verify_req_def hj_fits Hjt212Encode_fits hj_answer_def)

section \<open>Properties\<close>


definition demo_hj :: hj_app where
  "demo_hj = \<lparr>hj_cfg = \<lparr>cfg_ST = asc ''22'', cfg_PW = asc ''123456'', cfg_MN = asc ''A100''\<rparr>, hj_queue = None,
     hj_sent = [], hj_clock = (\<lambda>n. \<lparr>t_year = 2018, t_mon = 5, t_mday = 7, t_hour = 12, t_min = 30, t_sec = n mod 60,
       t_msec = 250\<rparr>), hj_reads = 0, ulHjt212HeartbeatTick = 0\<rparr>"


text \<open>The C string that the parser sees on a fresh connection: the data, the checksum and the end mark.\<close>

definition hj_seen :: "bytes \<Rightarrow> bytes" where
  "hj_seen p = p @ hex_upper (ucast (drop_bit 8 (hjt212_GetCrc16 p))) @ hex_upper (ucast (hjt212_GetCrc16 p)) @
     [0x0d, 0x0a]"

lemma cstring_frame: "0 \<notin> set p \<Longrightarrow> cstring (drop 6 (hj_frame p) @ 0 # m) = Ret (hj_seen p)"
proof -
  assume p: "0 \<notin> set p"
  have "\<not> (0x30::u8) \<le> 0" by simp
  then have "0 \<notin> set (hj_seen p)" using p hex_upper_no_ctl by (fastforce simp: hj_seen_def)
  moreover have "drop 6 (hj_frame p) = hj_seen p" by (simp add: hj_frame_def hj_seen_def Let_def)
  ultimately show ?thesis by (simp add: cstring_text)
qed

lemma hj_fresh_received:
  assumes p: "6 \<le> length p" "length p < 2036" "0x0d \<notin> set p" "0 \<notin> set p"
  shows "HJT212_PutBytes now (hj_frame p) (hjt212_open s) =
    bindO (HJT212_ParsePack (hj_seen p @ [0]) (s\<lparr>hj_queue := Some [], ulHjt212HeartbeatTick := now\<rparr>))
      (\<lambda>s'. Ret \<lparr>rx_buf = hj_frame p @ replicate (2036 - length p) 0, rx_pos = 0, rx_hunt = True, rx_app = s'\<rparr>)"
proof -
  have rep: "replicate (2036 - length p) 0 = (0::u8) # replicate (2035 - length p) 0"
    using p by (simp add: replicate_Suc [symmetric] Suc_diff_le del: replicate_Suc)
  have seen: "cstring (hj_seen p @ [0]) = Ret (hj_seen p)"
    using cstring_frame [OF p(4), of "[]"] by (simp add: hj_seen_def hj_frame_def Let_def)
  have "cstring (drop 6 (hj_frame p) @ replicate (2036 - length p) 0) = Ret (hj_seen p)"
    by (simp only: rep cstring_frame [OF p(4)])
  with seen have "HJT212_ParsePack (drop 6 (hj_frame p) @ replicate (2036 - length p) 0) = HJT212_ParsePack (hj_seen p @ [0])"
    by (simp add: HJT212_ParsePack_def fun_eq_iff)
  then show ?thesis
    using hj_frame_received [of "hjt212_open s" p now] p
    by (simp add: hjt212_open_def HJT212_BUF_SIZE_def length_hj_frame Let_def)
qed

lemma field_ok_clean: "field_ok n v \<Longrightarrow> 0x0d \<notin> set v \<and> 0 \<notin> set v \<and> take n v = v"
  by (auto simp: field_ok_def)

lemma hj_payload_clean:
  assumes "field_ok QN_LEN QN" "field_ok ST_LEN ST" "field_ok CN_LEN CN" "field_ok PW_LEN PW" "field_ok MN_LEN MN"
    "field_ok 1 [fl]" "\<And>c. CP = Some c \<Longrightarrow> length c < 1900 \<and> 0x0d \<notin> set c \<and> 0 \<notin> set c"
  defines "p \<equiv> hj_payload (Some QN) (Some ST) (Some CN) (Some PW) (Some MN) (Some [fl]) CP"
  shows "0x0d \<notin> set p" "0 \<notin> set p" "length QN + 6 \<le> length p" "length p < 2036"
  using assms field_ok_clean [OF assms(1)] field_ok_clean [OF assms(2)] field_ok_clean [OF assms(3)]
    field_ok_clean [OF assms(4)] field_ok_clean [OF assms(5)] field_ok_clean [OF assms(6)]
  by (cases CP; fastforce simp: p_def hj_payload_def enc_opt_def enc_field_def asc_def hj_lens)+

lemma hj_command_accepted:
  assumes QN: "field_ok QN_LEN QN" and ST: "field_ok ST_LEN ST" and CN: "field_ok CN_LEN CN"
    and PW: "field_ok PW_LEN PW" and MN: "field_ok MN_LEN MN" and fl: "field_ok 1 [fl]"
    and CP: "\<And>c. CP = Some c \<Longrightarrow> length c < 1900 \<and> 0x0d \<notin> set c \<and> 0 \<notin> set c"
    and pw: "cfg_PW (hj_cfg s) = PW" and cn: "(word_of_int (atoi CN) :: u16) \<noteq> of_nat CMD_REQUEST_UPLOAD_TIME"
  defines "p \<equiv> hj_payload (Some QN) (Some ST) (Some CN) (Some PW) (Some MN) (Some [fl]) CP"
  shows "HJT212_PutBytes now (hj_frame p) (hjt212_open s) =
    Ret \<lparr>rx_buf = hj_frame p @ replicate (2036 - length p) 0, rx_pos = 0, rx_hunt = True,
      rx_app = s\<lparr>ulHjt212HeartbeatTick := now, hj_queue := Some [\<lparr>eType = 0, hj_QN = QN, hj_PNUM = [], hj_PNO = [],
        hj_ST = ST, hj_CN = CN, hj_PW = PW, hj_MN = MN, hj_Flag = [fl]\<rparr>]\<rparr>\<rparr>"
proof -
  have p: "0x0d \<notin> set p" "0 \<notin> set p" "length QN + 6 \<le> length p" "length p < 2036"
    unfolding p_def using CP by (auto intro!: hj_payload_clean [OF QN ST CN PW MN fl])
  have "unat (word_of_int (atoi CN) :: u16) \<noteq> CMD_REQUEST_UPLOAD_TIME"
    using cn by (metis of_nat_unat ucast_id)
  moreover have "cstring (hj_seen p @ [0]) = Ret (hj_seen p)"
    using cstring_frame [OF p(2), of "[]"] by (simp add: hj_seen_def hj_frame_def Let_def)
  moreover have "hj_fields (hj_seen p) = \<lparr>eType = 0, hj_QN = QN, hj_PNUM = [], hj_PNO = [], hj_ST = ST, hj_CN = CN,
      hj_PW = PW, hj_MN = MN, hj_Flag = [fl]\<rparr>"
    unfolding hj_seen_def p_def by (rule hj_fields_payload [OF QN ST CN PW MN fl])
  ultimately show ?thesis
    using pw p by (simp add: hj_fresh_received HJT212_ParsePack_def hj_enqueue_def)
qed



lemma hj_time_request:
  assumes t: "\<forall>k. time_ok (hj_clock s k)" and ST: "length (cfg_ST (hj_cfg s)) \<le> ST_LEN"
    and str: "cstring pBuf = Ret str" and pw: "take (PW_LEN + 1) (cfg_PW (hj_cfg s)) = take (PW_LEN + 1) (hj_PW (hj_fields str))"
    and cn: "atoi (hj_CN (hj_fields str)) = 1011"
  shows "HJT212_ParsePack pBuf s = Ret (hj_enqueue (hj_fields str) (s\<lparr>hj_reads := hj_reads s + 3, hj_sent := hj_sent s @
    [hj_answer (hj_cfg s) 9011 (Some (asc ''0''))
       (asc ''QN='' @ qn_text (hj_clock s (hj_reads s)) @ asc '';QnRtn=1''),
     hj_answer (hj_cfg s) 1011 None (asc ''QN='' @ qn_text (hj_clock s (hj_reads s + 1)) @ asc '';SystemTime='' @
       time_text (hj_clock s (hj_reads s + 1))),
     hj_answer (hj_cfg s) 9012 (Some (asc ''0''))
       (asc ''QN='' @ qn_text (hj_clock s (hj_reads s + 2)) @ asc '';ExeRtn=1'')]\<rparr>))"
proof -
  have dig: "dec_digits (Suc 0) = asc ''1''" by (simp_all add: dec_digits.simps asc_def)
  have tail: "asc '';QnRtn='' @ asc ''1'' = asc '';QnRtn=1''"
    "asc '';ExeRtn='' @ asc ''1'' = asc '';ExeRtn=1''"
    by (simp_all add: asc_def)
  have three: "hj_reads s + 3 = Suc (Suc (Suc (hj_reads s)))" by simp
  show ?thesis
    using t ST pw cn
    by (simp add: HJT212_ParsePack_def str hj_messages hj_cmds dig
        tail cc_net_send_def three)
qed

text \<open>
  Answers: a wrong password is answered with the return code 3 and nothing is queued; a
  request for the time is answered, in this order, with its receipt, the time and its completion,
  each with a request number of its own reading of the clock, and queued.  Every text fits its
  array, if the system code has at most five characters.
\<close>

theorem hjt212_answers:
  assumes t: "\<forall>k. time_ok (hj_clock s k)" and ST: "length (cfg_ST (hj_cfg s)) \<le> ST_LEN"
    and str: "0 \<notin> set str"
  defines "d \<equiv> hj_fields str" and "c \<equiv> hj_cfg s" and "k \<equiv> hj_reads s" and "qn \<equiv> \<lambda>n. qn_text (hj_clock s n)"
  shows "(take (PW_LEN + 1) (cfg_PW c) \<noteq> take (PW_LEN + 1) (hj_PW d) \<longrightarrow>
      HJT212_ParsePack (str @ 0 # m) s = Ret (s\<lparr>hj_reads := k + 1, hj_sent := hj_sent s @
        [hj_answer c 9011 (Some (asc ''0'')) (asc ''QN='' @ qn k @ asc '';QnRtn=3'')]\<rparr>)) \<and>
    (take (PW_LEN + 1) (cfg_PW c) = take (PW_LEN + 1) (hj_PW d) \<and> atoi (hj_CN d) = 1011 \<longrightarrow>
      HJT212_ParsePack (str @ 0 # m) s = Ret (hj_enqueue d (s\<lparr>hj_reads := k + 3, hj_sent := hj_sent s @
        [hj_answer c 9011 (Some (asc ''0'')) (asc ''QN='' @ qn k @ asc '';QnRtn=1''),
         hj_answer c 1011 None (asc ''QN='' @ qn (k + 1) @ asc '';SystemTime='' @ time_text (hj_clock s (k + 1))),
         hj_answer c 9012 (Some (asc ''0'')) (asc ''QN='' @ qn (k + 2) @ asc '';ExeRtn=1'')]\<rparr>)))"
proof -
  have dig: "dec_digits 3 = asc ''3''" and tail: "asc '';QnRtn='' @ asc ''3'' = asc '';QnRtn=3''"
    by (simp_all add: dec_digits.simps asc_def)
  show ?thesis
    using t ST hj_time_request [OF t ST cstring_text [OF str, of m]]
    by (simp add: HJT212_ParsePack_def cstring_text [OF str] d_def c_def k_def qn_def hj_messages hj_cmds dig
        tail cc_net_send_def)
qed

lemma hjt212_answers_witness:
  "HJT212_ParsePack (asc ''CN=1011;PW=9;'' @ [0]) demo_hj = Ret (demo_hj\<lparr>hj_reads := 0 + 1, hj_sent := [] @
     [hj_answer (hj_cfg demo_hj) 9011 (Some (asc ''0'')) (asc ''QN='' @ qn_text (hj_clock demo_hj 0) @ asc '';QnRtn=3'')]\<rparr>)"
proof -
  let ?str = "asc ''CN=1011;PW=9;''"
  have "\<forall>k. time_ok (hj_clock demo_hj k)"
    by (simp add: demo_hj_def time_ok_def less_trans [OF mod_less_divisor])
  moreover have "length (cfg_ST (hj_cfg demo_hj)) \<le> ST_LEN" by (simp add: demo_hj_def ST_LEN_def)
  moreover have "0 \<notin> set ?str" by (simp add: asc_def)
  ultimately have "take (PW_LEN + 1) (cfg_PW (hj_cfg demo_hj)) \<noteq> take (PW_LEN + 1) (hj_PW (hj_fields ?str)) \<longrightarrow>
      HJT212_ParsePack (?str @ 0 # []) demo_hj = Ret (demo_hj\<lparr>hj_reads := hj_reads demo_hj + 1, hj_sent := hj_sent demo_hj @
        [hj_answer (hj_cfg demo_hj) 9011 (Some (asc ''0''))
          (asc ''QN='' @ qn_text (hj_clock demo_hj (hj_reads demo_hj)) @ asc '';QnRtn=3'')]\<rparr>)"
    by (rule conjunct1 [OF hjt212_answers])
  moreover have "hj_PW (hj_fields ?str) = [0x39]" by (simp add: hj_fields_def scan_field_def asc_def PW_LEN_def)
  moreover have "take (PW_LEN + 1) (cfg_PW (hj_cfg demo_hj)) = asc ''123456''" by (simp add: demo_hj_def PW_LEN_def asc_def)
  moreover have "hj_reads demo_hj = 0" "hj_sent demo_hj = []" by (simp_all add: demo_hj_def)
  ultimately show ?thesis by (simp add: asc_def PW_LEN_def)
qed

text \<open>
  A stream whose first byte is not \<open>#\<close> is lost: whatever comes after it, however many
  correct frames, the parser is never called, nothing is answered or queued, and the receiver goes on
  waiting with the wrong byte in front of its buffer.
\<close>

theorem hjt212_receiver_deaf:
  assumes b: "b \<noteq> 0x23"
  shows "\<exists>w. HJT212_PutBytes now (b # bs) (hjt212_open s) = Ret w \<and> rx_hunt w \<and> hd (rx_buf w) \<noteq> 0x23 \<and>
    rx_app w = s\<lparr>hj_queue := Some [], ulHjt212HeartbeatTick := now\<rparr>"
proof -
  let ?w = "(hjt212_open s)\<lparr>rx_app := (rx_app (hjt212_open s))\<lparr>ulHjt212HeartbeatTick := now\<rparr>\<rparr>"
  obtain w' where run: "rx_run HJT212_put_byte ([b] @ bs) ?w = Ret w'" and "hj.deaf w'" "rx_app w' = rx_app ?w"
    using hj.wrong_start [of ?w "[b]" bs] b by (auto simp: hjt212_open_def simp del: rx_run.simps)
  moreover have "rx_hunt w'" "hd (rx_buf w') \<noteq> 0x23"
    using \<open>hj.deaf w'\<close> unfolding hj.deaf_def by (cases "rx_buf w'"; simp add: HJT212_BUF_SIZE_def)+
  ultimately show ?thesis
    by (auto simp: HJT212_PutBytes_def hjt212_open_def simp del: rx_run.simps)
qed

lemma hjt212_receiver_deaf_witness:
  "\<exists>w. HJT212_PutBytes 3 (0 # hj_frame (asc ''QN=1;'')) (hjt212_open demo_hj) = Ret w \<and> rx_hunt w \<and>
    hd (rx_buf w) \<noteq> 0x23 \<and> rx_app w = demo_hj\<lparr>hj_queue := Some [], ulHjt212HeartbeatTick := 3\<rparr>"
  by (rule hjt212_receiver_deaf) simp

text \<open>
  The length field of a received frame is used before it is checked: with a value above
  2042, whatever the rest, the checksum reads behind the receive buffer; with any other value
  that does not match the length of the frame, digits or not, the frame is dropped.
\<close>

theorem hjt212_length_field:
  assumes w: "length (rx_buf w) = HJT212_BUF_SIZE" "rx_pos w = 0" "rx_hunt w"
    and f: "f = [0x23, 0x23] @ l @ body @ [0x0d, 0x0a]" "length l = 4" "18 \<le> length f" "length f < HJT212_BUF_SIZE"
      "0x0d \<notin> set l \<union> set body"
  shows "(2042 < hj_length l \<longrightarrow> HJT212_PutBytes now f w = Fault) \<and>
    (hj_length l \<le> 2042 \<and> hj_length l + 12 \<noteq> int (length f) \<longrightarrow>
      HJT212_PutBytes now f w = Ret \<lparr>rx_buf = f @ drop (length f) (rx_buf w), rx_pos = 0, rx_hunt = True,
        rx_app = (rx_app w)\<lparr>ulHjt212HeartbeatTick := now\<rparr>\<rparr>)"
proof -
  let ?x = "hj_length l" and ?u = "word_of_int (hj_length l) :: u32"
  define w1 where "w1 = w\<lparr>rx_buf := f @ drop (length f) (rx_buf w), rx_pos := length f, rx_hunt := False,
    rx_app := (rx_app w)\<lparr>ulHjt212HeartbeatTick := now\<rparr>\<rparr>"
  have x: "- 53328 \<le> ?x" "?x \<le> 229977" using hj_length_range [OF f(2)] by auto
  then have s: "sint ?u = ?x" by (simp add: signed_of_int signed_take_bit_int_eq_self)
  have l: "take 4 (drop 2 (rx_buf w1)) = l" using f by (simp add: w1_def)
  have "HJT212_PutBytes now f w = bindO (HJT212_frame w1) (\<lambda>w''. Ret (w''\<lparr>rx_pos := 0, rx_hunt := True\<rparr>))"
    using hj_framed_received [OF w f(3,4), of "l @ body" now] f by (simp add: w1_def)
  moreover have "HJT212_frame w1 = Fault" if "2042 < ?x"
    using that s l f(4) w by (simp add: HJT212_frame_def Let_def hj_checksum_def copy_out_def w1_def HJT212_BUF_SIZE_def)
  moreover have "HJT212_frame w1 = Ret w1" if "?x \<le> 2042" "?x + 12 \<noteq> int (length f)"
  proof -
    have "\<exists>c. hj_checksum (rx_buf w1) ?u = Ret c"
      using that s f(4) w by (simp add: hj_checksum_def copy_out_def w1_def HJT212_BUF_SIZE_def)
    moreover have "?u + 12 \<noteq> of_nat (rx_pos w1)"
    proof
      assume "?u + 12 = of_nat (rx_pos w1)"
      then have "(word_of_int (?x + 12) :: u32) = word_of_int (int (length f))" by (simp add: w1_def)
      then have "sint (word_of_int (?x + 12) :: u32) = sint (word_of_int (int (length f)) :: u32)" by (rule arg_cong)
      moreover have "sint (word_of_int y :: u32) = y" if "- 60000 \<le> y" "y \<le> 60000" for y
        using that by (simp add: signed_of_int signed_take_bit_int_eq_self)
      ultimately show False using that x f(4) by (simp del: of_int_add of_int_of_nat_eq add: HJT212_BUF_SIZE_def)
    qed
    ultimately show ?thesis by (auto simp: HJT212_frame_def Let_def l hj_check_text_hex)
  qed
  ultimately show ?thesis by (auto simp: w1_def)
qed

lemma hjt212_length_field_witness:
  "hj_length (asc ''9999'') = 9999 \<and>
   HJT212_PutBytes 1 ([0x23, 0x23] @ asc ''9999'' @ asc ''0123456789'' @ [0x0d, 0x0a]) (hjt212_open demo_hj) = Fault"
  using hjt212_length_field [of "hjt212_open demo_hj" _ "asc ''9999''" "asc ''0123456789''" 1]
  by (simp add: hjt212_open_def HJT212_BUF_SIZE_def asc_def hj_length_def Let_def)

text \<open>A short command leaves most of the one before it in the memory that the parser reads.\<close>

lemma hj_stale_fields:
  fixes fl CP rest
  assumes QN: "field_ok QN_LEN QN" "11 \<le> length QN" and ST: "field_ok ST_LEN ST" and CN: "field_ok CN_LEN CN"
    and PW: "field_ok PW_LEN PW" and MN: "field_ok MN_LEN MN"
  defines "old \<equiv> hj_payload (Some QN) (Some ST) (Some CN) (Some PW) (Some MN) (Some [fl]) CP @ rest"
  defines "d \<equiv> hj_fields (hj_seen (asc ''CN=1011;'') @ drop 14 old)"
  shows "hj_PW d = PW \<and> hj_CN d = asc ''1011''"
proof -
  define x where "x = hex_upper (ucast (drop_bit 8 (hjt212_GetCrc16 (asc ''CN=1011;'')))) @
    hex_upper (ucast (hjt212_GetCrc16 (asc ''CN=1011;''))) @ [0x0d, 0x0a]"
  define v where "v = asc ''1011'' @ 0x3B # x @ drop 11 QN"
  obtain r where "drop 14 old = drop 11 QN @ 0x3B # asc ''ST'' @ 0x3D # ST @ 0x3B # asc ''CN'' @ 0x3D # CN @ 0x3B #
      asc ''PW'' @ 0x3D # PW @ 0x3B # r"
    unfolding old_def hj_payload_tags [OF QN(1) ST CN PW MN] using QN(2) by (simp add: drop_Cons' asc_def)
  then have str: "hj_seen (asc ''CN=1011;'') @ drop 14 old = asc ''CN'' @ 0x3D # v @ 0x3B # asc ''ST'' @ 0x3D # ST @
      0x3B # asc ''CN'' @ 0x3D # CN @ 0x3B # asc ''PW'' @ 0x3D # PW @ 0x3B # r"
    by (simp add: hj_seen_def v_def x_def asc_def)
  have v: "0x3D \<notin> set v"
    using field_no_eq [OF QN(1)] hex_upper_no_eq by (auto simp: v_def x_def asc_def dest: in_set_dropD)
  have tags: "asc ''PW'' \<in> set hj_tags" "asc ''ST'' \<in> set hj_tags" "asc ''CN'' \<in> set hj_tags"
    by (simp_all add: hj_tags_def)
  have neq: "asc ''PW'' \<noteq> asc ''ST''" "asc ''PW'' \<noteq> asc ''CN''" by (simp_all add: asc_def)
  have tag: "asc ''PW='' = asc ''PW'' @ [0x3D]" "asc ''CN='' = asc ''CN'' @ [0x3D]" by (simp_all add: asc_def)
  have first: "after_tag (asc ''PW'' @ [0x3D]) (asc ''CN'' @ 0x3D # r) = after_tag (asc ''PW'' @ [0x3D]) r"
    "after_tag (asc ''CN'' @ [0x3D]) (asc ''CN'' @ 0x3D # r) = Some r" for r
    by (simp_all add: after_tag_step [of "asc ''PW''" "asc ''CN''", unfolded asc_def, simplified] asc_def)
  have "after_tag (asc ''PW='') (hj_seen (asc ''CN=1011;'') @ drop 14 old) = Some (PW @ 0x3B # r)"
    unfolding str tag by (simp only: first scan_next [OF tags(1,2) v] scan_next [OF tags(1,3) field_no_eq [OF ST]]
      scan_next [OF tags(1,1) field_no_eq [OF CN]] neq simp_thms if_True if_False)
  moreover have "take CN_LEN (takeWhile (\<lambda>c. c \<noteq> 0x3B) (v @ r)) = asc ''1011''" for r
    by (simp add: v_def asc_def CN_LEN_def)
  ultimately show ?thesis
    by (simp add: d_def hj_fields_def scan_field_def field_read [OF PW])
       (simp add: str tag first)
qed

text \<open>
  The parser reads on behind the end of a command, into what a longer command before it left
  in the buffer.  So the password check can be passed without a password: after one command with the
  right password, a command that holds nothing but the number 1011 is accepted, with the old
  command's password, and all three answers to the request are sent.
\<close>

theorem hjt212_password_replayed:
  assumes QN: "field_ok QN_LEN QN" "11 \<le> length QN" and ST: "field_ok ST_LEN ST" and CN: "field_ok CN_LEN CN"
    and PW: "field_ok PW_LEN PW" and MN: "field_ok MN_LEN MN" and fl: "field_ok 1 [fl]"
    and pw: "cfg_PW (hj_cfg s) = PW" and cn: "(word_of_int (atoi CN) :: u16) \<noteq> of_nat CMD_REQUEST_UPLOAD_TIME"
    and t: "\<forall>k. time_ok (hj_clock s k)" and cfg: "length (cfg_ST (hj_cfg s)) \<le> ST_LEN"
  shows "\<exists>w1 w2. HJT212_PutBytes t1
      (hj_frame (hj_payload (Some QN) (Some ST) (Some CN) (Some PW) (Some MN) (Some [fl]) None)) (hjt212_open s) = Ret w1 \<and>
    hj_sent (rx_app w1) = hj_sent s \<and>
    HJT212_PutBytes t2 (hj_frame (asc ''CN=1011;'')) w1 = Ret w2 \<and>
    length (hj_sent (rx_app w2)) = length (hj_sent s) + 3"
proof -
  let ?p = "hj_payload (Some QN) (Some ST) (Some CN) (Some PW) (Some MN) (Some [fl]) None"
  let ?q = "asc ''CN=1011;''"
  let ?z = "replicate (2036 - length ?p) (0 :: u8)"
  note p = hj_payload_clean [OF QN(1) ST CN PW MN fl, of None, simplified]
  note accepted = hj_command_accepted [OF QN(1) ST CN PW MN fl _ pw cn, of None t1, simplified]
  obtain w1 where w1: "HJT212_PutBytes t1 (hj_frame ?p) (hjt212_open s) = Ret w1"
    "rx_buf w1 = hj_frame ?p @ ?z" "rx_pos w1 = 0" "rx_hunt w1" "hj_sent (rx_app w1) = hj_sent s"
    "hj_cfg (rx_app w1) = hj_cfg s" "hj_clock (rx_app w1) = hj_clock s"
    using accepted by simp
  let ?s = "(rx_app w1)\<lparr>ulHjt212HeartbeatTick := t2\<rparr>"
  let ?str = "hj_seen ?q @ drop 14 (hj_seen ?p)"
  have "drop 6 (hj_frame ?q) = hj_seen ?q" "drop 20 (hj_frame ?p) = drop 14 (hj_seen ?p)"
    by (simp_all add: hj_frame_def hj_seen_def Let_def)
  then have mem: "drop 6 (hj_frame ?q @ drop (length ?q + 12) (rx_buf w1)) = ?str @ ?z"
    using p(3) QN(2) by (simp add: w1 length_hj_frame)
  obtain z where z: "?z = 0 # z" using p(4) by (cases "2036 - length ?p") auto
  have "0 \<notin> set ?str"
    using p(2) hex_upper_no_ctl [of 0] by (auto simp: hj_seen_def asc_def dest: in_set_dropD)
  then have str: "cstring (?str @ ?z) = Ret ?str" unfolding z by (rule cstring_text)
  have d: "hj_PW (hj_fields ?str) = PW \<and> hj_CN (hj_fields ?str) = asc ''1011''"
    unfolding hj_seen_def [of ?p] by (rule hj_stale_fields [OF QN ST CN PW MN])
  have "atoi (asc ''1011'') = 1011" by (simp add: atoi_def asc_def is_dec_def is_space_def Let_def)
  then have parse: "\<exists>s'. HJT212_ParsePack (?str @ ?z) ?s = Ret s' \<and> length (hj_sent s') = length (hj_sent s) + 3"
    using hj_time_request [OF _ _ str, of ?s] t cfg pw d by (simp add: w1 hj_enqueue_def)
  have "HJT212_PutBytes t2 (hj_frame ?q) w1 = bindO (HJT212_ParsePack (?str @ ?z) ?s)
      (\<lambda>s. Ret \<lparr>rx_buf = hj_frame ?q @ drop (length ?q + 12) (rx_buf w1), rx_pos = 0, rx_hunt = True, rx_app = s\<rparr>)"
    using hj_frame_received [of w1 ?q t2] w1 p mem by (simp add: length_hj_frame HJT212_BUF_SIZE_def asc_def Let_def)
  with parse w1 show ?thesis by auto
qed

lemma hjt212_password_replayed_witness:
  "\<exists>w1 w2. HJT212_PutBytes 1 (hj_frame (hj_payload (Some (asc ''20180507123000250'')) (Some (asc ''22''))
      (Some (asc ''2011'')) (Some (asc ''123456'')) (Some (asc ''A100'')) (Some [0x31]) None)) (hjt212_open demo_hj) = Ret w1 \<and>
    hj_sent (rx_app w1) = hj_sent demo_hj \<and>
    HJT212_PutBytes 2 (hj_frame (asc ''CN=1011;'')) w1 = Ret w2 \<and>
    length (hj_sent (rx_app w2)) = length (hj_sent demo_hj) + 3"
proof (rule hjt212_password_replayed)
  show "(word_of_int (atoi (asc ''2011'')) :: u16) \<noteq> of_nat CMD_REQUEST_UPLOAD_TIME"
    by (simp add: atoi_def asc_def is_dec_def is_space_def Let_def CMD_REQUEST_UPLOAD_TIME_def)
  show "\<forall>k. time_ok (hj_clock demo_hj k)"
    by (simp add: demo_hj_def time_ok_def less_trans [OF mod_less_divisor])
qed (simp_all add: field_ok_def asc_def hj_lens demo_hj_def)

end
