(* ===== verification/Cc_bjdc.thy ===== *)
theory Cc_bjdc
  imports Framing C_Text Crc Cfloat Aes Md5
begin

text \<open>
  The BJDC protocol of the upload to an energy monitoring platform, \<open>sdccp/cc_bjdc.c\<close> and
  \<open>cc_bjdc.h\<close>: frames of encrypted XML text, the receiver, what is taken from a received document,
  and the login of the work thread.  The XML library is not part of the repository: the sender
  gets a text, and the parser a view of the document that the library makes of a text.
\<close>

section \<open>Types and constants\<close>

definition CC_BJDC_BUF_SIZE :: nat where "CC_BJDC_BUF_SIZE = 2048"
definition CC_BJDC_PRE :: u32 where "CC_BJDC_PRE = 0x55AA55AA"
definition CC_BJDC_EOM :: u32 where "CC_BJDC_EOM = 0x16166868"

definition CC_BJDC_MD5_KEY :: bytes where "CC_BJDC_MD5_KEY = asc ''IJKLMNOPQRSTUVWX''"

definition xAESKeyAndIV :: bytes where
  "xAESKeyAndIV = [1, 2, 3, 4, 5, 6, 7, 8, 9, 10, 11, 12, 13, 14, 15, 16]"

text \<open>
  A message to the work thread.  \<open>CC_BJDC_VERIFY_SEQ\<close> carries the memory from \<open>szSequence\<close> to the end
  of the union, \<open>CC_BJDC_PT_HEARTBEAT\<close> the 16 bytes of \<open>szDate\<close>.
\<close>

datatype bj_data =
    CC_BJDC_VERIFY_SEQ bytes
  | CC_BJDC_VERIFY_RESULT bool
  | CC_BJDC_PT_DEVINFO
  | CC_BJDC_PT_HEARTBEAT bytes
  | CC_BJDC_PT_PERIOD_CFG u32
  | CC_BJDC_PT_RESTART
  | CC_BJDC_PT_DATA_QUERY
  | CC_BJDC_PT_DATA_CONTINUE

text \<open>
  What the code asks of a document: the text of the first \<open>type\<close> in \<open>common\<close>, the text node below an
  element found inside another one (its whitespace flag and its string), and the attribute
  \<open>operation\<close> of an element.
\<close>

record xml_view =
  xml_type :: "bytes option"
  xml_text :: "string \<Rightarrow> string \<Rightarrow> (nat \<times> bytes) option"
  xml_op :: "string \<Rightarrow> bytes option"

record bj_app =
  bj_queue :: "bj_data list option"
  bj_stack :: bytes
  bj_sent :: "bytes list"

section \<open>Documents\<close>

text \<open>\<open>strncpy\<close> of a string over old memory: \<open>n\<close> bytes, filled up with NULs.\<close>

definition strncpy :: "bytes \<Rightarrow> bytes \<Rightarrow> nat \<Rightarrow> bytes" where
  "strncpy mem s n = take n (s @ replicate n 0) @ drop n mem"

definition bj_enqueue :: "bj_data \<Rightarrow> bj_app \<Rightarrow> bj_app" where
  "bj_enqueue x s =
     s\<lparr>bj_queue := map_option (\<lambda>ms. if length ms < 3 then ms @ [x] else ms) (bj_queue s)\<rparr>"

text \<open>
  The kind of a document decides.  \<open>None\<close> is \<open>CC_BJDC_PT_UNKNOWN\<close>, which is not sent.  The text nodes
  of a document loaded without a type callback are strings, so \<open>value.integer\<close> is what lies at the
  same place of the union, the whitespace flag.  A missing attribute is a NULL for \<open>strcmp\<close>.
\<close>

definition bj_document :: "xml_view \<Rightarrow> bytes \<Rightarrow> bj_data option outcome" where
  "bj_document x stack =
     (case xml_type x of
        None \<Rightarrow> Ret None
      | Some t \<Rightarrow>
          if t = asc ''sequence'' then
            Ret (map_option (\<lambda>(_, str). CC_BJDC_VERIFY_SEQ (strncpy (drop 1 stack) str 9)) (xml_text x ''id_validate'' ''sequence''))
          else if t = asc ''result'' then
            Ret (map_option (\<lambda>(_, str). CC_BJDC_VERIFY_RESULT (str = asc ''pass'')) (xml_text x ''id_validate'' ''result''))
          else if t = asc ''device_ack'' then Ret (Some CC_BJDC_PT_DEVINFO)
          else if t = asc ''time'' then
            Ret (map_option (\<lambda>(_, str). CC_BJDC_PT_HEARTBEAT (strncpy stack str 15)) (xml_text x ''heart_beat'' ''time''))
          else if t = asc ''period'' then
            Ret (map_option (\<lambda>(ws, _). CC_BJDC_PT_PERIOD_CFG (of_nat ws)) (xml_text x ''root'' ''period''))
          else if t = asc ''restart'' then
            (case xml_op x ''Instruction'' of
               None \<Rightarrow> Fault
             | Some op \<Rightarrow> Ret (if op = asc ''restart'' then Some CC_BJDC_PT_RESTART else None))
          else if t = asc ''query'' then Ret (Some CC_BJDC_PT_DATA_QUERY)
          else if t = asc ''continuous'' then Ret (Some CC_BJDC_PT_DATA_CONTINUE)
          else Ret None)"

text \<open>\<open>load\<close> is the XML library: the document of a text, if it is one.\<close>

definition CC_BJDC_ParsePack :: "(bytes \<Rightarrow> xml_view option) \<Rightarrow> bytes \<Rightarrow> bj_app \<Rightarrow> bj_app outcome" where
  "CC_BJDC_ParsePack load pData s =
     bindO (cstring pData) (\<lambda>text.
       case load text of
         None \<Rightarrow> Ret s
       | Some x \<Rightarrow> bindO (bj_document x (bj_stack s)) (\<lambda>d.
           Ret (case d of None \<Rightarrow> s | Some m \<Rightarrow> bj_enqueue m s)))"

section \<open>Receiver\<close>

text \<open>
  A frame that is complete: length and checksum are tested in this order, then the data is decrypted in
  place and a NUL written behind it.
\<close>

definition CC_BJDC_frame :: "(bytes \<Rightarrow> xml_view option) \<Rightarrow> bj_app rx \<Rightarrow> bj_app rx outcome" where
  "CC_BJDC_frame load w =
     (let buf = rx_buf w; n = rx_pos w;
          ulLen = of_le32 (take 4 (drop 4 buf));
          usCheck = of_le16 (take 2 (drop (n - 6) buf)) in
      if ulLen + 14 = of_nat n then
        bindO (copy_out buf 8 (unat ulLen)) (\<lambda>d.
        if CC_GetCrc16 d = usCheck then
          bindO (copy_out buf 12 (unat (ulLen - 4))) (\<lambda>c.
          bindO (copy_in buf 12 (AES_Decrypt (AES_Init xAESKeyAndIV) xAESKeyAndIV c)) (\<lambda>b1.
          bindO (copy_in b1 (12 + uint (ulLen - 4)) [0]) (\<lambda>b2.
          bindO (CC_BJDC_ParsePack load (drop 12 b2) (rx_app w)) (\<lambda>s. Ret (w\<lparr>rx_buf := b2, rx_app := s\<rparr>)))))
        else Ret w)
      else Ret w)"

text \<open>One turn of the loop of \<open>CC_BJDC_PutBytes\<close>.\<close>

definition CC_BJDC_put_byte :: "(bytes \<Rightarrow> xml_view option) \<Rightarrow> u8 \<Rightarrow> bj_app rx \<Rightarrow> bj_app rx outcome" where
  "CC_BJDC_put_byte load b w =
     (if rx_pos w < length (rx_buf w) then
        let w' = rx_store CC_BJDC_BUF_SIZE b w in
        if rx_hunt w' then
          (if rx_pos w' = 4 then
             (if of_le32 (take 4 (rx_buf w')) = CC_BJDC_PRE then Ret (w'\<lparr>rx_hunt := False\<rparr>)
              else Ret (w'\<lparr>rx_pos := 2\<rparr>))
           else Ret w')
        else if 8 \<le> rx_pos w' then
          (if of_le32 (take 4 (drop (rx_pos w' - 4) (rx_buf w'))) = CC_BJDC_EOM \<and> 18 \<le> rx_pos w' then
             bindO (CC_BJDC_frame load w') (\<lambda>w''. Ret (w''\<lparr>rx_pos := 0, rx_hunt := True\<rparr>))
           else Ret w')
        else Ret w'
      else Fault)"

definition CC_BJDC_PutBytes :: "(bytes \<Rightarrow> xml_view option) \<Rightarrow> bytes \<Rightarrow> bj_app rx \<Rightarrow> bj_app rx outcome" where
  "CC_BJDC_PutBytes load = rx_run (CC_BJDC_put_byte load)"

definition cc_bjdc_open :: "bj_app \<Rightarrow> bj_app rx" where
  "cc_bjdc_open s = \<lparr>rx_buf = replicate CC_BJDC_BUF_SIZE 0, rx_pos = 0, rx_hunt = True,
     rx_app = s\<lparr>bj_queue := Some []\<rparr>\<rparr>"

section \<open>Sender\<close>

text \<open>
  The buffer of the frame, written step by step: header, text with its NUL, encryption in place,
  checksum and end mark.  A NULL text sends nothing.
\<close>

definition cc_bjdc_send_xmlpack :: "bytes option \<Rightarrow> bj_app \<Rightarrow> (bool \<times> bj_app) outcome" where
  "cc_bjdc_send_xmlpack xml s =
     (case xml of
        None \<Rightarrow> Ret (False, s)
      | Some text \<Rightarrow>
          let ulLen = 4 + ((of_nat (length text) + 15) AND NOT 15) :: u32;
              buf = replicate (unat (ulLen + 14)) 0 in
          bindO (copy_in buf 0 (le32 CC_BJDC_PRE @ le32 ulLen @ le32 0)) (\<lambda>b1.
          bindO (copy_in b1 12 (text @ [0])) (\<lambda>b2.
          bindO (copy_out b2 12 (unat (ulLen - 4))) (\<lambda>d.
          bindO (copy_in b2 12 (AES_Encrypt (AES_Init xAESKeyAndIV) xAESKeyAndIV d)) (\<lambda>b3.
          bindO (copy_out b3 8 (unat ulLen)) (\<lambda>m.
          bindO (copy_in b3 (12 + uint (ulLen - 4)) (le16 (CC_GetCrc16 m) @ le32 CC_BJDC_EOM)) (\<lambda>b4.
          bindO (copy_out b4 0 (unat (ulLen + 14))) (\<lambda>f.
            Ret (True, s\<lparr>bj_sent := bj_sent s @ [f]\<rparr>)))))))))"

section \<open>Login\<close>

text \<open>
  The loop of the work thread before it reports data.  Where it waits for a message (\<open>None\<close> when the time
  is over), it has asked for a sequence (\<open>CC_BJDC_VERIFY_SEQ\<close>) or sent a digest
  (\<open>CC_BJDC_VERIFY_RESULT\<close>); in the third state it has left the loop.
\<close>

datatype bj_verify = VERIFY_SEQ | VERIFY_RESULT | VERIFY_PASS

datatype bj_act = Verify_req | Checkmd5_req bytes | Net_disconnect

definition hex_text :: "bytes \<Rightarrow> bytes" where
  "hex_text bs = concat (map (asc \<circ> hex2) bs)"

definition bj_md5 :: "md5_ctx \<Rightarrow> bytes \<Rightarrow> bytes" where
  "bj_md5 c seq = hex_text (md5_of c [seq, CC_BJDC_MD5_KEY])"

definition bj_verify_step ::
  "md5_ctx \<Rightarrow> bj_data option \<Rightarrow> bj_verify \<Rightarrow> (bj_verify \<times> bj_act list) outcome" where
  "bj_verify_step c ev st =
     (case st of
        VERIFY_SEQ \<Rightarrow>
          (case ev of
             None \<Rightarrow> Ret (VERIFY_SEQ, [Net_disconnect, Verify_req])
           | Some (CC_BJDC_VERIFY_SEQ mem) \<Rightarrow>
               bindO (cstring mem) (\<lambda>seq. Ret (VERIFY_RESULT, [Checkmd5_req (bj_md5 c seq)]))
           | Some _ \<Rightarrow> Ret (VERIFY_SEQ, [Verify_req]))
      | VERIFY_RESULT \<Rightarrow>
          (case ev of
             Some (CC_BJDC_VERIFY_RESULT bPass) \<Rightarrow>
               Ret (if bPass then (VERIFY_PASS, []) else (VERIFY_SEQ, [Net_disconnect, Verify_req]))
           | _ \<Rightarrow> Ret (VERIFY_SEQ, [Verify_req]))
      | VERIFY_PASS \<Rightarrow> Ret (VERIFY_PASS, []))"

fun bj_login :: "md5_ctx \<Rightarrow> bj_data option list \<Rightarrow> bj_verify \<times> bj_act list \<Rightarrow> (bj_verify \<times> bj_act list) outcome" where
  "bj_login c [] r = Ret r"
| "bj_login c (ev # evs) (st, acts) =
     bindO (bj_verify_step c ev st) (\<lambda>(st', a). bj_login c evs (st', acts @ a))"

text \<open>The thread starts by asking for a sequence.\<close>

definition bj_start :: "bj_verify \<times> bj_act list" where
  "bj_start = (VERIFY_SEQ, [Verify_req])"

section \<open>The receiver is one of the contract\<close>

lemma of_le32_eq_iff: "length bs = 4 \<Longrightarrow> of_le32 bs = w \<longleftrightarrow> bs = le32 w"
  using le32_of_le32 [of bs] of_le32_le32 [of w] by auto

lemma le32_marks: "le32 CC_BJDC_PRE = [0xAA, 0x55, 0xAA, 0x55]" "le32 CC_BJDC_EOM = [0x68, 0x68, 0x16, 0x16]"
  by (simp_all add: le32_def CC_BJDC_PRE_def CC_BJDC_EOM_def)

lemma ends_at_4: "ends_at [a, b, c, d] k f \<longleftrightarrow> take 4 (drop (k - 4) f) = [a, b, c, d]"
  by (simp add: ends_at_def eval_nat_numeral)

interpretation bj: frame_receiver "CC_BJDC_put_byte load" CC_BJDC_BUF_SIZE "[0xAA, 0x55, 0xAA, 0x55]" 2
  "[0x68, 0x68, 0x16, 0x16]" 18 "CC_BJDC_frame load" for load
proof unfold_locales
  fix w :: "bj_app rx" and b
  assume ok: "rx_ok CC_BJDC_BUF_SIZE w" and hunt: "rx_hunt w"
  have "of_le32 (take 4 ((rx_buf w)[rx_pos w := b])) = CC_BJDC_PRE \<longleftrightarrow>
      take 4 ((rx_buf w)[rx_pos w := b]) = [0xAA, 0x55, 0xAA, 0x55]"
    using ok of_le32_eq_iff [of "take 4 ((rx_buf w)[rx_pos w := b])"]
    by (simp add: rx_ok_def CC_BJDC_BUF_SIZE_def le32_marks)
  moreover have four: "length [0xAA, 0x55, 0xAA, 0x55 :: u8] = 4" by simp
  ultimately show "CC_BJDC_put_byte load b w = (let w' = rx_store CC_BJDC_BUF_SIZE b w
      in Ret (if rx_pos w' = length [0xAA, 0x55, 0xAA, 0x55 :: u8]
              then if take (length [0xAA, 0x55, 0xAA, 0x55 :: u8]) (rx_buf w') = [0xAA, 0x55, 0xAA, 0x55]
                   then w'\<lparr>rx_hunt := False\<rparr> else w'\<lparr>rx_pos := 2\<rparr>
              else w'))"
    unfolding four using ok hunt by (simp add: CC_BJDC_put_byte_def rx_ok_def rx_store_def Let_def)
next
  fix w :: "bj_app rx" and b
  assume ok: "rx_ok CC_BJDC_BUF_SIZE w" and hunt: "\<not> rx_hunt w"
  let ?w = "rx_store CC_BJDC_BUF_SIZE b w"
  have "18 \<le> rx_pos ?w \<Longrightarrow> of_le32 (take 4 (drop (rx_pos ?w - 4) (rx_buf ?w))) = CC_BJDC_EOM \<longleftrightarrow>
      ends_at [0x68, 0x68, 0x16, 0x16] (rx_pos ?w) (rx_buf ?w)"
    using ok of_le32_eq_iff [of "take 4 (drop (rx_pos ?w - 4) (rx_buf ?w))"]
    by (simp add: rx_ok_def rx_store_def CC_BJDC_BUF_SIZE_def le32_marks ends_at_4 split: if_splits)
  then show "CC_BJDC_put_byte load b w = (let w' = rx_store CC_BJDC_BUF_SIZE b w
      in if 18 \<le> rx_pos w' \<and> ends_at [0x68, 0x68, 0x16, 0x16] (rx_pos w') (rx_buf w')
         then bindO (CC_BJDC_frame load w') (\<lambda>w''. Ret (w''\<lparr>rx_pos := 0, rx_hunt := True\<rparr>))
         else Ret w')"
    using ok hunt by (auto simp: CC_BJDC_put_byte_def rx_ok_def Let_def rx_store_def [of _ _ w])
qed (simp_all add: CC_BJDC_BUF_SIZE_def)

section \<open>Frames\<close>

lemma piece_out: "i = int (length a) \<Longrightarrow> length b = n \<Longrightarrow> copy_out (a @ b @ c) i n = Ret b"
  by (simp add: copy_out_nat)

lemma piece_in: "i = int (length a) \<Longrightarrow> length b' = length b \<Longrightarrow> copy_in (a @ b @ c) i b' = Ret (a @ b' @ c)"
  by (simp add: copy_in_nat)

definition align16 :: "nat \<Rightarrow> nat" where
  "align16 n = 16 * ((n + 15) div 16)"

lemma align16: "n \<le> align16 n" "align16 n \<le> n + 15" "16 dvd align16 n"
  using div_mult_mod_eq [of "n + 15" 16] by (auto simp: align16_def)

lemma align16_word: "n + 15 < 2 ^ 32 \<Longrightarrow> (of_nat n + 15) AND NOT 15 = (of_nat (align16 n) :: u32)"
proof -
  assume n: "n + 15 < 2 ^ 32"
  have "x AND NOT 15 = push_bit 4 (drop_bit 4 x)" for x :: u32
  proof -
    have m: "(15 :: u32) = mask 4" by (simp add: mask_eq_decr_exp)
    show ?thesis unfolding m by (rule bit_eqI) (auto simp: bit_simps)
  qed
  then have "(of_nat n + 15) AND NOT 15 = (push_bit 4 (drop_bit 4 (of_nat (n + 15))) :: u32)" by simp
  also have "drop_bit 4 (of_nat (n + 15) :: u32) = of_nat ((n + 15) div 16)"
  proof -
    have "unat (drop_bit 4 (of_nat (n + 15) :: u32)) = (n + 15) div 16"
      using unat_of_nat_small' [where 'a = 32, of "n + 15"] n by (simp add: drop_bit_eq_div unat_div_distrib del: of_nat_add)
    then show ?thesis by (metis of_nat_unat ucast_id)
  qed
  finally show ?thesis by (simp add: push_bit_eq_mult align16_def mult.commute)
qed

definition bj_cipher :: "bytes \<Rightarrow> bytes" where
  "bj_cipher text =
     AES_Encrypt (AES_Init xAESKeyAndIV) xAESKeyAndIV (text @ replicate (align16 (length text) - length text) 0)"

definition bj_frame :: "bytes \<Rightarrow> bytes" where
  "bj_frame text =
     (let body = le32 0 @ bj_cipher text
      in le32 CC_BJDC_PRE @ le32 (of_nat (length body)) @ body @ le16 (CC_GetCrc16 body) @ le32 CC_BJDC_EOM)"

lemma bj_key [simp]: "length xAESKeyAndIV = 16"
  by (simp add: xAESKeyAndIV_def)

lemma bj_cipher:
  shows "length (bj_cipher text) = align16 (length text)"
    and "AES_Decrypt (AES_Init xAESKeyAndIV) xAESKeyAndIV (bj_cipher text) =
      text @ replicate (align16 (length text) - length text) 0"
  using AES_Decrypt_Encrypt [of xAESKeyAndIV xAESKeyAndIV "text @ replicate (align16 (length text) - length text) 0"]
    align16 [of "length text"] by (simp_all add: bj_cipher_def)

lemma length_bj_frame: "length (bj_frame text) = align16 (length text) + 18"
  by (simp add: bj_frame_def Let_def bj_cipher)

lemma cc_bjdc_send:
  assumes "length text < 2 ^ 31"
  shows "cc_bjdc_send_xmlpack (Some text) s = Ret (True, s\<lparr>bj_sent := bj_sent s @ [bj_frame text]\<rparr>)"
proof -
  define n where "n = align16 (length text)"
  have n: "length text \<le> n" "n < 2 ^ 31 + 15" using align16 [of "length text"] assms by (auto simp: n_def)
  have len: "4 + ((of_nat (length text) + 15) AND NOT 15) = (of_nat (4 + n) :: u32)"
    using align16_word [of "length text"] assms by (simp add: n_def)
  have w: "of_nat (4 + n) + 14 = (of_nat (n + 18) :: u32)" "of_nat (4 + n) - 4 = (of_nat n :: u32)" by simp_all
  have u: "unat (of_nat (n + 18) :: u32) = n + 18" "unat (of_nat n :: u32) = n" "unat (of_nat (4 + n) :: u32) = 4 + n"
    using n unat_of_nat_small' [where 'a = 32, of "n + 18"] unat_of_nat_small' [where 'a = 32, of n]
      unat_of_nat_small' [where 'a = 32, of "4 + n"] by (simp_all del: of_nat_add)
  have i: "12 + uint (of_nat n :: u32) = int (12 + n)"
    using arg_cong [OF u(2), of int] by simp
  let ?h = "le32 CC_BJDC_PRE @ le32 (of_nat (4 + n))" and ?t = "text @ replicate (n - length text) 0"
  let ?e = "le16 (CC_GetCrc16 (le32 0 @ bj_cipher text)) @ le32 CC_BJDC_EOM"
  have c: "length (bj_cipher text) = n" by (simp add: bj_cipher n_def)
  have b1: "copy_in (replicate (n + 18) 0) 0 (?h @ le32 0) = Ret ((?h @ le32 0) @ replicate (n + 6) 0)"
    by (simp add: copy_in_0)
  have b2: "copy_in ((?h @ le32 0) @ replicate (n + 6) 0) 12 (text @ [0]) = Ret ((?h @ le32 0) @ ?t @ replicate 6 0)"
  proof -
    have e: "n + 6 = (length text + 1) + (n + 5 - length text)" "n - length text + 6 = Suc (n + 5 - length text)"
      using n by simp_all
    have r: "replicate (n + 6) 0 = replicate (length text + 1) 0 @ replicate (n + 5 - length text) (0 :: u8)"
      "replicate (n - length text) 0 @ replicate 6 0 = (0 :: u8) # replicate (n + 5 - length text) 0"
      by (simp_all only: e(1) replicate_add) (simp only: replicate_add [symmetric] e(2) replicate_Suc)
    have "copy_in ((?h @ le32 0) @ replicate (length text + 1) 0 @ replicate (n + 5 - length text) 0) 12 (text @ [0]) =
        Ret ((?h @ le32 0) @ (text @ [0]) @ replicate (n + 5 - length text) 0)"
      by (rule piece_in) simp_all
    then show ?thesis unfolding r(1) by (simp only: append_assoc r(2) append_Cons append_Nil)
  qed
  have d: "copy_out ((?h @ le32 0) @ ?t @ replicate 6 0) 12 n = Ret ?t"
    by (rule piece_out) (use n in simp_all)
  have b3: "copy_in ((?h @ le32 0) @ ?t @ replicate 6 0) 12 (bj_cipher text) = Ret ((?h @ le32 0) @ bj_cipher text @ replicate 6 0)"
    by (rule piece_in) (use n c in simp_all)
  have m: "copy_out ((?h @ le32 0) @ bj_cipher text @ replicate 6 0) 8 (4 + n) = Ret (le32 0 @ bj_cipher text)"
    using piece_out [of 8 ?h "le32 0 @ bj_cipher text" "4 + n"] c by simp
  have b4: "copy_in ((?h @ le32 0) @ bj_cipher text @ replicate 6 0) (int (12 + n)) ?e =
      Ret (?h @ le32 0 @ bj_cipher text @ ?e)"
    using piece_in [of "int (12 + n)" "?h @ le32 0 @ bj_cipher text" ?e "replicate 6 0" "[]"] c by simp
  have f: "copy_out (?h @ le32 0 @ bj_cipher text @ ?e) 0 (n + 18) = Ret (?h @ le32 0 @ bj_cipher text @ ?e)"
    using c by (simp add: copy_out_0)
  have "AES_Encrypt (AES_Init xAESKeyAndIV) xAESKeyAndIV ?t = bj_cipher text"
    by (simp add: bj_cipher_def n_def)
  moreover have "?h @ le32 0 @ bj_cipher text @ ?e = bj_frame text"
    using c by (simp add: bj_frame_def Let_def)
  ultimately show ?thesis
    unfolding cc_bjdc_send_xmlpack_def option.case Let_def len w u i
    using b1 b2 d b3 m b4 f by (simp only: append_assoc bindO.simps)
qed

lemma ParsePack_text: "cstring m = Ret text \<Longrightarrow> CC_BJDC_ParsePack load m s = CC_BJDC_ParsePack load (text @ [0]) s"
proof -
  assume m: "cstring m = Ret text"
  then have "0 \<notin> set text" by (auto simp: cstring_def split: if_splits dest: set_takeWhileD)
  then show ?thesis using m cstring_text [of "text" "[]"] by (simp add: CC_BJDC_ParsePack_def)
qed

lemma CC_BJDC_frame_encoded:
  assumes t: "0 \<notin> set text" "length text < 2 ^ 31"
    and w: "rx_buf w = bj_frame text @ r" "rx_pos w = length (bj_frame text)"
  shows "\<exists>b. length b = length (rx_buf w) \<and> CC_BJDC_frame load w =
    bindO (CC_BJDC_ParsePack load (text @ [0]) (rx_app w)) (\<lambda>s. Ret (w\<lparr>rx_buf := b, rx_app := s\<rparr>))"
proof -
  define n where "n = align16 (length text)"
  have n: "n < 2 ^ 31 + 15" "length text \<le> n" using align16 [of "length text"] t by (auto simp: n_def)
  let ?body = "le32 0 @ bj_cipher text" and ?t = "text @ replicate (n - length text) 0"
  let ?h = "le32 CC_BJDC_PRE @ le32 (of_nat (4 + n)) @ le32 0"
  define crc where "crc = CC_GetCrc16 ?body"
  have c: "length (bj_cipher text) = n" by (simp add: bj_cipher n_def)
  have buf: "rx_buf w = ?h @ bj_cipher text @ le16 crc @ le32 CC_BJDC_EOM @ r"
    using c by (simp add: w(1) bj_frame_def Let_def crc_def)
  have len: "of_le32 (take 4 (drop 4 (rx_buf w))) = of_nat (4 + n)" by (simp add: buf of_le32_le32)
  have "take 2 (drop (rx_pos w - 6) (rx_buf w)) = le16 crc" using c by (simp add: buf w(2) length_bj_frame n_def)
  then have chk: "of_le16 (take 2 (drop (rx_pos w - 6) (rx_buf w))) = crc" by (simp add: of_le16_le16)
  have pos: "of_nat (4 + n) + 14 = (of_nat (rx_pos w) :: u32)" by (simp add: w(2) length_bj_frame n_def)
  have u: "unat (of_nat (4 + n) :: u32) = 4 + n" "unat (of_nat n :: u32) = n"
    using n unat_of_nat_small' [where 'a = 32, of "4 + n"] unat_of_nat_small' [where 'a = 32, of n]
    by (simp_all del: of_nat_add)
  have i: "of_nat (4 + n) - 4 = (of_nat n :: u32)" "12 + uint (of_nat n :: u32) = int (12 + n)"
    using arg_cong [OF u(2), of int] by simp_all
  have d: "copy_out (rx_buf w) 8 (4 + n) = Ret ?body"
    using piece_out [of 8 "le32 CC_BJDC_PRE @ le32 (of_nat (4 + n))" ?body "4 + n"] c by (simp add: buf)
  have e: "copy_out (rx_buf w) 12 n = Ret (bj_cipher text)" unfolding buf by (rule piece_out) (simp_all add: c)
  have b1: "copy_in (rx_buf w) 12 ?t = Ret (?h @ ?t @ le16 crc @ le32 CC_BJDC_EOM @ r)"
    unfolding buf by (rule piece_in) (use n c in simp_all)
  define b2 where "b2 = (?h @ ?t) @ [0] @ [ucast (drop_bit 8 crc)] @ le32 CC_BJDC_EOM @ r"
  have "copy_in ((?h @ ?t) @ [ucast crc] @ [ucast (drop_bit 8 crc)] @ le32 CC_BJDC_EOM @ r) (int (12 + n)) [0] = Ret b2"
    unfolding b2_def by (rule piece_in) (use n in simp_all)
  then have b2: "copy_in (?h @ ?t @ le16 crc @ le32 CC_BJDC_EOM @ r) (int (12 + n)) [0] = Ret b2" by (simp add: le16_def)
  have "drop 12 b2 = text @ 0 # replicate (n - length text) 0 @ [ucast (drop_bit 8 crc)] @ le32 CC_BJDC_EOM @ r"
    by (simp add: b2_def replicate_app_Cons_same)
  then have "cstring (drop 12 b2) = Ret text" using t cstring_text by simp
  then have p: "CC_BJDC_ParsePack load (drop 12 b2) = CC_BJDC_ParsePack load (text @ [0])"
    by (auto simp: ParsePack_text)
  have "AES_Decrypt (AES_Init xAESKeyAndIV) xAESKeyAndIV (bj_cipher text) = ?t" by (simp add: bj_cipher n_def)
  then have "CC_BJDC_frame load w =
      bindO (CC_BJDC_ParsePack load (text @ [0]) (rx_app w)) (\<lambda>s. Ret (w\<lparr>rx_buf := b2, rx_app := s\<rparr>))"
    unfolding CC_BJDC_frame_def Let_def len chk i(1) u i(2) d bindO.simps e b1 b2 p using pos b1 b2 p
    by (simp add: crc_def [symmetric] i(2))
  moreover have "length b2 = length (rx_buf w)" using n c by (simp add: b2_def buf)
  ultimately show ?thesis by blast
qed

section \<open>Properties\<close>

lemma bj_marks: "take 4 (bj_frame t) = [0xAA, 0x55, 0xAA, 0x55]" "ends_at [0x68, 0x68, 0x16, 0x16] (length (bj_frame t)) (bj_frame t)"
proof -
  define x where "x = le32 CC_BJDC_PRE @ le32 (of_nat (length (le32 0 @ bj_cipher t))) @ le32 0 @ bj_cipher t @
    le16 (CC_GetCrc16 (le32 0 @ bj_cipher t))"
  have f: "bj_frame t = x @ [0x68, 0x68, 0x16, 0x16]" by (simp add: bj_frame_def Let_def x_def le32_marks)
  show "take 4 (bj_frame t) = [0xAA, 0x55, 0xAA, 0x55]" by (simp add: bj_frame_def Let_def le32_marks)
  show "ends_at [0x68, 0x68, 0x16, 0x16] (length (bj_frame t)) (bj_frame t)"
    unfolding f using ends_at_end [of "[0x68, 0x68, 0x16, 0x16]" x] by simp
qed

text \<open>What a receiver does with a frame of the sender whose end mark is nowhere but at the end.\<close>

lemma bj_frame_received:
  assumes w: "length (rx_buf w) = CC_BJDC_BUF_SIZE" "rx_pos w = 0" "rx_hunt w"
    and t: "0 \<notin> set t" "length t \<le> 2000"
    and one: "\<forall>j. 18 \<le> j \<and> j < length (bj_frame t) \<longrightarrow> \<not> ends_at [0x68, 0x68, 0x16, 0x16] j (bj_frame t)"
  shows "\<exists>b. length b = CC_BJDC_BUF_SIZE \<and> CC_BJDC_PutBytes load (bj_frame t) w =
    bindO (CC_BJDC_ParsePack load (t @ [0]) (rx_app w))
      (\<lambda>s. Ret \<lparr>rx_buf = b, rx_pos = 0, rx_hunt = True, rx_app = s\<rparr>)"
proof -
  let ?f = "bj_frame t"
  let ?w = "w\<lparr>rx_buf := ?f @ drop (length ?f) (rx_buf w), rx_pos := length ?f, rx_hunt := False\<rparr>"
  have len: "18 \<le> length ?f" "length ?f < CC_BJDC_BUF_SIZE"
    using t align16 [of "length t"] by (simp_all add: length_bj_frame CC_BJDC_BUF_SIZE_def)
  have "rx_run (CC_BJDC_put_byte load) ?f w =
      bindO (CC_BJDC_frame load ?w) (\<lambda>w''. Ret (w''\<lparr>rx_pos := 0, rx_hunt := True\<rparr>))"
    by (rule bj.delivered) (use w one len bj_marks [of t] in \<open>simp_all add: eval_nat_numeral\<close>)
  moreover obtain b where "length b = length (rx_buf ?w)" "CC_BJDC_frame load ?w =
      bindO (CC_BJDC_ParsePack load (t @ [0]) (rx_app ?w)) (\<lambda>s. Ret (?w\<lparr>rx_buf := b, rx_app := s\<rparr>))"
    using CC_BJDC_frame_encoded [of t ?w "drop (length ?f) (rx_buf w)" load] t by auto
  moreover have "length (rx_buf ?w) = CC_BJDC_BUF_SIZE" using w len by simp
  moreover have rec: "w\<lparr>rx_buf := b, rx_app := x, rx_pos := 0, rx_hunt := True\<rparr> =
      \<lparr>rx_buf = b, rx_pos = 0, rx_hunt = True, rx_app = x\<rparr>" for b x
    by (cases w) simp
  ultimately show ?thesis by (auto simp: CC_BJDC_PutBytes_def bindO_assoc rec)
qed


definition demo_bj :: bj_app where
  "demo_bj = \<lparr>bj_queue = None, bj_stack = replicate 16 0xcc, bj_sent = []\<rparr>"

definition demo_load :: "bytes \<Rightarrow> xml_view option" where
  "demo_load t = Some \<lparr>xml_type = Some (asc ''device_ack''), xml_text = (\<lambda>_ _. None), xml_op = (\<lambda>_. None)\<rparr>"


text \<open>A frame handler that never leaves its buffer.\<close>

lemma CC_BJDC_frame_total:
  assumes ok: "rx_ok CC_BJDC_BUF_SIZE w" "18 \<le> rx_pos w"
    and parse: "\<And>m s. 0 \<in> set m \<Longrightarrow> \<exists>s'. CC_BJDC_ParsePack load m s = Ret s'"
  shows "\<exists>w'. CC_BJDC_frame load w = Ret w' \<and> length (rx_buf w') = CC_BJDC_BUF_SIZE"
proof (cases "of_le32 (take 4 (drop 4 (rx_buf w))) + 14 = (of_nat (rx_pos w) :: u32)")
  case True
  let ?n = "rx_pos w" and ?buf = "rx_buf w"
  have n: "18 \<le> ?n" "?n < 2048" "length ?buf = 2048" using ok by (simp_all add: rx_ok_def CC_BJDC_BUF_SIZE_def)
  have "of_le32 (take 4 (drop 4 ?buf)) = of_nat ?n - (14 :: u32)" using True by (simp add: eq_diff_eq)
  also have "\<dots> = of_nat (?n - 14)" using n by (simp add: of_nat_diff)
  finally have len: "of_le32 (take 4 (drop 4 ?buf)) = of_nat (?n - 14)" .
  have len': "of_nat (?n - 14) - 4 = (of_nat (?n - 18) :: u32)" using n by (simp add: of_nat_diff)
  have u: "unat (of_nat (?n - 14) :: u32) = ?n - 14" "unat (of_nat (?n - 18) :: u32) = ?n - 18"
    using n unat_of_nat_small' [where 'a = 32, of "?n - 14"] unat_of_nat_small' [where 'a = 32, of "?n - 18"]
    by simp_all
  have i: "12 + uint (of_nat (?n - 18) :: u32) = int (?n - 6)" using arg_cong [OF u(2), of int] n by simp
  obtain d where d: "copy_out ?buf 8 (?n - 14) = Ret d" using copy_out_ok [of 8 "?n - 14" ?buf] n by auto
  obtain c where c: "copy_out ?buf 12 (?n - 18) = Ret c" "length c = ?n - 18"
    using copy_out_ok [of 12 "?n - 18" ?buf] n by auto
  let ?p = "AES_Decrypt (AES_Init xAESKeyAndIV) xAESKeyAndIV c"
  obtain b1 where b1: "copy_in ?buf 12 ?p = Ret b1" "length b1 = 2048"
    using copy_in_ok [of 12 ?p ?buf] n c by (auto simp: length_AES_Decrypt)
  let ?b2 = "take (?n - 6) b1 @ [0] @ drop (?n - 6 + 1) b1"
  have b2: "copy_in b1 (int (?n - 6)) [0] = Ret ?b2" using copy_in_nat [of "?n - 6" "[0]" b1] n b1 by simp
  have "0 \<in> set (drop 12 ?b2)" using n b1 by simp
  from parse [OF this] obtain s' where s': "CC_BJDC_ParsePack load (drop 12 ?b2) (rx_app w) = Ret s'" by blast
  have "CC_BJDC_frame load w = (if CC_GetCrc16 d = of_le16 (take 2 (drop (?n - 6) ?buf))
      then Ret (w\<lparr>rx_buf := ?b2, rx_app := s'\<rparr>) else Ret w)"
    using True by (simp only: CC_BJDC_frame_def Let_def len len' u i d c(1) b1(1) b2 s' bindO.simps if_True simp_thms)
  then show ?thesis using n b1(2) by (simp add: CC_BJDC_BUF_SIZE_def)
qed (use ok in \<open>auto simp: CC_BJDC_frame_def Let_def rx_ok_def\<close>)

text \<open>The library's view of a restart document that names its operation.\<close>

definition op_named :: "xml_view \<Rightarrow> bool" where
  "op_named x \<longleftrightarrow> (xml_type x = Some (asc ''restart'') \<longrightarrow> xml_op x ''Instruction'' \<noteq> None)"

lemma bj_document_fault: "(\<exists>d. bj_document x st = Ret d) \<longleftrightarrow> op_named x"
  by (auto simp: bj_document_def op_named_def asc_def split: option.splits)

lemma bj_document_not_blocked: "bj_document x st \<noteq> Blocked"
  by (auto simp: bj_document_def split: option.splits)

text \<open>
  Claim C18.  Whatever bytes arrive, in whatever state the receiver is, it comes back, inside its buffer
  and with the position inside it, as long as every restart document has an operation: the length field is
  tested before the checksum, and the decrypted text always gets a NUL.  A restart document without an
  operation, encoded like any other, makes it read through a NULL pointer.
\<close>

theorem bjdc_put_bytes_safe:
  assumes w: "rx_ok CC_BJDC_BUF_SIZE w"
  shows "((\<forall>t x. load t = Some x \<longrightarrow> op_named x) \<longrightarrow>
      (\<exists>w'. CC_BJDC_PutBytes load bs w = Ret w' \<and> rx_ok CC_BJDC_BUF_SIZE w')) \<and>
    (rx_pos w = 0 \<and> rx_hunt w \<and> bs = bj_frame t \<and> 0 \<notin> set t \<and> length t \<le> 2000 \<and>
     (\<forall>j. 18 \<le> j \<and> j < length bs \<longrightarrow> \<not> ends_at [0x68, 0x68, 0x16, 0x16] j bs) \<and>
     load t = Some x \<and> \<not> op_named x \<longrightarrow> CC_BJDC_PutBytes load bs w = Fault)"
proof (intro conjI impI)
  assume op: "\<forall>t x. load t = Some x \<longrightarrow> op_named x"
  have "\<exists>s'. CC_BJDC_ParsePack load m s = Ret s'" if nul: "0 \<in> set m" for m s
  proof -
    obtain t where "cstring m = Ret t" using nul by (simp add: cstring_def)
    moreover have "\<exists>d. bj_document x (bj_stack s) = Ret d" if "load t = Some x" for x
      using op that bj_document_fault by blast
    ultimately show ?thesis by (cases "load t") (auto simp: CC_BJDC_ParsePack_def)
  qed
  then show "\<exists>w'. CC_BJDC_PutBytes load bs w = Ret w' \<and> rx_ok CC_BJDC_BUF_SIZE w'"
    unfolding CC_BJDC_PutBytes_def by (intro bj.run_total CC_BJDC_frame_total w)
next
  assume h: "rx_pos w = 0 \<and> rx_hunt w \<and> bs = bj_frame t \<and> 0 \<notin> set t \<and> length t \<le> 2000 \<and>
     (\<forall>j. 18 \<le> j \<and> j < length bs \<longrightarrow> \<not> ends_at [0x68, 0x68, 0x16, 0x16] j bs) \<and>
     load t = Some x \<and> \<not> op_named x"
  then have "bj_document x (bj_stack (rx_app w)) = Fault"
    using bj_document_fault bj_document_not_blocked by (metis outcome.exhaust)
  then have "CC_BJDC_ParsePack load (t @ [0]) (rx_app w) = Fault"
    using h cstring_text [of t "[]"] by (simp add: CC_BJDC_ParsePack_def)
  then show "CC_BJDC_PutBytes load bs w = Fault"
    using bj_frame_received [of w t load] h w by (auto simp: rx_ok_def)
qed

lemma bjdc_put_bytes_safe_witness:
  "\<exists>w'. CC_BJDC_PutBytes demo_load [0xAA, 0x55, 0xAA, 0x55, 0] (cc_bjdc_open demo_bj) = Ret w' \<and> rx_ok CC_BJDC_BUF_SIZE w'"
proof -
  have "\<forall>t x. demo_load t = Some x \<longrightarrow> op_named x" by (simp add: demo_load_def op_named_def asc_def)
  then show ?thesis
    using bjdc_put_bytes_safe [of "cc_bjdc_open demo_bj" demo_load "[0xAA, 0x55, 0xAA, 0x55, 0]"]
    by (simp add: cc_bjdc_open_def rx_ok_def CC_BJDC_BUF_SIZE_def del: rx_run.simps)
qed

text \<open>
  The receiver looks for the end mark in encrypted bytes.  When a frame of the sender contains
  it before its end, the frame is dropped there; and when the two bytes behind it are not the beginning
  of a start mark, the receiver is lost: no later frame, however correct, reaches the parser.
\<close>

theorem bjdc_end_mark_in_data:
  assumes w: "length (rx_buf w) = CC_BJDC_BUF_SIZE" "rx_pos w = 0" "rx_hunt w"
    and t: "length t \<le> 2000"
    and cut: "18 \<le> j" "j + 2 \<le> length (bj_frame t)" "ends_at [0x68, 0x68, 0x16, 0x16] j (bj_frame t)"
      "\<forall>i. 18 \<le> i \<and> i < j \<longrightarrow> \<not> ends_at [0x68, 0x68, 0x16, 0x16] i (bj_frame t)"
    and rest: "take 2 (drop j (bj_frame t)) \<noteq> [0xAA, 0x55]"
  shows "\<exists>w'. CC_BJDC_PutBytes load (bj_frame t @ later) w = Ret w' \<and> rx_app w' = rx_app w \<and> rx_hunt w'"
proof -
  let ?f = "bj_frame t" and ?e = "[0x68, 0x68, 0x16, 0x16] :: bytes"
  let ?w = "w\<lparr>rx_buf := take j ?f @ drop j (rx_buf w), rx_pos := j, rx_hunt := False\<rparr>"
  have len: "length ?f < CC_BJDC_BUF_SIZE" "length ?f = align16 (length t) + 18"
    using t align16 [of "length t"] by (simp_all add: length_bj_frame CC_BJDC_BUF_SIZE_def)
  have l: "length (take j ?f) = j" using cut by simp
  have e: "ends_at ?e i (take j ?f) = ends_at ?e i ?f" if "i \<le> j" "18 \<le> i" for i
    using ends_at_append [of i "take j ?f" ?e "drop j ?f"] that l by simp
  have pre: "take (length [0xAA, 0x55, 0xAA, 0x55 :: u8]) (take j ?f) = [0xAA, 0x55, 0xAA, 0x55]"
  proof -
    have four: "length [0xAA, 0x55, 0xAA, 0x55 :: u8] = 4" by simp
    show ?thesis unfolding four using bj_marks(1) [of t] cut(1) by simp
  qed
  have "rx_run (CC_BJDC_put_byte load) (take j ?f) w =
      bindO (CC_BJDC_frame load ?w) (\<lambda>w''. Ret (w''\<lparr>rx_pos := 0, rx_hunt := True\<rparr>))"
    using bj.delivered [OF w pre, of load] cut len l e by simp
  moreover have "CC_BJDC_frame load ?w = Ret ?w"
  proof -
    have "take 4 (drop 4 (rx_buf ?w)) = take 4 (drop 4 ?f)" using cut l by (simp add: drop_take min_def)
    also have "\<dots> = le32 (of_nat (align16 (length t) + 4))"
      by (simp add: bj_frame_def Let_def bj_cipher add.commute)
    finally have "of_le32 (take 4 (drop 4 (rx_buf ?w))) + 14 = (of_nat (length ?f) :: u32)"
      by (simp add: of_le32_le32 len)
    moreover have "(of_nat (length ?f) :: u32) \<noteq> of_nat j"
      using cut len unat_of_nat_small' [where 'a = 32, of j] unat_of_nat_small' [where 'a = 32, of "length ?f"]
      by (auto simp: CC_BJDC_BUF_SIZE_def)
    ultimately show ?thesis by (simp add: CC_BJDC_frame_def Let_def)
  qed
  ultimately have r1: "rx_run (CC_BJDC_put_byte load) (take j ?f) w = Ret (?w\<lparr>rx_pos := 0, rx_hunt := True\<rparr>)" by simp
  have sp: "?f @ later = take j ?f @ take 2 (drop j ?f) @ drop (j + 2) ?f @ later"
    by (metis append_assoc append_take_drop_id drop_drop add.commute)
  obtain w' where r2: "rx_run (CC_BJDC_put_byte load) (take 2 (drop j ?f) @ drop (j + 2) ?f @ later)
      (?w\<lparr>rx_pos := 0, rx_hunt := True\<rparr>) = Ret w'" and d: "bj.deaf w'" "rx_app w' = rx_app w"
    using bj.wrong_start [of "?w\<lparr>rx_pos := 0, rx_hunt := True\<rparr>" "take 2 (drop j ?f)" load "drop (j + 2) ?f @ later"]
      w cut len l rest by auto
  have "CC_BJDC_PutBytes load (?f @ later) w = Ret w'"
    unfolding CC_BJDC_PutBytes_def sp by (subst rx_run_append) (simp only: r1 bindO.simps r2)
  then show ?thesis using d by (simp add: bj.deaf_def)
qed

text \<open>Every block is an encrypted one, so a text can encrypt to the end mark.\<close>

lemma AES_Encrypt_onto:
  assumes "length key = 16" "length iv = 16" "length c = 16"
  shows "\<exists>m. length m = 16 \<and> AES_Encrypt (AES_Init key) iv m = c"
proof -
  let ?A = "{m :: bytes. length m = 16}" and ?f = "AES_Encrypt (AES_Init key) iv"
  have "finite ?A" using finite_lists_length_eq [of "UNIV :: u8 set" 16] by simp
  moreover have "?f ` ?A \<subseteq> ?A" using AES_Decrypt_Encrypt(2) [OF assms(1,2)] by auto
  moreover have "inj_on ?f ?A"
    by (rule inj_on_inverseI [of _ "AES_Decrypt (AES_Init key) iv"]) (use AES_Decrypt_Encrypt(1) [OF assms(1,2)] in auto)
  ultimately have "?f ` ?A = ?A" by (rule endo_inj_surj)
  then show ?thesis using assms(3) by (metis (mono_tags, lifting) imageE mem_Collect_eq)
qed

lemma bjdc_end_mark_in_data_witness:
  "\<exists>t w'. length t = 16 \<and>
     CC_BJDC_PutBytes demo_load (bj_frame t @ bj_frame []) (cc_bjdc_open demo_bj) = Ret w' \<and>
     rx_app w' = demo_bj\<lparr>bj_queue := Some []\<rparr> \<and> rx_hunt w'"
proof -
  let ?c = "[0, 0, 0x68, 0x68, 0x16, 0x16, 0, 0, 0, 0, 0, 0, 0, 0, 0, 0] :: bytes"
  obtain t where t: "length t = 16" "AES_Encrypt (AES_Init xAESKeyAndIV) xAESKeyAndIV t = ?c"
    using AES_Encrypt_onto [of xAESKeyAndIV xAESKeyAndIV ?c] by auto
  have c: "bj_cipher t = ?c" using t by (simp add: bj_cipher_def align16_def)
  have f: "\<exists>z. bj_frame t = le32 CC_BJDC_PRE @ le32 20 @ le32 0 @ [0, 0, 0x68, 0x68, 0x16, 0x16] @ [0, 0] @ z"
    by (simp add: bj_frame_def Let_def c)
  then have "take 4 (drop 14 (bj_frame t)) = [0x68, 0x68, 0x16, 0x16]" "take 2 (drop 18 (bj_frame t)) = [0, 0]"
    by auto
  then have "\<exists>w'. CC_BJDC_PutBytes demo_load (bj_frame t @ bj_frame []) (cc_bjdc_open demo_bj) = Ret w' \<and>
      rx_app w' = rx_app (cc_bjdc_open demo_bj) \<and> rx_hunt w'"
    by (intro bjdc_end_mark_in_data [of _ t 18])
       (auto simp: cc_bjdc_open_def t length_bj_frame align16_def ends_at_4)
  then show ?thesis using t by (auto simp: cc_bjdc_open_def)
qed

section \<open>Login\<close>

lemma bj_login_append: "bj_login c (xs @ ys) r = bindO (bj_login c xs r) (bj_login c ys)"
  by (induction c xs r rule: bj_login.induct) (auto simp: bindO_assoc split_def cong: bindO_cong)

text \<open>What the state says of the past.\<close>

definition bj_past :: "md5_ctx \<Rightarrow> bj_data option list \<Rightarrow> bj_verify \<times> bj_act list \<Rightarrow> bool" where
  "bj_past c evs = (\<lambda>(st, acts).
     case st of
       VERIFY_SEQ \<Rightarrow> True
     | VERIFY_RESULT \<Rightarrow> (\<exists>pre mem seq acts0. evs = pre @ [Some (CC_BJDC_VERIFY_SEQ mem)] \<and> cstring mem = Ret seq \<and>
         acts = acts0 @ [Checkmd5_req (bj_md5 c seq)])
     | VERIFY_PASS \<Rightarrow> (\<exists>pre mem seq acts0 post.
         evs = pre @ [Some (CC_BJDC_VERIFY_SEQ mem), Some (CC_BJDC_VERIFY_RESULT True)] @ post \<and>
         cstring mem = Ret seq \<and> acts = acts0 @ [Checkmd5_req (bj_md5 c seq)]))"

lemma bj_past_step:
  assumes p: "bj_past c evs (st, acts)" and s: "bj_verify_step c ev st = Ret (st', a)"
  shows "bj_past c (evs @ [ev]) (st', acts @ a)"
proof (cases st)
  case VERIFY_SEQ
  then show ?thesis
    using s by (auto simp: bj_past_def bj_verify_step_def split: option.splits bj_data.splits)
next
  case VERIFY_RESULT
  then show ?thesis
    using s p by (auto simp: bj_past_def bj_verify_step_def split: option.splits bj_data.splits if_splits)
next
  case VERIFY_PASS
  then obtain pre mem seq acts0 post where
    "evs @ [ev] = pre @ [Some (CC_BJDC_VERIFY_SEQ mem), Some (CC_BJDC_VERIFY_RESULT True)] @ (post @ [ev])"
    "cstring mem = Ret seq" "acts = acts0 @ [Checkmd5_req (bj_md5 c seq)]"
    using p by (auto simp: bj_past_def)
  then show ?thesis using s VERIFY_PASS unfolding bj_past_def by (auto simp: bj_verify_step_def)
qed

lemma bj_login_past: "bj_login c evs bj_start = Ret r \<Longrightarrow> bj_past c evs r"
proof (induction evs arbitrary: r rule: rev_induct)
  case Nil
  then show ?case by (auto simp: bj_past_def bj_start_def)
next
  case (snoc ev evs)
  obtain st acts where "bj_login c evs bj_start = Ret (st, acts)" "bj_login c [ev] (st, acts) = Ret r"
    using snoc.prems by (auto simp: bj_login_append)
  with snoc.IH [of "(st, acts)"] show ?case by (auto intro: bj_past_step)
qed

text \<open>A message with a sequence carries 15 bytes, as every document leaves it.\<close>

fun msg_ok :: "bj_data option \<Rightarrow> bool" where
  "msg_ok (Some (CC_BJDC_VERIFY_SEQ mem)) = (length mem = 15)"
| "msg_ok _ = True"

lemma bj_document_ok: "bj_document x st = Ret d \<Longrightarrow> length st = 16 \<Longrightarrow> msg_ok d"
proof -
  assume d: "bj_document x st = Ret d" and st: "length st = 16"
  have map: "msg_ok (map_option f o') \<longleftrightarrow> (\<forall>y. o' = Some y \<longrightarrow> msg_ok (Some (f y)))" for f :: "nat \<times> bytes \<Rightarrow> bj_data" and o'
    by (cases o') auto
  show ?thesis
    using d st by (auto simp: bj_document_def strncpy_def map split: option.splits if_splits)
qed

lemma length_cstring: "cstring m = Ret s \<Longrightarrow> length s \<le> length m"
  by (auto simp: cstring_def length_takeWhile_le split: if_splits)

lemma bj_md5_rfc:
  assumes "length (md_in c) = 64" "cstring mem = Ret seq" "length mem = 15"
  shows "bj_md5 c seq = hex_text (rfc_md5 (seq @ CC_BJDC_MD5_KEY))"
  using md5_of_pieces [OF assms(1), of "[seq, CC_BJDC_MD5_KEY]"] length_cstring [OF assms(2)] assms(3)
  by (simp add: bj_md5_def CC_BJDC_MD5_KEY_def)

text \<open>
  Claim C17.  The login.  The thread leaves the loop only after a sequence of the platform and, as the
  very next message, its consent; and the last thing it sent is the MD5 digest of that sequence and
  the common key, as hexadecimal text.  From the waiting state these two messages always lead out,
  and a missing, refusing or any other message in place of the consent makes it start anew with a request
  for a sequence.
\<close>

theorem bjdc_login:
  assumes c: "length (md_in c) = 64" and evs: "\<forall>e \<in> set evs. msg_ok e" and mem: "length mem = 15"
  shows "(bj_login c evs bj_start = Ret (VERIFY_PASS, acts) \<longrightarrow>
      (\<exists>pre mem seq acts0 post. evs = pre @ [Some (CC_BJDC_VERIFY_SEQ mem), Some (CC_BJDC_VERIFY_RESULT True)] @ post \<and>
         cstring mem = Ret seq \<and> acts = acts0 @ [Checkmd5_req (hex_text (rfc_md5 (seq @ CC_BJDC_MD5_KEY)))])) \<and>
    (bj_login c evs bj_start = Ret (VERIFY_SEQ, acts) \<and> cstring mem = Ret seq \<longrightarrow>
      bj_login c (evs @ [Some (CC_BJDC_VERIFY_SEQ mem), ev]) bj_start =
        (if ev = Some (CC_BJDC_VERIFY_RESULT True)
         then Ret (VERIFY_PASS, acts @ [Checkmd5_req (hex_text (rfc_md5 (seq @ CC_BJDC_MD5_KEY)))])
         else Ret (VERIFY_SEQ, acts @ [Checkmd5_req (hex_text (rfc_md5 (seq @ CC_BJDC_MD5_KEY)))] @
           (if ev = Some (CC_BJDC_VERIFY_RESULT False) then [Net_disconnect, Verify_req] else [Verify_req]))))"
proof (intro conjI impI)
  assume "bj_login c evs bj_start = Ret (VERIFY_PASS, acts)"
  then obtain pre mem seq acts0 post where
    p: "evs = pre @ [Some (CC_BJDC_VERIFY_SEQ mem), Some (CC_BJDC_VERIFY_RESULT True)] @ post"
      "cstring mem = Ret seq" "acts = acts0 @ [Checkmd5_req (bj_md5 c seq)]"
    using bj_login_past [of c evs "(VERIFY_PASS, acts)"] by (auto simp: bj_past_def)
  moreover have "length mem = 15" using evs by (simp add: p(1))
  ultimately show "\<exists>pre mem seq acts0 post. evs = pre @ [Some (CC_BJDC_VERIFY_SEQ mem), Some (CC_BJDC_VERIFY_RESULT True)] @ post \<and>
      cstring mem = Ret seq \<and> acts = acts0 @ [Checkmd5_req (hex_text (rfc_md5 (seq @ CC_BJDC_MD5_KEY)))]"
    using bj_md5_rfc [OF c] by metis
next
  assume "bj_login c evs bj_start = Ret (VERIFY_SEQ, acts) \<and> cstring mem = Ret seq"
  then show "bj_login c (evs @ [Some (CC_BJDC_VERIFY_SEQ mem), ev]) bj_start =
        (if ev = Some (CC_BJDC_VERIFY_RESULT True)
         then Ret (VERIFY_PASS, acts @ [Checkmd5_req (hex_text (rfc_md5 (seq @ CC_BJDC_MD5_KEY)))])
         else Ret (VERIFY_SEQ, acts @ [Checkmd5_req (hex_text (rfc_md5 (seq @ CC_BJDC_MD5_KEY)))] @
           (if ev = Some (CC_BJDC_VERIFY_RESULT False) then [Net_disconnect, Verify_req] else [Verify_req])))"
    using bj_md5_rfc [OF c _ mem, of seq]
    by (auto simp: bj_login_append bj_verify_step_def split: option.splits bj_data.splits)
qed

lemma bjdc_login_witness:
  "let c = \<lparr>md_i = [], md_buf = [], md_in = replicate 64 1, md_digest = []\<rparr>; mem = asc ''12345678'' @ replicate 7 0 in
   bj_login c [None, Some (CC_BJDC_VERIFY_SEQ mem), Some (CC_BJDC_VERIFY_RESULT True)] bj_start =
     Ret (VERIFY_PASS, [Verify_req, Net_disconnect, Verify_req,
       Checkmd5_req (hex_text (rfc_md5 (asc ''12345678'' @ CC_BJDC_MD5_KEY)))])"
proof -
  let ?c = "\<lparr>md_i = [], md_buf = [], md_in = replicate 64 1, md_digest = []\<rparr>"
  have "cstring (asc ''12345678'' @ replicate 7 0) = Ret (asc ''12345678'')" by (simp add: cstring_def asc_def)
  then show ?thesis
    using bjdc_login [of ?c "[None]" "asc ''12345678'' @ replicate 7 0" "[Verify_req, Net_disconnect, Verify_req]"
        "asc ''12345678''" "Some (CC_BJDC_VERIFY_RESULT True)"]
    by (simp add: bj_start_def bj_verify_step_def Let_def)
qed

end
