(* ===== verification/Ieee.thy ===== *)
theory Ieee
  imports Cfloat
begin

text \<open>
  IEEE 754 numbers with their bit patterns, for the values of variables: a format has \<open>p\<close> bits of
  precision and \<open>w\<close> exponent bits (\<open>float\<close> 24 and 8, \<open>double\<close> 53 and 11).  Subnormal numbers, infinities and NaN
  are there, and both zeros: \<open>Num 0\<close> is the positive one, \<open>NZero\<close> the negative one; the sign and the contents of a NaN
  are not kept.  Arithmetic rounds the exact result to nearest, ties to even.
\<close>

datatype fp = Num rat | NZero | Inf bool | NaN

text \<open>The zero of a sign, the sign, and the number of a finite value\<close>

definition fp_zero :: "bool \<Rightarrow> fp" where "fp_zero s = (if s then NZero else Num 0)"

fun fp_sign :: "fp \<Rightarrow> bool" where
  "fp_sign (Num x) = (x < 0)" | "fp_sign NZero = True" | "fp_sign (Inf s) = s" | "fp_sign NaN = False"

fun fp_rat :: "fp \<Rightarrow> rat option" where
  "fp_rat (Num x) = Some x" | "fp_rat NZero = Some 0" | "fp_rat _ = None"

definition fp_emin :: "nat \<Rightarrow> nat \<Rightarrow> int" where
  "fp_emin p w = 2 - 2 ^ (w - 1) - (int p - 1)"

section \<open>Bit patterns\<close>

definition fp_decode :: "nat \<Rightarrow> nat \<Rightarrow> nat \<Rightarrow> fp" where
  "fp_decode p w n =
     (let m = n mod 2 ^ (p - 1); e = n div 2 ^ (p - 1) mod 2 ^ w; s = odd (n div 2 ^ (p - 1 + w)) in
      if e = 2 ^ w - 1 then (if m = 0 then Inf s else NaN)
      else let x = (if e = 0 then of_nat m * 2 powi fp_emin p w
                    else of_nat (2 ^ (p - 1) + m) * 2 powi (fp_emin p w + int e - 1))
           in if s then (if x = 0 then NZero else Num (- x)) else Num x)"

text \<open>The exponent of the last bit of the significand\<close>

definition fp_unit :: "nat \<Rightarrow> nat \<Rightarrow> rat \<Rightarrow> int" where
  "fp_unit p w x = max (rat_exp x - (int p - 1)) (fp_emin p w)"

fun fp_encode :: "nat \<Rightarrow> nat \<Rightarrow> fp \<Rightarrow> nat" where
  "fp_encode p w (Num x) =
     (if x = 0 then 0
      else (if x < 0 then 2 ^ (p - 1 + w) else 0) + nat (fp_unit p w x - fp_emin p w) * 2 ^ (p - 1) +
           nat \<lfloor>\<bar>x\<bar> / 2 powi fp_unit p w x\<rfloor>)"
| "fp_encode p w NZero = 2 ^ (p - 1 + w)"
| "fp_encode p w (Inf s) = (if s then 2 ^ (p - 1 + w) else 0) + (2 ^ w - 1) * 2 ^ (p - 1)"
| "fp_encode p w NaN = (2 ^ w - 1) * 2 ^ (p - 1) + 2 ^ (p - 2)"

definition fp_round :: "nat \<Rightarrow> nat \<Rightarrow> rat \<Rightarrow> fp" where
  "fp_round p w x =
     (if x = 0 then Num 0
      else let e = fp_unit p w x; r = of_int (rne (x / 2 powi e)) * 2 powi e
           in if 2 ^ 2 ^ (w - 1) \<le> \<bar>r\<bar> then Inf (x < 0) else if r = 0 then fp_zero (x < 0) else Num r)"

definition float_of_bits :: "u32 \<Rightarrow> fp" where "float_of_bits n = fp_decode 24 8 (unat n)"
definition double_of_bits :: "64 word \<Rightarrow> fp" where "double_of_bits n = fp_decode 53 11 (unat n)"
definition bits_of_float :: "fp \<Rightarrow> u32" where "bits_of_float x = of_nat (fp_encode 24 8 x)"
definition bits_of_double :: "fp \<Rightarrow> 64 word" where "bits_of_double x = of_nat (fp_encode 53 11 x)"

section \<open>Conversions and arithmetic\<close>

fun float_of_fp :: "fp \<Rightarrow> fp" where
  "float_of_fp (Num x) = fp_round 24 8 x"
| "float_of_fp y = y"

text \<open>The cast to an integer type drops the fraction; out of its range it is undefined.\<close>

definition fp_to_int :: "int \<Rightarrow> int \<Rightarrow> fp \<Rightarrow> int outcome" where
  "fp_to_int lo hi y =
     (case fp_rat y of
        None \<Rightarrow> Fault
      | Some x \<Rightarrow> let t = (if x < 0 then - \<lfloor>- x\<rfloor> else \<lfloor>x\<rfloor>) in if lo \<le> t \<and> t \<le> hi then Ret t else Fault)"

fun fp_neg :: "fp \<Rightarrow> fp" where
  "fp_neg (Num x) = (if x = 0 then NZero else Num (- x))"
| "fp_neg NZero = Num 0"
| "fp_neg (Inf s) = Inf (\<not> s)"
| "fp_neg NaN = NaN"

text \<open>A sum that is exactly zero is the positive zero, that of two negative zeros the negative one.\<close>

fun fp_add :: "nat \<Rightarrow> nat \<Rightarrow> fp \<Rightarrow> fp \<Rightarrow> fp" where
  "fp_add p w (Num x) (Num y) = fp_round p w (x + y)"
| "fp_add p w NZero NZero = NZero"
| "fp_add p w NZero (Num y) = fp_round p w y"
| "fp_add p w (Num x) NZero = fp_round p w x"
| "fp_add p w (Inf s) (Inf t) = (if s = t then Inf s else NaN)"
| "fp_add p w NaN _ = NaN"
| "fp_add p w _ NaN = NaN"
| "fp_add p w (Inf s) _ = Inf s"
| "fp_add p w _ (Inf t) = Inf t"

definition fp_sub :: "nat \<Rightarrow> nat \<Rightarrow> fp \<Rightarrow> fp \<Rightarrow> fp" where
  "fp_sub p w x y = fp_add p w x (fp_neg y)"

text \<open>The sign of a product or a quotient is that of one operand against the other.\<close>

definition fp_mul :: "nat \<Rightarrow> nat \<Rightarrow> fp \<Rightarrow> fp \<Rightarrow> fp" where
  "fp_mul p w x y =
     (let s = (fp_sign x \<noteq> fp_sign y) in
      if x = NaN \<or> y = NaN then NaN
      else case (fp_rat x, fp_rat y) of
        (Some a, Some b) \<Rightarrow> if a = 0 \<or> b = 0 then fp_zero s else fp_round p w (a * b)
      | (Some a, None) \<Rightarrow> if a = 0 then NaN else Inf s
      | (None, Some b) \<Rightarrow> if b = 0 then NaN else Inf s
      | (None, None) \<Rightarrow> Inf s)"

definition fp_div :: "nat \<Rightarrow> nat \<Rightarrow> fp \<Rightarrow> fp \<Rightarrow> fp" where
  "fp_div p w x y =
     (let s = (fp_sign x \<noteq> fp_sign y) in
      if x = NaN \<or> y = NaN then NaN
      else case (fp_rat x, fp_rat y) of
        (Some a, Some b) \<Rightarrow>
          if b = 0 then (if a = 0 then NaN else Inf s) else if a = 0 then fp_zero s else fp_round p w (a / b)
      | (Some a, None) \<Rightarrow> fp_zero s
      | (None, Some b) \<Rightarrow> Inf s
      | (None, None) \<Rightarrow> NaN)"

text \<open>Comparisons take both zeros for equal, and are false for a NaN.\<close>

definition fp_less :: "fp \<Rightarrow> fp \<Rightarrow> bool" where
  "fp_less x y \<longleftrightarrow> x \<noteq> NaN \<and> y \<noteq> NaN \<and>
     (case (fp_rat x, fp_rat y) of
        (Some a, Some b) \<Rightarrow> a < b
      | (Some a, None) \<Rightarrow> \<not> fp_sign y
      | (None, Some b) \<Rightarrow> fp_sign x
      | (None, None) \<Rightarrow> fp_sign x \<and> \<not> fp_sign y)"

definition fp_eq :: "fp \<Rightarrow> fp \<Rightarrow> bool" where
  "fp_eq x y \<longleftrightarrow> x \<noteq> NaN \<and> (x = y \<or> fp_rat x = Some 0 \<and> fp_rat y = Some 0)"

definition fp_ne :: "fp \<Rightarrow> fp \<Rightarrow> bool" where
  "fp_ne x y \<longleftrightarrow> \<not> fp_eq x y"

lemma fp_num_simps [simp]:
  "fp_less (Num a) (Num b) \<longleftrightarrow> a < b" "fp_eq (Num a) (Num b) \<longleftrightarrow> a = b" "fp_ne (Num a) (Num b) \<longleftrightarrow> a \<noteq> b"
  "fp_mul p w (Num a) (Num b) = (if a = 0 \<or> b = 0 then fp_zero ((a < 0) \<noteq> (b < 0)) else fp_round p w (a * b))"
  "fp_zero False = Num 0" "fp_zero True = NZero"
  "fp_to_int lo hi (Num r) = (let t = (if r < 0 then - \<lfloor>- r\<rfloor> else \<lfloor>r\<rfloor>) in if lo \<le> t \<and> t \<le> hi then Ret t else Fault)"
  by (auto simp: fp_less_def fp_eq_def fp_ne_def fp_mul_def fp_zero_def fp_to_int_def)

text \<open>Division by the negative zero is not division by the positive one.\<close>

lemma fp_div_zeros: "0 < a \<Longrightarrow> fp_div p w (Num a) NZero = Inf True \<and> fp_div p w (Num a) (Num 0) = Inf False"
  by (simp add: fp_div_def)

section \<open>Numbers of a format\<close>

definition is_fp :: "nat \<Rightarrow> nat \<Rightarrow> rat \<Rightarrow> bool" where
  "is_fp p w x \<longleftrightarrow> (\<exists>m k. \<bar>x\<bar> = of_int m * 2 powi k \<and> \<bar>m\<bar> < 2 ^ p \<and> fp_emin p w \<le> k) \<and> \<bar>x\<bar> < 2 ^ 2 ^ (w - 1)"

lemma powi_diff_int: "j \<le> k \<Longrightarrow> (2 :: rat) powi k / 2 powi j = of_int (2 ^ nat (k - j))"
proof -
  assume "j \<le> k"
  then have "(2 :: rat) powi (k - j) = of_int (2 ^ nat (k - j))" by (simp add: power_int_def)
  then show ?thesis by (simp add: power_int_diff)
qed

lemma pow2_le_rat: "(2 :: rat) ^ n \<le> of_nat M \<longleftrightarrow> 2 ^ n \<le> M"
proof -
  have "(2 :: rat) ^ n = of_nat (2 ^ n)" by simp
  then show ?thesis by (simp only: of_nat_le_iff)
qed

text \<open>The significand of a number of the format is an integer of at most \<open>p\<close> bits.\<close>

lemma fp_significand:
  assumes x: "is_fp p w x" "x \<noteq> 0"
  obtains M where "\<bar>x\<bar> = of_nat M * 2 powi fp_unit p w x" "M < 2 ^ p" "fp_emin p w < fp_unit p w x \<Longrightarrow> 2 ^ (p - 1) \<le> M" "0 < M"
proof -
  obtain m k where mk: "\<bar>x\<bar> = of_int m * 2 powi k" "\<bar>m\<bar> < 2 ^ p" "fp_emin p w \<le> k"
    using x by (auto simp: is_fp_def)
  let ?u = "fp_unit p w x"
  have "0 < \<bar>x\<bar>" using x(2) by simp
  then have "0 < (of_int m :: rat) * 2 powi k" by (simp only: mk(1))
  moreover have "(0 :: rat) < 2 powi k" by simp
  ultimately have "(0 :: rat) < of_int m" by (rule zero_less_mult_pos2)
  then have m0: "0 < m" by simp
  have "(2 :: rat) powi rat_exp x \<le> \<bar>x\<bar>" by (rule rat_exp_bounds(1) [OF x(2)])
  also have "\<dots> < 2 ^ p * 2 powi k"
  proof -
    have "m < 2 ^ p" using mk(2) m0 by simp
    then have "(of_int m :: rat) < 2 ^ p" by (metis of_int_less_iff of_int_numeral of_int_power)
    then show ?thesis by (simp add: mk(1))
  qed
  also have "\<dots> = 2 powi (int p + k)" by (simp add: power_int_add)
  finally have "rat_exp x < int p + k"
    by (metis linorder_not_le power_int_increasing one_le_numeral)
  then have u: "?u \<le> k" using mk(3) by (simp add: fp_unit_def)
  define M where "M = nat (m * 2 ^ nat (k - ?u))"
  have M: "of_nat M = \<bar>x\<bar> / 2 powi ?u"
    using m0 by (simp add: M_def mk(1) powi_diff_int [OF u] flip: times_divide_eq_right)
  have le: "rat_exp x - (int p - 1) \<le> ?u" by (simp add: fp_unit_def)
  have "\<bar>x\<bar> < 2 powi (rat_exp x + 1)" by (rule rat_exp_bounds(2) [OF x(2)])
  also have "\<dots> \<le> 2 powi (int p + ?u)" using le by (intro power_int_increasing) simp_all
  finally have "of_nat M < (2 :: rat) ^ p" by (simp add: M divide_less_eq power_int_add)
  then have Mp: "M < 2 ^ p" by (metis of_nat_less_iff of_nat_numeral of_nat_power)
  have "(of_nat M :: rat) \<noteq> 0" unfolding M using x(2) by simp
  then have M0: "0 < M" by simp
  have "2 ^ (p - 1) \<le> M" if "fp_emin p w < ?u"
  proof -
    have "rat_exp x = ?u + (int p - 1)" using that by (simp add: fp_unit_def max_def split: if_splits)
    then have "2 powi (int p - 1) * 2 powi ?u \<le> \<bar>x\<bar>"
      using rat_exp_bounds(1) [OF x(2)] by (simp add: power_int_add [symmetric] add.commute)
    then have "2 powi (int p - 1) \<le> (of_nat M :: rat)" by (simp add: M le_divide_eq)
    then show ?thesis using M0
      by (cases p) (simp_all add: pow2_le_rat Suc_leI)
  qed
  moreover have "\<bar>x\<bar> = of_nat M * 2 powi ?u" by (simp add: M)
  ultimately show ?thesis using that Mp M0 by blast
qed

text \<open>Encoding and decoding a number of the format\<close>

lemma fp_encode_form:
  assumes x: "is_fp p w x" "x \<noteq> 0" and p: "2 \<le> p" and w: "2 \<le> w"
  obtains s e m :: nat where "fp_encode p w (Num x) = (s * 2 ^ w + e) * 2 ^ (p - 1) + m"
    "s = (if x < 0 then 1 else 0)" "e < 2 ^ w - 1" "m < 2 ^ (p - 1)"
    "(if e = 0 then of_nat m * 2 powi fp_emin p w
      else of_nat (2 ^ (p - 1) + m) * 2 powi (fp_emin p w + int e - 1)) = \<bar>x\<bar>"
proof -
  let ?u = "fp_unit p w x" and ?P = "2 ^ (p - 1) :: nat" and ?W = "2 ^ w :: nat"
  obtain M where M: "\<bar>x\<bar> = of_nat M * 2 powi ?u" "M < 2 ^ p" "fp_emin p w < ?u \<Longrightarrow> ?P \<le> M" "0 < M"
    using fp_significand [OF x] by blast
  have PP: "2 ^ p = 2 * ?P" using p by (cases p) simp_all
  define d q m where "d = nat (?u - fp_emin p w)" and "q = M div ?P" and "m = M mod ?P"
  have q: "q < 2" using M(2) PP by (simp add: q_def less_mult_imp_div_less)
  have Mqm: "M = q * ?P + m" unfolding q_def m_def by (rule div_mult_mod_eq [symmetric])
  have mP: "m < ?P" by (simp add: m_def)
  have ud: "?u = fp_emin p w + int d" by (simp add: d_def fp_unit_def)
  have d0: "d = 0" if "q = 0"
    using that M(3) Mqm mP ud by (cases d) auto
  have e: "d + q < ?W - 1"
  proof (cases "d = 0")
    case True
    have "(2 :: nat) ^ 2 \<le> ?W" using w by (intro power_increasing) simp_all
    then show ?thesis using True q by simp
  next
    case False
    then have q1: "q = 1" "?P \<le> M" using d0 q M(3) ud by (auto simp: less_2_cases_iff)
    have "(2 :: rat) powi (int (p - 1) + ?u) = 2 ^ (p - 1) * 2 powi ?u" by (simp add: power_int_add)
    also have "\<dots> \<le> \<bar>x\<bar>" unfolding M(1) using q1(2) by (intro mult_right_mono) (simp_all only: pow2_le_rat, simp)
    also have "\<dots> < 2 powi (int (2 ^ (w - 1)))" using x unfolding is_fp_def power_int_of_nat by blast
    finally have "int (p - 1) + ?u < 2 ^ (w - 1)"
      by (metis linorder_not_le of_nat_numeral of_nat_power one_le_numeral power_int_increasing)
    moreover have "(2 :: int) ^ w = 2 * 2 ^ (w - 1)" using w by (cases w) simp_all
    moreover have "int (p - 1) = int p - 1" using p by simp
    ultimately have "int d + 2 < 2 ^ w" using ud by (simp add: fp_emin_def)
    then have "d + 2 < ?W" by (metis of_nat_add of_nat_less_iff of_nat_numeral of_nat_power)
    then show ?thesis using q1 by simp
  qed
  have "(if d + q = 0 then of_nat m * 2 powi fp_emin p w
      else of_nat (?P + m) * 2 powi (fp_emin p w + int (d + q) - 1)) = \<bar>x\<bar>"
  proof (cases "q = 0")
    case True
    then show ?thesis using d0 Mqm ud by (simp add: M(1))
  next
    case False
    then have "q = 1" using q by simp
    then show ?thesis using Mqm ud by (simp add: M(1) add.commute)
  qed
  moreover have "fp_encode p w (Num x) = ((if x < 0 then 1 else 0) * ?W + (d + q)) * ?P + m"
  proof -
    have "nat \<lfloor>\<bar>x\<bar> / 2 powi ?u\<rfloor> = q * ?P + m" by (simp only: M(1) flip: Mqm) simp
    then show ?thesis using x(2) by (simp add: d_def power_add algebra_simps)
  qed
  ultimately show ?thesis using that e mP by blast
qed

lemma fp_decode_encode:
  assumes x: "is_fp p w x" and p: "2 \<le> p" and w: "2 \<le> w"
  shows "fp_decode p w (fp_encode p w (Num x)) = Num x"
proof (cases "x = 0")
  case True
  have "(2 :: nat) ^ 2 \<le> 2 ^ w" using w by (intro power_increasing) simp_all
  with True show ?thesis by (simp add: fp_decode_def Let_def)
next
  case False
  let ?P = "2 ^ (p - 1) :: nat" and ?W = "2 ^ w :: nat"
  define n where "n = fp_encode p w (Num x)"
  obtain s e m where f: "n = (s * ?W + e) * ?P + m" "s = (if x < 0 then 1 else 0)" "e < ?W - 1" "m < ?P"
    and val: "(if e = 0 then of_nat m * 2 powi fp_emin p w
      else of_nat (?P + m) * 2 powi (fp_emin p w + int e - 1)) = \<bar>x\<bar>"
    using fp_encode_form [OF x False p w] unfolding n_def by metis
  have n1: "n mod ?P = m" "n div ?P = s * ?W + e" using f(4) by (simp_all add: f(1))
  have "n div 2 ^ (p - 1 + w) = (n div ?P) div ?W" by (simp add: power_add div_mult2_eq)
  also have "\<dots> = s" unfolding n1(2) using f(3) by simp
  finally have n2: "n div 2 ^ (p - 1 + w) = s" .
  have n3: "n div ?P mod ?W = e" unfolding n1(2) using f(3) by simp
  have e': "e \<noteq> 2 ^ w - 1" using f(3) by simp
  show ?thesis
    unfolding n_def [symmetric] fp_decode_def Let_def n1(1) n2 n3 val using e' False by (simp add: f(2))
qed

lemma fp_decode_nzero:
  assumes p: "2 \<le> p" and w: "2 \<le> w"
  shows "fp_decode p w (fp_encode p w NZero) = NZero"
proof -
  have "(2 :: nat) ^ 2 \<le> 2 ^ w" using w by (intro power_increasing) simp_all
  moreover have "(2 :: nat) ^ (p - 1 + w) = 2 ^ w * 2 ^ (p - 1)" by (simp add: power_add)
  ultimately show ?thesis by (simp add: fp_decode_def Let_def)
qed

lemma fp_encode_bound:
  assumes x: "is_fp p w x" and p: "2 \<le> p" and w: "2 \<le> w"
  shows "fp_encode p w (Num x) < 2 ^ (p + w)"
proof (cases "x = 0")
  case False
  let ?P = "2 ^ (p - 1) :: nat" and ?W = "2 ^ w :: nat"
  obtain s e m where f: "fp_encode p w (Num x) = (s * ?W + e) * ?P + m" "s = (if x < 0 then 1 else 0)" "e < ?W - 1" "m < ?P"
    using fp_encode_form [OF x False p w] by metis
  have "s * ?W + e + 1 \<le> 2 * ?W" using f(2,3) by auto
  then have "(s * ?W + e + 1) * ?P \<le> 2 * ?W * ?P" by (rule mult_right_mono) simp
  moreover have "(2 :: nat) ^ (p + w) = 2 * ?W * ?P" using p by (cases p) (simp_all add: power_add)
  ultimately show ?thesis unfolding f(1) using f(4) by (simp add: algebra_simps)
qed simp

lemma float_of_bits_of_float: "is_fp 24 8 x \<Longrightarrow> float_of_bits (bits_of_float (Num x)) = Num x"
  using fp_encode_bound [of 24 8 x] fp_decode_encode [of 24 8 x]
  by (simp add: float_of_bits_def bits_of_float_def unat_of_nat_small' del: fp_encode.simps)

lemma float_of_bits_of_nzero: "float_of_bits (bits_of_float NZero) = NZero"
  using fp_decode_nzero [of 24 8] by (simp add: float_of_bits_def bits_of_float_def)

lemma double_of_bits_of_nzero: "double_of_bits (bits_of_double NZero) = NZero"
  using fp_decode_nzero [of 53 11] by (simp add: double_of_bits_def bits_of_double_def)

lemma double_of_bits_of_double: "is_fp 53 11 x \<Longrightarrow> double_of_bits (bits_of_double (Num x)) = Num x"
  using fp_encode_bound [of 53 11 x] fp_decode_encode [of 53 11 x]
  by (simp add: double_of_bits_def bits_of_double_def unat_of_nat_small' del: fp_encode.simps)

section \<open>Which numbers are in a format\<close>

lemma rne_bound: "\<bar>y\<bar> < 2 ^ p \<Longrightarrow> \<bar>rne y\<bar> \<le> 2 ^ p"
proof -
  assume "\<bar>y\<bar> < 2 ^ p"
  then have "\<bar>of_int (rne y) :: rat\<bar> < 2 ^ p + 1" using rne_error [of y] abs_triangle_ineq2 [of "of_int (rne y)" y] by linarith
  then have "(of_int \<bar>rne y\<bar> :: rat) < of_int (2 ^ p + 1)" by simp
  then show ?thesis by (simp only: of_int_less_iff zle_add1_eq_le)
qed

lemma scaled_significand:
  assumes k: "\<bar>k\<bar> \<le> 2 ^ p" and e: "fp_emin p w \<le> e" and p: "1 \<le> p"
  shows "\<exists>m j. \<bar>of_int k * 2 powi e\<bar> = (of_int m * 2 powi j :: rat) \<and> \<bar>m\<bar> < 2 ^ p \<and> fp_emin p w \<le> j"
proof (cases "\<bar>k\<bar> = 2 ^ p")
  case True
  have "\<bar>of_int k * 2 powi e\<bar> = (of_int \<bar>k\<bar> * 2 powi e :: rat)" by (simp add: abs_mult)
  also have "\<dots> = of_int (2 ^ (p - 1)) * 2 powi (e + 1)"
    unfolding True using p by (cases p) (simp_all add: power_int_add)
  finally show ?thesis using e p by (intro exI [of _ "2 ^ (p - 1)"] exI [of _ "e + 1"]) (simp add: power_strict_increasing)
next
  case False
  then show ?thesis using e k by (intro exI [of _ "\<bar>k\<bar>"] exI [of _ e]) (simp add: abs_mult)
qed

text \<open>A rounded value that is not tiny and not huge is a number of the format.\<close>

lemma is_fp_rnd:
  assumes x: "2 powi lo \<le> \<bar>x\<bar>" "\<bar>x\<bar> < 2 ^ hi" and p: "1 \<le> p"
    and lo: "fp_emin p w \<le> lo - int p + 1" and hi: "hi + 1 \<le> 2 ^ (w - 1)"
  shows "is_fp p w (rnd p x)"
proof -
  have "(0 :: rat) < 2 powi lo" by simp
  with x(1) have "0 < \<bar>x\<bar>" by linarith
  then have x0: "x \<noteq> 0" by simp
  define e k where "e = rat_exp x - int p + 1" and "k = rne (x / 2 powi e)"
  have r: "rnd p x = of_int k * 2 powi e" using x0 by (simp add: rnd_def e_def k_def Let_def)
  have "(2 :: rat) powi lo < 2 powi (rat_exp x + 1)" using rat_exp_bounds(2) [OF x0] x(1) by linarith
  then have "lo \<le> rat_exp x"
    by (metis linorder_not_less one_le_numeral power_int_increasing zless_iff_Suc_zadd add_le_imp_le_right zle_add1_eq_le
        add.commute int_one_le_iff_zero_less)
  then have e: "fp_emin p w \<le> e" using lo by (simp add: e_def)
  have "\<bar>x / 2 powi e\<bar> < 2 ^ p"
    using rat_exp_bounds(2) [OF x0] by (simp add: e_def abs_divide divide_less_eq power_int_add [symmetric] flip: power_int_of_nat)
  then have kp: "\<bar>k\<bar> \<le> 2 ^ p" unfolding k_def by (rule rne_bound)
  have "\<exists>m j. \<bar>rnd p x\<bar> = of_int m * 2 powi j \<and> \<bar>m\<bar> < 2 ^ p \<and> fp_emin p w \<le> j"
    unfolding r by (rule scaled_significand [OF kp e p])
  moreover have "\<bar>rnd p x\<bar> < 2 ^ 2 ^ (w - 1)"
  proof -
    have "\<bar>x\<bar> / 2 ^ p \<le> \<bar>x\<bar>" by (simp add: divide_le_eq mult_le_cancel_left1)
    then have "\<bar>rnd p x\<bar> \<le> 2 * \<bar>x\<bar>" using rnd_error [of p x] by linarith
    also have "\<dots> < 2 ^ (hi + 1)" using x(2) by simp
    also have "\<dots> \<le> 2 ^ 2 ^ (w - 1)" using hi by (intro power_increasing) simp_all
    finally show ?thesis .
  qed
  ultimately show ?thesis by (simp add: is_fp_def)
qed

section \<open>Decoded numbers\<close>

text \<open>Every number a bit pattern stands for is one of the format, and rounding leaves it.\<close>

lemma fp_round_id:
  assumes x: "is_fp p w x"
  shows "fp_round p w x = Num x"
proof (cases "x = 0")
  case False
  obtain M where M: "\<bar>x\<bar> = of_nat M * 2 powi fp_unit p w x" using fp_significand [OF x False] by blast
  have "x / 2 powi fp_unit p w x = of_int (if x < 0 then - int M else int M)"
    using M by (cases "x < 0") (auto simp: abs_if field_simps)
  then have "of_int (rne (x / 2 powi fp_unit p w x)) * 2 powi fp_unit p w x = x"
    by (metis rne_of_int nonzero_divide_eq_eq power_int_not_zero zero_neq_numeral)
  then show ?thesis using x False by (simp add: fp_round_def Let_def is_fp_def)
qed (simp add: fp_round_def)

lemma is_fp_minus [simp]: "is_fp p w (- x) = is_fp p w x"
  by (simp add: is_fp_def)

lemma is_fp_decode:
  assumes d: "fp_decode p w n = Num x" and p: "2 \<le> p" and w: "2 \<le> w"
  shows "is_fp p w x"
proof -
  define m e where "m = n mod 2 ^ (p - 1)" and "e = n div 2 ^ (p - 1) mod 2 ^ w"
  define y where "y = (if e = 0 then of_nat m * 2 powi fp_emin p w
      else of_nat (2 ^ (p - 1) + m) * 2 powi (fp_emin p w + int e - 1) :: rat)"
  have e: "e < 2 ^ w" "e \<noteq> 2 ^ w - 1" and xy: "x = y \<or> x = - y"
    using d by (auto simp: fp_decode_def Let_def m_def e_def y_def split: if_splits)
  have m: "m < 2 ^ (p - 1)" by (simp add: m_def)
  define M k where "M = (if e = 0 then m else 2 ^ (p - 1) + m)" and "k = fp_emin p w + (if e = 0 then 0 else int e - 1)"
  have y: "y = of_nat M * 2 powi k" by (simp add: y_def M_def k_def algebra_simps)
  have PP: "(2 :: nat) ^ p = 2 * 2 ^ (p - 1)" using p by (cases p) simp_all
  have M: "M < 2 ^ p" using m PP by (simp add: M_def)
  have "e + 2 \<le> 2 ^ w" using e by linarith
  then have "int e + 2 \<le> 2 ^ w" by (metis of_nat_add of_nat_le_iff of_nat_numeral of_nat_power)
  moreover have "(2 :: int) ^ w = 2 * 2 ^ (w - 1)" using w by (cases w) simp_all
  moreover have "(2 :: int) ^ 1 \<le> 2 ^ (w - 1)" using w by (intro power_increasing) simp_all
  ultimately have k: "int p + k \<le> 2 ^ (w - 1)" "fp_emin p w \<le> k" using p by (auto simp: k_def fp_emin_def)
  have "(of_nat M :: rat) < of_nat (2 ^ p)" using M by (simp only: of_nat_less_iff)
  then have "y < 2 ^ p * 2 powi k" by (simp add: y)
  also have "\<dots> = 2 powi (int p + k)" by (simp add: power_int_add)
  also have "\<dots> \<le> 2 powi (int (2 ^ (w - 1)))" using k(1) by (intro power_int_increasing) simp_all
  finally have "y < 2 ^ 2 ^ (w - 1)" by (simp only: power_int_of_nat)
  moreover have "0 \<le> y" by (simp add: y)
  ultimately have "is_fp p w y"
    unfolding is_fp_def using k(2) M
    by (intro conjI exI [of _ "int M"] exI [of _ k]) (simp_all add: y)
  then show ?thesis using xy by auto
qed

text \<open>What rounding gives is in the format, and so is every result of the arithmetic.\<close>

definition fp_in :: "nat \<Rightarrow> nat \<Rightarrow> fp \<Rightarrow> bool" where
  "fp_in p w y \<longleftrightarrow> (\<forall>x. y = Num x \<longrightarrow> is_fp p w x)"

lemma fp_in_simps [simp]:
  "fp_in p w (Num x) = is_fp p w x" "fp_in p w NZero" "fp_in p w (Inf s)" "fp_in p w NaN"
  by (simp_all add: fp_in_def)

lemma is_fp_0 [simp]: "is_fp p w 0"
  unfolding is_fp_def by (intro conjI exI [of _ 0] exI [of _ "fp_emin p w"]) simp_all

lemma fp_in_zero [simp]: "fp_in p w (fp_zero s)"
  by (cases s) simp_all

lemma fp_in_round [simp]:
  assumes p: "1 \<le> p"
  shows "fp_in p w (fp_round p w x)"
proof (cases "x = 0")
  case False
  define e k where "e = fp_unit p w x" and "k = rne (x / 2 powi e)"
  have e: "fp_emin p w \<le> e" "rat_exp x + 1 \<le> int p + e" by (simp_all add: e_def fp_unit_def)
  have "\<bar>x\<bar> < 2 powi (rat_exp x + 1)" by (rule rat_exp_bounds(2) [OF False])
  also have "\<dots> \<le> 2 powi (int p + e)" using e(2) by (rule power_int_increasing) simp
  finally have "\<bar>x / 2 powi e\<bar> < 2 ^ p" by (simp add: abs_divide divide_less_eq power_int_add)
  then have k: "\<bar>k\<bar> \<le> 2 ^ p" unfolding k_def by (rule rne_bound)
  show ?thesis
    using False scaled_significand [OF k e(1) p]
    by (auto simp: fp_round_def Let_def is_fp_def simp flip: e_def k_def)
qed (simp add: fp_round_def)

lemma fp_in_neg [simp]: "fp_in p w (fp_neg x) = fp_in p w x"
  by (cases x) simp_all

lemma fp_in_arith:
  assumes "1 \<le> p"
  shows "fp_in p w (fp_add p w x y)" "fp_in p w (fp_sub p w x y)" "fp_in p w (fp_mul p w x y)" "fp_in p w (fp_div p w x y)"
proof -
  show a: "fp_in p w (fp_add p w x y)" for y using assms by (cases x; cases y) simp_all
  show "fp_in p w (fp_sub p w x y)" by (simp add: fp_sub_def a)
  show "fp_in p w (fp_mul p w x y)" using assms by (auto simp: fp_mul_def Let_def split: option.splits)
  show "fp_in p w (fp_div p w x y)" using assms by (auto simp: fp_div_def Let_def split: option.splits)
qed

text \<open>The bits of a number of the format stand for it.\<close>

lemma float_of_bits_in: "fp_in 24 8 x \<Longrightarrow> float_of_bits (bits_of_float x) = x"
  by (cases x; cases "fp_sign x")
    (simp_all add: float_of_bits_of_float float_of_bits_of_nzero, simp_all add: float_of_bits_def bits_of_float_def fp_decode_def)

lemma double_of_bits_in: "fp_in 53 11 x \<Longrightarrow> double_of_bits (bits_of_double x) = x"
  by (cases x; cases "fp_sign x")
    (simp_all add: double_of_bits_of_double double_of_bits_of_nzero, simp_all add: double_of_bits_def bits_of_double_def fp_decode_def)

lemma fp_in_decode: "2 \<le> p \<Longrightarrow> 2 \<le> w \<Longrightarrow> fp_in p w (fp_decode p w n)"
  by (auto simp: fp_in_def intro: is_fp_decode)

lemma fp_in_float [simp]: "fp_in 24 8 (float_of_bits b)" "fp_in 24 8 (float_of_fp y)"
  by (simp add: float_of_bits_def fp_in_decode) (cases y; simp)

lemma fp_in_double [simp]: "fp_in 53 11 (double_of_bits b)"
  by (simp add: double_of_bits_def fp_in_decode)

lemma is_fp_mono: "is_fp 24 8 x \<Longrightarrow> is_fp 53 11 x"
proof -
  assume x: "is_fp 24 8 x"
  then obtain m k where mk: "\<bar>x\<bar> = of_int m * 2 powi k" "\<bar>m\<bar> < 2 ^ 24" "fp_emin 24 8 \<le> k" and b: "\<bar>x\<bar> < 2 ^ 2 ^ (8 - 1)"
    by (auto simp: is_fp_def)
  have "(2 :: rat) ^ 2 ^ (8 - 1) \<le> 2 ^ 2 ^ (11 - 1)" by (rule power_increasing) simp_all
  then have "\<bar>x\<bar> < 2 ^ 2 ^ (11 - 1)" by (rule less_le_trans [OF b])
  moreover have "\<bar>m\<bar> < 2 ^ 53" "fp_emin 53 11 \<le> k" using mk(2,3) by (simp_all add: fp_emin_def)
  ultimately show ?thesis unfolding is_fp_def using mk(1) by blast
qed

lemma fp_in_mono: "fp_in 24 8 x \<Longrightarrow> fp_in 53 11 x"
  by (cases x) (simp_all add: is_fp_mono)

lemma is_fp_int: "\<bar>i\<bar> < 2 ^ 53 \<Longrightarrow> is_fp 53 11 (of_int i)"
proof -
  assume i: "\<bar>i\<bar> < 2 ^ 53"
  have "\<bar>i\<bar> < 2 ^ 1024" by (rule less_le_trans [OF i]) (simp add: power_increasing)
  then have "\<bar>of_int i\<bar> < (2 :: rat) ^ 1024" by (metis of_int_abs of_int_less_iff of_int_power of_int_numeral)
  moreover have "\<exists>m k. \<bar>of_int i\<bar> = (of_int m * 2 powi k :: rat) \<and> \<bar>m\<bar> < 2 ^ 53 \<and> fp_emin 53 11 \<le> k"
    using i by (intro exI [where x = "\<bar>i\<bar>"] exI [where x = "0 :: int"] conjI) (simp_all add: fp_emin_def)
  ultimately show ?thesis by (simp add: is_fp_def)
qed

lemma float_of_fp_bits: "float_of_fp (float_of_bits b) = float_of_bits b"
  using fp_in_float(1) [of b] by (cases "float_of_bits b") (simp_all add: fp_round_id)

lemma float_bits_of_bits: "float_of_bits (bits_of_float (float_of_bits b)) = float_of_bits b"
  by (simp add: float_of_bits_in)

lemma double_bits_of_bits: "double_of_bits (bits_of_double (double_of_bits b)) = double_of_bits b"
  by (simp add: double_of_bits_in)

end
