(* ===== verification/Ext_Data.thy ===== *)
theory Ext_Data
  imports C_Text Ieee
begin

text \<open>
  The variables of the gateway: the record \<open>ExtData_t\<close> of \<open>drivers/varmanage/varmanage.h\<close> with what the
  modelled operations use of it.  The two unions are their bytes: \<open>VarValue_v\<close> eight, the protocol
  parameters \<open>ExtData_IO_Param_t\<close> 24 (natural alignment, least significant byte first), read by one
  accessor per member.  Reading a member that was not the last one written gives the bytes
  that are there, as it does in the code, which looks at the parameters of a variable
  before it knows its protocol.
\<close>

section \<open>Types of values\<close>

text \<open>\<open>E_VAR_ERROR\<close> is what the name of no type is read as; no other number can be configured.\<close>

datatype var_type = E_VAR_BIT | E_VAR_INT8 | E_VAR_UINT8 | E_VAR_INT16 | E_VAR_UINT16 | E_VAR_INT32
  | E_VAR_UINT32 | E_VAR_FLOAT | E_VAR_DOUBLE | E_VAR_ARRAY | E_VAR_ERROR

fun var_code :: "var_type \<Rightarrow> nat" where
  "var_code E_VAR_BIT = 0" | "var_code E_VAR_INT8 = 1" | "var_code E_VAR_UINT8 = 2" | "var_code E_VAR_INT16 = 3"
| "var_code E_VAR_UINT16 = 4" | "var_code E_VAR_INT32 = 5" | "var_code E_VAR_UINT32 = 6" | "var_code E_VAR_FLOAT = 7"
| "var_code E_VAR_DOUBLE = 8" | "var_code E_VAR_ARRAY = 9" | "var_code E_VAR_ERROR = 10"

text \<open>\<open>VAR_TYPE_SIZE_ARRAY\<close>, the size of a value in bytes\<close>

fun var_type_sz :: "var_type \<Rightarrow> u8" where
  "var_type_sz E_VAR_INT16 = 2" | "var_type_sz E_VAR_UINT16 = 2" | "var_type_sz E_VAR_INT32 = 4"
| "var_type_sz E_VAR_UINT32 = 4" | "var_type_sz E_VAR_FLOAT = 4" | "var_type_sz E_VAR_DOUBLE = 8"
| "var_type_sz E_VAR_ERROR = 0" | "var_type_sz _ = 1"

datatype var_attr = E_VAR_ATTR_NONE | E_VAR_ATTR_AI | E_VAR_ATTR_DI | E_VAR_ATTR_DO

section \<open>Variables\<close>

datatype io_exp = Exp "bytes option" | Rule "bytes option" "bytes option" "bytes option"

record ext_io =
  btInVarType :: var_type
  btInVarSize :: u8
  btInVarRuleType :: u8
  btOutVarType :: var_type
  btOutVarSize :: u8
  btOutVarRuleType :: u8
  xValue :: bytes
  fMax :: u32
  fMin :: u32
  bUseMax :: bool
  bUseMin :: bool
  usDevType :: u16
  usDevNum :: u16
  usProtoType :: u16
  usAddr :: u16
  btErrOp :: u8
  btErrCnt :: u8
  btErrNum :: u8
  bErrFlag :: bool
  io_param :: bytes
  io_exp :: io_exp

text \<open>An average over a period, and what the analog inputs need; a number that only the arithmetic sees is its value.\<close>

record var_avg =
  va_time :: "64 word"
  va_count :: u32
  val_avg :: fp
  val_cur :: fp
  val_min :: fp
  val_max :: fp

datatype range_type = Range_4_20MA | Range_0_20MA | Range_0_5V | Range_1_5V
datatype unit_type = Unit_Eng | Unit_Binary | Unit_Percent | Unit_Meter

record ai_cfg =
  ai_range :: range_type
  ai_unit :: unit_type
  ext_range_min :: fp
  ext_range_max :: fp
  ext_factor :: fp

record adc_value =
  eng_unit :: u32
  adc_measure :: fp
  binary_unit :: u32
  percent_unit :: fp
  meter_unit :: fp

record ext_data =
  bEnable :: bool
  szGroup :: bytes
  szName :: bytes
  eAttr :: var_attr
  xIo :: ext_io
  xAvgReal :: var_avg
  xAvgMin :: var_avg
  xAvgHour :: var_avg
  xCfg :: ai_cfg
  xAttach :: adc_value

text \<open>The members of \<open>ExtData_IO_Param_t\<close> at their offsets\<close>

definition modbus_btOpCode :: "bytes \<Rightarrow> u8" where "modbus_btOpCode p = p ! 0"
definition modbus_nSyncFAddr :: "bytes \<Rightarrow> int" where "modbus_nSyncFAddr p = sint (of_le32 (drop 4 p))"
definition modbus_btSlaveAddr :: "bytes \<Rightarrow> u8" where "modbus_btSlaveAddr p = p ! 8"
definition modbus_usExtAddr :: "bytes \<Rightarrow> u16" where "modbus_usExtAddr p = of_le16 (drop 10 p)"
definition modbus_usAddrOfs :: "bytes \<Rightarrow> u16" where "modbus_usAddrOfs p = of_le16 (drop 12 p)"
definition dlt645_addr :: "bytes \<Rightarrow> bytes" where "dlt645_addr p = take 6 p"
definition dlt645_op :: "bytes \<Rightarrow> u32" where "dlt645_op p = of_le32 (drop 8 p)"
definition mbus603_addr :: "bytes \<Rightarrow> u8" where "mbus603_addr p = p ! 0"
definition mbus603_op :: "bytes \<Rightarrow> u32" where "mbus603_op p = of_le32 (drop 4 p)"
definition dust_op :: "bytes \<Rightarrow> u8" where "dust_op p = p ! 0"
definition smf_op :: "bytes \<Rightarrow> u8" where "smf_op p = p ! 0"
definition dh_sid :: "bytes \<Rightarrow> u32" where "dh_sid p = of_le32 p"
definition dh_type :: "bytes \<Rightarrow> u32" where "dh_type p = of_le32 (drop 4 p)"
definition dh_key :: "bytes \<Rightarrow> bytes" where "dh_key p = take 16 (drop 8 p)"

lemmas param_defs = modbus_btOpCode_def modbus_nSyncFAddr_def modbus_btSlaveAddr_def modbus_usExtAddr_def
  modbus_usAddrOfs_def dlt645_addr_def dlt645_op_def mbus603_addr_def mbus603_op_def dust_op_def smf_op_def
  dh_sid_def dh_type_def dh_key_def

text \<open>The parameters as the configuration writes them\<close>

definition modbus_param :: "u8 \<Rightarrow> int \<Rightarrow> u8 \<Rightarrow> u16 \<Rightarrow> u16 \<Rightarrow> bytes" where
  "modbus_param op fa sa ea ao = [op, 0, 0, 0] @ le32 (of_int fa) @ [sa, 0] @ le16 ea @ le16 ao @ replicate 10 0"

definition dlt645_param :: "bytes \<Rightarrow> u32 \<Rightarrow> bytes" where
  "dlt645_param a op = a @ [0, 0] @ le32 op @ replicate 12 0"

text \<open>The number of registers a value takes, \<open>(btOutVarSize + 1) / 2\<close>\<close>

definition nregs_of :: "u8 \<Rightarrow> nat" where
  "nregs_of sz = (unat sz + 1) div 2"

definition out_nregs :: "ext_data \<Rightarrow> nat" where
  "out_nregs d = nregs_of (btOutVarSize (xIo d))"

definition in_nregs :: "ext_data \<Rightarrow> nat" where
  "in_nregs d = nregs_of (btInVarSize (xIo d))"

abbreviation ext_addr :: "ext_data \<Rightarrow> nat" where
  "ext_addr d \<equiv> unat (usAddr (xIo d))"

section \<open>Protocols\<close>

text \<open>Device and protocol numbers of \<open>protomanage.h\<close>, \<open>uart_cfg.h\<close> and \<open>tcpip_cfg.h\<close>\<close>

definition PROTO_DEV_RS1 :: nat where "PROTO_DEV_RS1 = 0"
definition PROTO_DEV_RS_MAX :: nat where "PROTO_DEV_RS_MAX = 1"
definition PROTO_DEV_NET :: nat where "PROTO_DEV_NET = 2"
definition PROTO_DEV_ZIGBEE :: nat where "PROTO_DEV_ZIGBEE = 3"
definition PROTO_DEV_GPRS :: nat where "PROTO_DEV_GPRS = 4"
definition PROTO_DEV_LORA :: nat where "PROTO_DEV_LORA = 5"
definition PROTO_DEV_RTU_SELF :: nat where "PROTO_DEV_RTU_SELF = 100"
definition PROTO_DEV_RTU_SELF_MID :: nat where "PROTO_DEV_RTU_SELF_MID = 200"

definition PROTO_MODBUS_ASCII :: nat where "PROTO_MODBUS_ASCII = 1"
definition PROTO_DLT645 :: nat where "PROTO_DLT645 = 2"
definition PROTO_DLT645_1997 :: nat where "PROTO_DLT645_1997 = 3"
definition PROTO_DUST :: nat where "PROTO_DUST = 4"
definition PROTO_OBMODBUS_RTU :: nat where "PROTO_OBMODBUS_RTU = 5"
definition PROTO_MBUS603 :: nat where "PROTO_MBUS603 = 6"
definition PROTO_MODBUS_TCP :: nat where "PROTO_MODBUS_TCP = 0"
definition PROTO_MODBUS_RTU_OVER_TCP :: nat where "PROTO_MODBUS_RTU_OVER_TCP = 2"
definition PROTO_SMF :: nat where "PROTO_SMF = 5"
definition PROTO_DH :: nat where "PROTO_DH = 7"

lemmas proto_consts = PROTO_DEV_RS1_def PROTO_DEV_RS_MAX_def PROTO_DEV_NET_def PROTO_DEV_ZIGBEE_def PROTO_DEV_GPRS_def
  PROTO_DEV_LORA_def PROTO_DEV_RTU_SELF_def PROTO_DEV_RTU_SELF_MID_def PROTO_MODBUS_ASCII_def PROTO_DLT645_def
  PROTO_DLT645_1997_def PROTO_DUST_def PROTO_OBMODBUS_RTU_def PROTO_MBUS603_def PROTO_MODBUS_TCP_def
  PROTO_MODBUS_RTU_OVER_TCP_def PROTO_SMF_def PROTO_DH_def

definition PROTO_DEV_IS_RS :: "nat \<Rightarrow> bool" where
  "PROTO_DEV_IS_RS d \<longleftrightarrow> PROTO_DEV_RS1 \<le> d \<and> d \<le> PROTO_DEV_RS_MAX"

definition proto_is_rtu_self :: "nat \<Rightarrow> nat \<Rightarrow> bool" where
  "proto_is_rtu_self dev num \<longleftrightarrow> PROTO_DEV_RTU_SELF = dev \<and> num < 8"

definition proto_is_rtu_self_mid :: "nat \<Rightarrow> bool" where
  "proto_is_rtu_self_mid dev \<longleftrightarrow> PROTO_DEV_RTU_SELF_MID = dev"

definition proto_is_modbus :: "nat \<Rightarrow> nat \<Rightarrow> bool" where
  "proto_is_modbus dev proto =
     (if PROTO_DEV_IS_RS dev then proto \<le> PROTO_MODBUS_ASCII
      else if dev = PROTO_DEV_NET \<or> dev = PROTO_DEV_GPRS then proto \<le> PROTO_MODBUS_TCP \<or> proto = PROTO_MODBUS_RTU_OVER_TCP
      else if dev = PROTO_DEV_ZIGBEE then proto \<le> PROTO_MODBUS_ASCII
      else if dev = PROTO_DEV_LORA then proto \<le> PROTO_MODBUS_ASCII
      else False)"

definition proto_is_obmodbus :: "nat \<Rightarrow> nat \<Rightarrow> bool" where
  "proto_is_obmodbus dev proto = (if PROTO_DEV_IS_RS dev then proto = PROTO_OBMODBUS_RTU else False)"

definition proto_is_dlt645 :: "nat \<Rightarrow> nat \<Rightarrow> bool" where
  "proto_is_dlt645 dev proto \<longleftrightarrow>
     (PROTO_DEV_IS_RS dev \<and> proto = PROTO_DLT645) \<or> (dev \<le> PROTO_DEV_RS_MAX \<and> proto = PROTO_DLT645_1997)"

definition proto_is_mbus603 :: "nat \<Rightarrow> nat \<Rightarrow> bool" where
  "proto_is_mbus603 dev proto \<longleftrightarrow> dev \<le> PROTO_DEV_RS_MAX \<and> proto = PROTO_MBUS603"

definition proto_is_dust :: "nat \<Rightarrow> nat \<Rightarrow> bool" where
  "proto_is_dust dev proto \<longleftrightarrow> dev \<le> PROTO_DEV_RS_MAX \<and> proto = PROTO_DUST"

definition proto_is_smf :: "nat \<Rightarrow> nat \<Rightarrow> bool" where
  "proto_is_smf dev proto \<longleftrightarrow> (dev = PROTO_DEV_NET \<or> dev = PROTO_DEV_GPRS) \<and> proto = PROTO_SMF"

definition proto_is_dh :: "nat \<Rightarrow> nat \<Rightarrow> bool" where
  "proto_is_dh dev proto \<longleftrightarrow> (dev = PROTO_DEV_NET \<or> dev = PROTO_DEV_GPRS) \<and> proto = PROTO_DH"

lemmas proto_defs = proto_is_rtu_self_def proto_is_rtu_self_mid_def proto_is_modbus_def proto_is_obmodbus_def
  proto_is_dlt645_def proto_is_mbus603_def proto_is_dust_def proto_is_smf_def proto_is_dh_def PROTO_DEV_IS_RS_def

section \<open>Lemmas\<close>

lemma of_le16_append [simp]: "of_le16 (le16 w @ r) = w"
  using of_le16_le16 [of w] by (simp add: le16_def)

lemma of_le32_append [simp]: "of_le32 (le32 w @ r) = w"
  using of_le32_le32 [of w] by (simp add: le32_def)

lemma modbus_param_members [simp]:
  "modbus_btOpCode (modbus_param op fa sa ea ao) = op"
  "modbus_btSlaveAddr (modbus_param op fa sa ea ao) = sa"
  "modbus_usExtAddr (modbus_param op fa sa ea ao) = ea"
  "modbus_usAddrOfs (modbus_param op fa sa ea ao) = ao"
  "length (modbus_param op fa sa ea ao) = 24"
  by (simp_all add: modbus_param_def param_defs le16_def le32_def nth_append
      of_le16_append [unfolded le16_def, simplified])

text \<open>Variables for examples: a name, a type, an address\<close>

definition no_avg :: var_avg where
  "no_avg = \<lparr>va_time = 0, va_count = 0, val_avg = Num 0, val_cur = Num 0, val_min = Num 0, val_max = Num 0\<rparr>"

definition no_ai_cfg :: ai_cfg where
  "no_ai_cfg = \<lparr>ai_range = Range_4_20MA, ai_unit = Unit_Eng, ext_range_min = Num 0, ext_range_max = Num 0, ext_factor = Num 0\<rparr>"

definition no_adc :: adc_value where
  "no_adc = \<lparr>eng_unit = 0, adc_measure = Num 0, binary_unit = 0, percent_unit = Num 0, meter_unit = Num 0\<rparr>"

definition sample_var :: "bytes \<Rightarrow> var_type \<Rightarrow> u16 \<Rightarrow> ext_data" where
  "sample_var n t a =
     \<lparr>bEnable = True, szGroup = [], szName = n, eAttr = E_VAR_ATTR_NONE,
      xIo = \<lparr>btInVarType = t, btInVarSize = var_type_sz t, btInVarRuleType = 0, btOutVarType = t,
        btOutVarSize = var_type_sz t, btOutVarRuleType = 0, xValue = replicate 8 0, fMax = 0, fMin = 0,
        bUseMax = False, bUseMin = False, usDevType = 0, usDevNum = 0, usProtoType = 0, usAddr = a,
        btErrOp = 0, btErrCnt = 0, btErrNum = 0, bErrFlag = False, io_param = modbus_param 3 0 1 a 0, io_exp = Exp None\<rparr>,
      xAvgReal = no_avg, xAvgMin = no_avg, xAvgHour = no_avg, xCfg = no_ai_cfg, xAttach = no_adc\<rparr>"

end
