(* ===== verification/Ext_Value.thy ===== *)
theory Ext_Value
  imports Ext_Data
begin

text \<open>
  Values of variables: a \<open>VarValue_v\<close> is eight bytes.  Byte orders of the registers
  (\<open>external/modbus/user_mb_app.c\<close>) with their names, reading a value as a \<open>double\<close>, storing a
  \<open>double\<close> as a value, averages (\<open>drivers/varmanage/varmanage.c\<close>).
\<close>

section \<open>Byte orders\<close>

definition var_htons :: "u16 \<Rightarrow> u16" where
  "var_htons n = push_bit 8 (n AND 0xff) OR drop_bit 8 (n AND 0xff00)"

definition var_htonl :: "u32 \<Rightarrow> u32" where
  "var_htonl n = push_bit 24 (n AND 0xff) OR push_bit 8 (n AND 0xff00) OR drop_bit 8 (n AND 0xff0000) OR
     drop_bit 24 (n AND 0xff000000)"

definition swap_8 :: "nat \<Rightarrow> nat \<Rightarrow> bytes \<Rightarrow> bytes" where
  "swap_8 n m v = v[n := v ! m, m := v ! n]"

definition swap_16 :: "nat \<Rightarrow> nat \<Rightarrow> bytes \<Rightarrow> bytes" where
  "swap_16 n m v = v[2 * n := v ! (2 * m), 2 * n + 1 := v ! (2 * m + 1), 2 * m := v ! (2 * n), 2 * m + 1 := v ! (2 * n + 1)]"

text \<open>How many bytes \<open>vBigEdianExtData\<close> reads and writes for a type, and what it makes of them\<close>

fun edian_size :: "var_type \<Rightarrow> nat" where
  "edian_size E_VAR_INT16 = 2" | "edian_size E_VAR_UINT16 = 2" | "edian_size E_VAR_INT32 = 4"
| "edian_size E_VAR_UINT32 = 4" | "edian_size E_VAR_FLOAT = 4" | "edian_size _ = 8"

definition edian_32 :: "u8 \<Rightarrow> bytes \<Rightarrow> bytes" where
  "edian_32 btRule v =
     (if btRule = 0 then swap_8 1 2 (swap_8 0 3 v)
      else if btRule = 1 then swap_8 2 3 (swap_8 0 1 v)
      else if btRule = 2 then swap_16 0 1 v
      else v)"

definition edian_64 :: "u8 \<Rightarrow> bytes \<Rightarrow> bytes" where
  "edian_64 btRule v =
     (if btRule = 0 then swap_8 3 4 (swap_8 2 5 (swap_8 1 6 (swap_8 0 7 v)))
      else if btRule = 1 then swap_8 6 7 (swap_8 4 5 (swap_8 2 3 (swap_8 0 1 v)))
      else if btRule = 2 then swap_16 1 2 (swap_16 0 3 v)
      else v)"

fun edian :: "var_type \<Rightarrow> u8 \<Rightarrow> bytes \<Rightarrow> bytes" where
  "edian E_VAR_INT16 r v = le16 (var_htons (of_le16 v))"
| "edian E_VAR_UINT16 r v = le16 (var_htons (of_le16 v))"
| "edian E_VAR_INT32 r v = edian_32 r v"
| "edian E_VAR_UINT32 r v = edian_32 r v"
| "edian E_VAR_FLOAT r v = edian_32 r v"
| "edian E_VAR_DOUBLE r v = edian_64 r v"
| "edian _ r v = v"

text \<open>
  The conversion between two objects: the bytes that are read, the object that is written with the
  bytes it held before.  \<open>vLittleEdianExtData\<close> is the same function.
\<close>

definition vBigEdianExtData :: "var_type \<Rightarrow> u8 \<Rightarrow> bytes \<Rightarrow> bytes \<Rightarrow> bytes" where
  "vBigEdianExtData t r inp out = edian t r (take (edian_size t) inp) @ drop (edian_size t) out"

definition vLittleEdianExtData :: "var_type \<Rightarrow> u8 \<Rightarrow> bytes \<Rightarrow> bytes \<Rightarrow> bytes" where
  "vLittleEdianExtData t r inp out = vBigEdianExtData t r inp out"

section \<open>Names of byte orders and types\<close>

fun endian_names :: "var_type \<Rightarrow> string list" where
  "endian_names E_VAR_DOUBLE = [''AB CD EF GH'', ''GH EF CD AB'', ''BA DC FE HG'', ''HG FE DC BA'']"
| "endian_names E_VAR_INT32 = [''AB CD'', ''CD AB'', ''BA DC'', ''DC BA'']"
| "endian_names E_VAR_UINT32 = [''AB CD'', ''CD AB'', ''BA DC'', ''DC BA'']"
| "endian_names E_VAR_FLOAT = [''AB CD'', ''CD AB'', ''BA DC'', ''DC BA'']"
| "endian_names _ = []"

definition varmanage_endian_to_string :: "var_type \<Rightarrow> int \<Rightarrow> string option" where
  "varmanage_endian_to_string t n =
     (if 0 \<le> n \<and> n < int (length (endian_names t)) then Some (endian_names t ! nat n) else None)"

text \<open>\<open>strcasecmp\<close> on letters\<close>

definition lower_char :: "char \<Rightarrow> char" where
  "lower_char c = (if 65 \<le> (of_char c :: nat) \<and> (of_char c :: nat) \<le> 90 then char_of (of_char c + 32 :: nat) else c)"

definition strcaseeq :: "string \<Rightarrow> string \<Rightarrow> bool" where
  "strcaseeq s t \<longleftrightarrow> map lower_char s = map lower_char t"

fun name_index :: "string list \<Rightarrow> string \<Rightarrow> int \<Rightarrow> int" where
  "name_index [] s i = - 1"
| "name_index (t # ts) s i = (if strcaseeq s t then i else name_index ts s (i + 1))"

definition varmanage_endian_from_string :: "var_type \<Rightarrow> string \<Rightarrow> int" where
  "varmanage_endian_from_string t s = name_index (endian_names t) s 0"

fun varmanage_type_to_string :: "var_type \<Rightarrow> string option" where
  "varmanage_type_to_string E_VAR_BIT = Some ''BIT''"
| "varmanage_type_to_string E_VAR_INT8 = Some ''INT8''"
| "varmanage_type_to_string E_VAR_UINT8 = Some ''UINT8''"
| "varmanage_type_to_string E_VAR_INT16 = Some ''INT16''"
| "varmanage_type_to_string E_VAR_UINT16 = Some ''UINT16''"
| "varmanage_type_to_string E_VAR_INT32 = Some ''INT32''"
| "varmanage_type_to_string E_VAR_UINT32 = Some ''UINT32''"
| "varmanage_type_to_string E_VAR_FLOAT = Some ''FLOAT''"
| "varmanage_type_to_string E_VAR_DOUBLE = Some ''DOUBLE''"
| "varmanage_type_to_string _ = None"

definition varmanage_type_from_string :: "string \<Rightarrow> var_type" where
  "varmanage_type_from_string s =
     (if strcaseeq s ''BIT'' then E_VAR_BIT
      else if strcaseeq s ''INT8'' then E_VAR_INT8
      else if strcaseeq s ''UINT8'' then E_VAR_UINT8
      else if strcaseeq s ''INT16'' then E_VAR_INT16
      else if strcaseeq s ''UINT16'' then E_VAR_UINT16
      else if strcaseeq s ''INT32'' then E_VAR_INT32
      else if strcaseeq s ''UINT32'' then E_VAR_UINT32
      else if strcaseeq s ''FLOAT'' then E_VAR_FLOAT
      else if strcaseeq s ''DOUBLE'' then E_VAR_DOUBLE
      else E_VAR_ERROR)"

section \<open>Numbers in values\<close>

text \<open>\<open>__GetExtValue\<close>; \<open>None\<close> for a type that is not numeric\<close>

definition le64 :: "64 word \<Rightarrow> bytes" where
  "le64 w = le32 (ucast w) @ le32 (ucast (drop_bit 32 w))"

definition of_le64 :: "bytes \<Rightarrow> 64 word" where
  "of_le64 v = ucast (of_le32 v) OR push_bit 32 (ucast (of_le32 (drop 4 v)))"

fun get_ext_value :: "var_type \<Rightarrow> bytes \<Rightarrow> fp option" where
  "get_ext_value E_VAR_BIT v = Some (Num (of_int (uint (v ! 0))))"
| "get_ext_value E_VAR_INT8 v = Some (Num (of_int (sint (v ! 0))))"
| "get_ext_value E_VAR_UINT8 v = Some (Num (of_int (uint (v ! 0))))"
| "get_ext_value E_VAR_INT16 v = Some (Num (of_int (sint (of_le16 v))))"
| "get_ext_value E_VAR_UINT16 v = Some (Num (of_int (uint (of_le16 v))))"
| "get_ext_value E_VAR_INT32 v = Some (Num (of_int (sint (of_le32 v))))"
| "get_ext_value E_VAR_UINT32 v = Some (Num (of_int (uint (of_le32 v))))"
| "get_ext_value E_VAR_FLOAT v = Some (float_of_bits (of_le32 v))"
| "get_ext_value E_VAR_DOUBLE v = Some (double_of_bits (of_le64 v))"
| "get_ext_value _ v = None"

text \<open>
  The assignment of a \<open>double\<close> to the member of a type, in \<open>__doexp_update_val\<close>, \<open>__do_set_out_value\<close> and
  \<open>__try_refresh_ai_value\<close>: the bytes of the member change, \<open>None\<close> for a type that is not numeric.
\<close>

definition put_bytes :: "bytes \<Rightarrow> bytes \<Rightarrow> bytes" where
  "put_bytes b v = b @ drop (length b) v"

fun set_ext_value :: "var_type \<Rightarrow> fp \<Rightarrow> bytes \<Rightarrow> bytes option outcome" where
  "set_ext_value E_VAR_BIT x v = Ret (Some (put_bytes [if fp_ne x (Num 0) then 1 else 0] v))"
| "set_ext_value E_VAR_INT8 x v = bindO (fp_to_int (- 128) 127 x) (\<lambda>i. Ret (Some (put_bytes [of_int i] v)))"
| "set_ext_value E_VAR_UINT8 x v = bindO (fp_to_int 0 255 x) (\<lambda>i. Ret (Some (put_bytes [of_int i] v)))"
| "set_ext_value E_VAR_INT16 x v = bindO (fp_to_int (- 0x8000) 0x7fff x) (\<lambda>i. Ret (Some (put_bytes (le16 (of_int i)) v)))"
| "set_ext_value E_VAR_UINT16 x v = bindO (fp_to_int 0 0xffff x) (\<lambda>i. Ret (Some (put_bytes (le16 (of_int i)) v)))"
| "set_ext_value E_VAR_INT32 x v = bindO (fp_to_int (- 0x80000000) 0x7fffffff x) (\<lambda>i. Ret (Some (put_bytes (le32 (of_int i)) v)))"
| "set_ext_value E_VAR_UINT32 x v = bindO (fp_to_int 0 0xffffffff x) (\<lambda>i. Ret (Some (put_bytes (le32 (of_int i)) v)))"
| "set_ext_value E_VAR_FLOAT x v = Ret (Some (put_bytes (le32 (bits_of_float (float_of_fp x))) v))"
| "set_ext_value E_VAR_DOUBLE x v = Ret (Some (put_bytes (le64 (bits_of_double x)) v))"
| "set_ext_value _ x v = Ret None"

section \<open>Averages\<close>

definition bVarManage_UpdateAvgValue :: "fp \<Rightarrow> var_avg \<Rightarrow> var_avg" where
  "bVarManage_UpdateAvgValue x a =
     (let a = a\<lparr>val_avg := fp_add 53 11 (val_avg a) x, val_cur := float_of_fp x, va_count := va_count a + 1\<rparr> in
      if va_count a = 1 then a\<lparr>val_min := float_of_fp x, val_max := float_of_fp x\<rparr>
      else let a = (if fp_less x (val_min a) then a\<lparr>val_min := float_of_fp x\<rparr> else a)
           in if fp_less (val_max a) x then a\<lparr>val_max := float_of_fp x\<rparr> else a)"

section \<open>Lemmas\<close>

text \<open>Lists of a known length\<close>

lemma length_2E: "length v = 2 \<Longrightarrow> \<exists>a b. v = [a, b]"
  by (auto simp: numeral_eq_Suc length_Suc_conv)

lemma length_4E: "length v = 4 \<Longrightarrow> \<exists>a b c d. v = [a, b, c, d]"
  by (auto simp: numeral_eq_Suc length_Suc_conv)

lemma length_8E: "length v = 8 \<Longrightarrow> \<exists>a b c d e f g h. v = [a, b, c, d, e, f, g, h]"
  by (auto simp: numeral_eq_Suc length_Suc_conv)

lemmas swap_defs = swap_8_def swap_16_def edian_32_def edian_64_def

lemma var_htons_bytes: "le16 (var_htons (of_le16 [a, b])) = [b, a]"
proof -
  have "of_le16 [a, b] = ucast a OR push_bit 8 (ucast b)"
    unfolding of_le16.simps by (subst disjunctive_add, fastforce simp: bit_simps dest: bit_imp_le_length) (rule refl)
  moreover have h: "var_htons n = push_bit 8 (n AND mask 8) OR drop_bit 8 (n AND push_bit 8 (mask 8))" for n
    by (simp add: var_htons_def mask_eq_exp_minus_1)
  moreover have "(ucast (var_htons (ucast a OR push_bit 8 (ucast b))) :: u8) = b"
    by (rule bit_eqI) (auto simp: h bit_simps dest: bit_imp_le_length)
  moreover have "(ucast (drop_bit 8 (var_htons (ucast a OR push_bit 8 (ucast b)))) :: u8) = a"
    by (rule bit_eqI) (auto simp: h bit_simps dest: bit_imp_le_length)
  ultimately show ?thesis by (simp only: le16_def)
qed

lemma length_edian [simp]: "length v = edian_size t \<Longrightarrow> length (edian t r v) = edian_size t"
  by (cases t) (auto simp: swap_defs)

lemma edian_involution: "length v = edian_size t \<Longrightarrow> edian t r (edian t r v) = v"
proof -
  assume l: "length v = edian_size t"
  have two: "le16 (var_htons (of_le16 (le16 (var_htons (of_le16 v))))) = v" if "length v = 2"
    using length_2E [OF that] by (auto simp: var_htons_bytes simp del: of_le16.simps)
  have four: "edian_32 r (edian_32 r v) = v" if "length v = 4"
    using length_4E [OF that] by (auto simp: swap_defs)
  have eight: "edian_64 r (edian_64 r v) = v" if "length v = 8"
    using length_8E [OF that] by (auto simp: swap_defs)
  show ?thesis using l two four eight by (cases t) auto
qed

lemma length_vBigEdian [simp]:
  "length inp = 8 \<Longrightarrow> length out = 8 \<Longrightarrow> length (vBigEdianExtData t r inp out) = 8"
  by (cases t) (auto simp: vBigEdianExtData_def swap_defs)

text \<open>The bytes in the order of their names: \<open>A\<close> is the most significant one.\<close>

definition wire_order :: "string \<Rightarrow> bytes \<Rightarrow> bytes" where
  "wire_order name v = map (\<lambda>c. rev v ! (of_char c - 65)) (filter (\<lambda>c. c \<noteq> CHR '' '') name)"

lemma edian_names:
  assumes "varmanage_endian_to_string t n = Some s" "length v = edian_size t"
  shows "edian t (of_int n) v = wire_order s v"
proof -
  have n: "n = 0 \<or> n = 1 \<or> n = 2 \<or> n = 3"
    using assms(1) by (cases t) (auto simp: varmanage_endian_to_string_def split: if_splits)
  have four: "edian_32 (of_int n) v = wire_order ([''AB CD'', ''CD AB'', ''BA DC'', ''DC BA''] ! nat n) v" if "length v = 4"
    using length_4E [OF that] n by (auto simp: swap_defs wire_order_def)
  have eight: "edian_64 (of_int n) v = wire_order ([''AB CD EF GH'', ''GH EF CD AB'', ''BA DC FE HG'', ''HG FE DC BA''] ! nat n) v"
    if "length v = 8"
    using length_8E [OF that] n by (auto simp: swap_defs wire_order_def)
  show ?thesis
    using assms four eight by (cases t) (auto simp: varmanage_endian_to_string_def split: if_splits)
qed

lemma of_le64_append [simp]: "of_le64 (le64 w @ r) = w"
proof -
  have "of_le64 (le64 w @ r) = ucast (ucast w :: u32) OR push_bit 32 (ucast (ucast (drop_bit 32 w) :: u32))"
    by (simp add: of_le64_def le64_def del: of_le32.simps)
  also have "\<dots> = w"
    by (rule bit_eqI) (auto simp: bit_simps dest: bit_imp_le_length)
  finally show ?thesis .
qed

lemma fp_to_int_of_int: "lo \<le> i \<Longrightarrow> i \<le> hi \<Longrightarrow> fp_to_int lo hi (Num (of_int i)) = Ret i"
  by (simp add: Let_def)

lemma fp_to_int_word:
  "lo \<le> sint (w :: 'a::len word) \<Longrightarrow> sint w \<le> hi \<Longrightarrow> fp_to_int lo hi (Num (signed w)) = Ret (sint w)"
  "lo \<le> uint w \<Longrightarrow> uint w \<le> hi \<Longrightarrow> fp_to_int lo hi (Num (unsigned w)) = Ret (uint w)"
  using fp_to_int_of_int [of lo "sint w" hi] fp_to_int_of_int [of lo "uint w" hi]
  by (simp_all del: fp_num_simps)

text \<open>
  What a number becomes in a variable of a type: a bit says whether it is not zero, an integer type keeps the integral part
  when that fits, a float the nearest one, a double the number itself.
\<close>

definition int_part :: "int \<Rightarrow> int \<Rightarrow> fp \<Rightarrow> fp option" where
  "int_part lo hi y =
     (case fp_rat y of
        None \<Rightarrow> None
      | Some r \<Rightarrow> let i = (if r < 0 then - \<lfloor>\<bar>r\<bar>\<rfloor> else \<lfloor>\<bar>r\<bar>\<rfloor>) in if lo \<le> i \<and> i \<le> hi then Some (Num (of_int i)) else None)"

fun as_type :: "var_type \<Rightarrow> fp \<Rightarrow> fp option" where
  "as_type E_VAR_BIT y = Some (Num (if fp_rat y = Some 0 then 0 else 1))"
| "as_type E_VAR_INT8 y = int_part (- (2 ^ 7)) (2 ^ 7 - 1) y"
| "as_type E_VAR_UINT8 y = int_part 0 (2 ^ 8 - 1) y"
| "as_type E_VAR_INT16 y = int_part (- (2 ^ 15)) (2 ^ 15 - 1) y"
| "as_type E_VAR_UINT16 y = int_part 0 (2 ^ 16 - 1) y"
| "as_type E_VAR_INT32 y = int_part (- (2 ^ 31)) (2 ^ 31 - 1) y"
| "as_type E_VAR_UINT32 y = int_part 0 (2 ^ 32 - 1) y"
| "as_type E_VAR_FLOAT y = Some (float_of_fp y)"
| "as_type E_VAR_DOUBLE y = Some y"
| "as_type _ y = None"

lemma int_part_to_int: "int_part lo hi y = Some z \<Longrightarrow> \<exists>i. fp_to_int lo hi y = Ret i \<and> z = Num (of_int i) \<and> lo \<le> i \<and> i \<le> hi"
  by (auto simp: int_part_def fp_to_int_def Let_def split: option.splits if_splits)

lemma signed_in_range:
  "- (2 ^ (LENGTH('a) - 1)) \<le> i \<Longrightarrow> i < 2 ^ (LENGTH('a) - 1) \<Longrightarrow> (signed (of_int i :: 'a::len word) :: rat) = of_int i"
  by (simp add: signed_of_int signed_take_bit_int_eq_self)

lemma unsigned_in_range: "0 \<le> i \<Longrightarrow> i < 2 ^ LENGTH('a) \<Longrightarrow> (unsigned (of_int i :: 'a::len word) :: rat) = of_int i"
  by (simp add: unsigned_of_int take_bit_int_eq_self)

lemma fp_in_get: "get_ext_value t v = Some x \<Longrightarrow> fp_in 53 11 x"
proof -
  assume g: "get_ext_value t v = Some x"
  have s: "is_fp 53 11 (signed w)" if "LENGTH('a) \<le> 32" for w :: "'a::len word"
  proof -
    have "(2 :: int) ^ (LENGTH('a) - 1) \<le> 2 ^ 32" using that by (intro power_increasing) simp_all
    moreover have "(2 :: int) ^ 32 < 2 ^ 53" by simp
    ultimately have "\<bar>sint w\<bar> < 2 ^ 53" using sint_ge [of w] sint_lt [of w] by linarith
    then show ?thesis by (metis is_fp_int of_int_sint)
  qed
  have u: "is_fp 53 11 (unsigned w)" if "LENGTH('a) \<le> 32" for w :: "'a::len word"
  proof -
    have "(2 :: int) ^ LENGTH('a) \<le> 2 ^ 32" using that by (intro power_increasing) simp_all
    moreover have "(2 :: int) ^ 32 < 2 ^ 53" by simp
    ultimately have "\<bar>uint w\<bar> < 2 ^ 53" using uint_lt2p [of w] uint_ge_0 [of w] by linarith
    then show ?thesis by (metis is_fp_int of_int_uint)
  qed
  show ?thesis using g by (cases t) (auto simp: s u fp_in_mono simp del: of_le16.simps of_le32.simps)
qed

lemma sint_bounds: "- (2 ^ (LENGTH('a) - 1)) \<le> sint (w :: 'a::len word)" "sint w < 2 ^ (LENGTH('a) - 1)"
  using sint_ge [of w] sint_lt [of w] by auto

text \<open>What is stored reads as what the number becomes in the type.\<close>

lemma set_ext_value_reads:
  assumes y: "fp_in 53 11 y" and t: "as_type t y = Some z"
  shows "\<exists>w. set_ext_value t y v = Ret (Some w) \<and> get_ext_value t w = Some z"
  using t y
  by (cases t)
    (auto simp: put_bytes_def signed_in_range unsigned_in_range float_of_bits_in double_of_bits_in fp_ne_def fp_eq_def
      dest!: int_part_to_int simp del: of_le16.simps of_le32.simps)

section \<open>Properties\<close>

definition numeric_types :: "var_type list" where
  "numeric_types = [E_VAR_BIT, E_VAR_INT8, E_VAR_UINT8, E_VAR_INT16, E_VAR_UINT16, E_VAR_INT32, E_VAR_UINT32, E_VAR_FLOAT, E_VAR_DOUBLE]"



text \<open>
  Claim C33.  The conversion between registers and value puts the bytes in the order that the name of the byte order shown to the
  user says, \<open>A\<close> for the most significant byte; done twice it gives back the value; a name
  is read back as the number it was printed for, and so is the name of a type.
\<close>

theorem edian_order:
  assumes "varmanage_endian_to_string t n = Some s" "length v = edian_size t"
  shows "edian t (of_int n) v = wire_order s v \<and> edian t (of_int n) (edian t (of_int n) v) = v \<and>
    varmanage_endian_from_string t s = n \<and>
    map (\<lambda>t. map_option varmanage_type_from_string (varmanage_type_to_string t)) numeric_types = map Some numeric_types"
proof -
  have n: "n = 0 \<or> n = 1 \<or> n = 2 \<or> n = 3"
    using assms(1) by (cases t) (auto simp: varmanage_endian_to_string_def split: if_splits)
  have "varmanage_endian_from_string t s = n"
    using assms(1) n
    by (cases t) (auto simp: varmanage_endian_to_string_def varmanage_endian_from_string_def strcaseeq_def lower_char_def)
  moreover have "map (\<lambda>t. map_option varmanage_type_from_string (varmanage_type_to_string t)) numeric_types = map Some numeric_types"
    by (simp add: numeric_types_def varmanage_type_from_string_def strcaseeq_def lower_char_def)
  ultimately show ?thesis using edian_names [OF assms] edian_involution [OF assms(2)] by blast
qed

lemma edian_order_witness:
  "edian E_VAR_FLOAT 1 [1, 2, 3, 4] = wire_order ''CD AB'' [1, 2, 3, 4] \<and> wire_order ''CD AB'' [1, 2, 3, 4] = [2, 1, 4, 3]"
  using edian_order [of E_VAR_FLOAT 1 "''CD AB''" "[1, 2, 3, 4]"]
  by (simp add: varmanage_endian_to_string_def wire_order_def)

end
