(* ===== verification/Ext_List.thy ===== *)
theory Ext_List
  imports Ext_Data
begin

text \<open>
  The list of variables \<open>s_xExtDataList\<close> of \<open>drivers/varmanage/varmanage.c\<close>: a doubly linked list of cells on
  the heap, with the operations that walk, append, unlink, sort and free.  The heap is a list of
  cells; a pointer is an index or \<open>None\<close> (NULL), a freed cell is \<open>None\<close>, and to look into NULL or into a
  freed cell is a \<open>Fault\<close>.  A walk that has not met the end of the chain after as many steps as
  there are cells goes round for ever and is \<open>Blocked\<close>.
\<close>

section \<open>Cells and heap\<close>

record ext_cell =
  c_data :: ext_data
  c_next :: "nat option"
  c_prev :: "nat option"

type_synonym ext_heap = "ext_cell option list"

record ext_list =
  el_n :: int
  el_pList :: "nat option"
  el_heap :: ext_heap

fun deref :: "ext_heap \<Rightarrow> nat option \<Rightarrow> ext_cell outcome" where
  "deref h None = Fault"
| "deref h (Some i) = (if i < length h then case h ! i of Some c \<Rightarrow> Ret c | None \<Rightarrow> Fault else Fault)"

definition set_next :: "nat option \<Rightarrow> nat option \<Rightarrow> ext_heap \<Rightarrow> ext_heap outcome" where
  "set_next p v h = bindO (deref h p) (\<lambda>c. Ret (h[the p := Some (c\<lparr>c_next := v\<rparr>)]))"

definition set_prev :: "nat option \<Rightarrow> nat option \<Rightarrow> ext_heap \<Rightarrow> ext_heap outcome" where
  "set_prev p v h = bindO (deref h p) (\<lambda>c. Ret (h[the p := Some (c\<lparr>c_prev := v\<rparr>)]))"

text \<open>\<open>if (p) p->prev = v\<close>\<close>

definition set_prev_if :: "nat option \<Rightarrow> nat option \<Rightarrow> ext_heap \<Rightarrow> ext_heap outcome" where
  "set_prev_if p v h = (if p = None then Ret h else set_prev p v h)"

text \<open>\<open>while (node) { if (P) break; node = node->next; }\<close>: the first cell that satisfies a test\<close>

fun el_seek :: "nat \<Rightarrow> ext_heap \<Rightarrow> (ext_cell \<Rightarrow> bool) \<Rightarrow> nat option \<Rightarrow> nat option outcome" where
  "el_seek k h P None = Ret None"
| "el_seek 0 h P (Some i) = Blocked"
| "el_seek (Suc k) h P (Some i) =
     bindO (deref h (Some i)) (\<lambda>c. if P c then Ret (Some i) else el_seek k h P (c_next c))"

definition el_first :: "(ext_cell \<Rightarrow> bool) \<Rightarrow> ext_list \<Rightarrow> nat option outcome" where
  "el_first P s = el_seek (length (el_heap s)) (el_heap s) P (el_pList s)"

text \<open>A loop over all cells that collects their data\<close>

fun el_collect :: "nat \<Rightarrow> ext_heap \<Rightarrow> nat option \<Rightarrow> ext_data list outcome" where
  "el_collect k h None = Ret []"
| "el_collect 0 h (Some i) = Blocked"
| "el_collect (Suc k) h (Some i) =
     bindO (deref h (Some i)) (\<lambda>c. bindO (el_collect k h (c_next c)) (\<lambda>ds. Ret (c_data c # ds)))"

definition el_items :: "ext_list \<Rightarrow> ext_data list outcome" where
  "el_items s = el_collect (length (el_heap s)) (el_heap s) (el_pList s)"

section \<open>Operations\<close>

definition prvSetExtDataCfgDefault :: "ext_heap \<Rightarrow> ext_list" where
  "prvSetExtDataCfgDefault h = \<lparr>el_n = 0, el_pList = None, el_heap = h\<rparr>"

text \<open>A new cell comes from the allocator cleared: no links.\<close>

definition vVarManage_InsertNode :: "ext_data \<Rightarrow> ext_list \<Rightarrow> ext_list outcome" where
  "vVarManage_InsertNode d s =
     bindO (el_first (\<lambda>c. c_next c = None) s) (\<lambda>last.
       let i = length (el_heap s); h = el_heap s @ [Some \<lparr>c_data = d, c_next = None, c_prev = None\<rparr>]
       in bindO
            (case last of
               Some _ \<Rightarrow> bindO (set_next last (Some i) h) (\<lambda>h. bindO (set_prev (Some i) last h) (\<lambda>h. Ret (el_pList s, h)))
             | None \<Rightarrow> Ret (Some i, h))
            (\<lambda>(p, h). Ret \<lparr>el_n = el_n s + 1, el_pList = p, el_heap = h\<rparr>))"

definition GetExtDataWithName :: "bytes \<Rightarrow> ext_list \<Rightarrow> nat option outcome" where
  "GetExtDataWithName name s = el_first (\<lambda>c. szName (c_data c) = name) s"

definition vVarManage_RemoveNodeWithName :: "bytes \<Rightarrow> ext_list \<Rightarrow> ext_list outcome" where
  "vVarManage_RemoveNodeWithName name s =
     bindO (GetExtDataWithName name s) (\<lambda>data.
       case data of None \<Rightarrow> Ret s
       | Some i \<Rightarrow>
           bindO (deref (el_heap s) (Some i)) (\<lambda>c.
           bindO (if c_prev c \<noteq> None then bindO (set_next (c_prev c) (c_next c) (el_heap s)) (\<lambda>h. Ret (el_pList s, h))
                  else Ret (c_next c, el_heap s)) (\<lambda>(p, h).
           bindO (set_prev_if (c_next c) (c_prev c) h) (\<lambda>h.
             let n = el_n s - 1 in
             Ret \<lparr>el_n = n, el_pList = (if n = 0 then None else p), el_heap = h[i := None]\<rparr>))))"

fun el_nth :: "nat \<Rightarrow> ext_heap \<Rightarrow> int \<Rightarrow> nat option \<Rightarrow> nat option outcome" where
  "el_nth k h n None = Ret None"
| "el_nth k h n (Some i) =
     (if n = 0 then Ret (Some i)
      else case k of 0 \<Rightarrow> Blocked | Suc k \<Rightarrow> bindO (deref h (Some i)) (\<lambda>c. el_nth k h (n - 1) (c_next c)))"

text \<open>\<open>while (node && n--) node = node->next\<close>, and a copy of the data\<close>

definition GetExtDataWithIndex :: "int \<Rightarrow> ext_list \<Rightarrow> ext_data option outcome" where
  "GetExtDataWithIndex n s =
     bindO (el_nth (length (el_heap s)) (el_heap s) n (el_pList s)) (\<lambda>p.
       if p = None then Ret None else bindO (deref (el_heap s) p) (\<lambda>c. Ret (Some (c_data c))))"

definition var_has_group :: "bytes \<Rightarrow> ext_list \<Rightarrow> bool outcome" where
  "var_has_group g s = bindO (el_first (\<lambda>c. szGroup (c_data c) = g) s) (\<lambda>p. Ret (p \<noteq> None))"

definition var_has_name :: "bytes \<Rightarrow> ext_list \<Rightarrow> bool outcome" where
  "var_has_name n s = bindO (el_first (\<lambda>c. szName (c_data c) = n) s) (\<lambda>p. Ret (p \<noteq> None))"

definition USER_REG_EXT_DATA_START :: nat where "USER_REG_EXT_DATA_START = 1024"
definition USER_REG_EXT_DATA_END :: nat where "USER_REG_EXT_DATA_END = 10240"

definition next_addr_step :: "ext_data \<Rightarrow> u16 \<times> u16 \<Rightarrow> u16 \<times> u16" where
  "next_addr_step d = (\<lambda>(max_addr, sz). if usAddr (xIo d) > max_addr then (usAddr (xIo d), ucast (btOutVarSize (xIo d)))
     else (max_addr, sz))"

definition var_get_next_addr :: "ext_list \<Rightarrow> u16 outcome" where
  "var_get_next_addr s =
     bindO (el_items s) (\<lambda>ds.
       case fold next_addr_step ds (of_nat USER_REG_EXT_DATA_START, 1) of
         (max_addr, sz) \<Rightarrow> Ret (max_addr + of_nat ((unat sz + 1) div 2)))"

text \<open>\<open>varmanage_free_all\<close> frees every cell of the chain.\<close>

fun free_chain :: "nat \<Rightarrow> ext_heap \<Rightarrow> nat option \<Rightarrow> ext_heap outcome" where
  "free_chain k h None = Ret h"
| "free_chain 0 h (Some i) = Blocked"
| "free_chain (Suc k) h (Some i) = bindO (deref h (Some i)) (\<lambda>c. free_chain k (h[i := None]) (c_next c))"

definition varmanage_free_all :: "ext_list \<Rightarrow> ext_list outcome" where
  "varmanage_free_all s = bindO (free_chain (length (el_heap s)) (el_heap s) (el_pList s))
     (\<lambda>h. Ret \<lparr>el_n = 0, el_pList = None, el_heap = h\<rparr>)"

section \<open>Sorting by address\<close>

text \<open>
  \<open>__sort_extdata_link\<close>.  For a cell \<open>node\<close> with successor \<open>next\<close> the inner loop looks for the first cell
  \<open>tmp\<close> from \<open>top\<close> on before which \<open>next\<close> belongs.
\<close>

definition addr_of :: "ext_cell \<Rightarrow> u16" where
  "addr_of c = usAddr (xIo (c_data c))"

fun sort_scan :: "nat \<Rightarrow> ext_heap \<Rightarrow> nat option \<Rightarrow> nat \<Rightarrow> u16 \<Rightarrow> nat option outcome" where
  "sort_scan k h tmp nxt a =
     (if tmp = Some nxt then Ret None
      else bindO (deref h tmp) (\<lambda>c.
        bindO (if c_prev c \<noteq> None then bindO (deref h (c_prev c)) (\<lambda>q. Ret (addr_of q \<le> a \<and> a \<le> addr_of c))
               else Ret (a \<le> addr_of c)) (\<lambda>found.
          if found then Ret tmp
          else case k of 0 \<Rightarrow> Blocked | Suc k \<Rightarrow> sort_scan k h (c_next c) nxt a)))"

declare sort_scan.simps [simp del]

text \<open>\<open>next\<close>, the successor of \<open>node\<close>, is moved before \<open>tmp\<close>; the new head when \<open>tmp\<close> has no predecessor.\<close>

definition sort_move :: "nat \<Rightarrow> nat \<Rightarrow> nat \<Rightarrow> ext_heap \<Rightarrow> (nat option \<times> ext_heap) outcome" where
  "sort_move node nxt tmp h =
     bindO (deref h (Some nxt)) (\<lambda>cn.
     bindO (deref h (Some tmp)) (\<lambda>c0.
     bindO (set_next (Some node) (c_next cn) h) (\<lambda>h.
     bindO (set_prev_if (c_next cn) (Some node) h) (\<lambda>h.
     bindO (set_next (Some nxt) (Some tmp) h) (\<lambda>h.
     bindO (deref h (Some tmp)) (\<lambda>ct.
     bindO (set_prev (Some nxt) (c_prev ct) h) (\<lambda>h.
     bindO (if c_prev c0 \<noteq> None then set_next (c_prev ct) (Some nxt) h else Ret h) (\<lambda>h.
     bindO (deref h (Some tmp)) (\<lambda>ct'.
     bindO (set_prev_if (c_next ct') (Some nxt) h) (\<lambda>h.
       Ret (if c_prev c0 = None then Some nxt else None, h)))))))))))"

text \<open>The body of the outer loop: the next \<open>node\<close>, \<open>top\<close> and the list\<close>

definition sort_step :: "nat option \<Rightarrow> nat \<Rightarrow> ext_list \<Rightarrow> (nat option \<times> nat option \<times> ext_list) outcome" where
  "sort_step tp node s =
     bindO (deref (el_heap s) (Some node)) (\<lambda>c.
       case c_next c of
         None \<Rightarrow> Ret (None, tp, s)
       | Some nxt \<Rightarrow>
           bindO (deref (el_heap s) (Some nxt)) (\<lambda>cn.
           bindO (sort_scan (length (el_heap s)) (el_heap s) tp nxt (addr_of cn)) (\<lambda>place.
           bindO (case place of
                    None \<Rightarrow> Ret (tp, s)
                  | Some tmp \<Rightarrow> bindO (sort_move node nxt tmp (el_heap s)) (\<lambda>(hd, h).
                      Ret (if hd = None then (tp, s\<lparr>el_heap := h\<rparr>) else (hd, s\<lparr>el_pList := hd, el_heap := h\<rparr>))))
             (\<lambda>(tp, s). bindO (deref (el_heap s) (Some node)) (\<lambda>c. Ret (c_next c, tp, s))))))"

text \<open>\<open>None\<close> when the outer loop never ends\<close>

partial_function (option) sort_loop :: "nat option \<Rightarrow> nat option \<Rightarrow> ext_list \<Rightarrow> ext_list outcome option" where
  "sort_loop tp node s =
     (case node of
        None \<Rightarrow> Some (Ret s)
      | Some i \<Rightarrow>
          (case sort_step tp i s of
             Ret r \<Rightarrow> sort_loop (fst (snd r)) (fst r) (snd (snd r))
           | Fault \<Rightarrow> Some Fault
           | Blocked \<Rightarrow> Some Blocked))"

definition sort_extdata_link :: "ext_list \<Rightarrow> ext_list outcome option" where
  "sort_extdata_link s = (if el_pList s = None then Some (Ret s) else sort_loop (el_pList s) (el_pList s) s)"

section \<open>Chains\<close>

text \<open>
  The cells of a chain with their data.  \<open>hdp\<close> is the pointer to its first cell, \<open>lastp\<close> to its last one;
  \<open>seg h q xs p\<close> says that the cells \<open>xs\<close> are linked in both directions, after \<open>q\<close> and before \<open>p\<close>.
\<close>

type_synonym cells = "(nat \<times> ext_data) list"

fun hdp :: "cells \<Rightarrow> nat option \<Rightarrow> nat option" where
  "hdp [] p = p"
| "hdp (x # xs) p = Some (fst x)"

definition lastp :: "nat option \<Rightarrow> cells \<Rightarrow> nat option" where
  "lastp q xs = (if xs = [] then q else Some (fst (last xs)))"

primrec seg :: "ext_heap \<Rightarrow> nat option \<Rightarrow> cells \<Rightarrow> nat option \<Rightarrow> bool" where
  "seg h q [] p \<longleftrightarrow> True"
| "seg h q (x # xs) p \<longleftrightarrow>
     deref h (Some (fst x)) = Ret \<lparr>c_data = snd x, c_next = hdp xs p, c_prev = q\<rparr> \<and> seg h (Some (fst x)) xs p"

definition el_ok :: "ext_list \<Rightarrow> cells \<Rightarrow> bool" where
  "el_ok s xs \<longleftrightarrow> el_pList s = hdp xs None \<and> seg (el_heap s) None xs None \<and> el_n s = int (length xs) \<and>
     distinct (map fst xs)"

definition el_wf :: "ext_list \<Rightarrow> bool" where
  "el_wf s \<longleftrightarrow> (\<exists>xs. el_ok s xs)"

named_theorems el_simps \<open>lists of variables\<close>

lemma lastp_simps [simp]: "lastp q [] = q" "lastp q (x # xs) = lastp (Some (fst x)) xs" "lastp q (xs @ [x]) = Some (fst x)"
  by (simp_all add: lastp_def)

lemma hdp_append: "hdp (xs @ ys) p = hdp xs (hdp ys p)"
  by (cases xs) simp_all

lemma seg_append: "seg h q (xs @ ys) p \<longleftrightarrow> seg h q xs (hdp ys p) \<and> seg h (lastp q xs) ys p"
  by (induction xs arbitrary: q) (simp_all add: hdp_append)

lemma deref_Ret [simp]: "deref h (Some i) = Ret c \<longleftrightarrow> i < length h \<and> h ! i = Some c"
  by (simp split: option.splits)

declare deref.simps(2) [simp del]

lemma deref_upd [simp]: "i < length h \<Longrightarrow> deref (h[i := x]) (Some j) =
    (if i = j then (case x of Some c \<Rightarrow> Ret c | None \<Rightarrow> Fault) else deref h (Some j))"
  by (simp add: deref.simps(2) nth_list_update)

lemma seg_upd [simp]: "i \<notin> fst ` set xs \<Longrightarrow> seg (h[i := c]) q xs p = seg h q xs p"
  by (induction xs arbitrary: q) auto

lemma seg_grow: "seg h q xs p \<Longrightarrow> seg (h @ h') q xs p"
  by (induction xs arbitrary: q) (auto simp: nth_append)

lemma seg_bound: "seg h q xs p \<Longrightarrow> x \<in> set xs \<Longrightarrow> fst x < length h"
  by (induction xs arbitrary: q) auto

lemma seg_length:
  assumes "seg h q xs p" "distinct (map fst xs)"
  shows "length xs \<le> length h"
proof -
  have "fst ` set xs \<subseteq> {..<length h}" using seg_bound [OF assms(1)] by auto
  then have "card (fst ` set xs) \<le> card {..<length h}" by (intro card_mono) simp_all
  then show ?thesis using distinct_card [OF assms(2)] by simp
qed

lemma el_ok_length: "el_ok s xs \<Longrightarrow> length xs \<le> length (el_heap s)"
  using seg_length by (auto simp: el_ok_def)

section \<open>Walks\<close>

lemma el_seek_data:
  "seg h q xs None \<Longrightarrow> length xs \<le> k \<Longrightarrow>
   el_seek k h (\<lambda>c. P (c_data c)) (hdp xs None) = Ret (map_option fst (find (\<lambda>x. P (snd x)) xs))"
proof (induction xs arbitrary: q k)
  case (Cons x xs)
  then obtain k' where "k = Suc k'" by (cases k) auto
  with Cons show ?case by auto
qed simp

lemma el_seek_last:
  "seg h q xs None \<Longrightarrow> length xs \<le> k \<Longrightarrow>
   el_seek k h (\<lambda>c. c_next c = None) (hdp xs None) = Ret (if xs = [] then None else lastp None xs)"
proof (induction xs arbitrary: q k)
  case (Cons x xs)
  then obtain k' where "k = Suc k'" by (cases k) auto
  with Cons show ?case by (cases xs) auto
qed simp

lemma el_collect_seg:
  "seg h q xs None \<Longrightarrow> length xs \<le> k \<Longrightarrow> el_collect k h (hdp xs None) = Ret (map snd xs)"
proof (induction xs arbitrary: q k)
  case (Cons x xs)
  then obtain k' where "k = Suc k'" by (cases k) auto
  with Cons show ?case by auto
qed simp

lemma el_first_data:
  "el_ok s xs \<Longrightarrow> el_first (\<lambda>c. P (c_data c)) s = Ret (map_option fst (find (\<lambda>x. P (snd x)) xs))"
  unfolding el_first_def using el_seek_data [of "el_heap s" None xs] el_ok_length [of s xs] by (auto simp: el_ok_def)

lemma el_first_last:
  "el_ok s xs \<Longrightarrow> el_first (\<lambda>c. c_next c = None) s = Ret (if xs = [] then None else lastp None xs)"
  unfolding el_first_def using el_seek_last [of "el_heap s" None xs] el_ok_length [of s xs] by (auto simp: el_ok_def)

lemma el_items_ok: "el_ok s xs \<Longrightarrow> el_items s = Ret (map snd xs)"
  unfolding el_items_def using el_collect_seg [of "el_heap s" None xs] el_ok_length [of s xs] by (auto simp: el_ok_def)

section \<open>Operations on intact lists\<close>

lemma set_next_ok: "i < length h \<Longrightarrow> h ! i = Some c \<Longrightarrow> set_next (Some i) v h = Ret (h[i := Some (c\<lparr>c_next := v\<rparr>)])"
  by (simp add: set_next_def deref.simps(2))

lemma set_prev_ok: "i < length h \<Longrightarrow> h ! i = Some c \<Longrightarrow> set_prev (Some i) v h = Ret (h[i := Some (c\<lparr>c_prev := v\<rparr>)])"
  by (simp add: set_prev_def deref.simps(2))

lemma InsertNode_ok:
  assumes "el_ok s xs"
  obtains s' where "vVarManage_InsertNode d s = Ret s'" "el_ok s' (xs @ [(length (el_heap s), d)])"
proof -
  let ?i = "length (el_heap s)" and ?c = "\<lparr>c_data = d, c_next = None, c_prev = None\<rparr>"
  let ?h = "el_heap s @ [Some ?c]"
  have ok: "el_pList s = hdp xs None" "seg (el_heap s) None xs None" "distinct (map fst xs)" "el_n s = int (length xs)"
    using assms by (simp_all add: el_ok_def)
  have new: "?i \<notin> fst ` set xs" using seg_bound [OF ok(2)] by fastforce
  show ?thesis
  proof (cases xs rule: rev_cases)
    case Nil
    then show ?thesis using that ok el_first_last [OF assms]
      by (simp add: vVarManage_InsertNode_def el_ok_def Let_def)
  next
    case (snoc ys y)
    have y: "fst y < ?i" using seg_bound [OF ok(2), of y] snoc by auto
    have dy: "el_heap s ! fst y = Some \<lparr>c_data = snd y, c_next = None, c_prev = lastp None ys\<rparr>"
      using ok(2) snoc by (simp add: seg_append)
    let ?h2 = "?h[fst y := Some \<lparr>c_data = snd y, c_next = Some ?i, c_prev = lastp None ys\<rparr>,
        ?i := Some \<lparr>c_data = d, c_next = None, c_prev = Some (fst y)\<rparr>]"
    have "vVarManage_InsertNode d s = Ret \<lparr>el_n = el_n s + 1, el_pList = el_pList s, el_heap = ?h2\<rparr>"
      using snoc y dy el_first_last [OF assms]
      by (simp add: vVarManage_InsertNode_def Let_def set_next_ok [where c = "\<lparr>c_data = snd y, c_next = None, c_prev = lastp None ys\<rparr>"]
          set_prev_ok [where c = ?c] nth_append)
    moreover have "seg ?h2 None ys (Some (fst y))"
      using seg_grow [of "el_heap s" None ys "Some (fst y)" "[Some ?c]"] ok(2,3) snoc new
      by (simp add: seg_append image_iff)
    ultimately show ?thesis
      using that snoc ok y new
      by (simp add: el_ok_def seg_append hdp_append nth_list_update image_iff)
  qed
qed

lemma RemoveNode_ok:
  assumes ok: "el_ok s (ys @ x # zs)" and name: "szName (snd x) = name" "\<forall>y \<in> set ys. szName (snd y) \<noteq> name"
  obtains s' where "vVarManage_RemoveNodeWithName name s = Ret s'" "el_ok s' (ys @ zs)"
proof -
  have "find (\<lambda>x. szName (snd x) = name) (ys @ x # zs) = Some x"
    using name by (induction ys) auto
  then have f: "GetExtDataWithName name s = Ret (Some (fst x))"
    using el_first_data [OF ok, of "\<lambda>d. szName d = name"] by (simp add: GetExtDataWithName_def)
  let ?h = "el_heap s"
  have o: "seg ?h None ys (Some (fst x))" "seg ?h (Some (fst x)) zs None" "distinct (map fst (ys @ x # zs))"
      "el_pList s = hdp (ys @ x # zs) None" "el_n s = int (length ys + length zs) + 1"
    and dx: "deref ?h (Some (fst x)) = Ret \<lparr>c_data = snd x, c_next = hdp zs None, c_prev = lastp None ys\<rparr>"
    using ok by (simp_all add: el_ok_def seg_append)
  have xi: "fst x \<notin> fst ` set ys" "fst x \<notin> fst ` set zs" using o(3) by auto
  define h1 where "h1 = (if ys = [] then ?h else ?h[fst (last ys) := Some \<lparr>c_data = snd (last ys), c_next = hdp zs None,
      c_prev = lastp None (butlast ys)\<rparr>])"
  define h2 where "h2 = (if zs = [] then h1 else h1[fst (hd zs) := Some \<lparr>c_data = snd (hd zs), c_next = hdp (tl zs) None,
      c_prev = lastp None ys\<rparr>])"
  have 1: "bindO (if lastp None ys \<noteq> None then bindO (set_next (lastp None ys) (hdp zs None) ?h) (\<lambda>h. Ret (el_pList s, h))
      else Ret (hdp zs None, ?h)) k = k (hdp (ys @ zs) None, h1)" for k :: "_ \<Rightarrow> ext_list outcome"
    using o(1,4) by (cases ys rule: rev_cases) (auto simp: h1_def seg_append set_next_ok hdp_append lastp_def)
  have s1: "seg h1 None ys (hdp zs None)" "seg h1 (Some (fst x)) zs None" "length h1 = length ?h"
    using o(1,2,3) by (cases ys rule: rev_cases; auto simp: h1_def seg_append image_iff lastp_def)+
  have 2: "set_prev_if (hdp zs None) (lastp None ys) h1 = Ret h2"
    using s1(2) by (cases zs) (auto simp: h2_def set_prev_if_def set_prev_ok)
  have "seg h2 None ys (hdp zs None)" "seg h2 (lastp None ys) zs None"
    using s1 o(3) by (cases zs; auto simp: h2_def image_iff)+
  then have "seg (h2[fst x := None]) None (ys @ zs) None" using xi by (simp add: seg_append)
  moreover have "vVarManage_RemoveNodeWithName name s =
      Ret \<lparr>el_n = el_n s - 1, el_pList = (if el_n s - 1 = 0 then None else hdp (ys @ zs) None), el_heap = h2[fst x := None]\<rparr>"
    by (simp only: vVarManage_RemoveNodeWithName_def f bindO.simps option.case dx ext_cell.select_convs 1 2 prod.case Let_def)
  moreover have "el_n s - 1 = 0 \<Longrightarrow> hdp (ys @ zs) None = None" using o(5) by (cases ys; cases zs) auto
  ultimately show ?thesis using that o(3,5) by (simp add: el_ok_def)
qed

lemma RemoveNode_absent:
  assumes "el_ok s xs" "\<forall>x \<in> set xs. szName (snd x) \<noteq> name"
  shows "vVarManage_RemoveNodeWithName name s = Ret s"
proof -
  have "find (\<lambda>x. szName (snd x) = name) xs = None" using assms(2) by (auto simp: find_None_iff)
  then have "GetExtDataWithName name s = Ret None"
    using el_first_data [OF assms(1), of "\<lambda>d. szName d = name"] by (simp add: GetExtDataWithName_def)
  then show ?thesis by (simp add: vVarManage_RemoveNodeWithName_def)
qed

lemma GetExtDataWithIndex_ok: "el_ok s xs \<Longrightarrow> i < length xs \<Longrightarrow> GetExtDataWithIndex (int i) s = Ret (Some (snd (xs ! i)))"
proof -
  assume ok: "el_ok s xs" and i: "i < length xs"
  have "seg h q xs None \<Longrightarrow> i < length xs \<Longrightarrow> length xs \<le> k \<Longrightarrow>
      el_nth k h (int i) (hdp xs None) = Ret (Some (fst (xs ! i)))" for h q k and xs :: cells
  proof (induction xs arbitrary: q k i)
    case (Cons x xs)
    then obtain k' where "k = Suc k'" by (cases k) auto
    with Cons show ?case by (cases i) auto
  qed simp
  note this [of "el_heap s" None xs "length (el_heap s)"]
  moreover have "\<exists>c. deref (el_heap s) (Some (fst (xs ! i))) = Ret c \<and> c_data c = snd (xs ! i)"
    if "seg h q xs None" "i < length xs" "h = el_heap s" for h q and xs :: cells and i
    using that by (induction xs arbitrary: q i) (auto simp: nth_Cons split: nat.splits)
  ultimately show ?thesis using ok i el_ok_length [OF ok] by (fastforce simp: GetExtDataWithIndex_def el_ok_def)
qed

lemma GetExtDataWithIndex_end: "el_ok s xs \<Longrightarrow> GetExtDataWithIndex (int (length xs)) s = Ret None"
proof -
  assume ok: "el_ok s xs"
  have "seg h q xs None \<Longrightarrow> length xs \<le> k \<Longrightarrow> el_nth k h (int (length xs)) (hdp xs None) = Ret None" for h q k and xs :: cells
  proof (induction xs arbitrary: q k)
    case (Cons x xs)
    then obtain k' where "k = Suc k'" by (cases k) auto
    with Cons show ?case by auto
  qed simp
  from this [of "el_heap s" None xs "length (el_heap s)"] ok el_ok_length [OF ok] show ?thesis
    by (simp add: GetExtDataWithIndex_def el_ok_def)
qed

section \<open>The interface of a table of variables\<close>

definition del_first :: "('a \<Rightarrow> bool) \<Rightarrow> 'a list \<Rightarrow> 'a list" where
  "del_first P xs = takeWhile (\<lambda>x. \<not> P x) xs @ tl (dropWhile (\<lambda>x. \<not> P x) xs)"

lemma del_first_split: "P x \<Longrightarrow> \<forall>y \<in> set ys. \<not> P y \<Longrightarrow> del_first P (ys @ x # zs) = ys @ zs"
  by (induction ys) (simp_all add: del_first_def)

lemma del_first_absent: "\<forall>x \<in> set xs. \<not> P x \<Longrightarrow> del_first P xs = xs"
  by (simp add: del_first_def) (metis append_Nil2 dropWhile_eq_Nil_conv list.sel(2) takeWhile_dropWhile_id)

datatype ('d, 'n) table_op = Add 'd | Del 'n

fun run_table :: "('d \<Rightarrow> 's \<Rightarrow> 's outcome) \<Rightarrow> ('n \<Rightarrow> 's \<Rightarrow> 's outcome) \<Rightarrow> ('d, 'n) table_op list \<Rightarrow> 's \<Rightarrow> 's outcome" where
  "run_table ins rem [] s = Ret s"
| "run_table ins rem (Add d # ops) s = bindO (ins d s) (run_table ins rem ops)"
| "run_table ins rem (Del n # ops) s = bindO (rem n s) (run_table ins rem ops)"

fun spec_table :: "('d \<Rightarrow> 'n) \<Rightarrow> ('d, 'n) table_op list \<Rightarrow> 'd list \<Rightarrow> 'd list" where
  "spec_table name [] ds = ds"
| "spec_table name (Add d # ops) ds = spec_table name ops (ds @ [d])"
| "spec_table name (Del n # ops) ds = spec_table name ops (del_first (\<lambda>d. name d = n) ds)"

locale var_table =
  fixes items :: "'s \<Rightarrow> 'd list outcome" and ok :: "'s \<Rightarrow> bool" and name :: "'d \<Rightarrow> 'n"
    and ins :: "'d \<Rightarrow> 's \<Rightarrow> 's outcome" and rem :: "'n \<Rightarrow> 's \<Rightarrow> 's outcome"
  assumes items_ok: "ok s \<Longrightarrow> \<exists>ds. items s = Ret ds"
    and ins_law: "ok s \<Longrightarrow> items s = Ret ds \<Longrightarrow> \<exists>s'. ins d s = Ret s' \<and> ok s' \<and> items s' = Ret (ds @ [d])"
    and rem_law: "ok s \<Longrightarrow> items s = Ret ds \<Longrightarrow>
      \<exists>s'. rem n s = Ret s' \<and> ok s' \<and> items s' = Ret (del_first (\<lambda>d. name d = n) ds)"
begin

lemma run_refines:
  "ok s \<Longrightarrow> items s = Ret ds \<Longrightarrow>
   \<exists>s'. run_table ins rem ops s = Ret s' \<and> ok s' \<and> items s' = Ret (spec_table name ops ds)"
proof (induction ops arbitrary: s ds)
  case (Cons op ops)
  show ?case
  proof (cases op)
    case (Add d)
    with ins_law [OF Cons.prems, of d] Cons.IH show ?thesis by force
  next
    case (Del n)
    with rem_law [OF Cons.prems, of n] Cons.IH show ?thesis by force
  qed
qed simp

text \<open>Names stay distinct when a variable is only added under a name that is not there.\<close>

lemma ins_fresh_distinct:
  assumes "ok s" "items s = Ret ds" "distinct (map name ds)" "name d \<notin> name ` set ds"
  shows "\<exists>s'. ins d s = Ret s' \<and> ok s' \<and> items s' = Ret (ds @ [d]) \<and> distinct (map name (ds @ [d]))"
  using ins_law [OF assms(1,2), of d] assms(3,4) by auto

lemma ins_rem_fresh:
  assumes "ok s" "items s = Ret ds" "name d \<notin> name ` set ds"
  shows "\<exists>s'. bindO (ins d s) (rem (name d)) = Ret s' \<and> ok s' \<and> items s' = Ret ds"
proof -
  obtain s1 where s1: "ins d s = Ret s1" "ok s1" "items s1 = Ret (ds @ [d])" using ins_law [OF assms(1,2)] by blast
  obtain s2 where "rem (name d) s1 = Ret s2" "ok s2" "items s2 = Ret (del_first (\<lambda>x. name x = name d) (ds @ [d]))"
    using rem_law [OF s1(2,3)] by blast
  moreover have "\<forall>y \<in> set ds. name y \<noteq> name d" using assms(3) by (metis image_eqI)
  then have "del_first (\<lambda>x. name x = name d) (ds @ [d]) = ds"
    using del_first_split [of "\<lambda>x. name x = name d" d ds "[]"] by simp
  ultimately show ?thesis using s1(1) by auto
qed

end

interpretation ext: var_table el_items el_wf szName vVarManage_InsertNode vVarManage_RemoveNodeWithName
proof
  fix s ds and d :: ext_data and n :: bytes
  show "el_wf s \<Longrightarrow> \<exists>ds. el_items s = Ret ds" by (auto simp: el_wf_def el_items_ok)
  assume "el_wf s" and ds: "el_items s = Ret ds"
  then obtain xs where xs: "el_ok s xs" "ds = map snd xs" using el_items_ok by (auto simp: el_wf_def)
  show "\<exists>s'. vVarManage_InsertNode d s = Ret s' \<and> el_wf s' \<and> el_items s' = Ret (ds @ [d])"
  proof (rule InsertNode_ok [OF xs(1), of d])
    fix s' assume "vVarManage_InsertNode d s = Ret s'" "el_ok s' (xs @ [(length (el_heap s), d)])"
    then show ?thesis by (auto simp: el_wf_def el_items_ok xs(2))
  qed
  show "\<exists>s'. vVarManage_RemoveNodeWithName n s = Ret s' \<and> el_wf s' \<and> el_items s' = Ret (del_first (\<lambda>d. szName d = n) ds)"
  proof (cases "\<exists>x \<in> set xs. szName (snd x) = n")
    case True
    then obtain ys x zs where split: "xs = ys @ x # zs" "szName (snd x) = n" "\<forall>y \<in> set ys. szName (snd y) \<noteq> n"
      using split_list_first_prop [OF True] by blast
    then obtain s' where "vVarManage_RemoveNodeWithName n s = Ret s'" "el_ok s' (ys @ zs)"
      using RemoveNode_ok xs(1) by blast
    moreover have "del_first (\<lambda>d. szName d = n) ds = map snd (ys @ zs)"
      using split del_first_split [of "\<lambda>d. szName d = n" "snd x" "map snd ys" "map snd zs"] by (simp add: xs(2))
    ultimately show ?thesis by (auto simp: el_items_ok el_wf_def)
  next
    case False
    then have "del_first (\<lambda>d. szName d = n) ds = ds" using xs(2) by (intro del_first_absent) auto
    with False ds show ?thesis using RemoveNode_absent [OF xs(1), of n] xs(1) by (auto simp: el_wf_def)
  qed
qed

section \<open>Sorting a sorted list\<close>

definition ascending :: "ext_data list \<Rightarrow> bool" where
  "ascending ds \<longleftrightarrow> sorted_wrt (<) (map (\<lambda>d. usAddr (xIo d)) ds)"

lemma sort_scan_ascending:
  assumes "seg h q xs (Some nxt)" "\<forall>x \<in> set xs. usAddr (xIo (snd x)) < a" "nxt \<notin> fst ` set xs"
    and "length xs \<le> k" "q = None \<or> (\<exists>c. deref h q = Ret c)"
  shows "sort_scan k h (hdp xs (Some nxt)) nxt a = Ret None"
  using assms
proof (induction xs arbitrary: q k)
  case (Cons x xs)
  then obtain k' where k: "k = Suc k'" by (cases k) auto
  have IH: "sort_scan k' h (hdp xs (Some nxt)) nxt a = Ret None"
    using Cons.prems by (intro Cons.IH [of "Some (fst x)"]) (auto simp: k)
  have d: "deref h (Some (fst x)) = Ret \<lparr>c_data = snd x, c_next = hdp xs (Some nxt), c_prev = q\<rparr>"
    and a: "\<not> a \<le> usAddr (xIo (snd x))" and n: "fst x \<noteq> nxt"
    using Cons.prems by auto
  have "bindO (if q \<noteq> None then bindO (deref h q) (\<lambda>r. Ret (addr_of r \<le> a \<and> a \<le> usAddr (xIo (snd x))))
      else Ret (a \<le> usAddr (xIo (snd x)))) k = k False" for k :: "bool \<Rightarrow> nat option outcome"
    using Cons.prems(5) a by (cases "q = None") (auto simp: deref.simps(2))
  then show ?case
    using n IH by (subst sort_scan.simps) (simp only: d bindO.simps ext_cell.select_convs addr_of_def k hdp.simps
        option.inject if_False nat.case simp_thms)
qed (simp add: sort_scan.simps)

lemma sort_loop_ascending:
  "el_ok s (ys @ zs) \<Longrightarrow> ascending (map snd (ys @ zs)) \<Longrightarrow>
   sort_loop (el_pList s) (hdp zs None) s = Some (Ret s)"
proof (induction zs arbitrary: ys)
  case (Cons x zs)
  let ?h = "el_heap s"
  have ok: "seg ?h None (ys @ x # zs) None" "distinct (map fst (ys @ x # zs))" "el_pList s = hdp (ys @ x # zs) None"
    using Cons.prems(1) by (simp_all add: el_ok_def)
  have dx: "deref ?h (Some (fst x)) = Ret \<lparr>c_data = snd x, c_next = hdp zs None, c_prev = lastp None ys\<rparr>"
    using ok(1) by (simp add: seg_append)
  have "sort_step (el_pList s) (fst x) s = Ret (hdp zs None, el_pList s, s)"
  proof (cases zs)
    case Nil
    then show ?thesis by (simp only: sort_step_def dx bindO.simps ext_cell.select_convs hdp.simps option.case)
  next
    case zs: (Cons z zs')
    have dz: "deref ?h (Some (fst z)) = Ret \<lparr>c_data = snd z, c_next = hdp zs' None, c_prev = Some (fst x)\<rparr>"
      using ok(1) zs by (simp add: seg_append)
    have "sort_scan (length ?h) ?h (hdp (ys @ [x]) (Some (fst z))) (fst z) (usAddr (xIo (snd z))) = Ret None"
    proof (rule sort_scan_ascending)
      show "seg ?h None (ys @ [x]) (Some (fst z))" using ok(1) zs by (simp add: seg_append)
      show "\<forall>y \<in> set (ys @ [x]). usAddr (xIo (snd y)) < usAddr (xIo (snd z))"
        using Cons.prems(2) zs by (auto simp: ascending_def sorted_wrt_append)
      show "length (ys @ [x]) \<le> length ?h" using el_ok_length [OF Cons.prems(1)] by simp
    qed (use ok(2) zs in auto)
    moreover have "el_pList s = hdp (ys @ [x]) (Some (fst z))" using ok(3) zs by (simp add: hdp_append)
    ultimately show ?thesis
      by (simp only: sort_step_def dx dz bindO.simps ext_cell.select_convs hdp.simps option.case zs addr_of_def prod.case)
  qed
  moreover have "sort_loop (el_pList s) (hdp zs None) s = Some (Ret s)"
    using Cons.IH [of "ys @ [x]"] Cons.prems by simp
  ultimately show ?case by (subst sort_loop.simps) simp
qed (simp add: sort_loop.simps)

lemma sort_ascending: "el_ok s xs \<Longrightarrow> ascending (map snd xs) \<Longrightarrow> sort_extdata_link s = Some (Ret s)"
  using sort_loop_ascending [of s "[]" xs] by (auto simp: sort_extdata_link_def el_ok_def)


text \<open>From the empty list every run of insertions and deletions gives the list of the specification.\<close>

lemma ext_run:
  obtains s xs where "run_table vVarManage_InsertNode vVarManage_RemoveNodeWithName ops (prvSetExtDataCfgDefault h) = Ret s"
    "el_ok s xs" "map snd xs = spec_table szName ops []"
proof -
  have "el_ok (prvSetExtDataCfgDefault h) []" by (simp add: el_ok_def prvSetExtDataCfgDefault_def)
  then have "el_wf (prvSetExtDataCfgDefault h)" "el_items (prvSetExtDataCfgDefault h) = Ret []"
    using el_items_ok by (auto simp: el_wf_def)
  from ext.run_refines [OF this, of ops] that el_items_ok show ?thesis by (fastforce simp: el_wf_def)
qed

lemma var_has_ok:
  assumes "el_ok s xs"
  shows "var_has_name n s = Ret (n \<in> szName ` set (map snd xs))" "var_has_group n s = Ret (n \<in> szGroup ` set (map snd xs))"
proof -
  have "(find P xs \<noteq> None) = (\<exists>x \<in> set xs. P x)" for P by (auto simp: find_None_iff)
  then show "var_has_name n s = Ret (n \<in> szName ` set (map snd xs))" "var_has_group n s = Ret (n \<in> szGroup ` set (map snd xs))"
    using el_first_data [OF assms, of "\<lambda>d. szName d = n"] el_first_data [OF assms, of "\<lambda>d. szGroup d = n"]
    by (auto simp: var_has_name_def var_has_group_def)
qed

section \<open>Properties\<close>

text \<open>
  Claim C9.  After any sequence of insertions and deletions the linked list holds exactly the variables of the
  specification, a plain list with append and removal of the first variable of a name: no call faults or
  runs for ever, the count is right, the walk by index meets each variable in turn and nothing behind the last one, and the
  tests for a name and for a group answer by that list.
\<close>

theorem ext_list_refines:
  "\<exists>s. run_table vVarManage_InsertNode vVarManage_RemoveNodeWithName ops (prvSetExtDataCfgDefault h) = Ret s \<and>
     (let ds = spec_table szName ops [] in
      el_items s = Ret ds \<and> el_n s = int (length ds) \<and>
      map (\<lambda>i. GetExtDataWithIndex (int i) s) [0..<length ds] = map (\<lambda>d. Ret (Some d)) ds \<and>
      GetExtDataWithIndex (int (length ds)) s = Ret None \<and>
      (\<forall>n. var_has_name n s = Ret (n \<in> szName ` set ds) \<and> var_has_group n s = Ret (n \<in> szGroup ` set ds)))"
proof (rule ext_run [of ops h])
  fix s xs
  assume s: "run_table vVarManage_InsertNode vVarManage_RemoveNodeWithName ops (prvSetExtDataCfgDefault h) = Ret s"
    and ok: "el_ok s xs" and ds: "map snd xs = spec_table szName ops []"
  have "map (\<lambda>i. GetExtDataWithIndex (int i) s) [0..<length xs] = map (\<lambda>d. Ret (Some d)) (map snd xs)"
    using GetExtDataWithIndex_ok [OF ok] by (intro nth_equalityI) auto
  with ok show ?thesis
    by (intro exI [of _ s]) (auto simp: s Let_def el_items_ok GetExtDataWithIndex_end var_has_ok el_ok_def simp flip: ds)
qed

text \<open>
  Sorting by address comes back and leaves the list as it is when the variables already stand in ascending order.
\<close>

theorem ext_sort_ascending:
  assumes "ascending (spec_table szName ops [])"
  shows "\<exists>s. run_table vVarManage_InsertNode vVarManage_RemoveNodeWithName ops (prvSetExtDataCfgDefault h) = Ret s \<and>
     sort_extdata_link s = Some (Ret s)"
  using assms sort_ascending by (metis ext_run)

lemma ext_sort_ascending_witness:
  "\<exists>s. run_table vVarManage_InsertNode vVarManage_RemoveNodeWithName
       [Add (sample_var [1] E_VAR_FLOAT 1030), Add (sample_var [2] E_VAR_FLOAT 1024), Del [1], Add (sample_var [3] E_VAR_INT16 1026)]
       (prvSetExtDataCfgDefault []) = Ret s \<and> sort_extdata_link s = Some (Ret s)"
  by (rule ext_sort_ascending) (simp add: ascending_def sample_var_def del_first_def)

text \<open>Insert some variables, sort, go on\<close>

definition ins_all :: "ext_data list \<Rightarrow> ext_list outcome" where
  "ins_all ds = run_table vVarManage_InsertNode vVarManage_RemoveNodeWithName (map Add ds) (prvSetExtDataCfgDefault [])"

definition sort_then :: "(ext_list \<Rightarrow> 'a outcome) \<Rightarrow> ext_list outcome \<Rightarrow> 'a outcome option" where
  "sort_then k m = (case m of Ret s \<Rightarrow> map_option (\<lambda>r. bindO r k) (sort_extdata_link s) | _ \<Rightarrow> None)"

abbreviation "cell d n p \<equiv> Some \<lparr>c_data = d, c_next = n, c_prev = p\<rparr>"

lemmas cell_step_defs = set_next_def set_prev_def set_prev_if_def Let_def deref.simps(2) addr_of_def
lemmas cell_defs = vVarManage_InsertNode_def vVarManage_RemoveNodeWithName_def GetExtDataWithName_def el_first_def
  el_items_def prvSetExtDataCfgDefault_def sort_extdata_link_def sort_loop.simps sort_step_def sort_scan.simps sort_move_def
  cell_step_defs

lemma ins_all_cells:
  "ins_all [x, y] = Ret \<lparr>el_n = 2, el_pList = Some 0, el_heap = [cell x (Some 1) None, cell y None (Some 0)]\<rparr>"
  "ins_all [x, y, z, w] = Ret \<lparr>el_n = 4, el_pList = Some 0,
     el_heap = [cell x (Some 1) None, cell y (Some 2) (Some 0), cell z (Some 3) (Some 1), cell w None (Some 2)]\<rparr>"
  by (simp_all add: ins_all_def vVarManage_InsertNode_def el_first_def prvSetExtDataCfgDefault_def cell_step_defs numeral_eq_Suc
      del: deref_Ret bindO_eq_Ret)

text \<open>
  Claim C38.  Sorting does not sort in general: it leaves the backward link of the cell it inserted before on the old
  predecessor.  For four variables in ascending order of address \<open>a\<close>, \<open>b\<close>, \<open>c\<close>, \<open>d\<close>: the list \<open>b\<close>, \<open>a\<close> reads \<open>a\<close>, \<open>b\<close>
  afterwards, but to delete \<open>b\<close> then empties the chain while the count says 1; of the list \<open>b\<close>, \<open>a\<close>, \<open>d\<close>, \<open>c\<close> the variable \<open>b\<close> is lost; the list
  \<open>a\<close>, \<open>d\<close>, \<open>b\<close>, \<open>c\<close>, sorted, with \<open>a\<close> deleted and sorted again, reads a freed cell.
\<close>

theorem ext_sort_breaks:
  assumes "sorted_wrt (<) (map (\<lambda>v. usAddr (xIo v)) [a, b, c, d])" "distinct (map szName [a, b, c, d])"
  shows "sort_then el_items (ins_all [b, a]) = Some (Ret [a, b]) \<and>
    sort_then (\<lambda>s. bindO (vVarManage_RemoveNodeWithName (szName b) s) (\<lambda>s. bindO (el_items s) (\<lambda>ds. Ret (el_n s, ds))))
      (ins_all [b, a]) = Some (Ret (1, [])) \<and>
    sort_then el_items (ins_all [b, a, d, c]) = Some (Ret [a, c, d]) \<and>
    map_option (sort_then Ret) (sort_then (vVarManage_RemoveNodeWithName (szName a)) (ins_all [a, d, b, c])) = Some (Some Fault)"
proof (intro conjI)
  have o: "usAddr (xIo a) < usAddr (xIo b)" "usAddr (xIo b) < usAddr (xIo c)" "usAddr (xIo c) < usAddr (xIo d)"
    and n: "szName a \<noteq> szName b" "szName a \<noteq> szName c" "szName a \<noteq> szName d"
    using assms by auto
  have l: "usAddr (xIo a) \<le> usAddr (xIo b)" "usAddr (xIo a) \<le> usAddr (xIo c)" "usAddr (xIo a) \<le> usAddr (xIo d)"
      "usAddr (xIo b) \<le> usAddr (xIo c)" "usAddr (xIo b) \<le> usAddr (xIo d)" "usAddr (xIo c) \<le> usAddr (xIo d)"
      "\<not> usAddr (xIo b) \<le> usAddr (xIo a)" "\<not> usAddr (xIo c) \<le> usAddr (xIo a)" "\<not> usAddr (xIo d) \<le> usAddr (xIo a)"
      "\<not> usAddr (xIo c) \<le> usAddr (xIo b)" "\<not> usAddr (xIo d) \<le> usAddr (xIo b)" "\<not> usAddr (xIo d) \<le> usAddr (xIo c)"
      "usAddr (xIo a) \<noteq> usAddr (xIo b)" "usAddr (xIo a) \<noteq> usAddr (xIo c)" "usAddr (xIo a) \<noteq> usAddr (xIo d)"
      "usAddr (xIo b) \<noteq> usAddr (xIo c)" "usAddr (xIo b) \<noteq> usAddr (xIo d)" "usAddr (xIo c) \<noteq> usAddr (xIo d)"
    using o by auto
  show "sort_then el_items (ins_all [b, a]) = Some (Ret [a, b])"
    using o by (simp add: sort_then_def ins_all_cells cell_defs del: deref_Ret bindO_eq_Ret)
  show "sort_then (\<lambda>s. bindO (vVarManage_RemoveNodeWithName (szName b) s) (\<lambda>s. bindO (el_items s) (\<lambda>ds. Ret (el_n s, ds))))
      (ins_all [b, a]) = Some (Ret (1, []))"
    using o n by (simp add: sort_then_def ins_all_cells cell_defs del: deref_Ret bindO_eq_Ret)
  show "sort_then el_items (ins_all [b, a, d, c]) = Some (Ret [a, c, d])"
    using o l by (simp add: sort_then_def ins_all_cells cell_defs del: deref_Ret bindO_eq_Ret)
  show "map_option (sort_then Ret) (sort_then (vVarManage_RemoveNodeWithName (szName a)) (ins_all [a, d, b, c])) = Some (Some Fault)"
    using o l n by (simp add: sort_then_def ins_all_cells cell_defs del: deref_Ret bindO_eq_Ret)
qed

lemma ext_sort_breaks_witness:
  "sort_then el_items (ins_all [sample_var [2] E_VAR_FLOAT 1026, sample_var [1] E_VAR_FLOAT 1024,
       sample_var [4] E_VAR_FLOAT 1030, sample_var [3] E_VAR_FLOAT 1028]) =
     Some (Ret [sample_var [1] E_VAR_FLOAT 1024, sample_var [3] E_VAR_FLOAT 1028, sample_var [4] E_VAR_FLOAT 1030])"
  using ext_sort_breaks [of "sample_var [1] E_VAR_FLOAT 1024" "sample_var [2] E_VAR_FLOAT 1026" "sample_var [3] E_VAR_FLOAT 1028"
      "sample_var [4] E_VAR_FLOAT 1030"] by (simp add: sample_var_def)

end
