(* ===== verification/Ext_Refresh.thy ===== *)
theory Ext_Refresh
  imports Ext_Value Ext_List
begin

text \<open>
  How readings get into variables and registers, \<open>drivers/varmanage/varmanage.c\<close>.  The registers served over
  modbus are the array \<open>g_modbus_regs\<close> of 10240 registers, here its bytes; \<open>g_xExtDataRegs\<close> points to
  register 1024 of it.  The list of variables is the list of their data, in order.  The
  evaluator of expressions is an argument: what it answers for a text and the name of a variable in a state of all
  variables, \<open>None\<close> for an error, \<open>Fault\<close> and \<open>Blocked\<close> when the evaluation itself is undefined or never ends; so is the table of rules (the type of a rule by its name).
  The bytes that a local value holds before it is written are an argument too.
\<close>

type_synonym evaluator = "ext_data list \<Rightarrow> bytes \<Rightarrow> bytes \<Rightarrow> fp option outcome"
type_synonym rule_types = "bytes \<Rightarrow> int option"

record vm_state =
  vm_vars :: "ext_data list"
  vm_regs :: bytes
  vm_flags :: "bool list"

definition MODBUS_REGS_COUNT :: nat where "MODBUS_REGS_COUNT = USER_REG_EXT_DATA_END"
definition USER_REG_EXT_DATA_SIZE :: nat where "USER_REG_EXT_DATA_SIZE = USER_REG_EXT_DATA_END - USER_REG_EXT_DATA_START + 1"

definition EXT_DATA_REG_CHECK :: "nat \<Rightarrow> bool" where
  "EXT_DATA_REG_CHECK a \<longleftrightarrow> USER_REG_EXT_DATA_START \<le> a \<and> a \<le> USER_REG_EXT_DATA_END"

definition set_value :: "bytes \<Rightarrow> ext_data \<Rightarrow> ext_data" where
  "set_value v d = d\<lparr>xIo := xIo d\<lparr>xValue := v\<rparr>\<rparr>"

section \<open>Registers\<close>

text \<open>\<open>__refresh_regs\<close> on a buffer from an offset, \<open>__clear_regs\<close>, \<open>__read_regs\<close>\<close>

definition refresh_regs :: "bytes \<Rightarrow> int \<Rightarrow> u16 \<Rightarrow> nat \<Rightarrow> bytes \<Rightarrow> bytes outcome" where
  "refresh_regs buf ofs a n m =
     (if n = 0 then Ret m else bindO (copy_out buf ofs (2 * n)) (\<lambda>bs. copy_in m (2 * uint a) bs))"

definition clear_regs :: "u16 \<Rightarrow> nat \<Rightarrow> bytes \<Rightarrow> bytes outcome" where
  "clear_regs a n m = (if n = 0 then Ret m else copy_in m (2 * uint a) (replicate (2 * n) 0))"

definition read_regs :: "u16 \<Rightarrow> nat \<Rightarrow> bytes \<Rightarrow> bytes outcome" where
  "read_regs a n m = (if n = 0 then Ret [] else copy_out m (2 * uint a) (2 * n))"

section \<open>Which registers belong to variables\<close>

fun set_flags :: "nat \<Rightarrow> nat list \<Rightarrow> bool list \<Rightarrow> bool list" where
  "set_flags a [] fl = fl"
| "set_flags a (i # is) fl =
     set_flags a is (if EXT_DATA_REG_CHECK (a + i) then fl[a + i - USER_REG_EXT_DATA_START := True] else fl)"

definition RefreshRegsFlag :: "ext_data list \<Rightarrow> bool list" where
  "RefreshRegsFlag ds =
     fold (\<lambda>d fl. if bEnable d then set_flags (ext_addr d) [0 ..< out_nregs d] fl else fl) ds
       (replicate USER_REG_EXT_DATA_SIZE False)"

fun CheckContAddr :: "u16 \<Rightarrow> nat \<Rightarrow> bool list \<Rightarrow> bool" where
  "CheckContAddr a 0 fl = True"
| "CheckContAddr a (Suc n) fl =
     (if \<not> EXT_DATA_REG_CHECK (unat a) \<or> \<not> fl ! (unat a - USER_REG_EXT_DATA_START) then False else CheckContAddr (a + 1) n fl)"

definition bVarManage_CheckContAddr :: "u16 \<Rightarrow> u16 \<Rightarrow> vm_state \<Rightarrow> bool" where
  "bVarManage_CheckContAddr a n s = CheckContAddr a (unat n) (vm_flags s)"

section \<open>Limits, expressions, conversions\<close>

definition bVarManage_CheckExtValue :: "ext_data \<Rightarrow> bytes \<Rightarrow> bool" where
  "bVarManage_CheckExtValue d v =
     (case get_ext_value (btOutVarType (xIo d)) v of
        None \<Rightarrow> True
      | Some x \<Rightarrow>
          if bUseMax (xIo d) \<and> fp_less (float_of_bits (fMax (xIo d))) x then False
          else if bUseMin (xIo d) \<and> fp_less x (float_of_bits (fMin (xIo d))) then False
          else True)"

definition bVarManage_GetExtValue :: "ext_data \<Rightarrow> var_type \<Rightarrow> fp option" where
  "bVarManage_GetExtValue d t = get_ext_value t (xValue (xIo d))"

definition doexp_update_val :: "ext_data \<Rightarrow> fp \<Rightarrow> (bool \<times> ext_data) outcome" where
  "doexp_update_val d x =
     bindO (set_ext_value (btOutVarType (xIo d)) x (xValue (xIo d))) (\<lambda>v.
       Ret (case v of None \<Rightarrow> (False, d) | Some v \<Rightarrow> (True, set_value v d)))"

text \<open>The value of an expression replaces the value of the variable when it differs.\<close>

definition doexp_text :: "evaluator \<Rightarrow> (ext_data \<Rightarrow> ext_data list) \<Rightarrow> bytes \<Rightarrow> ext_data \<Rightarrow> (bool \<times> ext_data) outcome" where
  "doexp_text ev vars e d =
     (case bVarManage_GetExtValue d (btOutVarType (xIo d)) of
        None \<Rightarrow> Ret (False, d)
      | Some x \<Rightarrow>
          bindO (ev (vars d) e (szName d)) (\<lambda>r.
            case r of
              None \<Rightarrow> Ret (False, d)
            | Some y \<Rightarrow> if fp_ne y x then doexp_update_val d y else Ret (False, d)))"

definition doexp_exp :: "evaluator \<Rightarrow> (ext_data \<Rightarrow> ext_data list) \<Rightarrow> bytes option \<Rightarrow> ext_data \<Rightarrow> (bool \<times> ext_data) outcome" where
  "doexp_exp ev vars e d =
     (case e of None \<Rightarrow> Ret (False, d) | Some e \<Rightarrow> if e = [] then Ret (False, d) else doexp_text ev vars e d)"

definition RULE_TYPE_CTRL :: int where "RULE_TYPE_CTRL = 1"
definition RULE_TYPE_NONE :: int where "RULE_TYPE_NONE = 3"

text \<open>The text of a rule call is printed into an array of 2048 bytes; other types leave it unset.\<close>

definition rule_text :: "int \<Rightarrow> bytes \<Rightarrow> bytes option \<Rightarrow> bytes option \<Rightarrow> bytes outcome" where
  "rule_text t name p_in p_out =
     bindO
       (if t = RULE_TYPE_NONE then (case p_in of None \<Rightarrow> Fault | Some p \<Rightarrow> Ret (name @ asc ''('' @ p @ asc '')''))
        else if t = RULE_TYPE_CTRL then
          Ret (asc ''if ('' @ name @ asc ''('' @ (case p_in of None \<Rightarrow> [] | Some p \<Rightarrow> p) @ asc '')) { return ('' @ name @
               asc ''_o('' @ (case p_out of None \<Rightarrow> [] | Some p \<Rightarrow> p) @ asc '')); } else { return 0; }'')
        else Fault)
       (\<lambda>t. if length t < 2048 then Ret t else Fault)"

definition doexp_rule ::
  "evaluator \<Rightarrow> rule_types \<Rightarrow> (ext_data \<Rightarrow> ext_data list) \<Rightarrow> bytes option \<Rightarrow> bytes option \<Rightarrow> bytes option \<Rightarrow> ext_data \<Rightarrow>
   (bool \<times> ext_data) outcome" where
  "doexp_rule ev rules vars name p_in p_out d =
     (case name of
        None \<Rightarrow> Ret (False, d)
      | Some n \<Rightarrow>
          if n = [] then Ret (False, d)
          else (case rules n of
                  None \<Rightarrow> Ret (False, d)
                | Some t \<Rightarrow> bindO (rule_text t n p_in p_out) (\<lambda>e. doexp_text ev vars e d)))"

definition doexp_value :: "evaluator \<Rightarrow> rule_types \<Rightarrow> (ext_data \<Rightarrow> ext_data list) \<Rightarrow> ext_data \<Rightarrow> (bool \<times> ext_data) outcome" where
  "doexp_value ev rules vars d =
     (case io_exp (xIo d) of Exp e \<Rightarrow> doexp_exp ev vars e d | Rule n p q \<Rightarrow> doexp_rule ev rules vars n p q d)"

text \<open>The value read under the input type is stored under the output type.\<close>

definition do_set_out_value :: "ext_data \<Rightarrow> var_type \<Rightarrow> ext_data outcome" where
  "do_set_out_value d t =
     (if t = btOutVarType (xIo d) then Ret d
      else case bVarManage_GetExtValue d t of
             None \<Rightarrow> Ret d
           | Some x \<Rightarrow> bindO (set_ext_value (btOutVarType (xIo d)) x (xValue (xIo d))) (\<lambda>v.
               Ret (case v of None \<Rightarrow> d | Some v \<Rightarrow> set_value v d)))"

section \<open>Analog inputs\<close>

definition fp_le :: "fp \<Rightarrow> fp \<Rightarrow> bool" where
  "fp_le x y \<longleftrightarrow> fp_less x y \<or> fp_eq x y"

text \<open>\<open>0x7FFFFF / 10.0 * 4.0\<close>\<close>

definition adc_4ma :: fp where
  "adc_4ma = fp_mul 53 11 (fp_div 53 11 (Num 0x7FFFFF) (Num 10)) (Num 4)"

text \<open>The current of an input in mA, and what it means in percent and on the scale of the instrument\<close>

definition adc_scaled :: "ai_cfg \<Rightarrow> fp \<Rightarrow> adc_value \<Rightarrow> adc_value" where
  "adc_scaled cfg x adc =
     (let m = float_of_fp (fp_div 53 11 (fp_mul 53 11 x (Num 20)) (Num 0xFFFFFF));
          span = fp_sub 24 8 (ext_range_max cfg) (ext_range_min cfg);
          off = (\<lambda>y. fp_add 24 8 (fp_add 24 8 y (ext_range_min cfg)) (ext_factor cfg))
      in case ai_range cfg of
           Range_4_20MA \<Rightarrow>
             (let adc = (if fp_le (Num 4) m
                         then adc\<lparr>percent_unit := fp_mul 24 8 (fp_div 24 8 (fp_sub 24 8 m (Num 4)) (Num 16)) (Num 100),
                                  meter_unit := off (fp_div 24 8 (fp_mul 24 8 span (fp_sub 24 8 m (Num 4))) (Num 16))\<rparr>
                         else adc\<lparr>percent_unit := Num 0, meter_unit := fp_add 24 8 (ext_range_min cfg) (ext_factor cfg)\<rparr>)
              in adc\<lparr>adc_measure := (if fp_less m (Num 4) then Num 4 else m)\<rparr>)
         | Range_0_20MA \<Rightarrow>
             adc\<lparr>adc_measure := m, percent_unit := fp_mul 24 8 (fp_div 24 8 m (Num 20)) (Num 100),
                 meter_unit := off (fp_div 24 8 (fp_mul 24 8 span m) (Num 20))\<rparr>
         | _ \<Rightarrow> adc)"

definition adc_result :: "unit_type \<Rightarrow> adc_value \<Rightarrow> fp" where
  "adc_result u adc =
     (case u of
        Unit_Eng \<Rightarrow> Num (of_int (uint (eng_unit adc)))
      | Unit_Binary \<Rightarrow> Num (of_int (uint (binary_unit adc)))
      | Unit_Percent \<Rightarrow> percent_unit adc
      | Unit_Meter \<Rightarrow> meter_unit adc)"

definition calc_adc_value :: "ext_data \<Rightarrow> (fp \<times> ext_data) option outcome" where
  "calc_adc_value d =
     (case bVarManage_GetExtValue d (btOutVarType (xIo d)) of
        None \<Rightarrow> Ret None
      | Some x \<Rightarrow>
          (let cfg = xCfg d; x = (if ai_range cfg = Range_4_20MA \<and> fp_less x adc_4ma then Num 0 else x)
           in bindO (fp_to_int 0 0xFFFFFFFF x) (\<lambda>e.
                let adc = adc_scaled cfg x
                      \<lparr>eng_unit = of_int e, adc_measure = Num 0, binary_unit = of_int e, percent_unit = Num 0, meter_unit = Num 0\<rparr>
                in Ret (Some (adc_result (ai_unit cfg) adc, d\<lparr>xAttach := adc\<rparr>)))))"

definition try_refresh_ai_value :: "ext_data \<Rightarrow> ext_data outcome" where
  "try_refresh_ai_value d =
     (if eAttr d \<noteq> E_VAR_ATTR_AI then Ret d
      else bindO (calc_adc_value d) (\<lambda>r.
        case r of
          None \<Rightarrow> Ret d
        | Some (x, d) \<Rightarrow> bindO (set_ext_value (btOutVarType (xIo d)) x (xValue (xIo d))) (\<lambda>v.
            Ret (case v of None \<Rightarrow> d | Some v \<Rightarrow> set_value v d))))"

section \<open>Averages of a variable\<close>

definition avg_update :: "fp \<Rightarrow> var_avg \<Rightarrow> var_avg" where
  "avg_update x a = a\<lparr>val_cur := float_of_fp x, val_avg := fp_add 53 11 (val_avg a) x, va_count := va_count a + 1\<rparr>"

definition update_value :: "ext_data \<Rightarrow> ext_data" where
  "update_value d =
     (case bVarManage_GetExtValue d (btOutVarType (xIo d)) of
        None \<Rightarrow> d
      | Some x \<Rightarrow> d\<lparr>xAvgReal := avg_update x (xAvgReal d), xAvgMin := avg_update x (xAvgMin d), xAvgHour := avg_update x (xAvgHour d)\<rparr>)"

section \<open>Refreshing a variable from its registers\<close>

definition var_at :: "ext_data \<Rightarrow> nat \<Rightarrow> bool" where
  "var_at d a \<longleftrightarrow> bEnable d \<and> ext_addr d \<le> a \<and> a < out_nregs d + ext_addr d"

definition first_var :: "(ext_data \<Rightarrow> bool) \<Rightarrow> ext_data list \<Rightarrow> nat option" where
  "first_var P ds = find (\<lambda>i. P (ds ! i)) [0 ..< length ds]"

text \<open>From the new value on: analog input, expression, limits; the old value comes back when a changed value is out of its limits.\<close>

definition settle_value ::
  "evaluator \<Rightarrow> rule_types \<Rightarrow> (ext_data \<Rightarrow> ext_data list) \<Rightarrow> bytes \<Rightarrow> bytes \<Rightarrow> ext_data \<Rightarrow> ext_data outcome" where
  "settle_value ev rules vars new old d =
     bindO (try_refresh_ai_value d) (\<lambda>d.
     bindO (doexp_value ev rules vars d) (\<lambda>(changed, d).
       Ret (if changed \<and> \<not> bVarManage_CheckExtValue d new then set_value old d else d)))"

text \<open>The value goes back to the registers in the byte order of the output.\<close>

definition store_regs :: "u16 \<Rightarrow> ext_data \<Rightarrow> bytes \<Rightarrow> bytes outcome" where
  "store_regs a d m =
     (let t = btOutVarType (xIo d) in
      copy_in m (2 * uint a) (edian t (btOutVarRuleType (xIo d)) (take (edian_size t) (xValue (xIo d)))))"

definition clear_err :: "ext_data \<Rightarrow> ext_data" where
  "clear_err d = d\<lparr>xIo := xIo d\<lparr>btErrNum := 0\<rparr>\<rparr>"

definition load_value :: "var_type \<Rightarrow> u8 \<Rightarrow> u16 \<Rightarrow> bytes \<Rightarrow> bytes \<Rightarrow> bytes outcome" where
  "load_value t r a stk m =
     bindO (copy_out m (2 * uint a) (edian_size t)) (\<lambda>raw. Ret (vLittleEdianExtData t r raw stk))"

definition SlaveRefreshExtDataWithRegs :: "evaluator \<Rightarrow> rule_types \<Rightarrow> bytes \<Rightarrow> u16 \<Rightarrow> vm_state \<Rightarrow> vm_state outcome" where
  "SlaveRefreshExtDataWithRegs ev rules stk a s =
     (case first_var (\<lambda>d. var_at d (unat a)) (vm_vars s) of
        None \<Rightarrow> Ret s
      | Some i \<Rightarrow>
          (let d = vm_vars s ! i; old = xValue (xIo d) in
           bindO (load_value (btOutVarType (xIo d)) (btOutVarRuleType (xIo d)) a stk (vm_regs s)) (\<lambda>new.
           bindO (settle_value ev rules (\<lambda>d. (vm_vars s)[i := d]) new old (set_value new d)) (\<lambda>d.
           bindO (store_regs a d (vm_regs s)) (\<lambda>m.
             Ret (s\<lparr>vm_vars := (vm_vars s)[i := clear_err (update_value d)], vm_regs := m\<rparr>))))))"

definition MasterRefreshExtDataWithRegs :: "evaluator \<Rightarrow> rule_types \<Rightarrow> bytes \<Rightarrow> u16 \<Rightarrow> vm_state \<Rightarrow> vm_state outcome" where
  "MasterRefreshExtDataWithRegs ev rules stk a s =
     (case first_var (\<lambda>d. var_at d (unat a)) (vm_vars s) of
        None \<Rightarrow> Ret s
      | Some i \<Rightarrow>
          (let d = vm_vars s ! i; old = xValue (xIo d) in
           bindO (load_value (btInVarType (xIo d)) (btInVarRuleType (xIo d)) a stk (vm_regs s)) (\<lambda>new.
           bindO (do_set_out_value (d\<lparr>xIo := xIo d\<lparr>xValue := new, bErrFlag := False\<rparr>\<rparr>) (btInVarType (xIo d))) (\<lambda>d.
           bindO (settle_value ev rules (\<lambda>d. (vm_vars s)[i := d]) new old d) (\<lambda>d.
           bindO (store_regs a d (vm_regs s)) (\<lambda>m.
             Ret (s\<lparr>vm_vars := (vm_vars s)[i := clear_err (update_value d)], vm_regs := m\<rparr>)))))))"

section \<open>Lemmas\<close>

lemma first_var_SomeD: "first_var P ds = Some i \<Longrightarrow> i < length ds \<and> P (ds ! i)"
  by (auto simp: first_var_def find_Some_iff)

lemma first_var_NoneD: "first_var P ds = None \<Longrightarrow> d \<in> set ds \<Longrightarrow> \<not> P d"
  by (auto simp: first_var_def find_None_iff in_set_conv_nth)

lemma first_varI: "i < length ds \<Longrightarrow> P (ds ! i) \<Longrightarrow> (\<And>j. j < i \<Longrightarrow> \<not> P (ds ! j)) \<Longrightarrow> first_var P ds = Some i"
  unfolding first_var_def find_Some_iff by (intro exI [of _ i]) auto

text \<open>Flags\<close>

lemma length_set_flags [simp]: "length (set_flags a is fl) = length fl"
  by (induction "is" arbitrary: fl) auto

lemma nth_set_flags:
  "length fl = USER_REG_EXT_DATA_SIZE \<Longrightarrow> EXT_DATA_REG_CHECK r \<Longrightarrow>
   set_flags a is fl ! (r - USER_REG_EXT_DATA_START) \<longleftrightarrow> fl ! (r - USER_REG_EXT_DATA_START) \<or> r \<in> (\<lambda>i. a + i) ` set is"
proof (induction "is" arbitrary: fl)
  case (Cons i "is")
  have "fl[a + i - USER_REG_EXT_DATA_START := True] ! (r - USER_REG_EXT_DATA_START) \<longleftrightarrow>
      fl ! (r - USER_REG_EXT_DATA_START) \<or> r = a + i" if "EXT_DATA_REG_CHECK (a + i)"
    using Cons.prems that
    by (auto simp: nth_list_update EXT_DATA_REG_CHECK_def USER_REG_EXT_DATA_SIZE_def USER_REG_EXT_DATA_START_def USER_REG_EXT_DATA_END_def)
  with Cons show ?case by auto
qed simp

lemma nth_RefreshRegsFlag:
  assumes "EXT_DATA_REG_CHECK r"
  shows "RefreshRegsFlag ds ! (r - USER_REG_EXT_DATA_START) \<longleftrightarrow> list_ex (\<lambda>d. var_at d r) ds"
proof -
  have *: "(\<lambda>i. a + i) ` {0 ..< n} = {a ..< n + a}" for a n :: nat
    by (simp add: add.commute image_add_atLeastLessThan [of a 0 n, simplified])
  have "length fl = USER_REG_EXT_DATA_SIZE \<Longrightarrow>
    fold (\<lambda>d fl. if bEnable d then set_flags (ext_addr d) [0 ..< out_nregs d] fl else fl) ds fl ! (r - USER_REG_EXT_DATA_START) \<longleftrightarrow>
      fl ! (r - USER_REG_EXT_DATA_START) \<or> list_ex (\<lambda>d. var_at d r) ds" for fl
  proof (induction ds arbitrary: fl)
    case (Cons d ds)
    then show ?case using nth_set_flags [OF Cons.prems assms, of "ext_addr d" "[0 ..< out_nregs d]"]
      by (auto simp: var_at_def * simp del: set_flags.simps)
  qed simp
  from this [of "replicate USER_REG_EXT_DATA_SIZE False"] show ?thesis
    using assms unfolding RefreshRegsFlag_def
    by (auto simp: EXT_DATA_REG_CHECK_def USER_REG_EXT_DATA_SIZE_def USER_REG_EXT_DATA_START_def USER_REG_EXT_DATA_END_def)
qed

text \<open>Memory\<close>

definition overlay :: "nat \<Rightarrow> bytes \<Rightarrow> bytes \<Rightarrow> bytes" where
  "overlay k bs m = take k m @ bs @ drop (k + length bs) m"

lemma length_overlay [simp]: "k + length bs \<le> length m \<Longrightarrow> length (overlay k bs m) = length m"
  by (simp add: overlay_def)

lemma copy_in_overlay: "k + length bs \<le> length m \<Longrightarrow> copy_in m (int k) bs = Ret (overlay k bs m)"
  by (simp add: overlay_def c_simps)

lemma overlay_same: "k + length bs \<le> length m \<Longrightarrow> take (length bs) (drop k m) = bs \<Longrightarrow> overlay k bs m = m"
  unfolding overlay_def by (metis add.commute append_take_drop_id drop_drop)

lemma take_drop_overlay: "k + length bs \<le> length m \<Longrightarrow> n \<le> length bs \<Longrightarrow> take n (drop k (overlay k bs m)) = take n bs"
  by (simp add: overlay_def)

lemma two_uint: "int (2 * unat (a :: u16)) = 2 * uint a"
  by simp

lemma copy_in_reg: "2 * unat (a :: u16) + length bs \<le> length m \<Longrightarrow> copy_in m (2 * uint a) bs = Ret (overlay (2 * unat a) bs m)"
  using copy_in_overlay [of "2 * unat a" bs m] by (simp only: two_uint)

lemma copy_out_reg: "2 * unat (a :: u16) + n \<le> length m \<Longrightarrow> copy_out m (2 * uint a) n = Ret (take n (drop (2 * unat a) m))"
  unfolding two_uint [symmetric] by (rule copy_out_nat)

lemma first_var_lt: "first_var P ds = Some i \<Longrightarrow> i < length ds"
  using first_var_SomeD by blast

lemma set_value_simps [simp]:
  "xIo (set_value v d) = (xIo d)\<lparr>xValue := v\<rparr>" "eAttr (set_value v d) = eAttr d" "szName (set_value v d) = szName d"
  "set_value w (set_value v d) = set_value w d" "bVarManage_CheckExtValue (set_value v d) new = bVarManage_CheckExtValue d new"
  by (simp_all add: set_value_def bVarManage_CheckExtValue_def split: option.splits)

section \<open>Properties\<close>

text \<open>
  Claim C32.  A range of registers counts as belonging to variables exactly when each of its registers, counted modulo 2^16, lies in the
  area of variables and in an enabled variable.
\<close>

theorem vm_cont_addr:
  "bVarManage_CheckContAddr a n (s\<lparr>vm_flags := RefreshRegsFlag (vm_vars s)\<rparr>) \<longleftrightarrow>
     list_all (\<lambda>i. EXT_DATA_REG_CHECK (unat (a + of_nat i)) \<and> list_ex (\<lambda>d. var_at d (unat (a + of_nat i))) (vm_vars s)) [0 ..< unat n]"
proof -
  have "CheckContAddr a k (RefreshRegsFlag ds) \<longleftrightarrow>
      list_all (\<lambda>i. EXT_DATA_REG_CHECK (unat (a + of_nat i)) \<and> list_ex (\<lambda>d. var_at d (unat (a + of_nat i))) ds) [0 ..< k]" for k ds
  proof (induction k arbitrary: a)
    case (Suc k)
    have up: "list_all P [0 ..< Suc k] \<longleftrightarrow> P 0 \<and> list_all (\<lambda>i. P (Suc i)) [0 ..< k]" for P
      by (simp add: upt_conv_Cons map_Suc_upt [symmetric] list.pred_map comp_def del: upt_Suc)
    show ?case unfolding up using Suc.IH [of "a + 1"] nth_RefreshRegsFlag [of "unat a" ds]
      by (auto simp: add.assoc)
  qed simp
  then show ?thesis by (simp add: bVarManage_CheckContAddr_def)
qed

lemma settle_limits:
  assumes "eAttr d \<noteq> E_VAR_ATTR_AI" "io_exp (xIo d) = Exp (Some e)" "e \<noteq> []"
    and "bVarManage_GetExtValue d (btOutVarType (xIo d)) = Some x" "ev (vars d) e (szName d) = Ret (Some y)" "fp_ne y x"
    and "set_ext_value (btOutVarType (xIo d)) y (xValue (xIo d)) = Ret (Some v)"
  shows "settle_value ev rules vars new old d = Ret (set_value (if bVarManage_CheckExtValue d new then v else old) d)"
  using assms
  by (simp add: settle_value_def try_refresh_ai_value_def doexp_value_def doexp_exp_def doexp_text_def doexp_update_val_def)

lemma settle_none:
  "eAttr d \<noteq> E_VAR_ATTR_AI \<Longrightarrow> io_exp (xIo d) = Exp None \<Longrightarrow> settle_value ev rules vars new old d = Ret d"
  by (simp add: settle_value_def try_refresh_ai_value_def doexp_value_def doexp_exp_def)

text \<open>The bytes of a value in its registers\<close>

definition served :: "ext_data \<Rightarrow> bytes \<Rightarrow> bytes" where
  "served d v = edian (btOutVarType (xIo d)) (btOutVarRuleType (xIo d)) (take (edian_size (btOutVarType (xIo d))) v)"

lemma Slave_settled:
  assumes first: "first_var (\<lambda>d. var_at d (unat a)) (vm_vars s) = Some i" and d: "vm_vars s ! i = d"
    and mem: "2 * unat a + 8 \<le> length (vm_regs s)"
    and raw: "raw = vLittleEdianExtData (btOutVarType (xIo d)) (btOutVarRuleType (xIo d))
      (take (edian_size (btOutVarType (xIo d))) (drop (2 * unat a) (vm_regs s))) stk"
    and v: "settle_value ev rules (\<lambda>d. (vm_vars s)[i := d]) raw (xValue (xIo d)) (set_value raw d) = Ret (set_value v d)" "length v = 8"
  shows "SlaveRefreshExtDataWithRegs ev rules stk a s =
    Ret (s\<lparr>vm_vars := (vm_vars s)[i := clear_err (update_value (set_value v d))], vm_regs := overlay (2 * unat a) (served d v) (vm_regs s)\<rparr>)"
proof -
  let ?t = "btOutVarType (xIo d)"
  have e: "edian_size ?t \<le> 8" by (cases ?t) simp_all
  then have "load_value ?t (btOutVarRuleType (xIo d)) a stk (vm_regs s) = Ret raw"
    using mem by (simp add: load_value_def copy_out_reg raw)
  moreover have "store_regs a (set_value v d) (vm_regs s) = Ret (overlay (2 * unat a) (served d v) (vm_regs s))"
    using mem e v(2) by (simp add: store_regs_def served_def Let_def copy_in_reg min_absorb2)
  ultimately show ?thesis using first d v(1) by (simp add: SlaveRefreshExtDataWithRegs_def Let_def)
qed

lemma set_ext_value_length: "set_ext_value t x v = Ret (Some v') \<Longrightarrow> length v = 8 \<Longrightarrow> length v' = 8"
  by (cases t) (auto simp: put_bytes_def le64_def)

text \<open>Whether a number is inside the limits that are in use\<close>

definition within_limits :: "ext_data \<Rightarrow> fp \<Rightarrow> bool" where
  "within_limits d x \<longleftrightarrow> (bUseMax (xIo d) \<longrightarrow> \<not> fp_less (float_of_bits (fMax (xIo d))) x) \<and>
     (bUseMin (xIo d) \<longrightarrow> \<not> fp_less x (float_of_bits (fMin (xIo d))))"

text \<open>
  Claim C34.  What the limits of a variable do in the refresh from its registers.  Let \<open>x\<close> be the number that stands in the registers.  When
  an expression gives a number \<open>y\<close> that differs from \<open>x\<close>, the limits are compared with \<open>x\<close>, not with \<open>y\<close>: inside
  them the variable becomes \<open>y\<close>, whatever \<open>y\<close> is; outside them the value from before the refresh comes
  back.  Without an expression the variable becomes what stands in the registers, inside the limits or not.  Either way the registers serve
  the new value.
\<close>

theorem vm_limits_on_raw:
  assumes first: "first_var (\<lambda>d. var_at d (unat a)) (vm_vars s) = Some i" "vm_vars s ! i = d" "eAttr d \<noteq> E_VAR_ATTR_AI"
    and lens: "2 * unat a + 8 \<le> length (vm_regs s)" "length stk = 8" "length (xValue (xIo d)) = 8"
    and raw: "raw = vLittleEdianExtData (btOutVarType (xIo d)) (btOutVarRuleType (xIo d))
      (take (edian_size (btOutVarType (xIo d))) (drop (2 * unat a) (vm_regs s))) stk"
      "get_ext_value (btOutVarType (xIo d)) raw = Some x"
    and exp: "io_exp (xIo d) = Exp (if b then Some (c # e) else None)"
      "b \<longrightarrow> ev ((vm_vars s)[i := set_value raw d]) (c # e) (szName d) = Ret (Some y) \<and> fp_ne y x \<and>
         set_ext_value (btOutVarType (xIo d)) y raw = Ret (Some w)"
  shows "\<exists>s'. SlaveRefreshExtDataWithRegs ev rules stk a s = Ret s' \<and>
    xValue (xIo (vm_vars s' ! i)) = (if \<not> b then raw else if within_limits d x then w else xValue (xIo d)) \<and>
    vm_regs s' = overlay (2 * unat a) (served d (xValue (xIo (vm_vars s' ! i)))) (vm_regs s)"
proof -
  have lraw: "length raw = 8" using lens unfolding raw
    by (cases "btOutVarType (xIo d)") (auto simp: vLittleEdianExtData_def vBigEdianExtData_def swap_defs)
  let ?v = "if \<not> b then raw else if within_limits d x then w else xValue (xIo d)"
  have chk: "bVarManage_CheckExtValue d raw \<longleftrightarrow> within_limits d x"
    using raw(2) by (auto simp: bVarManage_CheckExtValue_def within_limits_def)
  have "settle_value ev rules (\<lambda>d. (vm_vars s)[i := d]) raw (xValue (xIo d)) (set_value raw d) = Ret (set_value ?v d)"
  proof (cases b)
    case True
    then show ?thesis
      using settle_limits [of "set_value raw d" "c # e" x ev "\<lambda>d. (vm_vars s)[i := d]" y w rules raw "xValue (xIo d)"] first exp raw(2)
      by (simp add: bVarManage_GetExtValue_def chk)
  next
    case False
    then show ?thesis using settle_none [of "set_value raw d"] first exp by simp
  qed
  moreover have "length ?v = 8" using lraw lens exp(2) set_ext_value_length [of "btOutVarType (xIo d)" y raw w] by auto
  ultimately have "SlaveRefreshExtDataWithRegs ev rules stk a s =
    Ret (s\<lparr>vm_vars := (vm_vars s)[i := clear_err (update_value (set_value ?v d))], vm_regs := overlay (2 * unat a) (served d ?v) (vm_regs s)\<rparr>)"
    by (rule Slave_settled [OF first(1,2) lens(1) raw(1)])
  moreover have "xValue (xIo (clear_err (update_value (set_value u d)))) = u" for u
    by (simp add: clear_err_def update_value_def split: option.splits)
  ultimately show ?thesis using first_var_lt [OF first(1)] by (intro exI conjI) (assumption, simp_all)
qed

lemma vm_limits_on_raw_witness:
  "let d = (sample_var [1] E_VAR_INT16 1024)\<lparr>xIo := (xIo (sample_var [1] E_VAR_INT16 1024))
         \<lparr>fMax := 0x42C80000, bUseMax := True, io_exp := Exp (Some (asc ''10*x''))\<rparr>\<rparr>;
       s = (\<lambda>n. \<lparr>vm_vars = [d], vm_regs = replicate 2048 0 @ [0, n] @ replicate 10 0, vm_flags = []\<rparr>)
   in float_of_bits 0x42C80000 = Num 100 \<and>
      (\<exists>s'. SlaveRefreshExtDataWithRegs (\<lambda>ds e n. Ret (Some (Num 500))) (\<lambda>n. None) (replicate 8 0) 1024 (s 50) = Ret s' \<and>
        xValue (xIo (vm_vars s' ! 0)) = [244, 1, 0, 0, 0, 0, 0, 0]) \<and>
      (\<exists>s'. SlaveRefreshExtDataWithRegs (\<lambda>ds e n. Ret (Some (Num 5))) (\<lambda>n. None) (replicate 8 0) 1024 (s 200) = Ret s' \<and>
        xValue (xIo (vm_vars s' ! 0)) = replicate 8 0)"
proof -
  let ?d = "(sample_var [1] E_VAR_INT16 1024)\<lparr>xIo := (xIo (sample_var [1] E_VAR_INT16 1024))
         \<lparr>fMax := 0x42C80000, bUseMax := True, io_exp := Exp (Some (asc ''10*x''))\<rparr>\<rparr>"
  let ?s = "\<lambda>n. \<lparr>vm_vars = [?d], vm_regs = replicate 2048 0 @ [0, n] @ replicate 10 0, vm_flags = []\<rparr>"
  have f: "float_of_bits 0x42C80000 = Num 100"
    by (simp add: float_of_bits_def fp_decode_def fp_emin_def power_int_def power_divide)
  have t: "asc ''10*x'' = 0x31 # [0x30, 0x2A, 0x78]" by code_simp
  have v: "first_var (\<lambda>d. var_at d 1024) [?d] = Some 0"
    by (simp add: first_var_def var_at_def sample_var_def out_nregs_def nregs_of_def)
  have raw: "vLittleEdianExtData E_VAR_INT16 0 [0, n] (replicate 8 0) = [n, 0, 0, 0, 0, 0, 0, 0]" for n
    by (simp add: vLittleEdianExtData_def vBigEdianExtData_def var_htons_bytes numeral_eq_Suc del: of_le16.simps)
  show ?thesis
    using vm_limits_on_raw [of 1024 "?s 50" 0 ?d "replicate 8 0" "[50, 0, 0, 0, 0, 0, 0, 0]" "Num 50" True "0x31" "[0x30, 0x2A, 0x78]"
        "\<lambda>ds e n. Ret (Some (Num 500))" "Num 500" "[244, 1, 0, 0, 0, 0, 0, 0]" "\<lambda>n. None"]
      vm_limits_on_raw [of 1024 "?s 200" 0 ?d "replicate 8 0" "[200, 0, 0, 0, 0, 0, 0, 0]" "Num 200" True "0x31" "[0x30, 0x2A, 0x78]"
        "\<lambda>ds e n. Ret (Some (Num 5))" "Num 5" "[5, 0, 0, 0, 0, 0, 0, 0]" "\<lambda>n. None"] v
    by (auto simp: f t raw sample_var_def put_bytes_def le16_def within_limits_def)
qed

text \<open>
  A variable of one byte owns one register, but four are written back: when its limits refuse a value, the old
  contents of the eight bytes of the value go to the registers, those of the three registers behind it included.
\<close>

theorem vm_byte_var_neighbours:
  assumes first: "first_var (\<lambda>d. var_at d (unat a)) (vm_vars s) = Some i"
    and d: "btOutVarType (xIo (vm_vars s ! i)) = E_VAR_UINT8" "eAttr (vm_vars s ! i) \<noteq> E_VAR_ATTR_AI"
      "io_exp (xIo (vm_vars s ! i)) = Exp (Some e)" "e \<noteq> []" "length (xValue (xIo (vm_vars s ! i))) = 8"
    and stk: "length stk = 8"
    and mem: "2 * unat a + 8 \<le> length (vm_regs s)" "raw = take 8 (drop (2 * unat a) (vm_regs s))"
    and exp: "ev ((vm_vars s)[i := set_value raw (vm_vars s ! i)]) e (szName (vm_vars s ! i)) = Ret (Some (Num (of_int y)))"
      "0 \<le> y" "y \<le> 255" "y \<noteq> uint (raw ! 0)" "\<not> bVarManage_CheckExtValue (vm_vars s ! i) raw"
  shows "\<exists>s'. SlaveRefreshExtDataWithRegs ev rules stk a s = Ret s' \<and>
    vm_regs s' = overlay (2 * unat a) (xValue (xIo (vm_vars s ! i))) (vm_regs s)"
proof -
  let ?d = "vm_vars s ! i" and ?old = "xValue (xIo (vm_vars s ! i))"
  have l: "length raw = 8" using mem by simp
  have load: "load_value E_VAR_UINT8 r a stk (vm_regs s) = Ret raw" for r
    using mem stk by (simp add: load_value_def copy_out_reg vLittleEdianExtData_def vBigEdianExtData_def)
  have y: "fp_to_int 0 255 (Num (of_int y)) = Ret y" using exp by (intro fp_to_int_of_int)
  have ne: "(of_int y :: rat) \<noteq> of_int (uint (raw ! 0))" using exp(4) by (metis of_int_eq_iff)
  have "settle_value ev rules (\<lambda>d. (vm_vars s)[i := d]) raw ?old (set_value raw ?d) = Ret (set_value ?old (set_value raw ?d))"
    using settle_limits [of "set_value raw ?d" e "Num (of_int (uint (raw ! 0)))" ev "\<lambda>d. (vm_vars s)[i := d]" "Num (of_int y)"
        "put_bytes [of_int y] raw" rules raw ?old] d exp y ne
    by (simp add: bVarManage_GetExtValue_def fp_ne_def)
  then show ?thesis
    using first d mem
    by (simp add: SlaveRefreshExtDataWithRegs_def Let_def load store_regs_def copy_in_reg)
qed

lemma vm_byte_var_neighbours_witness:
  "let d = (sample_var [1] E_VAR_UINT8 1024)\<lparr>xIo := (xIo (sample_var [1] E_VAR_UINT8 1024))
         \<lparr>fMax := 0x40A00000, bUseMax := True, io_exp := Exp (Some [1])\<rparr>\<rparr>
   in \<exists>s'. SlaveRefreshExtDataWithRegs (\<lambda>ds e n. Ret (Some (Num 20))) (\<lambda>n. None) (replicate 8 0) 1024
          \<lparr>vm_vars = [d], vm_regs = replicate 2060 9, vm_flags = []\<rparr> = Ret s' \<and>
        vm_regs s' = overlay 2048 (replicate 8 0) (replicate 2060 9)"
proof -
  let ?d = "(sample_var [1] E_VAR_UINT8 1024)\<lparr>xIo := (xIo (sample_var [1] E_VAR_UINT8 1024))
         \<lparr>fMax := 0x40A00000, bUseMax := True, io_exp := Exp (Some [1])\<rparr>\<rparr>"
  have f: "float_of_bits 0x40A00000 = Num 5"
    by (simp add: float_of_bits_def fp_decode_def fp_emin_def power_int_def power_divide)
  have r: "take 8 (drop 2048 (replicate 2060 (9 :: u8))) = replicate 8 9" by simp
  show ?thesis
    using vm_byte_var_neighbours [of 1024 "\<lparr>vm_vars = [?d], vm_regs = replicate 2060 9, vm_flags = []\<rparr>" 0 "[1]" "replicate 8 0"
        "replicate 8 9" "\<lambda>ds e n. Ret (Some (Num 20))" 20 "\<lambda>n. None"]
    by (simp add: f r sample_var_def first_var_def var_at_def out_nregs_def nregs_of_def bVarManage_CheckExtValue_def)
qed

end
