(* ===== verification/Ext_Sources.thy ===== *)
theory Ext_Sources
  imports Ext_Refresh Dust Mbus603
begin

text \<open>
  Where readings come from, \<open>drivers/varmanage/varmanage.c\<close>: a modbus master that writes the served registers
  (\<open>RefreshExtDataWithModbusSlave\<close>, with the register callback of \<open>external/modbus/user_mb_app.c\<close>), the answers of modbus slaves, of DL/T 645
  meters, of heat meters, of dust sensors, of the environment monitor and of a DH server (\<open>sdccp/sdccp_dh.c\<close>); and what happens to the variables of a device that does not answer.
\<close>

section \<open>Registers written by a modbus master\<close>

text \<open>\<open>__GetExtDataIoInfoWithAddr\<close>: device, port, slave, address there, function code and how many registers are left of the variable\<close>

definition GetExtDataIoInfoWithAddr :: "u16 \<Rightarrow> ext_data list \<Rightarrow> ((u16 \<times> u16 \<times> u8 \<times> u16 \<times> u8) \<times> nat) option" where
  "GetExtDataIoInfoWithAddr a ds =
     map_option (\<lambda>i. let d = ds ! i; p = io_param (xIo d) in
         ((usDevType (xIo d), usDevNum (xIo d), modbus_btSlaveAddr p,
           modbus_usExtAddr p + (a - usAddr (xIo d)), modbus_btOpCode p),
          out_nregs d - (unat a - ext_addr d)))
       (first_var (\<lambda>d. var_at d (unat a)) ds)"

definition MODBUS_FC_READ_HOLDING_REGISTERS :: u8 where "MODBUS_FC_READ_HOLDING_REGISTERS = 3"

text \<open>
  What is handed on to the slaves: device, port, slave, address, the number of registers that are
  left of the request, and the registers there are from here on.  Which port a device has now, if any, is an argument.
\<close>

record forwarded =
  fw_dev :: u16
  fw_port :: int
  fw_slave :: u8
  fw_addr :: u16
  fw_count :: nat
  fw_regs :: bytes

definition forward ::
  "(u16 \<Rightarrow> u16 \<Rightarrow> u8 \<Rightarrow> int option) \<Rightarrow> u16 \<times> u16 \<times> u8 \<times> u16 \<times> u8 \<Rightarrow> u16 \<Rightarrow> nat \<Rightarrow> bytes \<Rightarrow> forwarded list" where
  "forward port info a n m =
     (case info of (dev, num, slave, ea, op) \<Rightarrow>
        case port dev num slave of
          None \<Rightarrow> []
        | Some p \<Rightarrow>
            if op = MODBUS_FC_READ_HOLDING_REGISTERS
            then [\<lparr>fw_dev = dev, fw_port = p, fw_slave = slave, fw_addr = ea, fw_count = n,
                   fw_regs = take (2 * n) (drop (2 * unat a) m)\<rparr>]
            else [])"

function ModbusSlave_loop ::
  "evaluator \<Rightarrow> rule_types \<Rightarrow> bytes \<Rightarrow> (u16 \<Rightarrow> u16 \<Rightarrow> u8 \<Rightarrow> int option) \<Rightarrow> u16 \<Rightarrow> nat \<Rightarrow> vm_state \<Rightarrow> forwarded list \<Rightarrow> bool \<Rightarrow>
   (bool \<times> forwarded list \<times> vm_state) outcome" where
  "ModbusSlave_loop ev rules stk port a n s out ret =
     (if n = 0 then Ret (ret, out, s)
      else case GetExtDataIoInfoWithAddr a (vm_vars s) of
             None \<Rightarrow> ModbusSlave_loop ev rules stk port (a + 1) (n - 1) s out ret
           | Some (info, nregs) \<Rightarrow>
               if nregs = 0 then ModbusSlave_loop ev rules stk port (a + 1) (n - 1) s out ret
               else
                 bindO (SlaveRefreshExtDataWithRegs ev rules stk a s) (\<lambda>s'.
                   ModbusSlave_loop ev rules stk port (a + of_nat nregs) (n - nregs) s'
                     (out @ forward port info a n (vm_regs s)) True))"
  by pat_completeness auto

termination by (relation "measure (\<lambda>(_, _, _, _, _, n, _). n)") auto

declare ModbusSlave_loop.simps [simp del]

definition bVarManage_RefreshExtDataWithModbusSlave ::
  "evaluator \<Rightarrow> rule_types \<Rightarrow> bytes \<Rightarrow> (u16 \<Rightarrow> u16 \<Rightarrow> u8 \<Rightarrow> int option) \<Rightarrow> u16 \<Rightarrow> u16 \<Rightarrow> vm_state \<Rightarrow>
   (bool \<times> forwarded list \<times> vm_state) outcome" where
  "bVarManage_RefreshExtDataWithModbusSlave ev rules stk port a n s = ModbusSlave_loop ev rules stk port a (unat n) s [] False"

text \<open>
  \<open>__modbus_holding_callback\<close> on the registers of variables: what was read, what is handed on, and the state.  All registers of the
  request must belong to variables.
\<close>

definition IN_EXT_DATA :: "u16 \<Rightarrow> u16 \<Rightarrow> bool" where
  "IN_EXT_DATA a n \<longleftrightarrow> USER_REG_EXT_DATA_START \<le> unat a \<and> unat a \<le> USER_REG_EXT_DATA_END \<and>
     unat a + unat n \<le> USER_REG_EXT_DATA_START + USER_REG_EXT_DATA_SIZE"

definition modbus_ext_callback ::
  "evaluator \<Rightarrow> rule_types \<Rightarrow> bytes \<Rightarrow> (u16 \<Rightarrow> u16 \<Rightarrow> u8 \<Rightarrow> int option) \<Rightarrow> bytes \<Rightarrow> u16 \<Rightarrow> u16 \<Rightarrow> bool \<Rightarrow> vm_state \<Rightarrow>
   (int \<times> bytes \<times> forwarded list \<times> vm_state) outcome" where
  "modbus_ext_callback ev rules stk port buf a n read_flag s =
     (if \<not> IN_EXT_DATA a n \<or> \<not> bVarManage_CheckContAddr a n s then Ret (- 1, [], [], s)
      else if read_flag then bindO (read_regs a (unat n) (vm_regs s)) (\<lambda>bs. Ret (0, bs, [], s))
      else bindO (refresh_regs buf 0 a (unat n) (vm_regs s)) (\<lambda>m.
           bindO (bVarManage_RefreshExtDataWithModbusSlave ev rules stk port a n (s\<lparr>vm_regs := m\<rparr>)) (\<lambda>(_, out, s).
             Ret (0, [], out, s))))"

section \<open>Answers of modbus slaves\<close>

text \<open>Which variables an answer from a register on concerns, counted in registers of the input or of the output\<close>

definition modbus_hit :: "(ext_data \<Rightarrow> nat) \<Rightarrow> u16 \<Rightarrow> u16 \<Rightarrow> u8 \<Rightarrow> u16 \<Rightarrow> nat \<Rightarrow> ext_data \<Rightarrow> bool" where
  "modbus_hit nregs dev num slave a n d \<longleftrightarrow>
     bEnable d \<and> usDevType (xIo d) = dev \<and> usDevNum (xIo d) = num \<and> modbus_btSlaveAddr (io_param (xIo d)) = slave \<and>
     unat a \<le> unat (modbus_usExtAddr (io_param (xIo d))) \<and>
     nregs d + unat (modbus_usExtAddr (io_param (xIo d))) \<le> unat a + n"

text \<open>A loop over all variables, each at its place\<close>

fun each_var :: "nat list \<Rightarrow> (nat \<Rightarrow> vm_state \<Rightarrow> vm_state outcome) \<Rightarrow> vm_state \<Rightarrow> vm_state outcome" where
  "each_var [] f s = Ret s"
| "each_var (i # is) f s = bindO (f i s) (each_var is f)"

definition master_take ::
  "evaluator \<Rightarrow> rule_types \<Rightarrow> bytes \<Rightarrow> u16 \<Rightarrow> bytes \<Rightarrow> nat \<Rightarrow> vm_state \<Rightarrow> vm_state outcome" where
  "master_take ev rules stk a buf i s =
     (let d = vm_vars s ! i; ofs = unat (modbus_usExtAddr (io_param (xIo d))) - unat a in
      bindO (refresh_regs buf (2 * int ofs) (usAddr (xIo d)) (in_nregs d) (vm_regs s)) (\<lambda>m.
        MasterRefreshExtDataWithRegs ev rules stk (usAddr (xIo d)) (s\<lparr>vm_regs := m\<rparr>)))"

definition bVarManage_RefreshExtDataWithModbusMaster ::
  "evaluator \<Rightarrow> rule_types \<Rightarrow> bytes \<Rightarrow> u16 \<Rightarrow> u16 \<Rightarrow> u8 \<Rightarrow> u16 \<Rightarrow> u16 \<Rightarrow> bytes \<Rightarrow> vm_state \<Rightarrow> vm_state outcome" where
  "bVarManage_RefreshExtDataWithModbusMaster ev rules stk dev num slave a n buf s =
     each_var [0 ..< length (vm_vars s)] (\<lambda>i s.
       if modbus_hit in_nregs dev num slave a (unat n) (vm_vars s ! i) then master_take ev rules stk a buf i s else Ret s) s"

text \<open>The other byte oriented modbus counts bytes.\<close>

definition bVarManage_RefreshExtDataWithObModbusMaster ::
  "evaluator \<Rightarrow> rule_types \<Rightarrow> bytes \<Rightarrow> u16 \<Rightarrow> u16 \<Rightarrow> u8 \<Rightarrow> u16 \<Rightarrow> u16 \<Rightarrow> bytes \<Rightarrow> vm_state \<Rightarrow> vm_state outcome" where
  "bVarManage_RefreshExtDataWithObModbusMaster ev rules stk dev num slave a n buf s =
     each_var [0 ..< length (vm_vars s)] (\<lambda>i s.
       if modbus_hit in_nregs dev num slave a ((unat n + 1) div 2) (vm_vars s ! i)
       then master_take ev rules stk a buf i s else Ret s) s"

section \<open>Devices that do not answer\<close>

definition E_ERR_OP_CLEAR :: u8 where "E_ERR_OP_CLEAR = 1"

text \<open>The error count of a variable, and when it is reached registers and value are cleared.\<close>

definition count_error :: "nat \<Rightarrow> vm_state \<Rightarrow> vm_state outcome" where
  "count_error i s =
     (let d = vm_vars s ! i; io = xIo d in
      if btErrOp io \<noteq> E_ERR_OP_CLEAR then Ret s
      else if btErrCnt io \<le> btErrNum io
           then bindO (clear_regs (usAddr io) (out_nregs d) (vm_regs s)) (\<lambda>m.
             Ret (s\<lparr>vm_vars := (vm_vars s)[i := d\<lparr>xIo := io\<lparr>xValue := replicate 8 0, btErrNum := 1\<rparr>\<rparr>], vm_regs := m\<rparr>))
           else Ret (s\<lparr>vm_vars := (vm_vars s)[i := d\<lparr>xIo := io\<lparr>btErrNum := btErrNum io + 1\<rparr>\<rparr>]\<rparr>))"

definition mark_error :: "nat \<Rightarrow> vm_state \<Rightarrow> vm_state" where
  "mark_error i s = s\<lparr>vm_vars := (vm_vars s)[i := (vm_vars s ! i)\<lparr>xIo := (xIo (vm_vars s ! i))\<lparr>bErrFlag := True\<rparr>\<rparr>]\<rparr>"

definition vVarManage_ModbusMasterTryClearExtDataWithErr :: "u16 \<Rightarrow> u16 \<Rightarrow> u8 \<Rightarrow> u16 \<Rightarrow> u16 \<Rightarrow> vm_state \<Rightarrow> vm_state outcome" where
  "vVarManage_ModbusMasterTryClearExtDataWithErr dev num slave a n s =
     each_var [0 ..< length (vm_vars s)] (\<lambda>i s.
       if modbus_hit out_nregs dev num slave a (unat n) (vm_vars s ! i)
       then bindO (count_error i s) (\<lambda>s. Ret (mark_error i s)) else Ret s) s"

text \<open>Here the number of bytes is written \<open>usNRegs + 1 / 2\<close>.\<close>

definition vVarManage_ObModbusMasterTryClearExtDataWithErr :: "u16 \<Rightarrow> u16 \<Rightarrow> u8 \<Rightarrow> u16 \<Rightarrow> u16 \<Rightarrow> vm_state \<Rightarrow> vm_state outcome" where
  "vVarManage_ObModbusMasterTryClearExtDataWithErr dev num slave a n s =
     each_var [0 ..< length (vm_vars s)] (\<lambda>i s.
       if modbus_hit out_nregs dev num slave a (unat n + 1 div 2) (vm_vars s ! i)
       then bindO (count_error i s) (\<lambda>s. Ret (mark_error i s)) else Ret s) s"

definition on_first :: "(ext_data \<Rightarrow> bool) \<Rightarrow> (nat \<Rightarrow> vm_state \<Rightarrow> vm_state outcome) \<Rightarrow> vm_state \<Rightarrow> vm_state outcome" where
  "on_first P f s = (case first_var P (vm_vars s) of None \<Rightarrow> Ret s | Some i \<Rightarrow> f i s)"

definition dlt645_hit :: "bytes \<Rightarrow> u16 \<Rightarrow> u32 \<Rightarrow> ext_data \<Rightarrow> bool" where
  "dlt645_hit da a op d \<longleftrightarrow> bEnable d \<and> dlt645_addr (io_param (xIo d)) = da \<and> usAddr (xIo d) = a \<and> dlt645_op (io_param (xIo d)) = op"

definition dust_hit :: "u16 \<Rightarrow> u8 \<Rightarrow> ext_data \<Rightarrow> bool" where
  "dust_hit a op d \<longleftrightarrow> bEnable d \<and> usAddr (xIo d) = a \<and> dust_op (io_param (xIo d)) = op"

definition mbus603_hit :: "u16 \<Rightarrow> u8 \<Rightarrow> ext_data \<Rightarrow> bool" where
  "mbus603_hit a op d \<longleftrightarrow> bEnable d \<and> usAddr (xIo d) = a \<and> mbus603_op (io_param (xIo d)) = ucast op"

definition smf_hit :: "u16 \<Rightarrow> u8 \<Rightarrow> ext_data \<Rightarrow> bool" where
  "smf_hit a op d \<longleftrightarrow> bEnable d \<and> usAddr (xIo d) = a \<and> smf_op (io_param (xIo d)) = op"

definition vVarManage_Dlt645TryClearExtDataWithErr :: "bytes \<Rightarrow> u16 \<Rightarrow> u32 \<Rightarrow> vm_state \<Rightarrow> vm_state outcome" where
  "vVarManage_Dlt645TryClearExtDataWithErr da a op =
     on_first (dlt645_hit da a op) (\<lambda>i s. bindO (count_error i s) (\<lambda>s. Ret (mark_error i s)))"

definition vVarManage_DustTryClearExtDataWithErr :: "u16 \<Rightarrow> u8 \<Rightarrow> vm_state \<Rightarrow> vm_state outcome" where
  "vVarManage_DustTryClearExtDataWithErr a op = on_first (dust_hit a op) count_error"

definition vVarManage_SmfTryClearExtDataWithErr :: "u16 \<Rightarrow> u8 \<Rightarrow> vm_state \<Rightarrow> vm_state outcome" where
  "vVarManage_SmfTryClearExtDataWithErr a op = on_first (smf_hit a op) count_error"

definition dh_request :: "u32 \<Rightarrow> u32 \<Rightarrow> ext_data \<Rightarrow> bool" where
  "dh_request sid ty d \<longleftrightarrow> bEnable d \<and> dh_sid (io_param (xIo d)) = sid \<and> dh_type (io_param (xIo d)) = ty"

definition vVarManage_DhTryClearOneExtDataWithErr :: "u16 \<Rightarrow> u32 \<Rightarrow> u32 \<Rightarrow> vm_state \<Rightarrow> vm_state outcome" where
  "vVarManage_DhTryClearOneExtDataWithErr a sid ty = on_first (\<lambda>d. usAddr (xIo d) = a \<and> dh_request sid ty d) count_error"

definition vVarManage_DhTryClearExtDataWithErr :: "u32 \<Rightarrow> u32 \<Rightarrow> vm_state \<Rightarrow> vm_state outcome" where
  "vVarManage_DhTryClearExtDataWithErr sid ty s =
     each_var [0 ..< length (vm_vars s)] (\<lambda>i s.
       if dh_request sid ty (vm_vars s ! i)
       then vVarManage_DhTryClearOneExtDataWithErr (usAddr (xIo (vm_vars s ! i))) sid ty s else Ret s) s"

section \<open>Readings of meters\<close>

text \<open>A whole number as the bytes of a type, most significant first; the other types get zeros.\<close>

fun int_buf :: "var_type \<Rightarrow> int \<Rightarrow> bytes" where
  "int_buf E_VAR_BIT i = [if i \<noteq> 0 then 1 else 0, 0, 0, 0, 0, 0, 0, 0]"
| "int_buf E_VAR_INT8 i = [of_int i, 0, 0, 0, 0, 0, 0, 0]"
| "int_buf E_VAR_UINT8 i = [of_int i, 0, 0, 0, 0, 0, 0, 0]"
| "int_buf E_VAR_INT16 i = rev (le16 (of_int i)) @ replicate 6 0"
| "int_buf E_VAR_UINT16 i = rev (le16 (of_int i)) @ replicate 6 0"
| "int_buf E_VAR_INT32 i = rev (le32 (of_int i)) @ replicate 4 0"
| "int_buf E_VAR_UINT32 i = rev (le32 (of_int i)) @ replicate 4 0"
| "int_buf _ i = replicate 8 0"

text \<open>A floating point reading: a \<open>long\<close> is made of it first, which is undefined out of range.\<close>

definition float_buf :: "var_type \<Rightarrow> fp \<Rightarrow> bytes outcome" where
  "float_buf t x =
     bindO (fp_to_int (- 0x80000000) 0x7FFFFFFF x) (\<lambda>i.
       Ret (case t of
              E_VAR_FLOAT \<Rightarrow> rev (le32 (bits_of_float (float_of_fp x))) @ replicate 4 0
            | E_VAR_DOUBLE \<Rightarrow> rev (le64 (bits_of_double x))
            | _ \<Rightarrow> int_buf t i))"

text \<open>The bytes go to at most so many registers of the variable, and the variable is refreshed.\<close>

definition meter_take ::
  "evaluator \<Rightarrow> rule_types \<Rightarrow> bytes \<Rightarrow> (ext_data \<Rightarrow> bool) \<Rightarrow> nat \<Rightarrow> u16 \<Rightarrow> (var_type \<Rightarrow> bytes outcome) \<Rightarrow> vm_state \<Rightarrow> vm_state outcome" where
  "meter_take ev rules stk P most a buf s =
     (case first_var P (vm_vars s) of
        None \<Rightarrow> Ret s
      | Some i \<Rightarrow>
          (let d = vm_vars s ! i; n = in_nregs d in
           if n = 0 then Ret s
           else bindO (buf (btInVarType (xIo d))) (\<lambda>b.
                bindO (refresh_regs b 0 a (min most n) (vm_regs s)) (\<lambda>m.
                  MasterRefreshExtDataWithRegs ev rules stk a (s\<lparr>vm_regs := m\<rparr>)))))"

definition bVarManage_RefreshExtDataWithDlt645 ::
  "evaluator \<Rightarrow> rule_types \<Rightarrow> bytes \<Rightarrow> bytes \<Rightarrow> u16 \<Rightarrow> u32 \<Rightarrow> fp \<Rightarrow> vm_state \<Rightarrow> vm_state outcome" where
  "bVarManage_RefreshExtDataWithDlt645 ev rules stk da a op x =
     meter_take ev rules stk (dlt645_hit da a op) 4 a (\<lambda>t. float_buf t x)"

definition dust_value :: "u8 \<Rightarrow> dust_data \<Rightarrow> int option" where
  "dust_value op r =
     (if op = 1 then Some (uint (PM25 r))
      else if op = 2 then Some (uint (PM10 r))
      else if op = 3 then Some (sint (PM25Sum r))
      else if op = 4 then Some (sint (PM10Sum r))
      else if op = 5 then Some (uint (PM25Num r))
      else if op = 6 then Some (uint (PM10Num r))
      else if op = 7 then Some (uint (dust_T r))
      else if op = 8 then Some (uint (dust_H r))
      else None)"

definition bVarManage_RefreshExtDataWithDust ::
  "evaluator \<Rightarrow> rule_types \<Rightarrow> bytes \<Rightarrow> u16 \<Rightarrow> u8 \<Rightarrow> dust_data \<Rightarrow> vm_state \<Rightarrow> vm_state outcome" where
  "bVarManage_RefreshExtDataWithDust ev rules stk a op r s =
     (case dust_value op r of
        None \<Rightarrow> Ret s
      | Some i \<Rightarrow> meter_take ev rules stk (dust_hit a op) 2 a (\<lambda>t. Ret (int_buf t i)) s)"

definition mbus603_value :: "u8 \<Rightarrow> mbus_result \<Rightarrow> int option" where
  "mbus603_value op r =
     (if op = 1 then Some (sint (sum_e1 r))
      else if op = 2 then Some (sint (e3 r))
      else if op = 3 then Some (sint (e8 r))
      else if op = 4 then Some (sint (e9 r))
      else if op = 5 then Some (sint (v1 r))
      else if op = 6 then Some (sint (time_sum r))
      else if op = 7 then Some (sint (T1 r))
      else if op = 8 then Some (sint (T2 r))
      else if op = 9 then Some (sint (dt r))
      else if op = 10 then Some (sint (e1_e3 r))
      else if op = 11 then Some (sint (max_month_power r))
      else if op = 12 then Some (sint (f_rate r))
      else None)"

definition bVarManage_RefreshExtDataWithMbus603 ::
  "evaluator \<Rightarrow> rule_types \<Rightarrow> bytes \<Rightarrow> u16 \<Rightarrow> u8 \<Rightarrow> mbus_result \<Rightarrow> vm_state \<Rightarrow> vm_state outcome" where
  "bVarManage_RefreshExtDataWithMbus603 ev rules stk a op r s =
     (case mbus603_value op r of
        None \<Rightarrow> Ret s
      | Some i \<Rightarrow> meter_take ev rules stk (mbus603_hit a op) 2 a (\<lambda>t. Ret (int_buf t i)) s)"

text \<open>The readings of the environment monitor, the members \<open>fval\<close> of \<open>s_instrumentData_t\<close>\<close>

record instrument =
  sensor_NO2 :: fp
  sensor_O3 :: fp
  sensor_SO2 :: fp
  sensor_CO :: fp
  PM2_5 :: fp
  PM10_val :: fp
  inter_temp :: fp
  RH :: fp
  press :: fp
  sensor_temp :: fp

definition smf_value :: "u8 \<Rightarrow> instrument \<Rightarrow> fp option" where
  "smf_value op r =
     (if op = 1 then Some (sensor_NO2 r)
      else if op = 2 then Some (sensor_O3 r)
      else if op = 3 then Some (sensor_SO2 r)
      else if op = 4 then Some (sensor_CO r)
      else if op = 5 then Some (PM2_5 r)
      else if op = 6 then Some (PM10_val r)
      else if op = 7 then Some (inter_temp r)
      else if op = 8 then Some (RH r)
      else if op = 9 then Some (press r)
      else if op = 10 then Some (sensor_temp r)
      else None)"

definition bVarManage_RefreshExtDataWithSmf ::
  "evaluator \<Rightarrow> rule_types \<Rightarrow> bytes \<Rightarrow> u16 \<Rightarrow> u8 \<Rightarrow> instrument \<Rightarrow> vm_state \<Rightarrow> vm_state outcome" where
  "bVarManage_RefreshExtDataWithSmf ev rules stk a op r s =
     (case smf_value op r of
        None \<Rightarrow> Ret s
      | Some x \<Rightarrow> meter_take ev rules stk (smf_hit a op) 2 a (\<lambda>t. float_buf t x) s)"

section \<open>Answers of a DH server\<close>

text \<open>
  An answer is a JSON object; what the code asks the JSON library for is, of each record of its array \<open>recs\<close>, the number under
  \<open>SID\<close> and under \<open>Type\<close>, -1 when there is none, and the number under a key, NaN when there is none.  No answer, or one without
  that array, is the empty list.
\<close>

record dh_record =
  rec_SID :: int
  rec_Type :: int
  rec_number :: "bytes \<Rightarrow> fp"

definition dh_get_rsp_value :: "dh_record list \<Rightarrow> int \<Rightarrow> int \<Rightarrow> bytes \<Rightarrow> fp" where
  "dh_get_rsp_value recs sid itype key =
     (case recs of
        [r] \<Rightarrow> if itype = - 1 \<or> itype = rec_Type r then rec_number r key else NaN
      | _ \<Rightarrow> (case find (\<lambda>r. (sid = - 1 \<or> sid = rec_SID r) \<and> (itype = - 1 \<or> itype = rec_Type r)) recs of
                None \<Rightarrow> NaN
              | Some r \<Rightarrow> rec_number r key))"

text \<open>A key of a variable ends at its first zero.\<close>

definition key_text :: "bytes \<Rightarrow> bytes" where
  "key_text k = takeWhile (\<lambda>c. c \<noteq> 0) k"

definition dh_hit :: "u16 \<Rightarrow> u32 \<Rightarrow> u32 \<Rightarrow> bytes \<Rightarrow> ext_data \<Rightarrow> bool" where
  "dh_hit a sid ty key d \<longleftrightarrow> bEnable d \<and> usAddr (xIo d) = a \<and> dh_sid (io_param (xIo d)) = sid \<and>
     dh_type (io_param (xIo d)) = ty \<and> key_text (dh_key (io_param (xIo d))) = key_text key"

definition bVarManage_RefreshExtDataWithDh ::
  "evaluator \<Rightarrow> rule_types \<Rightarrow> bytes \<Rightarrow> u16 \<Rightarrow> u32 \<Rightarrow> u32 \<Rightarrow> bytes \<Rightarrow> dh_record list \<Rightarrow> vm_state \<Rightarrow> vm_state outcome" where
  "bVarManage_RefreshExtDataWithDh ev rules stk a sid ty key rsp s =
     (case first_var (dh_hit a sid ty key) (vm_vars s) of
        None \<Rightarrow> Ret s
      | Some i \<Rightarrow>
          if in_nregs (vm_vars s ! i) = 0 then Ret s
          else let x = dh_get_rsp_value rsp (sint sid) (sint ty) (key_text key) in
            if x = NaN then vVarManage_DhTryClearOneExtDataWithErr a sid ty s
            else meter_take ev rules stk (dh_hit a sid ty key) 2 a (\<lambda>t. float_buf t x) s)"

definition bVarManage_RefreshExtDataListWithDh ::
  "evaluator \<Rightarrow> rule_types \<Rightarrow> bytes \<Rightarrow> u32 \<Rightarrow> u32 \<Rightarrow> dh_record list \<Rightarrow> vm_state \<Rightarrow> vm_state outcome" where
  "bVarManage_RefreshExtDataListWithDh ev rules stk sid ty rsp s =
     each_var [0 ..< length (vm_vars s)] (\<lambda>i s.
       let d = vm_vars s ! i in
       if dh_request sid ty d
       then bVarManage_RefreshExtDataWithDh ev rules stk (usAddr (xIo d)) sid ty (dh_key (io_param (xIo d))) rsp s
       else Ret s) s"

section \<open>Plain variables\<close>

text \<open>
  A variable whose value is only carried: the same type and byte order for input and output, at least 16 bits, no
  analog input, no expression.
\<close>

definition plain :: "ext_data \<Rightarrow> bool" where
  "plain d \<longleftrightarrow>
     (let io = xIo d; t = btOutVarType io in
      bEnable d \<and> btInVarType io = t \<and> btInVarRuleType io = btOutVarRuleType io \<and>
      btInVarSize io = var_type_sz t \<and> btOutVarSize io = var_type_sz t \<and>
      t \<in> {E_VAR_INT16, E_VAR_UINT16, E_VAR_INT32, E_VAR_UINT32, E_VAR_FLOAT, E_VAR_DOUBLE} \<and>
      eAttr d \<noteq> E_VAR_ATTR_AI \<and> io_exp io = Exp None)"

text \<open>The value a plain variable takes from the bytes of its registers\<close>

definition taken :: "bytes \<Rightarrow> bytes \<Rightarrow> ext_data \<Rightarrow> ext_data" where
  "taken stk raw d =
     clear_err (update_value (d\<lparr>xIo := xIo d\<lparr>
       xValue := vLittleEdianExtData (btOutVarType (xIo d)) (btOutVarRuleType (xIo d)) raw stk, bErrFlag := False\<rparr>\<rparr>))"

lemma plain_size: "plain d \<Longrightarrow> edian_size (btOutVarType (xIo d)) = 2 * out_nregs d \<and> in_nregs d = out_nregs d \<and> 0 < out_nregs d"
  by (auto simp: plain_def Let_def out_nregs_def in_nregs_def nregs_of_def)

lemma plain_settle: "plain d \<Longrightarrow> settle_value ev rules vars new old (d\<lparr>xIo := xIo d\<lparr>xValue := v, bErrFlag := b\<rparr>\<rparr>) =
    Ret (d\<lparr>xIo := xIo d\<lparr>xValue := v, bErrFlag := b\<rparr>\<rparr>)"
  by (auto simp: settle_value_def try_refresh_ai_value_def doexp_value_def doexp_exp_def plain_def Let_def)

lemma MasterRefresh_plain:
  assumes first: "first_var (\<lambda>d. var_at d (unat a)) (vm_vars s) = Some i" and d: "plain (vm_vars s ! i)"
    and mem: "2 * unat a + 2 * out_nregs (vm_vars s ! i) \<le> length (vm_regs s)"
  defines "raw \<equiv> take (2 * out_nregs (vm_vars s ! i)) (drop (2 * unat a) (vm_regs s))"
  shows "MasterRefreshExtDataWithRegs ev rules stk a s =
    Ret (s\<lparr>vm_vars := (vm_vars s)[i := taken stk raw (vm_vars s ! i)]\<rparr>)"
proof -
  let ?d = "vm_vars s ! i"
  let ?t = "btOutVarType (xIo ?d)" and ?r = "btOutVarRuleType (xIo ?d)"
  have sz: "edian_size ?t = 2 * out_nregs ?d" using plain_size [OF d] by simp
  have in_out: "btInVarType (xIo ?d) = ?t" "btInVarRuleType (xIo ?d) = ?r" using d by (auto simp: plain_def Let_def)
  have lraw: "length raw = edian_size ?t" using mem by (simp add: raw_def sz)
  let ?new = "vLittleEdianExtData ?t ?r raw stk"
  have load: "load_value ?t ?r a stk (vm_regs s) = Ret ?new"
    using mem by (simp add: load_value_def copy_out_reg sz raw_def)
  have v: "take (edian_size ?t) ?new = edian ?t ?r raw"
    using lraw by (simp add: vLittleEdianExtData_def vBigEdianExtData_def)
  let ?e = "?d\<lparr>xIo := xIo ?d\<lparr>xValue := ?new, bErrFlag := False\<rparr>\<rparr>"
  have "store_regs a ?e (vm_regs s) = Ret (vm_regs s)"
  proof -
    have "edian ?t ?r (take (edian_size ?t) ?new) = raw" by (simp only: v edian_involution [OF lraw])
    moreover have "take (length raw) (drop (2 * unat a) (vm_regs s)) = raw" using mem by (simp add: raw_def)
    ultimately show ?thesis using mem lraw by (simp add: store_regs_def Let_def copy_in_reg overlay_same sz)
  qed
  then show ?thesis
    by (simp add: MasterRefreshExtDataWithRegs_def first Let_def in_out load do_set_out_value_def plain_settle [OF d] taken_def)
qed

section \<open>Answers to a list of plain variables\<close>

definition own_regs :: "ext_data \<Rightarrow> nat set" where
  "own_regs d = {ext_addr d ..< ext_addr d + out_nregs d}"

definition apart :: "ext_data \<Rightarrow> ext_data \<Rightarrow> bool" where
  "apart d e \<longleftrightarrow> (bEnable d \<longrightarrow> bEnable e \<longrightarrow> own_regs d \<inter> own_regs e = {})"

text \<open>The bytes of an answer that belong to a variable\<close>

definition answer_part :: "bytes \<Rightarrow> u16 \<Rightarrow> ext_data \<Rightarrow> bytes" where
  "answer_part buf a d = take (2 * in_nregs d) (drop (2 * (unat (modbus_usExtAddr (io_param (xIo d))) - unat a)) buf)"

definition put_part :: "bytes \<Rightarrow> u16 \<Rightarrow> ext_data \<Rightarrow> bytes \<Rightarrow> bytes" where
  "put_part buf a d = overlay (2 * ext_addr d) (answer_part buf a d)"

lemma nth_overlay:
  "k + length bs \<le> length m \<Longrightarrow> j < length m \<Longrightarrow>
   overlay k bs m ! j = (if k \<le> j \<and> j < k + length bs then bs ! (j - k) else m ! j)"
  by (auto simp: overlay_def nth_append not_less)

lemma taken_shape [simp]: "bEnable (taken stk raw d) = bEnable d" "ext_addr (taken stk raw d) = ext_addr d"
    "out_nregs (taken stk raw d) = out_nregs d"
  by (simp_all add: taken_def clear_err_def update_value_def out_nregs_def split: option.splits)

lemma apart_taken [simp]: "apart (taken stk raw d) e = apart d e" "apart e (taken stk raw d) = apart e d"
  by (simp_all add: apart_def own_regs_def)

lemma var_at_own: "var_at d r \<longleftrightarrow> bEnable d \<and> r \<in> own_regs d"
  by (auto simp: var_at_def own_regs_def)

lemma first_var_apart:
  assumes "sorted_wrt apart (ps @ x # xs)" "plain x"
  shows "first_var (\<lambda>d. var_at d (ext_addr x)) (ps @ x # xs) = Some (length ps)"
proof (rule first_varI)
  have x: "bEnable x" "ext_addr x \<in> own_regs x" using assms(2) plain_size [OF assms(2)] by (auto simp: plain_def Let_def own_regs_def)
  then show "var_at ((ps @ x # xs) ! length ps) (ext_addr x)" by (simp add: var_at_own)
  fix j assume j: "j < length ps"
  then have "apart (ps ! j) x" using assms(1) by (simp add: sorted_wrt_append)
  then show "\<not> var_at ((ps @ x # xs) ! j) (ext_addr x)" using x j by (auto simp: var_at_own apart_def nth_append)
qed simp

lemma answer_length:
  "modbus_hit in_nregs dev num slave a (unat n) d \<Longrightarrow> length buf = 2 * unat n \<Longrightarrow> length (answer_part buf a d) = 2 * in_nregs d"
  by (auto simp: modbus_hit_def answer_part_def)

lemma master_take_plain:
  assumes x: "plain x" "modbus_hit in_nregs dev num slave a (unat n) x" "ext_addr x + out_nregs x \<le> MODBUS_REGS_COUNT"
    and ps: "sorted_wrt apart (ps @ x # xs)" and m: "length m = 2 * MODBUS_REGS_COUNT" and buf: "length buf = 2 * unat n"
  shows "master_take ev rules stk a buf (length ps) (s\<lparr>vm_vars := ps @ x # xs, vm_regs := m\<rparr>) =
    Ret (s\<lparr>vm_vars := ps @ taken stk (answer_part buf a x) x # xs, vm_regs := put_part buf a x m\<rparr>)"
proof -
  let ?ofs = "unat (modbus_usExtAddr (io_param (xIo x))) - unat a"
  have sz: "in_nregs x = out_nregs x" "0 < in_nregs x" using plain_size [OF x(1)] by simp_all
  have l: "length (answer_part buf a x) = 2 * in_nregs x" by (rule answer_length [OF x(2) buf])
  have "2 * ?ofs + 2 * in_nregs x \<le> length buf" using x(2) buf by (auto simp: modbus_hit_def)
  then have o: "copy_out buf (2 * int ?ofs) (2 * in_nregs x) = Ret (answer_part buf a x)"
    using copy_out_nat [of "2 * ?ofs" "2 * in_nregs x" buf] by (simp add: answer_part_def)
  have fit: "2 * ext_addr x + length (answer_part buf a x) \<le> length m" using x(3) m l sz by simp
  have r: "refresh_regs buf (2 * int ?ofs) (usAddr (xIo x)) (in_nregs x) m = Ret (put_part buf a x m)"
    using sz(2) fit unfolding refresh_regs_def o by (simp add: copy_in_reg put_part_def)
  have "length (put_part buf a x m) = length m" using fit by (simp add: put_part_def)
  moreover have "take (2 * out_nregs x) (drop (2 * ext_addr x) (put_part buf a x m)) = answer_part buf a x"
    using fit l sz by (simp add: put_part_def take_drop_overlay)
  ultimately show ?thesis
    using MasterRefresh_plain [of "usAddr (xIo x)" "s\<lparr>vm_vars := ps @ x # xs, vm_regs := put_part buf a x m\<rparr>" "length ps" ev rules stk]
      first_var_apart [OF ps x(1)] x(1) fit l sz
    by (simp add: master_take_def r [unfolded sz(1)])
qed

lemma master_loop:
  fixes dev num a n :: u16 and slave :: u8
  defines "hit \<equiv> modbus_hit in_nregs dev num slave a (unat n)"
  assumes buf: "length buf = 2 * unat n"
  shows "list_all (\<lambda>d. hit d \<longrightarrow> plain d \<and> ext_addr d + out_nregs d \<le> MODBUS_REGS_COUNT) xs \<Longrightarrow>
    sorted_wrt apart (ps @ xs) \<Longrightarrow> length m = 2 * MODBUS_REGS_COUNT \<Longrightarrow>
    each_var [length ps ..< length ps + length xs]
      (\<lambda>i s. if hit (vm_vars s ! i) then master_take ev rules stk a buf i s else Ret s) (s\<lparr>vm_vars := ps @ xs, vm_regs := m\<rparr>) =
    Ret (s\<lparr>vm_vars := ps @ map (\<lambda>d. if hit d then taken stk (answer_part buf a d) d else d) xs,
           vm_regs := fold (put_part buf a) (filter hit xs) m\<rparr>)"
proof (induction xs arbitrary: ps m)
  case (Cons x xs)
  have up: "[length ps ..< Suc (length ps + length xs)] = length ps # [Suc (length ps) ..< Suc (length ps + length xs)]"
    by (simp add: upt_conv_Cons del: upt_Suc)
  show ?case
  proof (cases "hit x")
    case True
    let ?x = "taken stk (answer_part buf a x) x"
    have x: "plain x" "ext_addr x + out_nregs x \<le> MODBUS_REGS_COUNT" using True Cons.prems(1) by simp_all
    have "length (put_part buf a x m) = 2 * MODBUS_REGS_COUNT"
      using x(2) plain_size [OF x(1)] answer_length [OF True [unfolded hit_def] buf] Cons.prems(3) by (simp add: put_part_def)
    then show ?thesis
      using Cons.IH [of "ps @ [?x]" "put_part buf a x m"] Cons.prems True
        master_take_plain [OF x(1) True [unfolded hit_def] x(2) Cons.prems(2,3) buf, of ev rules stk s]
      by (simp add: up sorted_wrt_append del: upt_Suc)
  next
    case False
    then show ?thesis using Cons.IH [of "ps @ [x]" m] Cons.prems by (simp add: up del: upt_Suc)
  qed
qed simp

lemma length_fold_put_part:
  "\<forall>d \<in> set xs. 2 * ext_addr d + length (answer_part buf a d) \<le> length m \<Longrightarrow> length (fold (put_part buf a) xs m) = length m"
proof (induction xs arbitrary: m)
  case (Cons x xs)
  then show ?case using Cons.IH [of "put_part buf a x m"] by (simp add: put_part_def)
qed simp

lemma fold_put_part_other:
  assumes "\<forall>d \<in> set xs. 2 * ext_addr d + length (answer_part buf a d) \<le> length m \<and> \<not> (2 * ext_addr d \<le> j \<and> j < 2 * ext_addr d + length (answer_part buf a d))"
    and "j < length m"
  shows "fold (put_part buf a) xs m ! j = m ! j"
  using assms
proof (induction xs arbitrary: m)
  case (Cons x xs)
  then have "put_part buf a x m ! j = m ! j" "length (put_part buf a x m) = length m"
    by (auto simp: put_part_def nth_overlay)
  then show ?case using Cons.IH [of "put_part buf a x m"] Cons.prems by simp
qed simp

lemma fold_put_part_own:
  assumes "\<forall>d \<in> set xs. bEnable d \<and> ext_addr d + out_nregs d \<le> MODBUS_REGS_COUNT \<and> length (answer_part buf a d) = 2 * out_nregs d"
    and "sorted_wrt apart xs" "length m = 2 * MODBUS_REGS_COUNT" "d \<in> set xs" "j < 2 * out_nregs d"
  shows "fold (put_part buf a) xs m ! (2 * ext_addr d + j) = answer_part buf a d ! j"
  using assms
proof (induction xs arbitrary: m)
  case (Cons x xs)
  have m': "length (put_part buf a x m) = 2 * MODBUS_REGS_COUNT" using Cons.prems(1,3) by (simp add: put_part_def)
  show ?case
  proof (cases "d \<in> set xs")
    case True
    then show ?thesis using Cons.IH [OF _ _ m' True] Cons.prems by simp
  next
    case False
    then have d: "d = x" using Cons.prems(4) by simp
    have "2 * ext_addr e + 2 * out_nregs e \<le> 2 * MODBUS_REGS_COUNT \<and> \<not> (2 * ext_addr e \<le> 2 * ext_addr d + j \<and> 2 * ext_addr d + j < 2 * ext_addr e + 2 * out_nregs e)"
      if e: "e \<in> set xs" for e
    proof -
      have "own_regs d \<inter> own_regs e = {}" using e Cons.prems(1,2) d by (auto simp: apart_def)
      moreover have "ext_addr d + j div 2 \<in> own_regs d" using Cons.prems(5) by (simp add: own_regs_def)
      ultimately have "ext_addr d + j div 2 \<notin> own_regs e" by blast
      moreover have "ext_addr e + out_nregs e \<le> MODBUS_REGS_COUNT" using e Cons.prems(1) by simp
      ultimately show ?thesis by (auto simp: own_regs_def)
    qed
    then have "fold (put_part buf a) xs (put_part buf a x m) ! (2 * ext_addr d + j) = put_part buf a x m ! (2 * ext_addr d + j)"
      using Cons.prems(1,3,5) m' d by (intro fold_put_part_other) (auto simp: put_part_def)
    moreover have "put_part buf a x m ! (2 * ext_addr d + j) = answer_part buf a d ! j"
      using Cons.prems(1,3,5) d by (simp add: put_part_def nth_overlay)
    ultimately show ?thesis by simp
  qed
qed simp

lemma modbus_answer_hits:
  fixes dev num a n :: u16 and slave :: u8
  defines "hit \<equiv> modbus_hit in_nregs dev num slave a (unat n)"
  assumes vars: "list_all (\<lambda>d. hit d \<longrightarrow> plain d \<and> ext_addr d + out_nregs d \<le> MODBUS_REGS_COUNT) (vm_vars s)"
    and apart: "sorted_wrt apart (vm_vars s)" and regs: "length (vm_regs s) = 2 * MODBUS_REGS_COUNT" and buf: "length buf = 2 * unat n"
  shows "\<exists>m. bVarManage_RefreshExtDataWithModbusMaster ev rules stk dev num slave a n buf s =
      Ret (s\<lparr>vm_vars := map (\<lambda>d. if hit d then taken stk (answer_part buf a d) d else d) (vm_vars s), vm_regs := m\<rparr>) \<and>
    (\<forall>d \<in> set (vm_vars s). hit d \<longrightarrow> read_regs (usAddr (xIo d)) (out_nregs d) m = Ret (answer_part buf a d)) \<and>
    (\<forall>j < 2 * MODBUS_REGS_COUNT. (\<forall>d \<in> set (vm_vars s). hit d \<longrightarrow> j div 2 \<notin> own_regs d) \<longrightarrow> m ! j = vm_regs s ! j)"
proof (intro exI conjI ballI allI impI)
  let ?hits = "filter hit (vm_vars s)"
  let ?m = "fold (put_part buf a) ?hits (vm_regs s)"
  show "bVarManage_RefreshExtDataWithModbusMaster ev rules stk dev num slave a n buf s =
      Ret (s\<lparr>vm_vars := map (\<lambda>d. if hit d then taken stk (answer_part buf a d) d else d) (vm_vars s), vm_regs := ?m\<rparr>)"
    using master_loop [OF buf, of dev num slave a "vm_vars s" "[]" "vm_regs s" ev rules stk s] vars apart regs
    by (simp add: bVarManage_RefreshExtDataWithModbusMaster_def hit_def)
  have h: "bEnable d \<and> ext_addr d + out_nregs d \<le> MODBUS_REGS_COUNT \<and> length (answer_part buf a d) = 2 * out_nregs d \<and> 0 < out_nregs d"
    if "d \<in> set ?hits" for d
  proof -
    have "plain d" "ext_addr d + out_nregs d \<le> MODBUS_REGS_COUNT" using vars that by (auto simp: list_all_iff)
    then show ?thesis using plain_size [of d] answer_length [OF _ buf, of dev num slave a d] that
      by (auto simp: plain_def Let_def hit_def)
  qed
  have len: "length ?m = 2 * MODBUS_REGS_COUNT"
    using length_fold_put_part [of ?hits buf a "vm_regs s"] h regs by fastforce
  have m: "?m ! j = vm_regs s ! j"
    if "j < 2 * MODBUS_REGS_COUNT" "\<forall>d \<in> set ?hits. j div 2 \<notin> own_regs d" for j
  proof -
    have "2 * ext_addr d + length (answer_part buf a d) \<le> length (vm_regs s) \<and>
        \<not> (2 * ext_addr d \<le> j \<and> j < 2 * ext_addr d + length (answer_part buf a d))" if "d \<in> set ?hits" for d
      using h [OF that] that \<open>\<forall>d \<in> set ?hits. j div 2 \<notin> own_regs d\<close> regs by (auto simp: own_regs_def)
    then show ?thesis using fold_put_part_other [of ?hits buf a "vm_regs s" j] that(1) regs by simp
  qed
  { fix j assume "j < 2 * MODBUS_REGS_COUNT" "\<forall>d \<in> set (vm_vars s). hit d \<longrightarrow> j div 2 \<notin> own_regs d"
    then show "?m ! j = vm_regs s ! j" using m by simp }
  fix d assume d: "d \<in> set (vm_vars s)" "hit d"
  from d have dh: "d \<in> set ?hits" by simp
  note hd = h [OF dh]
  have "sorted_wrt apart ?hits" by (rule sorted_wrt_filter) (rule apart)
  from fold_put_part_own [OF _ this regs dh, of buf a] h
  have "?m ! (2 * ext_addr d + j) = answer_part buf a d ! j" if "j < 2 * out_nregs d" for j using that by simp
  then have part: "take (2 * out_nregs d) (drop (2 * ext_addr d) ?m) = answer_part buf a d"
  proof (intro nth_equalityI)
    have "2 * out_nregs d \<le> 2 * MODBUS_REGS_COUNT - 2 * ext_addr d" using hd by linarith
    then show "length (take (2 * out_nregs d) (drop (2 * ext_addr d) ?m)) = length (answer_part buf a d)"
      using hd len by (simp add: min_absorb2)
  qed (use hd len in simp)
  then show "read_regs (usAddr (xIo d)) (out_nregs d) ?m = Ret (answer_part buf a d)"
    using hd len part by (simp add: read_regs_def copy_out_reg)
qed

text \<open>
  Which variables an answer of a slave is for: those enabled for the device, its port and the slave, whose registers at the
  slave are all in the answer
\<close>

definition meant_for :: "u16 \<Rightarrow> u16 \<Rightarrow> u8 \<Rightarrow> nat set \<Rightarrow> ext_data \<Rightarrow> bool" where
  "meant_for dev num slave R d \<longleftrightarrow>
     bEnable d \<and> (usDevType (xIo d), usDevNum (xIo d), modbus_btSlaveAddr (io_param (xIo d))) = (dev, num, slave) \<and>
     (\<lambda>k. unat (modbus_usExtAddr (io_param (xIo d))) + k) ` {..< in_nregs d} \<subseteq> R"

lemma hit_meant:
  assumes "0 < in_nregs d"
  shows "modbus_hit in_nregs dev num slave a k d \<longleftrightarrow> meant_for dev num slave {unat a ..< unat a + k} d"
proof -
  let ?e = "unat (modbus_usExtAddr (io_param (xIo d)))"
  have "(\<lambda>i. ?e + i) ` {..< in_nregs d} = {?e ..< ?e + in_nregs d}"
    using image_add_atLeastLessThan [of ?e 0 "in_nregs d"] by (simp add: atLeast0LessThan add.commute)
  then show ?thesis using assms by (auto simp: modbus_hit_def meant_for_def)
qed

lemma hit_meant0: "modbus_hit in_nregs dev num slave a k d \<Longrightarrow> meant_for dev num slave {unat a ..< unat a + k} d"
  by (auto simp: modbus_hit_def meant_for_def)



section \<open>Devices that do not answer\<close>

fun err_times :: "nat \<Rightarrow> nat \<Rightarrow> vm_state \<Rightarrow> vm_state outcome" where
  "err_times 0 i s = Ret s"
| "err_times (Suc k) i s = bindO (err_times k i s) (count_error i)"

definition set_errs :: "u8 \<Rightarrow> ext_data \<Rightarrow> ext_data" where
  "set_errs k d = d\<lparr>xIo := xIo d\<lparr>btErrNum := k\<rparr>\<rparr>"

text \<open>
  Claim C31.  A variable with the clearing mode keeps its value for as many errors in a row as are configured, and counts them; the next
  error sets value and registers to 0 and the count to 1.
\<close>

theorem vm_error_clears:
  assumes i: "i < length (vm_vars s)" "d = vm_vars s ! i" "btErrOp (xIo d) = E_ERR_OP_CLEAR" "btErrNum (xIo d) = 0"
    and mem: "2 * (ext_addr d + out_nregs d) \<le> length (vm_regs s)" "0 < out_nregs d"
  shows "(\<forall>k \<le> unat (btErrCnt (xIo d)). err_times k i s = Ret (s\<lparr>vm_vars := (vm_vars s)[i := set_errs (of_nat k) d]\<rparr>)) \<and>
    err_times (Suc (unat (btErrCnt (xIo d)))) i s =
      Ret (s\<lparr>vm_vars := (vm_vars s)[i := set_errs 1 (set_value (replicate 8 0) d)],
             vm_regs := overlay (2 * ext_addr d) (replicate (2 * out_nregs d) 0) (vm_regs s)\<rparr>)"
proof -
  have upto: "err_times k i s = Ret (s\<lparr>vm_vars := (vm_vars s)[i := set_errs (of_nat k) d]\<rparr>)"
    if "k \<le> unat (btErrCnt (xIo d))" for k
    using that
  proof (induction k)
    case 0
    have "set_errs 0 d = d" using i(4) by (simp add: set_errs_def)
    then show ?case using i(1,2) by simp
  next
    case (Suc k)
    have "unat (btErrCnt (xIo d)) < 2 ^ LENGTH(8)" by (rule unsigned_less)
    then have "unat (of_nat k :: u8) = k" using Suc.prems by (intro unat_of_nat_small') simp
    then have "\<not> btErrCnt (xIo d) \<le> of_nat k" using Suc.prems by (simp add: word_le_nat_alt)
    then show ?case using Suc i by (simp add: count_error_def Let_def set_errs_def add.commute)
  qed
  then show ?thesis
    using upto [of "unat (btErrCnt (xIo d))"] i mem
    by (simp add: count_error_def Let_def set_errs_def set_value_def clear_regs_def copy_in_reg out_nregs_def)
qed

lemma vm_error_clears_witness:
  "let d = (sample_var [1] E_VAR_INT16 1024)\<lparr>xIo := (xIo (sample_var [1] E_VAR_INT16 1024))\<lparr>btErrOp := 1, btErrCnt := 2\<rparr>\<rparr>
   in err_times 3 0 \<lparr>vm_vars = [d], vm_regs = replicate 2060 5, vm_flags = []\<rparr> =
      Ret \<lparr>vm_vars = [set_errs 1 (set_value (replicate 8 0) d)], vm_regs = overlay 2048 [0, 0] (replicate 2060 5), vm_flags = []\<rparr>"
proof -
  let ?d = "(sample_var [1] E_VAR_INT16 1024)\<lparr>xIo := (xIo (sample_var [1] E_VAR_INT16 1024))\<lparr>btErrOp := 1, btErrCnt := 2\<rparr>\<rparr>"
  have d: "btErrOp (xIo ?d) = E_ERR_OP_CLEAR" "btErrNum (xIo ?d) = 0" "ext_addr ?d = 1024" "out_nregs ?d = 1" "unat (btErrCnt (xIo ?d)) = 2"
    by (simp_all add: E_ERR_OP_CLEAR_def sample_var_def out_nregs_def nregs_of_def)
  have "err_times (Suc 2) 0 \<lparr>vm_vars = [?d], vm_regs = replicate 2060 5, vm_flags = []\<rparr> =
      Ret \<lparr>vm_vars = [set_errs 1 (set_value (replicate 8 0) ?d)], vm_regs = overlay 2048 (replicate 2 0) (replicate 2060 5), vm_flags = []\<rparr>"
    using vm_error_clears [of 0 "\<lparr>vm_vars = [?d], vm_regs = replicate 2060 5, vm_flags = []\<rparr>" ?d] d
    by (simp del: err_times.simps)
  then show ?thesis by (simp add: numeral_eq_Suc del: err_times.simps)
qed

section \<open>Readings of DL/T 645 meters\<close>

lemma fp_to_long: "\<bar>x\<bar> < 2 ^ 31 \<Longrightarrow> \<exists>i. fp_to_int (- 0x80000000) 0x7FFFFFFF (Num x) = Ret i"
proof -
  assume x: "\<bar>x\<bar> < 2 ^ 31"
  define n where "n = \<lfloor>\<bar>x\<bar>\<rfloor>"
  have n: "0 \<le> n" "n < 2 ^ 31" using x by (simp_all add: n_def floor_less_iff)
  have "(if x < 0 then - \<lfloor>- x\<rfloor> else \<lfloor>x\<rfloor>) = (if x < 0 then - n else n)" by (simp add: n_def)
  then show ?thesis using n by (simp add: Let_def)
qed



end
