(* ===== verification/Ext_Typing.thy ===== *)
theory Ext_Typing
  imports Ext_Sources
begin

text \<open>
  The state of the variable manager while readings come in.  Every function of \<open>drivers/varmanage/varmanage.c\<close> through which a reading, or
  the lack of one, reaches the variables is a step: modbus masters that write registers (with the register callback of \<open>user_mb_app.c\<close>), middle
  variables, modbus slaves, meters, sensors, the environment monitor, DH servers, and each of the functions that clear the variables of
  a device without answer, called or not; what no sequence of steps changes is the shape
  of the state, the configuration of every variable, which registers belong to variables and the system registers below them.
\<close>

section \<open>Steps\<close>

inductive vm_step :: "evaluator \<Rightarrow> rule_types \<Rightarrow> vm_state \<Rightarrow> vm_state \<Rightarrow> bool" for ev rules where
  written: "length stk = 8 \<Longrightarrow> bVarManage_RefreshExtDataWithModbusSlave ev rules stk port a n s = Ret (r, out, s') \<Longrightarrow>
    vm_step ev rules s s'"
| served: "length stk = 8 \<Longrightarrow> modbus_ext_callback ev rules stk port buf a n rf s = Ret (e, bs, out, s') \<Longrightarrow> vm_step ev rules s s'"
| middle: "length stk = 8 \<Longrightarrow> SlaveRefreshExtDataWithRegs ev rules stk a s = Ret s' \<Longrightarrow> vm_step ev rules s s'"
| modbus: "length stk = 8 \<Longrightarrow> bVarManage_RefreshExtDataWithModbusMaster ev rules stk dev num slave a n buf s = Ret s' \<Longrightarrow>
    vm_step ev rules s s'"
| ob_modbus: "length stk = 8 \<Longrightarrow> bVarManage_RefreshExtDataWithObModbusMaster ev rules stk dev num slave a n buf s = Ret s' \<Longrightarrow>
    vm_step ev rules s s'"
| dlt645: "length stk = 8 \<Longrightarrow> bVarManage_RefreshExtDataWithDlt645 ev rules stk da a di x s = Ret s' \<Longrightarrow> vm_step ev rules s s'"
| dust: "length stk = 8 \<Longrightarrow> bVarManage_RefreshExtDataWithDust ev rules stk a op rdust s = Ret s' \<Longrightarrow> vm_step ev rules s s'"
| mbus603: "length stk = 8 \<Longrightarrow> bVarManage_RefreshExtDataWithMbus603 ev rules stk a op rmbus s = Ret s' \<Longrightarrow> vm_step ev rules s s'"
| smf: "length stk = 8 \<Longrightarrow> bVarManage_RefreshExtDataWithSmf ev rules stk a op rsmf s = Ret s' \<Longrightarrow> vm_step ev rules s s'"
| dh: "length stk = 8 \<Longrightarrow> bVarManage_RefreshExtDataListWithDh ev rules stk sid ty recs s = Ret s' \<Longrightarrow> vm_step ev rules s s'"
| dh_one: "length stk = 8 \<Longrightarrow> bVarManage_RefreshExtDataWithDh ev rules stk a sid ty key recs s = Ret s' \<Longrightarrow> vm_step ev rules s s'"
| modbus_silent: "vVarManage_ModbusMasterTryClearExtDataWithErr dev num slave a n s = Ret s' \<Longrightarrow> vm_step ev rules s s'"
| ob_modbus_silent: "vVarManage_ObModbusMasterTryClearExtDataWithErr dev num slave a n s = Ret s' \<Longrightarrow> vm_step ev rules s s'"
| dlt645_silent: "vVarManage_Dlt645TryClearExtDataWithErr da a di s = Ret s' \<Longrightarrow> vm_step ev rules s s'"
| dust_silent: "vVarManage_DustTryClearExtDataWithErr a op s = Ret s' \<Longrightarrow> vm_step ev rules s s'"
| smf_silent: "vVarManage_SmfTryClearExtDataWithErr a op s = Ret s' \<Longrightarrow> vm_step ev rules s s'"
| dh_silent: "vVarManage_DhTryClearExtDataWithErr sid ty s = Ret s' \<Longrightarrow> vm_step ev rules s s'"
| dh_one_silent: "vVarManage_DhTryClearOneExtDataWithErr a sid ty s = Ret s' \<Longrightarrow> vm_step ev rules s s'"

text \<open>A variable without what readings change\<close>

definition avg_config :: "var_avg \<Rightarrow> var_avg" where
  "avg_config a = a\<lparr>va_count := 0, val_avg := Num 0, val_cur := Num 0\<rparr>"

definition io_config :: "ext_io \<Rightarrow> ext_io" where
  "io_config io = io\<lparr>xValue := [], btErrNum := 0, bErrFlag := False\<rparr>"

definition var_config :: "ext_data \<Rightarrow> ext_data" where
  "var_config d = d\<lparr>xIo := io_config (xIo d), xAvgReal := avg_config (xAvgReal d), xAvgMin := avg_config (xAvgMin d),
     xAvgHour := avg_config (xAvgHour d),
     xAttach := \<lparr>eng_unit = 0, adc_measure = Num 0, binary_unit = 0, percent_unit = Num 0, meter_unit = Num 0\<rparr>\<rparr>"

definition var_typed :: "ext_data \<Rightarrow> bool" where
  "var_typed d \<longleftrightarrow> length (xValue (xIo d)) = 8 \<and> USER_REG_EXT_DATA_START \<le> ext_addr d"

definition vm_typed :: "vm_state \<Rightarrow> bool" where
  "vm_typed s \<longleftrightarrow> length (vm_regs s) = 2 * MODBUS_REGS_COUNT \<and> vm_flags s = RefreshRegsFlag (vm_vars s) \<and>
     (\<forall>d \<in> set (vm_vars s). var_typed d)"

definition kept :: "vm_state \<Rightarrow> vm_state \<Rightarrow> bool" where
  "kept s s' \<longleftrightarrow> vm_typed s' \<and> map var_config (vm_vars s') = map var_config (vm_vars s) \<and>
     take (2 * USER_REG_EXT_DATA_START) (vm_regs s') = take (2 * USER_REG_EXT_DATA_START) (vm_regs s)"

section \<open>What a variable keeps\<close>

definition same_var :: "ext_data \<Rightarrow> ext_data \<Rightarrow> bool" where
  "same_var d d' \<longleftrightarrow> var_config d' = var_config d \<and> var_typed d'"

lemmas var_config_defs = var_config_def io_config_def avg_config_def

lemma config_fields:
  assumes "var_config d' = var_config d"
  shows "bEnable d' = bEnable d" "ext_addr d' = ext_addr d" "out_nregs d' = out_nregs d" "btOutVarType (xIo d') = btOutVarType (xIo d)"
    "usAddr (xIo d') = usAddr (xIo d)"
  using arg_cong [OF assms, of bEnable] arg_cong [OF assms, of "\<lambda>d. usAddr (xIo d)"] arg_cong [OF assms, of out_nregs]
    arg_cong [OF assms, of "\<lambda>d. btOutVarType (xIo d)"]
  by (simp_all add: var_config_defs out_nregs_def)

lemma var_config_update:
  "var_config (set_value v d) = var_config d" "var_config (clear_err d) = var_config d" "var_config (update_value d) = var_config d"
  "var_config (d\<lparr>xIo := xIo d\<lparr>xValue := v, bErrFlag := b\<rparr>\<rparr>) = var_config d"
  "var_config (d\<lparr>xIo := xIo d\<lparr>xValue := v, btErrNum := n\<rparr>\<rparr>) = var_config d"
  "var_config (d\<lparr>xIo := xIo d\<lparr>btErrNum := n\<rparr>\<rparr>) = var_config d"
  "var_config (d\<lparr>xIo := xIo d\<lparr>bErrFlag := b\<rparr>\<rparr>) = var_config d"
  "var_config (d\<lparr>xAttach := adc\<rparr>) = var_config d"
  by (simp_all add: var_config_defs set_value_def clear_err_def update_value_def avg_update_def split: option.splits)

lemma xValue_update [simp]:
  "xValue (xIo (set_value v d)) = v" "xValue (xIo (clear_err d)) = xValue (xIo d)" "xValue (xIo (update_value d)) = xValue (xIo d)"
  by (simp_all add: set_value_def clear_err_def update_value_def split: option.splits)

lemma same_varI: "var_config d' = var_config d \<Longrightarrow> var_typed d \<Longrightarrow> length (xValue (xIo d')) = 8 \<Longrightarrow> same_var d d'"
  using config_fields [of d' d] by (simp add: same_var_def var_typed_def)

lemma same_var_trans: "same_var d d' \<Longrightarrow> same_var d' d'' \<Longrightarrow> same_var d d''"
  by (simp add: same_var_def)

lemma same_varD: "same_var d d' \<Longrightarrow> var_typed d' \<and> length (xValue (xIo d')) = 8"
  by (simp add: same_var_def var_typed_def)

lemma same_set_value: "var_typed d \<Longrightarrow> length v = 8 \<Longrightarrow> same_var d (set_value v d)"
  by (rule same_varI) (simp_all add: var_config_update)

lemma same_refl: "var_typed d \<Longrightarrow> same_var d d"
  by (simp add: same_var_def)

lemma same_set_ext:
  assumes "set_ext_value t x (xValue (xIo d)) = Ret r" "var_typed d"
  shows "same_var d (case r of None \<Rightarrow> d | Some v \<Rightarrow> set_value v d)"
  using assms set_ext_value_length [of t x "xValue (xIo d)"]
  by (auto simp: var_typed_def intro!: same_set_value same_refl split: option.splits)

lemma same_set_ext_Some: "set_ext_value t x (xValue (xIo d)) = Ret (Some v) \<Longrightarrow> var_typed d \<Longrightarrow> same_var d (set_value v d)"
  using same_set_ext [of t x d "Some v"] by simp

lemma do_set_out_same: "do_set_out_value d t = Ret d' \<Longrightarrow> var_typed d \<Longrightarrow> same_var d d'"
  by (auto simp: do_set_out_value_def same_refl intro: same_set_ext_Some split: if_splits option.splits)

lemma try_refresh_ai_same:
  assumes "try_refresh_ai_value d = Ret d'" "var_typed d"
  shows "same_var d d'"
proof (cases "eAttr d = E_VAR_ATTR_AI")
  case True
  then obtain r where r: "calc_adc_value d = Ret r" and
    d': "(case r of None \<Rightarrow> Ret d | Some (x, d) \<Rightarrow> bindO (set_ext_value (btOutVarType (xIo d)) x (xValue (xIo d))) (\<lambda>v.
            Ret (case v of None \<Rightarrow> d | Some v \<Rightarrow> set_value v d))) = Ret d'"
    using assms(1) by (auto simp: try_refresh_ai_value_def)
  show ?thesis
  proof (cases r)
    case None
    then show ?thesis using d' assms(2) by (simp add: same_refl)
  next
    case (Some p)
    then obtain x adc where p: "p = (x, d\<lparr>xAttach := adc\<rparr>)"
      using r by (auto simp: calc_adc_value_def Let_def split: option.splits)
    have "same_var d (d\<lparr>xAttach := adc\<rparr>)" using assms(2) by (intro same_varI) (simp_all add: var_config_update var_typed_def)
    then show ?thesis using d' Some p same_set_ext [of _ x "d\<lparr>xAttach := adc\<rparr>"]
      by (auto dest: same_varD intro: same_var_trans)
  qed
qed (use assms in \<open>simp add: try_refresh_ai_value_def same_refl\<close>)

lemma doexp_update_same: "doexp_update_val d x = Ret (c, d') \<Longrightarrow> var_typed d \<Longrightarrow> same_var d d'"
  using same_set_ext [of "btOutVarType (xIo d)" x d] by (auto simp: doexp_update_val_def same_refl split: option.splits)

lemma doexp_text_same: "doexp_text ev vars e d = Ret (c, d') \<Longrightarrow> var_typed d \<Longrightarrow> same_var d d'"
  by (auto simp: doexp_text_def same_refl intro: doexp_update_same split: option.splits if_splits)

lemma doexp_same: "doexp_value ev rules vars d = Ret (c, d') \<Longrightarrow> var_typed d \<Longrightarrow> same_var d d'"
  by (auto simp: doexp_value_def doexp_exp_def doexp_rule_def same_refl intro: doexp_text_same split: option.splits if_splits io_exp.splits)

lemma settle_same:
  assumes "settle_value ev rules vars new old d = Ret d'" "var_typed d" "length old = 8"
  shows "same_var d d'"
proof -
  obtain d1 c d2 where d1: "try_refresh_ai_value d = Ret d1" and d2: "doexp_value ev rules vars d1 = Ret (c, d2)"
    and d': "d' = (if c \<and> \<not> bVarManage_CheckExtValue d2 new then set_value old d2 else d2)"
    using assms(1) by (auto simp: settle_value_def)
  have 1: "same_var d d1" by (rule try_refresh_ai_same [OF d1 assms(2)])
  have 2: "same_var d1 d2" using doexp_same [OF d2] same_varD [OF 1] by blast
  have "same_var d2 d'" using same_varD [OF 2] assms(3) by (simp add: d' same_set_value same_refl)
  then show ?thesis using 1 2 by (blast intro: same_var_trans)
qed

section \<open>What the state keeps\<close>

lemma kept_refl: "vm_typed s \<Longrightarrow> kept s s"
  by (simp add: kept_def)

lemma kept_trans: "kept s s' \<Longrightarrow> kept s' s'' \<Longrightarrow> kept s s''"
  by (simp add: kept_def)

lemma kept_typed: "kept s s' \<Longrightarrow> vm_typed s'"
  by (simp add: kept_def)

lemma flags_config: "RefreshRegsFlag ds = RefreshRegsFlag (map var_config ds)"
proof -
  have "bEnable (var_config d) = bEnable d" "usAddr (xIo (var_config d)) = usAddr (xIo d)" "out_nregs (var_config d) = out_nregs d" for d
    by (simp_all add: var_config_defs out_nregs_def)
  then show ?thesis by (simp add: RefreshRegsFlag_def fold_map comp_def cong: if_cong)
qed

lemma kept_regs:
  assumes "vm_typed s" "length m = length (vm_regs s)"
    "take (2 * USER_REG_EXT_DATA_START) m = take (2 * USER_REG_EXT_DATA_START) (vm_regs s)"
  shows "kept s (s\<lparr>vm_regs := m\<rparr>)"
  using assms by (simp add: kept_def vm_typed_def)

lemma kept_var:
  assumes s: "vm_typed s" and i: "i < length (vm_vars s)" and d: "same_var (vm_vars s ! i) d"
  shows "kept s (s\<lparr>vm_vars := (vm_vars s)[i := d]\<rparr>)"
proof -
  have c: "map var_config ((vm_vars s)[i := d]) = map var_config (vm_vars s)"
    using d i by (simp add: same_var_def map_update list_update_same_conv)
  have "RefreshRegsFlag ((vm_vars s)[i := d]) = RefreshRegsFlag (vm_vars s)"
    by (simp only: flags_config [of "(vm_vars s)[i := d]"] flags_config [of "vm_vars s"] c)
  moreover have "\<forall>x \<in> set ((vm_vars s)[i := d]). var_typed x"
    using s d i set_update_subset_insert [of "vm_vars s" i d] by (auto simp: vm_typed_def dest: same_varD)
  ultimately show ?thesis using s c by (simp add: kept_def vm_typed_def)
qed

lemma take_front: "k \<le> j \<Longrightarrow> j \<le> length m \<Longrightarrow> take k (take j m @ xs) = take k m"
  by simp

lemma copy_in_high:
  assumes "copy_in m (2 * uint (a :: u16)) bs = Ret m'" "USER_REG_EXT_DATA_START \<le> unat a"
  shows "length m' = length m" "take (2 * USER_REG_EXT_DATA_START) m' = take (2 * USER_REG_EXT_DATA_START) m"
proof -
  show "length m' = length m" using assms(1) by (rule length_copy_in)
  have "nat (2 * uint a) \<le> length m \<and> m' = take (nat (2 * uint a)) m @ bs @ drop (nat (2 * uint a) + length bs) m"
    using assms(1) unfolding copy_in_def by (cases "0 \<le> 2 * uint a \<and> 2 * uint a + int (length bs) \<le> int (length m)") auto
  moreover have "nat (2 * uint a) = 2 * unat a" by (simp only: two_uint [symmetric] nat_int)
  ultimately have m': "m' = take (2 * unat a) m @ bs @ drop (2 * unat a + length bs) m" and l: "2 * unat a \<le> length m"
    by metis+
  show "take (2 * USER_REG_EXT_DATA_START) m' = take (2 * USER_REG_EXT_DATA_START) m"
    unfolding m' by (rule take_front [OF mult_le_mono2 [OF assms(2)] l])
qed

lemma kept_write:
  assumes "vm_typed s" "copy_in (vm_regs s) (2 * uint (a :: u16)) bs = Ret m" "USER_REG_EXT_DATA_START \<le> unat a"
  shows "kept s (s\<lparr>vm_regs := m\<rparr>)"
  using kept_regs [OF assms(1)] copy_in_high [OF assms(2,3)] by blast

lemma refresh_regs_kept:
  "vm_typed s \<Longrightarrow> refresh_regs buf ofs a n (vm_regs s) = Ret m \<Longrightarrow> USER_REG_EXT_DATA_START \<le> unat a \<Longrightarrow> kept s (s\<lparr>vm_regs := m\<rparr>)"
  by (auto simp: refresh_regs_def kept_refl intro: kept_write split: if_splits)

lemma typed_nth: "vm_typed s \<Longrightarrow> i < length (vm_vars s) \<Longrightarrow> var_typed (vm_vars s ! i)"
  by (simp add: vm_typed_def)

text \<open>A variable and its registers written together\<close>

lemma kept_store:
  assumes s: "vm_typed s" and i: "i < length (vm_vars s)" and d: "same_var (vm_vars s ! i) d"
    and m: "copy_in (vm_regs s) (2 * uint (a :: u16)) bs = Ret m" "USER_REG_EXT_DATA_START \<le> unat a"
  shows "kept s (s\<lparr>vm_vars := (vm_vars s)[i := d], vm_regs := m\<rparr>)"
proof -
  have *: "s\<lparr>vm_vars := (vm_vars s)[i := d], vm_regs := m\<rparr> = s\<lparr>vm_regs := m\<rparr>\<lparr>vm_vars := (vm_vars s)[i := d]\<rparr>" by simp
  have w: "kept s (s\<lparr>vm_regs := m\<rparr>)" by (rule kept_write [OF s m])
  show ?thesis unfolding * using kept_trans [OF w] kept_var [OF kept_typed [OF w], of i d] i d by simp
qed

lemma load_value_length: "load_value t r a stk m = Ret v \<Longrightarrow> length stk = 8 \<Longrightarrow> length v = 8"
  by (cases t) (auto simp: load_value_def vLittleEdianExtData_def vBigEdianExtData_def swap_defs dest!: length_copy_out)

lemma settled_same:
  assumes "same_var d0 d" "settle_value ev rules vars new old d = Ret d'" "length old = 8"
  shows "same_var d0 (clear_err (update_value d'))"
proof -
  have "same_var d0 d'" using settle_same [OF assms(2)] assms(1,3) same_varD [OF assms(1)] same_var_trans by blast
  then show ?thesis using same_varD [of d0 d']
    by (auto simp: var_config_update intro!: same_var_trans [of d0 d'] same_varI)
qed

lemma Slave_kept:
  assumes "SlaveRefreshExtDataWithRegs ev rules stk a s = Ret s'" "vm_typed s" "length stk = 8"
  shows "kept s s'"
proof (cases "first_var (\<lambda>d. var_at d (unat a)) (vm_vars s)")
  case None
  then show ?thesis using assms by (simp add: SlaveRefreshExtDataWithRegs_def kept_refl)
next
  case (Some i)
  let ?d = "vm_vars s ! i"
  have i: "i < length (vm_vars s)" "ext_addr ?d \<le> unat a" using first_var_SomeD [OF Some] by (auto simp: var_at_def)
  have d: "var_typed ?d" "length (xValue (xIo ?d)) = 8" using typed_nth [OF assms(2) i(1)] by (auto simp: var_typed_def)
  obtain new d' m where new: "load_value (btOutVarType (xIo ?d)) (btOutVarRuleType (xIo ?d)) a stk (vm_regs s) = Ret new"
    and d': "settle_value ev rules (\<lambda>d. (vm_vars s)[i := d]) new (xValue (xIo ?d)) (set_value new ?d) = Ret d'"
    and m: "store_regs a d' (vm_regs s) = Ret m"
    and s': "s' = s\<lparr>vm_vars := (vm_vars s)[i := clear_err (update_value d')], vm_regs := m\<rparr>"
    using assms(1) Some by (auto simp: SlaveRefreshExtDataWithRegs_def Let_def)
  have "same_var ?d (set_value new ?d)" using load_value_length [OF new assms(3)] d by (simp add: same_set_value)
  then have "same_var ?d (clear_err (update_value d'))" by (rule settled_same [OF _ d' d(2)])
  then show ?thesis using m i d(1) unfolding s'
    by (auto simp: store_regs_def Let_def var_typed_def intro: kept_store [OF assms(2) i(1)])
qed

lemma Master_kept:
  assumes "MasterRefreshExtDataWithRegs ev rules stk a s = Ret s'" "vm_typed s" "length stk = 8"
  shows "kept s s'"
proof (cases "first_var (\<lambda>d. var_at d (unat a)) (vm_vars s)")
  case None
  then show ?thesis using assms by (simp add: MasterRefreshExtDataWithRegs_def kept_refl)
next
  case (Some i)
  let ?d = "vm_vars s ! i"
  have i: "i < length (vm_vars s)" "ext_addr ?d \<le> unat a" using first_var_SomeD [OF Some] by (auto simp: var_at_def)
  have d: "var_typed ?d" "length (xValue (xIo ?d)) = 8" using typed_nth [OF assms(2) i(1)] by (auto simp: var_typed_def)
  obtain new d1 d' m where new: "load_value (btInVarType (xIo ?d)) (btInVarRuleType (xIo ?d)) a stk (vm_regs s) = Ret new"
    and d1: "do_set_out_value (?d\<lparr>xIo := xIo ?d\<lparr>xValue := new, bErrFlag := False\<rparr>\<rparr>) (btInVarType (xIo ?d)) = Ret d1"
    and d': "settle_value ev rules (\<lambda>d. (vm_vars s)[i := d]) new (xValue (xIo ?d)) d1 = Ret d'"
    and m: "store_regs a d' (vm_regs s) = Ret m"
    and s': "s' = s\<lparr>vm_vars := (vm_vars s)[i := clear_err (update_value d')], vm_regs := m\<rparr>"
    using assms(1) Some by (auto simp: MasterRefreshExtDataWithRegs_def Let_def)
  have "same_var ?d (?d\<lparr>xIo := xIo ?d\<lparr>xValue := new, bErrFlag := False\<rparr>\<rparr>)"
    using load_value_length [OF new assms(3)] d by (intro same_varI) (simp_all add: var_config_update)
  then have "same_var ?d d1" using do_set_out_same [OF d1] same_varD same_var_trans by blast
  then have "same_var ?d (clear_err (update_value d'))" by (rule settled_same [OF _ d' d(2)])
  then show ?thesis using m i d(1) unfolding s'
    by (auto simp: store_regs_def Let_def var_typed_def intro: kept_store [OF assms(2) i(1)])
qed

section \<open>Loops over the variables\<close>

lemma kept_length: "kept s s' \<Longrightarrow> length (vm_vars s') = length (vm_vars s)"
  unfolding kept_def by (metis length_map)

lemma each_var_kept:
  assumes "each_var is f s = Ret s'" "vm_typed s" "\<forall>i \<in> set is. i < length (vm_vars s)"
    and "\<And>i s s'. f i s = Ret s' \<Longrightarrow> vm_typed s \<Longrightarrow> i < length (vm_vars s) \<Longrightarrow> kept s s'"
  shows "kept s s'"
  using assms(1-3)
proof (induction "is" arbitrary: s)
  case (Cons i "is")
  then obtain s1 where s1: "f i s = Ret s1" and r: "each_var is f s1 = Ret s'" by auto
  have k: "kept s s1" using assms(4) [OF s1] Cons.prems by simp
  show ?case using Cons.IH [OF r kept_typed [OF k]] Cons.prems(3) kept_length [OF k] kept_trans [OF k] by simp
qed (simp add: kept_refl)

lemma on_first_kept:
  assumes "on_first P f s = Ret s'" "vm_typed s" "\<And>i s'. f i s = Ret s' \<Longrightarrow> i < length (vm_vars s) \<Longrightarrow> kept s s'"
  shows "kept s s'"
  using assms by (auto simp: on_first_def kept_refl split: option.splits dest: first_var_lt)

lemma usAddr_high: "vm_typed s \<Longrightarrow> i < length (vm_vars s) \<Longrightarrow> USER_REG_EXT_DATA_START \<le> ext_addr (vm_vars s ! i)"
  by (drule (1) typed_nth) (simp add: var_typed_def)

lemma refreshed_kept:
  assumes "refresh_regs buf ofs a n (vm_regs s) = Ret m" "MasterRefreshExtDataWithRegs ev rules stk a (s\<lparr>vm_regs := m\<rparr>) = Ret s'"
    "vm_typed s" "length stk = 8" "USER_REG_EXT_DATA_START \<le> unat a"
  shows "kept s s'"
proof -
  have k: "kept s (s\<lparr>vm_regs := m\<rparr>)" by (rule refresh_regs_kept [OF assms(3,1,5)])
  show ?thesis by (rule kept_trans [OF k Master_kept [OF assms(2) kept_typed [OF k] assms(4)]])
qed

lemma master_take_kept:
  "master_take ev rules stk a buf i s = Ret s' \<Longrightarrow> length stk = 8 \<Longrightarrow> vm_typed s \<Longrightarrow> i < length (vm_vars s) \<Longrightarrow> kept s s'"
  by (auto simp: master_take_def Let_def dest: usAddr_high intro: refreshed_kept)

lemma meter_take_kept:
  assumes "meter_take ev rules stk P most a buf s = Ret s'" "length stk = 8" "vm_typed s"
    "\<And>d. P d \<Longrightarrow> usAddr (xIo d) = a"
  shows "kept s s'"
proof (cases "first_var P (vm_vars s)")
  case None
  then show ?thesis using assms by (simp add: meter_take_def kept_refl)
next
  case (Some i)
  have "i < length (vm_vars s)" "usAddr (xIo (vm_vars s ! i)) = a" using first_var_SomeD [OF Some] assms(4) by auto
  then have "USER_REG_EXT_DATA_START \<le> unat a" using usAddr_high [OF assms(3)] by auto
  then show ?thesis using assms Some
    by (auto simp: meter_take_def Let_def kept_refl split: if_splits intro: refreshed_kept)
qed

lemma count_error_kept:
  assumes "count_error i s = Ret s'" "vm_typed s" "i < length (vm_vars s)"
  shows "kept s s'"
proof -
  let ?d = "vm_vars s ! i"
  have d: "var_typed ?d" "length (xValue (xIo ?d)) = 8" "USER_REG_EXT_DATA_START \<le> ext_addr ?d"
    using typed_nth [OF assms(2,3)] by (auto simp: var_typed_def)
  have z: "same_var ?d (?d\<lparr>xIo := xIo ?d\<lparr>xValue := replicate 8 0, btErrNum := 1\<rparr>\<rparr>)"
    using d by (intro same_varI) (simp_all add: var_config_update)
  have n: "same_var ?d (?d\<lparr>xIo := xIo ?d\<lparr>btErrNum := k\<rparr>\<rparr>)" for k
    using d by (intro same_varI) (simp_all add: var_config_update)
  have "kept s (s\<lparr>vm_vars := (vm_vars s)[i := ?d\<lparr>xIo := xIo ?d\<lparr>xValue := replicate 8 0, btErrNum := 1\<rparr>\<rparr>], vm_regs := m\<rparr>)"
    if "clear_regs (usAddr (xIo ?d)) (out_nregs ?d) (vm_regs s) = Ret m" for m
    using that kept_store [OF assms(2,3) z _ d(3)] kept_var [OF assms(2,3) z] by (auto simp: clear_regs_def split: if_splits)
  then show ?thesis using assms kept_var [OF assms(2,3) n] unfolding count_error_def Let_def
    by (auto simp: kept_refl split: if_splits)
qed

lemma mark_error_kept:
  assumes "vm_typed s" "i < length (vm_vars s)"
  shows "kept s (mark_error i s)"
proof -
  have d: "var_typed (vm_vars s ! i)" by (rule typed_nth [OF assms])
  then have "same_var (vm_vars s ! i) ((vm_vars s ! i)\<lparr>xIo := (xIo (vm_vars s ! i))\<lparr>bErrFlag := True\<rparr>\<rparr>)"
    by (intro same_varI) (simp_all add: var_config_update var_typed_def)
  then show ?thesis unfolding mark_error_def by (rule kept_var [OF assms])
qed

lemma error_kept:
  assumes "bindO (count_error i s) (\<lambda>s. Ret (mark_error i s)) = Ret s'" "vm_typed s" "i < length (vm_vars s)"
  shows "kept s s'"
proof -
  obtain s1 where s1: "count_error i s = Ret s1" "s' = mark_error i s1" using assms(1) by auto
  have k: "kept s s1" by (rule count_error_kept [OF s1(1) assms(2,3)])
  show ?thesis unfolding s1(2) using assms(3) kept_length [OF k] by (intro kept_trans [OF k] mark_error_kept kept_typed [OF k]) simp
qed

lemma Slave_loop_kept:
  "ModbusSlave_loop ev rules stk port a n s out ret = Ret (r, out', s') \<Longrightarrow> vm_typed s \<Longrightarrow> length stk = 8 \<Longrightarrow> kept s s'"
proof (induction ev rules stk port a n s out ret rule: ModbusSlave_loop.induct)
  case (1 ev rules stk port a n s out ret)
  note loop = "1.prems"(1) [unfolded ModbusSlave_loop.simps [of ev rules stk port a n s out ret]]
  consider (stop) "n = 0" | (skip) "n \<noteq> 0" "GetExtDataIoInfoWithAddr a (vm_vars s) = None"
    | (none) info where "n \<noteq> 0" "GetExtDataIoInfoWithAddr a (vm_vars s) = Some (info, 0)"
    | (var) info k where "n \<noteq> 0" "GetExtDataIoInfoWithAddr a (vm_vars s) = Some (info, k)" "k \<noteq> 0"
    by (metis not_None_eq surj_pair)
  then show ?case
  proof cases
    case (var info k)
    obtain s1 where s1: "SlaveRefreshExtDataWithRegs ev rules stk a s = Ret s1"
      and l: "ModbusSlave_loop ev rules stk port (a + of_nat k) (n - k) s1 (out @ forward port info a n (vm_regs s)) True = Ret (r, out', s')"
      using loop var by auto
    have k: "kept s s1" by (rule Slave_kept [OF s1 "1.prems"(2,3)])
    show ?thesis by (rule kept_trans [OF k "1.IH"(3) [OF var(1,2) refl var(3) s1 l kept_typed [OF k] "1.prems"(3)]])
  qed (use loop "1.prems" "1.IH"(1,2) in \<open>auto simp: kept_refl\<close>)
qed

lemma written_kept:
  "bVarManage_RefreshExtDataWithModbusSlave ev rules stk port a n s = Ret (r, out, s') \<Longrightarrow> vm_typed s \<Longrightarrow> length stk = 8 \<Longrightarrow> kept s s'"
  using Slave_loop_kept by (simp add: bVarManage_RefreshExtDataWithModbusSlave_def)

lemma served_kept:
  assumes "modbus_ext_callback ev rules stk port buf a n rf s = Ret (e, bs, out, s')" "vm_typed s" "length stk = 8"
  shows "kept s s'"
proof (cases "IN_EXT_DATA a n \<and> bVarManage_CheckContAddr a n s \<and> \<not> rf")
  case True
  then obtain m r where m: "refresh_regs buf 0 a (unat n) (vm_regs s) = Ret m"
    and w: "bVarManage_RefreshExtDataWithModbusSlave ev rules stk port a n (s\<lparr>vm_regs := m\<rparr>) = Ret (r, out, s')"
    using assms(1) by (auto simp: modbus_ext_callback_def)
  have "USER_REG_EXT_DATA_START \<le> unat a" using True by (simp add: IN_EXT_DATA_def)
  then have k: "kept s (s\<lparr>vm_regs := m\<rparr>)" by (rule refresh_regs_kept [OF assms(2) m])
  show ?thesis by (rule kept_trans [OF k written_kept [OF w kept_typed [OF k] assms(3)]])
next
  case False
  then show ?thesis using assms by (auto simp: modbus_ext_callback_def kept_refl split: if_splits)
qed

lemma smf_kept:
  "bVarManage_RefreshExtDataWithSmf ev rules stk a op r s = Ret s' \<Longrightarrow> length stk = 8 \<Longrightarrow> vm_typed s \<Longrightarrow> kept s s'"
  by (auto simp: bVarManage_RefreshExtDataWithSmf_def smf_hit_def kept_refl split: option.splits elim!: meter_take_kept)

lemma dh_clear_one_kept: "vVarManage_DhTryClearOneExtDataWithErr a sid ty s = Ret s' \<Longrightarrow> vm_typed s \<Longrightarrow> kept s s'"
  unfolding vVarManage_DhTryClearOneExtDataWithErr_def by (elim on_first_kept) (auto intro: count_error_kept)

lemma dh_clear_kept: "vVarManage_DhTryClearExtDataWithErr sid ty s = Ret s' \<Longrightarrow> vm_typed s \<Longrightarrow> kept s s'"
  unfolding vVarManage_DhTryClearExtDataWithErr_def
  by (elim each_var_kept) (auto simp: kept_refl split: if_splits intro: dh_clear_one_kept)

lemma dh_kept:
  "bVarManage_RefreshExtDataWithDh ev rules stk a sid ty key rsp s = Ret s' \<Longrightarrow> length stk = 8 \<Longrightarrow> vm_typed s \<Longrightarrow> kept s s'"
  by (auto simp: bVarManage_RefreshExtDataWithDh_def Let_def dh_hit_def kept_refl
      split: option.splits if_splits intro: dh_clear_one_kept elim!: meter_take_kept)

lemma dh_list_kept:
  "bVarManage_RefreshExtDataListWithDh ev rules stk sid ty rsp s = Ret s' \<Longrightarrow> length stk = 8 \<Longrightarrow> vm_typed s \<Longrightarrow> kept s s'"
  unfolding bVarManage_RefreshExtDataListWithDh_def Let_def
  by (elim each_var_kept) (auto simp: kept_refl split: if_splits intro: dh_kept)

section \<open>What readings keep\<close>

lemma vm_step_kept:
  assumes "vm_step ev rules s s'" "vm_typed s"
  shows "kept s s'"
  using assms
proof (cases rule: vm_step.cases)
  case (written stk port a n r out)
  then show ?thesis using written_kept assms(2) by blast
next
  case (served stk port buf a n rf e bs out)
  then show ?thesis using served_kept assms(2) by blast
next
  case (middle stk a)
  then show ?thesis using Slave_kept assms(2) by blast
next
  case (modbus stk dev num slave a n buf)
  then show ?thesis unfolding bVarManage_RefreshExtDataWithModbusMaster_def
    by (elim each_var_kept) (auto simp: assms(2) kept_refl split: if_splits intro: master_take_kept)
next
  case (ob_modbus stk dev num slave a n buf)
  then show ?thesis unfolding bVarManage_RefreshExtDataWithObModbusMaster_def
    by (elim each_var_kept) (auto simp: assms(2) kept_refl split: if_splits intro: master_take_kept)
next
  case (dlt645 stk da a di x)
  then show ?thesis unfolding bVarManage_RefreshExtDataWithDlt645_def
    by (elim meter_take_kept) (auto simp: assms(2) dlt645_hit_def)
next
  case (dust stk a op rdust)
  then show ?thesis unfolding bVarManage_RefreshExtDataWithDust_def
    using assms(2) by (auto simp: dust_hit_def kept_refl split: option.splits elim!: meter_take_kept)
next
  case (mbus603 stk a op rmbus)
  then show ?thesis unfolding bVarManage_RefreshExtDataWithMbus603_def
    using assms(2) by (auto simp: mbus603_hit_def kept_refl split: option.splits elim!: meter_take_kept)
next
  case (smf stk a op rsmf)
  then show ?thesis using smf_kept assms(2) by blast
next
  case (dh stk sid ty recs)
  then show ?thesis using dh_list_kept assms(2) by blast
next
  case (dh_one stk a sid ty key recs)
  then show ?thesis using dh_kept assms(2) by blast
next
  case (modbus_silent dev num slave a n)
  then show ?thesis unfolding vVarManage_ModbusMasterTryClearExtDataWithErr_def
    by (elim each_var_kept) (auto simp: assms(2) kept_refl simp del: bindO_eq_Ret split: if_splits intro: error_kept)
next
  case (ob_modbus_silent dev num slave a n)
  then show ?thesis unfolding vVarManage_ObModbusMasterTryClearExtDataWithErr_def
    by (elim each_var_kept) (auto simp: assms(2) kept_refl simp del: bindO_eq_Ret split: if_splits intro: error_kept)
next
  case (dlt645_silent da a di)
  then show ?thesis unfolding vVarManage_Dlt645TryClearExtDataWithErr_def
    by (elim on_first_kept) (auto simp: assms(2) simp del: bindO_eq_Ret intro: error_kept)
next
  case (dust_silent a op)
  then show ?thesis unfolding vVarManage_DustTryClearExtDataWithErr_def
    by (elim on_first_kept) (auto simp: assms(2) intro: count_error_kept)
next
  case (smf_silent a op)
  then show ?thesis unfolding vVarManage_SmfTryClearExtDataWithErr_def
    by (elim on_first_kept) (auto simp: assms(2) intro: count_error_kept)
next
  case (dh_silent sid ty)
  then show ?thesis using dh_clear_kept assms(2) by blast
next
  case (dh_one_silent a sid ty)
  then show ?thesis using dh_clear_one_kept assms(2) by blast
qed

text \<open>
  Claim C6.  Readings are well typed: whatever sequence of writes and reads by a modbus master, of refreshes of middle variables, of
  readings of modbus slaves, DL/T 645, heat and dust meters, environment monitors and DH servers and of clearings for devices that do not
  answer goes over the variables, each from its call to its return, and whatever their expressions answer, the array of registers keeps its length, the value
  of every variable stays a value of eight bytes at a register of the user's range, the flags still say exactly which
  registers belong to variables, no other member of a variable (name, group, address, types, byte orders, limits,
  expression, parameters of the device, range of an analog input) changes, and the registers below the user's range, those of the system, keep
  every byte.
\<close>

theorem vm_readings_typed:
  assumes "(vm_step ev rules)\<^sup>*\<^sup>* s s'" and "vm_typed s"
  shows "vm_typed s' \<and> map var_config (vm_vars s') = map var_config (vm_vars s) \<and>
    take (2 * USER_REG_EXT_DATA_START) (vm_regs s') = take (2 * USER_REG_EXT_DATA_START) (vm_regs s)"
  using assms
proof (induction rule: rtranclp_induct)
  case (step s1 s2)
  then show ?case using vm_step_kept [OF step.hyps(2)] by (simp add: kept_def)
qed simp

lemma vm_readings_typed_witness:
  "let d = (sample_var [1] E_VAR_INT16 1024)\<lparr>xIo := (xIo (sample_var [1] E_VAR_INT16 1024))\<lparr>btErrOp := 1, btErrCnt := 3\<rparr>\<rparr>;
       s = \<lparr>vm_vars = [d], vm_regs = replicate (2 * MODBUS_REGS_COUNT) 9, vm_flags = RefreshRegsFlag [d]\<rparr>;
       s' = s\<lparr>vm_vars := [d\<lparr>xIo := xIo d\<lparr>btErrNum := 1\<rparr>\<rparr>]\<rparr>
   in s' \<noteq> s \<and> vm_typed s' \<and> map var_config (vm_vars s') = map var_config (vm_vars s)"
proof -
  let ?d = "(sample_var [1] E_VAR_INT16 1024)\<lparr>xIo := (xIo (sample_var [1] E_VAR_INT16 1024))\<lparr>btErrOp := 1, btErrCnt := 3\<rparr>\<rparr>"
  let ?s = "\<lparr>vm_vars = [?d], vm_regs = replicate (2 * MODBUS_REGS_COUNT) 9, vm_flags = RefreshRegsFlag [?d]\<rparr>"
  let ?s' = "?s\<lparr>vm_vars := [?d\<lparr>xIo := xIo ?d\<lparr>btErrNum := 1\<rparr>\<rparr>]\<rparr>"
  have typed: "vm_typed ?s" by (simp add: vm_typed_def var_typed_def sample_var_def USER_REG_EXT_DATA_START_def)
  have "vVarManage_SmfTryClearExtDataWithErr 1024 3 ?s = Ret ?s'"
    by (simp add: vVarManage_SmfTryClearExtDataWithErr_def on_first_def first_var_def smf_hit_def smf_op_def sample_var_def
        count_error_def E_ERR_OP_CLEAR_def modbus_param_def Let_def)
  then have "vm_step (\<lambda>ds e n. Ret None) (\<lambda>n. None) ?s ?s'" by (rule vm_step.smf_silent)
  then have "(vm_step (\<lambda>ds e n. Ret None) (\<lambda>n. None))\<^sup>*\<^sup>* ?s ?s'" by (rule r_into_rtranclp)
  from vm_readings_typed [OF this typed] show ?thesis by (simp add: Let_def sample_var_def)
qed

end
