(* ===== verification/Sync_List.thy ===== *)
theory Sync_List
  imports Ext_Data
begin

text \<open>
  What the collecting thread asks for, \<open>drivers/varmanage/varmanage.c\<close>: a list of slaves (device, port, protocol and
  address), each with the list of what is read from it, built from the list of variables.  For modbus
  these lists are kept in ascending order, and neighbours are merged to one request.  The lists
  are lists here; their cells never leave this code, and the collecting thread holds its place in them by a
  position (a pointer into a list that was built anew is no position, as the code finds by comparing
  it with every cell).  The protocol fields of a slave are 8 bits wide, those of a
  variable 16.
\<close>

section \<open>Slaves and requests\<close>

datatype proto_class = CSelf | CMid | CModbus | CDlt645 | CMbus603 | CDust | CSmf | CObModbus | CDh | CNone

definition class_of :: "nat \<Rightarrow> nat \<Rightarrow> nat \<Rightarrow> proto_class" where
  "class_of dev num proto =
     (if proto_is_rtu_self dev num then CSelf
      else if proto_is_rtu_self_mid dev then CMid
      else if proto_is_modbus dev proto then CModbus
      else if proto_is_dlt645 dev proto then CDlt645
      else if proto_is_mbus603 dev proto then CMbus603
      else if proto_is_dust dev proto then CDust
      else if proto_is_smf dev proto then CSmf
      else if proto_is_obmodbus dev proto then CObModbus
      else if proto_is_dh dev proto then CDh
      else CNone)"

datatype slave_param =
    PNone
  | PModbus (pm_op: u8) (pm_slave: u8) (pm_fa: u8)
  | PDlt645 bytes
  | PMbus603 u8
  | PObModbus u8 u8
  | PDh u32 u32

datatype sync_ext =
    XSelf u16
  | XModbus (xm_addr: u16) (xm_ofs: u16) (xm_size: u8)
  | XDlt645 u16 u32
  | XMbus603 u16 u8
  | XDust u16 u8
  | XSmf u16 u8
  | XObModbus u16 u16 u8
  | XDh u16 bytes
  | XNone

record sync_slave =
  s_dev :: u8
  s_num :: u8
  s_proto :: u8
  s_param :: slave_param
  s_exts :: "sync_ext list"

text \<open>The fields of a variable by the class of its slave, and of one request\<close>

fun slave_param_of :: "proto_class \<Rightarrow> bytes \<Rightarrow> slave_param" where
  "slave_param_of CModbus p = PModbus (modbus_btOpCode p) (modbus_btSlaveAddr p) (of_int (modbus_nSyncFAddr p))"
| "slave_param_of CDlt645 p = PDlt645 (dlt645_addr p)"
| "slave_param_of CMbus603 p = PMbus603 (mbus603_addr p)"
| "slave_param_of CObModbus p = PObModbus (modbus_btOpCode p) (modbus_btSlaveAddr p)"
| "slave_param_of CDh p = PDh (dh_sid p) (dh_type p)"
| "slave_param_of _ p = PNone"

fun sync_ext_of :: "proto_class \<Rightarrow> ext_data \<Rightarrow> sync_ext" where
  "sync_ext_of CSelf d = XSelf (usAddr (xIo d))"
| "sync_ext_of CMid d = XSelf (usAddr (xIo d))"
| "sync_ext_of CModbus d =
     XModbus (modbus_usExtAddr (io_param (xIo d))) (modbus_usAddrOfs (io_param (xIo d))) (of_nat (in_nregs d))"
| "sync_ext_of CDlt645 d = XDlt645 (usAddr (xIo d)) (dlt645_op (io_param (xIo d)))"
| "sync_ext_of CMbus603 d = XMbus603 (usAddr (xIo d)) (ucast (mbus603_op (io_param (xIo d))))"
| "sync_ext_of CDust d = XDust (usAddr (xIo d)) (dust_op (io_param (xIo d)))"
| "sync_ext_of CSmf d = XSmf (usAddr (xIo d)) (smf_op (io_param (xIo d)))"
| "sync_ext_of CObModbus d =
     XObModbus (modbus_usExtAddr (io_param (xIo d))) (modbus_usAddrOfs (io_param (xIo d))) (btInVarSize (xIo d))"
| "sync_ext_of CDh d = XDh (usAddr (xIo d)) (dh_key (io_param (xIo d)))"
| "sync_ext_of CNone d = XNone"

definition slave_class :: "sync_slave \<Rightarrow> proto_class" where
  "slave_class s = class_of (unat (s_dev s)) (unat (s_num s)) (unat (s_proto s))"

section \<open>Building the lists\<close>

definition add_sync_slave_node :: "ext_data \<Rightarrow> sync_slave" where
  "add_sync_slave_node d =
     (let dev = ucast (usDevType (xIo d)) :: u8; num = ucast (usDevNum (xIo d)) :: u8; proto = ucast (usProtoType (xIo d)) :: u8;
          c = class_of (unat dev) (unat num) (unat proto)
      in \<lparr>s_dev = dev, s_num = num, s_proto = proto, s_param = slave_param_of c (io_param (xIo d)), s_exts = [sync_ext_of c d]\<rparr>)"

text \<open>
  The test of \<open>__find_sync_slave_node\<close>.  The parameters of a slave are compared first and are those
  of its own class; when device and protocol agree as well the classes are the same.  The frame address is kept in a signed byte.
\<close>

definition same_device :: "ext_data \<Rightarrow> sync_slave \<Rightarrow> bool" where
  "same_device d s \<longleftrightarrow> unat (s_dev s) = unat (usDevType (xIo d)) \<and> unat (s_num s) = unat (usDevNum (xIo d)) \<and>
     unat (s_proto s) = unat (usProtoType (xIo d))"

definition find_slave_test :: "ext_data \<Rightarrow> sync_slave \<Rightarrow> bool" where
  "find_slave_test d s =
     (let p = io_param (xIo d) in
      case class_of (unat (usDevType (xIo d))) (unat (usDevNum (xIo d))) (unat (usProtoType (xIo d))) of
        CSelf \<Rightarrow> unat (s_dev s) = unat (usDevType (xIo d)) \<and> unat (s_num s) = unat (usDevNum (xIo d))
      | CMid \<Rightarrow> unat (s_dev s) = unat (usDevType (xIo d))
      | CModbus \<Rightarrow>
          (case s_param s of PModbus op sa fa \<Rightarrow>
             op = modbus_btOpCode p \<and> sint fa = modbus_nSyncFAddr p \<and> sa = modbus_btSlaveAddr p | _ \<Rightarrow> False) \<and> same_device d s
      | CDlt645 \<Rightarrow> s_param s = PDlt645 (dlt645_addr p) \<and> same_device d s
      | CMbus603 \<Rightarrow> s_param s = PMbus603 (mbus603_addr p) \<and> same_device d s
      | CDust \<Rightarrow> same_device d s
      | CSmf \<Rightarrow> same_device d s
      | CObModbus \<Rightarrow> s_param s = PObModbus (modbus_btOpCode p) (modbus_btSlaveAddr p) \<and> same_device d s
      | CDh \<Rightarrow> s_param s = PDh (dh_sid p) (dh_type p) \<and> same_device d s
      | CNone \<Rightarrow> False)"

text \<open>A modbus request is put before the first one with a higher address, unless it is there already.\<close>

fun modbus_insert :: "sync_ext \<Rightarrow> sync_ext list \<Rightarrow> sync_ext list" where
  "modbus_insert x [] = [x]"
| "modbus_insert x (e # es) =
     (if xm_addr x < xm_addr e then x # e # es
      else if x = e then e # es
      else e # modbus_insert x es)"

definition slave_add_ext :: "ext_data \<Rightarrow> sync_slave \<Rightarrow> sync_slave" where
  "slave_add_ext d s =
     (case slave_class s of
        CModbus \<Rightarrow> s\<lparr>s_exts := modbus_insert (sync_ext_of CModbus d) (s_exts s)\<rparr>
      | CDh \<Rightarrow> s
      | c \<Rightarrow> s\<lparr>s_exts := s_exts s @ [sync_ext_of c d]\<rparr>)"

fun add_sync_ext_node :: "ext_data \<Rightarrow> sync_slave list \<Rightarrow> sync_slave list" where
  "add_sync_ext_node d [] = [add_sync_slave_node d]"
| "add_sync_ext_node d (s # ss) = (if find_slave_test d s then slave_add_ext d s # ss else s # add_sync_ext_node d ss)"

section \<open>Merging\<close>

definition SYNC_EXT_MAX_SIZE :: int where "SYNC_EXT_MAX_SIZE = 100"

function trim_exts :: "sync_ext list \<Rightarrow> sync_ext list" where
  "trim_exts [] = []"
| "trim_exts [e] = [e]"
| "trim_exts (e # n # es) =
     (if unat (xm_addr n) \<le> unat (xm_addr e) + unat (xm_size e) then
        (let addr_a = xm_addr e + ucast (xm_size e); addr_b = xm_addr n + ucast (xm_size n) in
         if addr_a < addr_b then
           (if uint addr_b - uint (xm_addr e) \<le> SYNC_EXT_MAX_SIZE
            then trim_exts (XModbus (xm_addr e) (xm_ofs e) (of_int (uint addr_b - uint (xm_addr e))) # es)
            else e # trim_exts (n # es))
         else trim_exts (e # es))
      else e # trim_exts (n # es))"
  by pat_completeness auto

termination by (relation "measure length") auto

definition trim_sync_slave_link :: "sync_slave list \<Rightarrow> sync_slave list" where
  "trim_sync_slave_link = map (\<lambda>s. if slave_class s = CModbus then s\<lparr>s_exts := trim_exts (s_exts s)\<rparr> else s)"

text \<open>\<open>__creat_sync_slave_link\<close> on the variables of the list, in order\<close>

definition creat_sync_slave_link :: "ext_data list \<Rightarrow> sync_slave list" where
  "creat_sync_slave_link ds = trim_sync_slave_link (fold add_sync_ext_node (filter bEnable ds) [])"

section \<open>Walking the lists\<close>

datatype sync_node =
    NSelf u8 u8 u8 u16
  | NModbus u8 u8 u8 u8 u8 u16 u16 u8
  | NDlt645 u8 u8 u8 bytes u16 u32
  | NMbus603 u8 u8 u8 u8 u16 u8
  | NDust u8 u8 u8 u16 u8
  | NSmf u8 u8 u8 u16 u8
  | NObModbus u8 u8 u8 u8 u8 u16 u16 u8
  | NDh u8 u8 u8 u32 u32 bytes u16
  | NNone u8 u8 u8

fun node_of :: "u8 \<Rightarrow> u8 \<Rightarrow> u8 \<Rightarrow> slave_param \<Rightarrow> sync_ext \<Rightarrow> sync_node" where
  "node_of dev num proto _ (XSelf a) = NSelf dev num proto a"
| "node_of dev num proto (PModbus op sa _) (XModbus a ofs sz) = NModbus dev num proto op sa a ofs sz"
| "node_of dev num proto (PDlt645 da) (XDlt645 a op) = NDlt645 dev num proto da a op"
| "node_of dev num proto (PMbus603 ma) (XMbus603 a op) = NMbus603 dev num proto ma a op"
| "node_of dev num proto _ (XDust a op) = NDust dev num proto a op"
| "node_of dev num proto _ (XSmf a op) = NSmf dev num proto a op"
| "node_of dev num proto (PObModbus op sa) (XObModbus a ofs sz) = NObModbus dev num proto op sa a ofs sz"
| "node_of dev num proto (PDh sid ty) (XDh a key) = NDh dev num proto sid ty key a"
| "node_of dev num proto _ _ = NNone dev num proto"

definition slave_node :: "sync_slave \<Rightarrow> sync_ext \<Rightarrow> sync_node" where
  "slave_node s = node_of (s_dev s) (s_num s) (s_proto s) (s_param s)"

type_synonym sync_pos = "(nat \<times> nat) option"

definition isexist_sync_ext :: "sync_slave list \<Rightarrow> nat \<Rightarrow> nat \<Rightarrow> bool" where
  "isexist_sync_ext ss i j \<longleftrightarrow> i < length ss \<and> j < length (s_exts (ss ! i))"

text \<open>\<open>__get_next_sync_ext_node\<close>: the new position, the node when there is one\<close>

definition get_next_sync_ext_node :: "sync_slave list \<Rightarrow> sync_pos \<Rightarrow> sync_pos \<times> sync_node option" where
  "get_next_sync_ext_node ss pos =
     (let next = (case pos of
            Some (i, j) \<Rightarrow>
              (if isexist_sync_ext ss i j
               then (if j + 1 < length (s_exts (ss ! i)) then (i, j + 1) else (i + 1, 0))
               else (0, 0))
          | None \<Rightarrow> (0, 0))
      in if isexist_sync_ext ss (fst next) (snd next)
         then (Some next, Some (slave_node (ss ! fst next) (s_exts (ss ! fst next) ! snd next)))
         else (None, None))"

section \<open>Registers of requests and variables\<close>

fun ext_regs :: "sync_ext \<Rightarrow> nat set" where
  "ext_regs (XModbus a ofs n) = {unat a ..< unat a + unat n}"
| "ext_regs _ = {}"

definition exts_regs :: "sync_ext list \<Rightarrow> nat set" where
  "exts_regs es = \<Union> (ext_regs ` set es)"

fun ext_in_range :: "sync_ext \<Rightarrow> bool" where
  "ext_in_range (XModbus a ofs n) \<longleftrightarrow> unat a + unat n < 2 ^ 16"
| "ext_in_range _ \<longleftrightarrow> False"

definition exts_ok :: "sync_ext list \<Rightarrow> bool" where
  "exts_ok es \<longleftrightarrow> (\<forall>e \<in> set es. ext_in_range e) \<and> sorted (map xm_addr es)"

lemma exts_regs_simps [simp]: "exts_regs [] = {}" "exts_regs (e # es) = ext_regs e \<union> exts_regs es"
  by (simp_all add: exts_regs_def)

lemma exts_ok_simps [simp]: "exts_ok []" "exts_ok (e # es) \<longleftrightarrow> ext_in_range e \<and> (\<forall>x \<in> set es. xm_addr e \<le> xm_addr x) \<and> exts_ok es"
  by (auto simp: exts_ok_def)

lemma ext_in_rangeE: "ext_in_range e \<Longrightarrow> (\<And>a ofs n. e = XModbus a ofs n \<Longrightarrow> unat a + unat n < 2 ^ 16 \<Longrightarrow> thesis) \<Longrightarrow> thesis"
  by (cases e) auto

lemma unat_ext_end: "unat (a :: u16) + unat (n :: u8) < 2 ^ 16 \<Longrightarrow> unat (a + ucast n) = unat a + unat n"
proof -
  have "unat (ucast n :: u16) = unat n"
  proof -
    have "unat n < 2 ^ LENGTH(8)" by (rule unsigned_less)
    then show ?thesis by (simp add: unsigned_ucast_eq take_bit_nat_eq_self)
  qed
  then show "unat a + unat n < 2 ^ 16 \<Longrightarrow> ?thesis" by (simp add: unat_word_ariths)
qed

text \<open>The two ways to merge two neighbours\<close>

lemma merge_wider:
  assumes "unat a + unat m < 2 ^ 16" "unat b + unat n < 2 ^ 16" "a \<le> b"
    and "unat b \<le> unat a + unat m" "(a :: u16) + ucast (m :: u8) < b + ucast (n :: u8)"
    and "uint (b + ucast n) - uint a \<le> SYNC_EXT_MAX_SIZE"
  defines "s \<equiv> of_int (uint (b + ucast n) - uint a) :: u8"
  shows "unat s = unat b + unat n - unat a" "unat s \<le> 100" "unat a + unat s < 2 ^ 16"
    and "{unat a ..< unat a + unat s} = {unat a ..< unat a + unat m} \<union> {unat b ..< unat b + unat n}"
proof -
  have ab: "unat a \<le> unat b" using assms(3) by (simp add: word_le_nat_alt)
  have lt: "unat a + unat m < unat b + unat n"
    using assms(5) by (simp only: word_less_nat_alt unat_ext_end [OF assms(1)] unat_ext_end [OF assms(2)])
  have e: "uint (b + ucast n) - uint a = int (unat b + unat n - unat a)"
    using ab unat_ext_end [OF assms(2)] by (simp only: uint_nat of_nat_diff)
  have le: "unat b + unat n - unat a \<le> 100" using assms(6) unfolding e by (simp add: SYNC_EXT_MAX_SIZE_def)
  then show s: "unat s = unat b + unat n - unat a"
    unfolding s_def e by (simp add: unat_of_nat_small')
  then show "unat s \<le> 100" "unat a + unat s < 2 ^ 16" using le ab assms(2) by simp_all
  show "{unat a ..< unat a + unat s} = {unat a ..< unat a + unat m} \<union> {unat b ..< unat b + unat n}"
    using s ab lt assms(4) by auto
qed

lemma merge_inside:
  assumes "unat a + unat m < 2 ^ 16" "unat b + unat n < 2 ^ 16" "a \<le> b"
    and "\<not> (a :: u16) + ucast (m :: u8) < b + ucast (n :: u8)"
  shows "{unat b ..< unat b + unat n} \<subseteq> {unat a ..< unat a + unat m}"
proof -
  have "unat b + unat n \<le> unat a + unat m" "unat a \<le> unat b"
    using assms(3,4) unat_ext_end [OF assms(1)] unat_ext_end [OF assms(2)] by (simp_all add: word_less_nat_alt word_le_nat_alt not_less)
  then show ?thesis by auto
qed

text \<open>What merging promises about a list of requests\<close>

definition covered_by :: "sync_ext list \<Rightarrow> sync_ext list \<Rightarrow> bool" where
  "covered_by es xs \<longleftrightarrow> exts_regs xs = exts_regs es \<and> (\<forall>e \<in> set es. \<exists>x \<in> set xs. ext_regs e \<subseteq> ext_regs x) \<and>
     (\<forall>x \<in> set xs. unat (xm_size x) \<le> 100 \<or> x \<in> set es)"

lemma covered_by_refl: "covered_by es es"
  by (auto simp: covered_by_def)

lemma covered_by_Cons: "covered_by es xs \<Longrightarrow> covered_by (e # es) (e # xs)"
  by (auto simp: covered_by_def)

lemma covered_by_merge:
  assumes "covered_by (x # es) xs" "ext_regs x = ext_regs e \<union> ext_regs n" "unat (xm_size x) \<le> 100 \<or> x = e"
  shows "covered_by (e # n # es) xs"
  using assms unfolding covered_by_def by (simp add: Un_assoc) blast

lemma trim_exts_covered: "exts_ok es \<Longrightarrow> covered_by es (trim_exts es)"
proof (induction "length es" arbitrary: es rule: less_induct)
  case less
  show ?case
  proof (cases es rule: trim_exts.cases)
    case (3 e n r)
    obtain a f m where e: "e = XModbus a f m" "unat a + unat m < 2 ^ 16" using less.prems 3 by (auto elim: ext_in_rangeE)
    obtain b g k where n: "n = XModbus b g k" "unat b + unat k < 2 ^ 16" using less.prems 3 by (auto elim: ext_in_rangeE)
    have ok: "a \<le> b" "exts_ok (n # r)" "exts_ok (e # r)" using less.prems 3 e n by auto
    have IH: "exts_ok (x # r) \<Longrightarrow> covered_by (x # r) (trim_exts (x # r))" for x using less.hyps [of "x # r"] 3 by simp
    let ?join = "unat b \<le> unat a + unat m" and ?more = "a + ucast m < b + ucast k"
      and ?s = "of_int (uint (b + ucast k) - uint a) :: u8" and ?fits = "uint (b + ucast k) - uint a \<le> SYNC_EXT_MAX_SIZE"
    consider (wider) ?join ?more ?fits | (inside) ?join "\<not> ?more" | (apart) "\<not> (?join \<and> (?more \<longrightarrow> ?fits))" by blast
    then show ?thesis
    proof cases
      case wider
      note m = merge_wider [OF e(2) n(2) ok(1) wider]
      have "exts_ok (XModbus a f ?s # r)" using ok m(3) by (auto simp: e)
      from covered_by_merge [OF IH [OF this]] m(2,4) wider show ?thesis by (simp add: 3 e n Let_def)
    next
      case inside
      have "ext_regs e = ext_regs e \<union> ext_regs n"
        using merge_inside [OF e(2) n(2) ok(1) inside(2)] unfolding e n ext_regs.simps by blast
      with covered_by_merge [OF IH [OF ok(3)], of e n] inside show ?thesis by (simp add: 3 e n Let_def)
    next
      case apart
      have "trim_exts (e # n # r) = e # trim_exts (n # r)" using apart by (auto simp: e n Let_def)
      then show ?thesis using covered_by_Cons [OF IH [OF ok(2)]] by (simp add: 3)
    qed
  qed (simp_all add: covered_by_refl)
qed

section \<open>Slaves\<close>

definition slave_key :: "sync_slave \<Rightarrow> u8 \<times> u8 \<times> u8 \<times> slave_param" where
  "slave_key s = (s_dev s, s_num s, s_proto s, s_param s)"

definition var_key :: "ext_data \<Rightarrow> u8 \<times> u8 \<times> u8 \<times> slave_param" where
  "var_key d = slave_key (add_sync_slave_node d)"

definition key_class :: "u8 \<times> u8 \<times> u8 \<times> slave_param \<Rightarrow> proto_class" where
  "key_class k = class_of (unat (fst k)) (unat (fst (snd k))) (unat (fst (snd (snd k))))"

definition var_regs :: "ext_data \<Rightarrow> nat set" where
  "var_regs d = {unat (modbus_usExtAddr (io_param (xIo d))) ..< unat (modbus_usExtAddr (io_param (xIo d))) + in_nregs d}"

text \<open>The registers requested from a slave\<close>

definition slave_exts :: "u8 \<times> u8 \<times> u8 \<times> slave_param \<Rightarrow> sync_slave list \<Rightarrow> sync_ext list" where
  "slave_exts k ss = concat (map s_exts (filter (\<lambda>s. slave_key s = k) ss))"

lemma slave_class_key: "slave_class s = key_class (slave_key s)"
  by (simp add: slave_class_def key_class_def slave_key_def)

lemma slave_key_update [simp]: "slave_key (s\<lparr>s_exts := es\<rparr>) = slave_key s"
  by (simp add: slave_key_def)

lemma add_slave_class: "key_class (var_key d) = class_of (unat (ucast (usDevType (xIo d)) :: u8))
    (unat (ucast (usDevNum (xIo d)) :: u8)) (unat (ucast (usProtoType (xIo d)) :: u8))"
  by (simp add: key_class_def var_key_def slave_key_def add_sync_slave_node_def Let_def)

lemma exts_add_slave: "s_exts (add_sync_slave_node d) = [sync_ext_of (key_class (var_key d)) d]"
  unfolding add_slave_class by (simp add: add_sync_slave_node_def Let_def)

lemma ucast_same: "unat (v :: u8) = unat (w :: u16) \<Longrightarrow> ucast w = v"
proof -
  assume "unat v = unat w"
  then have "(of_nat (unat v) :: u8) = of_nat (unat w)" by simp
  then show ?thesis by simp
qed

text \<open>A slave that is found has the key of the variable; other classes find slaves of other classes.\<close>

lemma same_device_ucast:
  assumes "same_device d s"
  shows "ucast (usDevType (xIo d)) = s_dev s" "ucast (usDevNum (xIo d)) = s_num s" "ucast (usProtoType (xIo d)) = s_proto s"
  using assms by (auto simp: same_device_def intro: ucast_same)

lemma same_device_class:
  assumes "same_device d s"
  shows "class_of (unat (usDevType (xIo d))) (unat (usDevNum (xIo d))) (unat (usProtoType (xIo d))) = slave_class s"
    and "key_class (var_key d) = slave_class s"
  using assms same_device_ucast [OF assms] by (simp_all add: same_device_def slave_class_def add_slave_class)

lemma var_key_eq:
  "same_device d s \<Longrightarrow> s_param s = slave_param_of (slave_class s) (io_param (xIo d)) \<Longrightarrow> slave_key s = var_key d"
  using same_device_ucast [of d s] by (simp add: slave_key_def var_key_def add_sync_slave_node_def Let_def slave_class_def)

lemma find_slave_key:
  assumes f: "find_slave_test d s" and c: "slave_class s = CModbus \<or> key_class (var_key d) = CModbus"
  shows "slave_key s = var_key d"
proof (cases "same_device d s")
  case True
  note sd = same_device_class [OF True]
  have "s_param s = slave_param_of CModbus (io_param (xIo d))"
    using f c unfolding find_slave_test_def Let_def sd
    by (auto split: slave_param.splits dest!: sym [of "sint _"])
  moreover have "slave_class s = CModbus" using c sd by simp
  ultimately show ?thesis using var_key_eq [OF True] by simp
next
  case False
  let ?c = "class_of (unat (usDevType (xIo d))) (unat (usDevNum (xIo d))) (unat (usProtoType (xIo d)))"
  have "?c = CSelf \<and> unat (s_dev s) = unat (usDevType (xIo d)) \<and> unat (s_num s) = unat (usDevNum (xIo d)) \<or>
      ?c = CMid \<and> unat (s_dev s) = unat (usDevType (xIo d))"
    using f False by (auto simp: find_slave_test_def Let_def split: proto_class.splits)
  moreover have "class_of a b c = CSelf \<longleftrightarrow> proto_is_rtu_self a b" "class_of a b c = CMid \<longleftrightarrow> proto_is_rtu_self_mid a" for a b c
    by (auto simp: class_of_def proto_is_rtu_self_mid_def proto_is_rtu_self_def PROTO_DEV_RTU_SELF_def PROTO_DEV_RTU_SELF_MID_def)
  ultimately have "slave_class s \<in> {CSelf, CMid} \<and> key_class (var_key d) \<in> {CSelf, CMid}"
    unfolding slave_class_def add_slave_class using ucast_same by (metis insertI1 insertI2)
  then show ?thesis using c by auto
qed

section \<open>Building keeps what was asked for\<close>

lemma in_nregs_bound: "in_nregs d \<le> 128"
proof -
  have "unat (btInVarSize (xIo d)) < 2 ^ LENGTH(8)" by (rule unsigned_less)
  then show ?thesis by (simp add: in_nregs_def nregs_of_def)
qed

lemma unat_in_nregs [simp]: "unat (of_nat (in_nregs d) :: u8) = in_nregs d"
  using in_nregs_bound [of d] by (intro unat_of_nat_small') simp

lemma ext_regs_var [simp]: "ext_regs (sync_ext_of CModbus d) = var_regs d"
  by (simp add: var_regs_def)

lemma xm_size_var [simp]: "xm_size (sync_ext_of CModbus d) = of_nat (in_nregs d)"
  by simp

lemma set_modbus_insert [simp]: "set (modbus_insert x es) = insert x (set es)"
  by (induction es) auto

lemma exts_ok_insert: "exts_ok es \<Longrightarrow> ext_in_range x \<Longrightarrow> exts_ok (modbus_insert x es)"
  by (induction es) auto

lemma slave_exts_simps [simp]:
  "slave_exts k [] = []" "slave_exts k (s # ss) = (if slave_key s = k then s_exts s else []) @ slave_exts k ss"
  by (simp_all add: slave_exts_def)

definition asked :: "u8 \<times> u8 \<times> u8 \<times> slave_param \<Rightarrow> ext_data list \<Rightarrow> ext_data list" where
  "asked k ds = filter (\<lambda>d. bEnable d \<and> var_key d = k) ds"

definition slaves_ok :: "u8 \<times> u8 \<times> u8 \<times> slave_param \<Rightarrow> sync_slave list \<Rightarrow> bool" where
  "slaves_ok k ss \<longleftrightarrow> (\<forall>s \<in> set ss. slave_key s = k \<longrightarrow> exts_ok (s_exts s))"

lemma slave_add_ext_key [simp]: "slave_key (slave_add_ext d s) = slave_key s"
  by (simp add: slave_add_ext_def split: proto_class.splits)

lemma add_sync_ext_node_exts:
  assumes k: "key_class k = CModbus"
  shows "set (slave_exts k (add_sync_ext_node d ss)) =
    set (slave_exts k ss) \<union> (if var_key d = k then {sync_ext_of CModbus d} else {})"
proof (induction ss)
  case Nil
  show ?case using k by (auto simp: exts_add_slave simp flip: var_key_def)
next
  case (Cons s ss)
  show ?case
  proof (cases "find_slave_test d s")
    case True
    have key: "slave_key s = var_key d" if "slave_key s = k \<or> var_key d = k"
      using find_slave_key [OF True] that k by (auto simp: slave_class_key)
    have "s_exts (slave_add_ext d s) = modbus_insert (sync_ext_of CModbus d) (s_exts s)" if "slave_key s = k"
      using k that by (simp add: slave_add_ext_def slave_class_key)
    with True key show ?thesis by (auto simp del: sync_ext_of.simps)
  next
    case False
    with Cons show ?thesis by auto
  qed
qed

lemma add_sync_ext_node_ok:
  assumes k: "key_class k = CModbus" and d: "var_key d = k \<longrightarrow> ext_in_range (sync_ext_of CModbus d)"
  shows "slaves_ok k ss \<Longrightarrow> slaves_ok k (add_sync_ext_node d ss)"
proof (induction ss)
  case Nil
  show ?case using k d by (auto simp: slaves_ok_def exts_add_slave simp flip: var_key_def)
next
  case (Cons s ss)
  show ?case
  proof (cases "find_slave_test d s")
    case True
    have "exts_ok (s_exts (slave_add_ext d s))" if "slave_key s = k"
    proof -
      have "var_key d = k" using find_slave_key [OF True] that k by (auto simp: slave_class_key)
      then show ?thesis
        using that k d Cons.prems by (simp add: slave_add_ext_def slave_class_key slaves_ok_def exts_ok_insert del: sync_ext_of.simps)
    qed
    with True Cons.prems show ?thesis by (simp add: slaves_ok_def)
  next
    case False
    with Cons show ?thesis by (simp add: slaves_ok_def)
  qed
qed

lemma fold_add_exts:
  assumes k: "key_class k = CModbus" and d: "\<forall>d \<in> set (asked k ds). ext_in_range (sync_ext_of CModbus d)"
  shows "slaves_ok k ss \<Longrightarrow>
    slaves_ok k (fold add_sync_ext_node (filter bEnable ds) ss) \<and>
    set (slave_exts k (fold add_sync_ext_node (filter bEnable ds) ss)) =
      set (slave_exts k ss) \<union> sync_ext_of CModbus ` set (asked k ds)"
  using d
proof (induction ds arbitrary: ss)
  case (Cons d ds)
  show ?case
  proof (cases "bEnable d")
    case True
    have "slaves_ok k (add_sync_ext_node d ss)"
      using Cons.prems True by (intro add_sync_ext_node_ok [OF k]) (auto simp: asked_def)
    with Cons.IH [OF this] Cons.prems True add_sync_ext_node_exts [OF k, of d ss] show ?thesis
      by (auto simp: asked_def simp del: sync_ext_of.simps split: if_splits)
  next
    case False
    with Cons.IH [OF Cons.prems(1)] Cons.prems show ?thesis by (simp add: asked_def)
  qed
qed (simp add: asked_def)

lemma covered_by_append: "covered_by es xs \<Longrightarrow> covered_by es' xs' \<Longrightarrow> covered_by (es @ es') (xs @ xs')"
  unfolding covered_by_def exts_regs_def set_append image_Un by (simp add: ball_Un bex_Un) blast

lemma trim_covered:
  assumes k: "key_class k = CModbus"
  shows "slaves_ok k ss \<Longrightarrow> covered_by (slave_exts k ss) (slave_exts k (trim_sync_slave_link ss))"
proof (induction ss)
  case (Cons s ss)
  then have IH: "covered_by (slave_exts k ss) (slave_exts k (trim_sync_slave_link ss))"
    and s: "slave_key s = k \<Longrightarrow> exts_ok (s_exts s)" by (auto simp: slaves_ok_def)
  have t: "trim_sync_slave_link (s # ss) =
      (if slave_class s = CModbus then s\<lparr>s_exts := trim_exts (s_exts s)\<rparr> else s) # trim_sync_slave_link ss"
    by (simp add: trim_sync_slave_link_def)
  show ?case
    using covered_by_append [OF trim_exts_covered [OF s] IH] IH k
    by (cases "slave_key s = k") (auto simp: t slave_class_key)
qed (simp add: trim_sync_slave_link_def covered_by_refl)

section \<open>Properties\<close>

text \<open>
  Claim C8.  What the collecting thread asks a modbus slave for is exactly the registers of the enabled variables of that slave:
  the requests built and merged from the list of variables cover no other register, each variable lies whole within one
  request, and a request is no longer than 100 registers or than one variable.  This holds for variables whose registers end
  before the last address.
\<close>

theorem sync_requests_exact:
  assumes "\<forall>d \<in> set (asked k ds). unat (modbus_usExtAddr (io_param (xIo d))) + in_nregs d < 2 ^ 16" "key_class k = CModbus"
  shows "\<Union> (ext_regs ` set (slave_exts k (creat_sync_slave_link ds))) = \<Union> (var_regs ` set (asked k ds)) \<and>
    (\<forall>d \<in> set (asked k ds). \<exists>x \<in> set (slave_exts k (creat_sync_slave_link ds)). var_regs d \<subseteq> ext_regs x) \<and>
    (\<forall>x \<in> set (slave_exts k (creat_sync_slave_link ds)).
       unat (xm_size x) \<le> 100 \<or> (\<exists>d \<in> set (asked k ds). unat (xm_size x) = in_nregs d))"
proof -
  let ?ss = "fold add_sync_ext_node (filter bEnable ds) []"
  have "slaves_ok k []" by (simp add: slaves_ok_def)
  from fold_add_exts [OF assms(2) _ this, of ds] assms(1)
  have ok: "slaves_ok k ?ss" and es: "set (slave_exts k ?ss) = sync_ext_of CModbus ` set (asked k ds)" by auto
  from trim_covered [OF assms(2) ok] have "covered_by (slave_exts k ?ss) (slave_exts k (creat_sync_slave_link ds))"
    by (simp add: creat_sync_slave_link_def)
  then show ?thesis
    unfolding covered_by_def exts_regs_def es image_image ball_simps ext_regs_var by fastforce
qed

lemma sync_requests_exact_witness:
  "let ds = [sample_var [1] E_VAR_FLOAT 1024, sample_var [2] E_VAR_INT16 1030, sample_var [3] E_VAR_FLOAT 1026]
   in \<Union> (ext_regs ` set (slave_exts (0, 0, 0, PModbus 3 1 0) (creat_sync_slave_link ds))) = {1024 ..< 1028} \<union> {1030 ..< 1031}"
proof -
  let ?k = "(0, 0, 0, PModbus 3 1 0) :: u8 \<times> u8 \<times> u8 \<times> slave_param"
    and ?ds = "[sample_var [1] E_VAR_FLOAT 1024, sample_var [2] E_VAR_INT16 1030, sample_var [3] E_VAR_FLOAT 1026]"
  have m: "modbus_nSyncFAddr (modbus_param 3 0 1 a 0) = 0" for a
    by (simp add: modbus_nSyncFAddr_def modbus_param_def del: of_le32.simps)
  have k: "var_key (sample_var n t a) = ?k" for n t a
    by (simp add: var_key_def slave_key_def add_sync_slave_node_def sample_var_def class_of_def proto_defs proto_consts m)
  have ask: "asked ?k ?ds = ?ds" by (simp add: asked_def k) (simp add: sample_var_def)
  have r: "var_regs (sample_var n t a) = {unat a ..< unat a + (unat (var_type_sz t) + 1) div 2}" for n t a
    by (simp add: var_regs_def sample_var_def in_nregs_def nregs_of_def)
  have "\<Union> (ext_regs ` set (slave_exts ?k (creat_sync_slave_link ?ds))) = \<Union> (var_regs ` set (asked ?k ?ds))"
    by (rule sync_requests_exact [THEN conjunct1])
       (simp_all add: ask, simp_all add: sample_var_def in_nregs_def nregs_of_def key_class_def class_of_def proto_defs proto_consts)
  then show ?thesis unfolding ask Let_def by (auto simp: r)
qed

text \<open>One round of the collecting thread: it takes the next request until there is none.\<close>

fun sync_round :: "nat \<Rightarrow> sync_slave list \<Rightarrow> sync_pos \<Rightarrow> sync_node list" where
  "sync_round 0 ss pos = []"
| "sync_round (Suc n) ss pos =
     (case get_next_sync_ext_node ss pos of (pos, Some x) \<Rightarrow> x # sync_round n ss pos | (pos, None) \<Rightarrow> [])"

definition slave_nodes :: "sync_slave \<Rightarrow> sync_node list" where
  "slave_nodes s = map (slave_node s) (s_exts s)"

lemma slave_nodes_Cons: "s_exts s = x # xs \<Longrightarrow> slave_nodes s = slave_node s x # map (slave_node s) xs"
  by (simp add: slave_nodes_def)

lemma trim_exts_Nil [simp]: "trim_exts es = [] \<longleftrightarrow> es = []"
  by (induction es rule: trim_exts.induct) (auto simp: Let_def)

lemma modbus_insert_Nil [simp]: "modbus_insert x es \<noteq> []"
  by (cases es) auto

lemma creat_nonempty: "s \<in> set (creat_sync_slave_link ds) \<Longrightarrow> s_exts s \<noteq> []"
proof -
  have add: "\<forall>s \<in> set ss. s_exts s \<noteq> [] \<Longrightarrow> s \<in> set (add_sync_ext_node d ss) \<Longrightarrow> s_exts s \<noteq> []" for d ss s
    by (induction ss) (auto simp: exts_add_slave slave_add_ext_def split: if_splits proto_class.splits)
  have "\<forall>s \<in> set ss. s_exts s \<noteq> [] \<Longrightarrow> \<forall>s \<in> set (fold add_sync_ext_node ds ss). s_exts s \<noteq> []" for ss ds
  proof (induction ds arbitrary: ss)
    case (Cons d ds)
    then show ?case using add by (metis fold_simps(2))
  qed simp
  from this [of "[]"] show "s \<in> set (creat_sync_slave_link ds) \<Longrightarrow> s_exts s \<noteq> []"
    by (auto simp: creat_sync_slave_link_def trim_sync_slave_link_def split: if_splits)
qed

lemma sync_round_from:
  assumes ne: "\<forall>s \<in> set ss. s_exts s \<noteq> []"
  shows "i < length ss \<Longrightarrow> j < length (s_exts (ss ! i)) \<Longrightarrow>
    length (drop (Suc j) (slave_nodes (ss ! i)) @ concat (map slave_nodes (drop (Suc i) ss))) < n \<Longrightarrow>
    sync_round n ss (Some (i, j)) = drop (Suc j) (slave_nodes (ss ! i)) @ concat (map slave_nodes (drop (Suc i) ss))"
proof (induction n arbitrary: i j)
  case (Suc n)
  consider (ext) "Suc j < length (s_exts (ss ! i))" | (slave) "length (s_exts (ss ! i)) = Suc j" "Suc i < length ss"
    | (last) "length (s_exts (ss ! i)) = Suc j" "length ss = Suc i"
    using Suc.prems(1,2) by linarith
  then show ?case
  proof cases
    case ext
    then have "drop (Suc j) (slave_nodes (ss ! i)) =
        slave_node (ss ! i) (s_exts (ss ! i) ! Suc j) # drop (Suc (Suc j)) (slave_nodes (ss ! i))"
      by (simp add: slave_nodes_def Cons_nth_drop_Suc [symmetric])
    then show ?thesis using ext Suc by (simp add: get_next_sync_ext_node_def isexist_sync_ext_def)
  next
    case slave
    then have "s_exts (ss ! Suc i) \<noteq> []" using ne nth_mem by blast
    then obtain x xs where e: "s_exts (ss ! Suc i) = x # xs" by (cases "s_exts (ss ! Suc i)") auto
    have d: "drop (Suc i) ss = ss ! Suc i # drop (Suc (Suc i)) ss" using slave by (simp add: Cons_nth_drop_Suc)
    have "drop (Suc j) (slave_nodes (ss ! i)) = []" using slave by (simp add: slave_nodes_def)
    moreover have "sync_round n ss (Some (Suc i, 0)) =
        map (slave_node (ss ! Suc i)) xs @ concat (map slave_nodes (drop (Suc (Suc i)) ss))"
      using slave Suc.prems Suc.IH [of "Suc i" 0] slave_nodes_Cons [OF e] by (simp add: d e)
    ultimately show ?thesis
      using slave slave_nodes_Cons [OF e] by (simp add: get_next_sync_ext_node_def isexist_sync_ext_def d e)
  next
    case last
    then show ?thesis by (simp add: get_next_sync_ext_node_def isexist_sync_ext_def slave_nodes_def)
  qed
qed simp

text \<open>
  Claim C29.  A round of the collecting thread over the lists ends after it has taken each request of each slave exactly once,
  in order, and the next round starts again with the first one.
\<close>

theorem sync_round_all:
  "sync_round (Suc (length (concat (map slave_nodes (creat_sync_slave_link ds))))) (creat_sync_slave_link ds) None =
     concat (map slave_nodes (creat_sync_slave_link ds))"
proof (cases "creat_sync_slave_link ds")
  case Nil
  then show ?thesis by (simp add: get_next_sync_ext_node_def isexist_sync_ext_def)
next
  case (Cons s ss)
  have ne: "\<forall>s \<in> set (s # ss). s_exts s \<noteq> []" using creat_nonempty [of _ ds] Cons by metis
  then obtain x xs where e: "s_exts s = x # xs" by (cases "s_exts s") auto
  show ?thesis
    using sync_round_from [OF ne, of 0 0 "length (concat (map slave_nodes (s # ss)))"] slave_nodes_Cons [OF e]
    by (simp add: Cons e get_next_sync_ext_node_def isexist_sync_ext_def)
qed

end
