(* ===== verification/Ext_Group.thy ===== *)
theory Ext_Group
  imports Ext_Refresh Sync_List
begin

text \<open>
  Groups of variables, \<open>drivers/varmanage/varmanage.c\<close>: for an input module that was found on the bus the web interface
  adds eight variables at once, and removes them again.  The state is what these operations touch: the
  list of variables, the flags of the registers, the list of what is asked for, the collecting threads, and the
  calls made to the stored configuration (a data base, which is not there; what it answers is an
  argument).  Allocations and the creation of threads succeed.
\<close>

section \<open>State\<close>

record run_slot =
  r_use :: bool
  r_dev_type :: u16
  r_dev_num :: u16

datatype cfg_call = Cfg_add ext_data | Cfg_del bytes

record group_state =
  gs_list :: ext_list
  gs_flags :: "bool list"
  gs_sync :: "sync_slave list"
  gs_runs :: "run_slot list"
  gs_cfg :: "cfg_call list"

section \<open>Collecting threads\<close>

definition varmanage_run_get :: "run_slot list \<Rightarrow> u16 \<Rightarrow> u16 \<Rightarrow> nat option" where
  "varmanage_run_get rs t n = find (\<lambda>i. \<not> r_use (rs ! i) \<or> r_dev_type (rs ! i) = t \<and> r_dev_num (rs ! i) = n) [0 ..< length rs]"

definition run_step :: "ext_data \<Rightarrow> run_slot list \<Rightarrow> run_slot list" where
  "run_step d rs =
     (case varmanage_run_get rs (usDevType (xIo d)) (usDevNum (xIo d)) of
        None \<Rightarrow> rs
      | Some i \<Rightarrow>
          if r_use (rs ! i) then rs
          else rs[i := \<lparr>r_use = True, r_dev_type = usDevType (xIo d), r_dev_num = usDevNum (xIo d)\<rparr>])"

definition varmanage_update :: "group_state \<Rightarrow> group_state outcome" where
  "varmanage_update s = bindO (el_items (gs_list s)) (\<lambda>ds. Ret (s\<lparr>gs_runs := fold run_step ds (gs_runs s)\<rparr>))"

section \<open>Variables of a module\<close>

definition WEBNET_ERR_GROUP_EXIST :: int where "WEBNET_ERR_GROUP_EXIST = -1001"
definition WEBNET_ERR_NAME_EXIST :: int where "WEBNET_ERR_NAME_EXIST = -1002"
definition WEBNET_ERR_PARAM :: int where "WEBNET_ERR_PARAM = -1004"

definition VAR_DEV_TYPE0_AI :: int where "VAR_DEV_TYPE0_AI = 0x1000"
definition VAR_DEV_TYPE0_TTL :: int where "VAR_DEV_TYPE0_TTL = 0x1001"
definition VAR_DEV_TYPE1_TTL_4DI_4DO :: int where "VAR_DEV_TYPE1_TTL_4DI_4DO = 0"
definition VAR_DEV_TYPE1_TTL_4DO_4DI :: int where "VAR_DEV_TYPE1_TTL_4DO_4DI = 1"
definition VAR_DEV_TYPE1_TTL_8DI :: int where "VAR_DEV_TYPE1_TTL_8DI = 2"
definition VAR_DEV_TYPE1_TTL_8DO :: int where "VAR_DEV_TYPE1_TTL_8DO = 3"

lemmas dev_types = VAR_DEV_TYPE0_AI_def VAR_DEV_TYPE0_TTL_def VAR_DEV_TYPE1_TTL_4DI_4DO_def VAR_DEV_TYPE1_TTL_4DO_4DI_def
  VAR_DEV_TYPE1_TTL_8DI_def VAR_DEV_TYPE1_TTL_8DO_def

definition MB_DEV_AI_DATA_REG :: u16 where "MB_DEV_AI_DATA_REG = 50"
definition MB_DEV_AI_DATA_SZ :: nat where "MB_DEV_AI_DATA_SZ = 2"
definition MB_DEV_AI_DATA_REG_SZ :: nat where "MB_DEV_AI_DATA_REG_SZ = 8"
definition MB_DEV_TTL_DATA_REG :: u16 where "MB_DEV_TTL_DATA_REG = 70"
definition MB_DEV_TTL_DATA_SZ :: nat where "MB_DEV_TTL_DATA_SZ = 1"
definition MB_DEV_TTL_DATA_REG_SZ :: nat where "MB_DEV_TTL_DATA_REG_SZ = 8"

lemmas mb_dev_consts = MB_DEV_AI_DATA_REG_def MB_DEV_AI_DATA_SZ_def MB_DEV_AI_DATA_REG_SZ_def
  MB_DEV_TTL_DATA_REG_def MB_DEV_TTL_DATA_SZ_def MB_DEV_TTL_DATA_REG_SZ_def

text \<open>\<open>snprintf\<close> into an array: what fits before the final zero.  The names looked for are printed into 32 bytes, those given into 33.\<close>

definition snprintf_n :: "nat \<Rightarrow> bytes \<Rightarrow> bytes" where
  "snprintf_n k t = take (k - 1) t"

definition CHECK_NAME_SIZE :: nat where "CHECK_NAME_SIZE = 32"
definition VAR_NAME_SIZE :: nat where "VAR_NAME_SIZE = 33"

definition ai_text :: "bytes \<Rightarrow> nat \<Rightarrow> bytes" where "ai_text pf n = pf @ asc ''_AI_'' @ dec_digits n"
definition di_text :: "bytes \<Rightarrow> nat \<Rightarrow> bytes" where "di_text pf n = pf @ asc ''_TTL_DI_'' @ dec_digits n"
definition do_text :: "bytes \<Rightarrow> nat \<Rightarrow> bytes" where "do_text pf n = pf @ asc ''_TTL_DO_'' @ dec_digits n"

definition ai_group :: "bytes \<Rightarrow> bytes" where "ai_group i = snprintf_n VAR_NAME_SIZE (asc ''AI_'' @ i)"
definition ttl_group :: "bytes \<Rightarrow> bytes" where "ttl_group i = snprintf_n VAR_NAME_SIZE (asc ''TTL_0_'' @ i)"

text \<open>A variable from cleared memory with the fields that both kinds of module set\<close>

definition module_var :: "bytes \<Rightarrow> bytes \<Rightarrow> var_attr \<Rightarrow> var_type \<Rightarrow> int \<Rightarrow> int \<Rightarrow> int \<Rightarrow> u16 \<Rightarrow> u16 \<Rightarrow> ai_cfg \<Rightarrow> ext_data" where
  "module_var gr name attr t slave_addr dev_type dev_num addr ea cfg =
     \<lparr>bEnable = True, szGroup = gr, szName = name, eAttr = attr,
      xIo = \<lparr>btInVarType = t, btInVarSize = var_type_sz t, btInVarRuleType = 0, btOutVarType = t,
        btOutVarSize = var_type_sz t, btOutVarRuleType = 0, xValue = replicate 8 0, fMax = 0, fMin = 0,
        bUseMax = False, bUseMin = False, usDevType = of_int dev_type, usDevNum = of_int dev_num, usProtoType = 0,
        usAddr = addr, btErrOp = 0, btErrCnt = 0, btErrNum = 0, bErrFlag = False,
        io_param = modbus_param 3 0 (of_int slave_addr) ea 0, io_exp = Exp None\<rparr>,
      xAvgReal = no_avg, xAvgMin = no_avg, xAvgHour = no_avg, xCfg = cfg, xAttach = no_adc\<rparr>"

definition ai_module_cfg :: ai_cfg where
  "ai_module_cfg = \<lparr>ai_range = Range_0_20MA, ai_unit = Unit_Meter, ext_range_min = Num 0, ext_range_max = Num 20, ext_factor = Num 0\<rparr>"

definition ai_check_names :: "bytes \<Rightarrow> bytes option list" where
  "ai_check_names pf = map (\<lambda>n. Some (snprintf_n CHECK_NAME_SIZE (ai_text pf (n + 1)))) [0 ..< MB_DEV_AI_DATA_REG_SZ]"

definition ai_vars :: "bytes \<Rightarrow> bytes \<Rightarrow> int \<Rightarrow> int \<Rightarrow> int \<Rightarrow> u16 \<Rightarrow> ext_data option list" where
  "ai_vars i pf slave_addr dev_type dev_num addr =
     map (\<lambda>n. Some (module_var (ai_group i) (snprintf_n VAR_NAME_SIZE (ai_text pf (n + 1))) E_VAR_ATTR_AI E_VAR_FLOAT
            slave_addr dev_type dev_num (addr + of_nat (n * MB_DEV_AI_DATA_SZ))
            (MB_DEV_AI_DATA_REG + of_nat (n * MB_DEV_AI_DATA_SZ)) ai_module_cfg))
       [0 ..< MB_DEV_AI_DATA_REG_SZ]"

text \<open>The switch over the kind of module, once for the names looked for and once for the variables\<close>

definition ttl_check_name :: "int \<Rightarrow> bytes \<Rightarrow> nat \<Rightarrow> bytes option" where
  "ttl_check_name t pf n =
     (if t = VAR_DEV_TYPE1_TTL_4DI_4DO then Some (if n < 4 then di_text pf (n + 1) else do_text pf (n - 3))
      else if t = VAR_DEV_TYPE1_TTL_4DO_4DI then Some (if n < 4 then do_text pf (n + 1) else di_text pf (n - 3))
      else if t = VAR_DEV_TYPE1_TTL_8DI then Some (di_text pf (n + 1))
      else if t = VAR_DEV_TYPE1_TTL_8DO then Some (do_text pf (n + 1))
      else None)"

definition ttl_new_name :: "int \<Rightarrow> bytes \<Rightarrow> nat \<Rightarrow> (var_attr \<times> bytes) option" where
  "ttl_new_name t pf n =
     (if t = VAR_DEV_TYPE1_TTL_4DI_4DO then
        Some (if n < 4 then (E_VAR_ATTR_DI, di_text pf (n + 1)) else (E_VAR_ATTR_DO, do_text pf (n - 3)))
      else if t = VAR_DEV_TYPE1_TTL_4DO_4DI then
        Some (if n < 4 then (E_VAR_ATTR_DO, do_text pf (n + 1)) else (E_VAR_ATTR_DI, di_text pf (n - 3)))
      else if t = VAR_DEV_TYPE1_TTL_8DI then Some (E_VAR_ATTR_DI, di_text pf n)
      else if t = VAR_DEV_TYPE1_TTL_8DO then Some (E_VAR_ATTR_DO, do_text pf n)
      else None)"

definition ttl_check_names :: "int \<Rightarrow> bytes \<Rightarrow> bytes option list" where
  "ttl_check_names t pf =
     map (\<lambda>n. map_option (snprintf_n CHECK_NAME_SIZE) (ttl_check_name t pf n)) [0 ..< MB_DEV_TTL_DATA_REG_SZ]"

definition ttl_vars :: "int \<Rightarrow> bytes \<Rightarrow> bytes \<Rightarrow> int \<Rightarrow> int \<Rightarrow> int \<Rightarrow> u16 \<Rightarrow> ext_data option list" where
  "ttl_vars t i pf slave_addr dev_type dev_num addr =
     map (\<lambda>n. map_option (\<lambda>(attr, name). module_var (ttl_group i) (snprintf_n VAR_NAME_SIZE name) attr E_VAR_UINT16
            slave_addr dev_type dev_num (addr + of_nat (n * MB_DEV_TTL_DATA_SZ))
            (MB_DEV_TTL_DATA_REG + of_nat (n * MB_DEV_TTL_DATA_SZ)) no_ai_cfg) (ttl_new_name t pf n))
       [0 ..< MB_DEV_TTL_DATA_REG_SZ]"

section \<open>Adding and removing\<close>

fun check_names :: "bytes option list \<Rightarrow> ext_list \<Rightarrow> int outcome" where
  "check_names [] l = Ret 0"
| "check_names (None # ns) l = Ret WEBNET_ERR_PARAM"
| "check_names (Some n # ns) l =
     bindO (var_has_name n l) (\<lambda>b. if b then Ret WEBNET_ERR_NAME_EXIST else check_names ns l)"

fun add_vars :: "ext_data option list \<Rightarrow> group_state \<Rightarrow> (int \<times> group_state) outcome" where
  "add_vars [] s = Ret (0, s)"
| "add_vars (None # ds) s = Ret (WEBNET_ERR_PARAM, s)"
| "add_vars (Some d # ds) s =
     bindO (vVarManage_InsertNode d (gs_list s)) (\<lambda>l. add_vars ds (s\<lparr>gs_list := l, gs_cfg := gs_cfg s @ [Cfg_add d]\<rparr>))"

text \<open>Sort, registers, requests: what follows every change of the list; \<open>None\<close> when sorting never ends\<close>

definition resort :: "group_state \<Rightarrow> group_state outcome option" where
  "resort s =
     map_option (\<lambda>r. bindO r (\<lambda>l. bindO (el_items l) (\<lambda>ds.
       Ret (s\<lparr>gs_list := l, gs_flags := RefreshRegsFlag ds, gs_sync := creat_sync_slave_link ds\<rparr>)))) (sort_extdata_link (gs_list s))"

definition then_resort :: "int \<times> group_state \<Rightarrow> (int \<times> group_state) outcome option" where
  "then_resort = (\<lambda>(e, s). if e \<noteq> 0 then Some (Ret (e, s))
     else map_option (\<lambda>r. bindO r (\<lambda>s. bindO (varmanage_update s) (\<lambda>s. Ret (0, s)))) (resort s))"

definition bindX :: "'a outcome \<Rightarrow> ('a \<Rightarrow> 'b outcome option) \<Rightarrow> 'b outcome option" where
  "bindX m f = (case m of Ret a \<Rightarrow> f a | Fault \<Rightarrow> Some Fault | Blocked \<Rightarrow> Some Blocked)"

definition add_module :: "bytes \<Rightarrow> bytes option list \<Rightarrow> (u16 \<Rightarrow> ext_data option list) \<Rightarrow> group_state \<Rightarrow>
    (int \<times> group_state) outcome option" where
  "add_module gr names vars s =
     bindX (var_has_group gr (gs_list s)) (\<lambda>g.
       if g then Some (Ret (WEBNET_ERR_GROUP_EXIST, s))
       else bindX (check_names names (gs_list s)) (\<lambda>e.
         if e \<noteq> 0 then Some (Ret (e, s))
         else bindX (var_get_next_addr (gs_list s)) (\<lambda>addr. bindX (add_vars (vars addr) s) then_resort)))"

definition var_add_ai :: "bytes \<Rightarrow> bytes \<Rightarrow> int \<Rightarrow> int \<Rightarrow> int \<Rightarrow> group_state \<Rightarrow> (int \<times> group_state) outcome option" where
  "var_add_ai i pf slave_addr dev_type dev_num =
     add_module (ai_group i) (ai_check_names pf) (ai_vars i pf slave_addr dev_type dev_num)"

definition var_add_ttl :: "int \<Rightarrow> bytes \<Rightarrow> bytes \<Rightarrow> int \<Rightarrow> int \<Rightarrow> int \<Rightarrow> group_state \<Rightarrow> (int \<times> group_state) outcome option" where
  "var_add_ttl t i pf slave_addr dev_type dev_num =
     add_module (ttl_group i) (ttl_check_names t pf) (ttl_vars t i pf slave_addr dev_type dev_num)"

definition var_add_group :: "int \<Rightarrow> int \<Rightarrow> bytes \<Rightarrow> bytes \<Rightarrow> int \<Rightarrow> int \<Rightarrow> int \<Rightarrow> group_state \<Rightarrow> (int \<times> group_state) outcome option" where
  "var_add_group t0 t1 i pf slave_addr dev_type dev_num s =
     (if t0 = VAR_DEV_TYPE0_AI then var_add_ai i pf slave_addr dev_type dev_num s
      else if t0 = VAR_DEV_TYPE0_TTL then var_add_ttl t1 i pf slave_addr dev_type dev_num s
      else Some (Ret (WEBNET_ERR_PARAM, s)))"

definition delVarManageExtData :: "(bytes \<Rightarrow> bool) \<Rightarrow> bytes \<Rightarrow> group_state \<Rightarrow> (bool \<times> group_state) outcome option" where
  "delVarManageExtData del name s =
     (if name = [] then Some (Ret (True, s))
      else bindX (if del name then vVarManage_RemoveNodeWithName name (gs_list s) else Ret (gs_list s)) (\<lambda>l.
        map_option (\<lambda>r. bindO r (\<lambda>s. Ret (del name, s))) (resort (s\<lparr>gs_list := l, gs_cfg := gs_cfg s @ [Cfg_del name]\<rparr>))))"

text \<open>As long as a variable of the group is found it is removed by its name; every round frees a cell.\<close>

fun del_group :: "nat \<Rightarrow> (bytes \<Rightarrow> bool) \<Rightarrow> bytes \<Rightarrow> group_state \<Rightarrow> (bool \<times> group_state) outcome" where
  "del_group k del g s =
     bindO (el_first (\<lambda>c. szGroup (c_data c) = g) (gs_list s)) (\<lambda>p.
       case p of
         None \<Rightarrow> Ret (False, s)
       | Some i \<Rightarrow> bindO (deref (el_heap (gs_list s)) (Some i)) (\<lambda>c.
           let n = szName (c_data c); cfg = gs_cfg s @ [Cfg_del n]
           in if n = [] then Ret (False, s)
              else if \<not> del n then Ret (False, s\<lparr>gs_cfg := cfg\<rparr>)
              else bindO (vVarManage_RemoveNodeWithName n (gs_list s)) (\<lambda>l.
                case k of 0 \<Rightarrow> Blocked
                | Suc k \<Rightarrow> bindO (del_group k del g (s\<lparr>gs_list := l, gs_cfg := cfg\<rparr>)) (\<lambda>r. Ret (True, snd r)))))"

declare del_group.simps [simp del]

definition delVarManageExtGroup :: "(bytes \<Rightarrow> bool) \<Rightarrow> bytes \<Rightarrow> group_state \<Rightarrow> group_state outcome option" where
  "delVarManageExtGroup del g s =
     (if g = [] then Some (Ret s)
      else bindX (del_group (length (el_heap (gs_list s))) del g s) (\<lambda>(refresh, s). if refresh then resort s else Some (Ret s)))"


section \<open>Layouts\<close>

text \<open>Variables in ascending order whose registers do not overlap and lie in the range of the user\<close>

definition layout :: "ext_data list \<Rightarrow> bool" where
  "layout ds \<longleftrightarrow> sorted_wrt (\<lambda>a b. ext_addr a + out_nregs a \<le> ext_addr b) ds \<and>
     list_all (\<lambda>d. USER_REG_EXT_DATA_START \<le> ext_addr d \<and> 0 < out_nregs d \<and> ext_addr d + out_nregs d \<le> USER_REG_EXT_DATA_END) ds"

definition next_free :: "ext_data list \<Rightarrow> nat" where
  "next_free ds = (if ds = [] then USER_REG_EXT_DATA_START + 1 else ext_addr (last ds) + out_nregs (last ds))"

text \<open>A variable of more than one register that stands alone at register 1024 is not seen by the search for the next register.\<close>

definition next_known :: "ext_data list \<Rightarrow> bool" where
  "next_known ds \<longleftrightarrow> ds = [] \<or> USER_REG_EXT_DATA_START < ext_addr (last ds) \<or> out_nregs (last ds) = 1"

lemma layout_ascending: "layout ds \<Longrightarrow> ascending ds"
  unfolding layout_def ascending_def sorted_wrt_map
  by (rule sorted_wrt_mono_rel [rotated, of "\<lambda>a b. ext_addr a + out_nregs a \<le> ext_addr b"])
    (auto simp: list_all_iff word_less_nat_alt)

lemma layout_snoc: "layout (ds @ [d]) \<longleftrightarrow>
    layout ds \<and> (\<forall>x \<in> set ds. ext_addr x + out_nregs x \<le> ext_addr d) \<and>
    USER_REG_EXT_DATA_START \<le> ext_addr d \<and> 0 < out_nregs d \<and> ext_addr d + out_nregs d \<le> USER_REG_EXT_DATA_END"
  by (auto simp: layout_def sorted_wrt_append)

lemma layout_pos: "layout ds \<Longrightarrow> x \<in> set ds \<Longrightarrow> 0 < out_nregs x"
  by (auto simp: layout_def list_all_iff)

lemma layout_filter: "layout ds \<Longrightarrow> layout (filter P ds)"
  by (auto simp: layout_def list_all_iff intro: sorted_wrt_filter)

lemma layout_before_next:
  assumes "layout ds" "x \<in> set ds"
  shows "ext_addr x + out_nregs x \<le> next_free ds"
proof (cases ds rule: rev_cases)
  case (snoc ys y)
  with assms show ?thesis by (auto simp: layout_snoc next_free_def)
qed (use assms in simp)

lemma layout_next_bounds: "layout ds \<Longrightarrow> USER_REG_EXT_DATA_START < next_free ds \<and> next_free ds \<le> USER_REG_EXT_DATA_END"
  by (cases ds rule: rev_cases) (auto simp: next_free_def layout_snoc USER_REG_EXT_DATA_START_def USER_REG_EXT_DATA_END_def)

lemma fold_next_addr:
  "layout ds \<Longrightarrow> fold next_addr_step ds (of_nat USER_REG_EXT_DATA_START, 1) =
     (if ds = [] \<or> ext_addr (last ds) = USER_REG_EXT_DATA_START then (of_nat USER_REG_EXT_DATA_START, 1)
      else (usAddr (xIo (last ds)), ucast (btOutVarSize (xIo (last ds)))))"
proof (induction ds rule: rev_induct)
  case (snoc d ds)
  have s: "unat (of_nat USER_REG_EXT_DATA_START :: u16) = USER_REG_EXT_DATA_START" by (simp add: USER_REG_EXT_DATA_START_def)
  have l: "layout ds" "USER_REG_EXT_DATA_START \<le> ext_addr d" using snoc.prems by (simp_all add: layout_snoc)
  have d: "ext_addr (last ds) < ext_addr d \<and> USER_REG_EXT_DATA_START < ext_addr d" if "ds \<noteq> []"
  proof -
    have "last ds \<in> set ds" using that by simp
    then have "ext_addr (last ds) + out_nregs (last ds) \<le> ext_addr d" "0 < out_nregs (last ds)"
        "USER_REG_EXT_DATA_START \<le> ext_addr (last ds)"
      using snoc.prems by (auto simp: layout_snoc) (auto simp: layout_def list_all_iff)
    then show ?thesis by linarith
  qed
  show ?case
    using snoc.IH [OF l(1)] d l(2) s
    by (cases "ds = []") (auto simp: next_addr_step_def word_less_nat_alt)
qed simp

lemma var_get_next_addr_layout:
  assumes "el_ok l xs" "layout (map snd xs)" "next_known (map snd xs)"
  shows "var_get_next_addr l = Ret (of_nat (next_free (map snd xs)))"
proof -
  have u: "unat (ucast (w :: u8) :: u16) = unat w" for w
  proof -
    have "unat w < 2 ^ LENGTH(8)" by (rule unsigned_less)
    then show ?thesis by (simp add: unsigned_ucast_eq take_bit_nat_eq_self)
  qed
  have f: "fold next_addr_step (map snd xs) (of_nat USER_REG_EXT_DATA_START, 1) =
      (if map snd xs = [] \<or> ext_addr (last (map snd xs)) = USER_REG_EXT_DATA_START then (of_nat USER_REG_EXT_DATA_START, 1)
       else (usAddr (xIo (last (map snd xs))), ucast (btOutVarSize (xIo (last (map snd xs))))))"
    by (rule fold_next_addr [OF assms(2)])
  show ?thesis
  proof (cases "map snd xs = [] \<or> ext_addr (last (map snd xs)) = USER_REG_EXT_DATA_START")
    case True
    then have "next_free (map snd xs) = USER_REG_EXT_DATA_START + 1"
      using assms(3) by (auto simp: next_free_def next_known_def)
    then show ?thesis using f True by (simp add: var_get_next_addr_def el_items_ok [OF assms(1)] USER_REG_EXT_DATA_START_def)
  next
    case False
    then show ?thesis using f
      by (simp add: var_get_next_addr_def el_items_ok [OF assms(1)] next_free_def out_nregs_def nregs_of_def u)
  qed
qed

section \<open>Adding\<close>

lemma add_vars_ok:
  assumes "el_ok (gs_list s) xs"
  obtains s' xs' where "add_vars (map Some ds) s = Ret (0, s')" "el_ok (gs_list s') xs'" "map snd xs' = map snd xs @ ds"
    "gs_runs s' = gs_runs s" "gs_cfg s' = gs_cfg s @ map Cfg_add ds"
  using assms
proof (induction ds arbitrary: s xs thesis)
  case (Cons d ds)
  obtain l where l: "vVarManage_InsertNode d (gs_list s) = Ret l" "el_ok l (xs @ [(length (el_heap (gs_list s)), d)])"
    using InsertNode_ok [OF Cons.prems(2), of d] by metis
  show ?case
    using Cons.IH [of "s\<lparr>gs_list := l, gs_cfg := gs_cfg s @ [Cfg_add d]\<rparr>" "xs @ [(length (el_heap (gs_list s)), d)]"] l Cons.prems(1)
    by auto
qed auto

lemma check_names_ok:
  assumes "el_ok l xs"
  shows "check_names (map Some ns) l = Ret (if set ns \<inter> szName ` set (map snd xs) = {} then 0 else WEBNET_ERR_NAME_EXIST)"
  using var_has_ok [OF assms] by (induction ns) (auto simp: WEBNET_ERR_NAME_EXIST_def)

lemma resort_ok:
  assumes "el_ok (gs_list s) xs" "ascending (map snd xs)"
  shows "resort s = Some (Ret (s\<lparr>gs_flags := RefreshRegsFlag (map snd xs), gs_sync := creat_sync_slave_link (map snd xs)\<rparr>))"
  using sort_ascending [OF assms] el_items_ok [OF assms(1)] by (simp add: resort_def)

lemma add_module_ok:
  assumes s: "el_ok (gs_list s) xs" "layout (map snd xs)" "layout (map snd xs @ new)" "next_known (map snd xs)"
    and new: "vars (of_nat (next_free (map snd xs))) = map Some new" "names = map Some ns"
    and fresh: "g \<notin> szGroup ` snd ` set xs" "set ns \<inter> szName ` snd ` set xs = {}"
  obtains s' xs' where "add_module g names vars s = Some (Ret (0, s'))" "el_ok (gs_list s') xs'"
    "map snd xs' = map snd xs @ new" "gs_flags s' = RefreshRegsFlag (map snd xs @ new)"
    "gs_sync s' = creat_sync_slave_link (map snd xs @ new)" "gs_cfg s' = gs_cfg s @ map Cfg_add new"
    "gs_runs s' = fold run_step (map snd xs @ new) (gs_runs s)"
proof (rule add_vars_ok [OF s(1), of new])
  fix t ys
  assume t: "add_vars (map Some new) s = Ret (0, t)" "el_ok (gs_list t) ys" "map snd ys = map snd xs @ new"
    "gs_runs t = gs_runs s" "gs_cfg t = gs_cfg s @ map Cfg_add new"
  let ?t = "t\<lparr>gs_flags := RefreshRegsFlag (map snd ys), gs_sync := creat_sync_slave_link (map snd ys),
      gs_runs := fold run_step (map snd ys) (gs_runs t)\<rparr>"
  have "resort t = Some (Ret (t\<lparr>gs_flags := RefreshRegsFlag (map snd ys), gs_sync := creat_sync_slave_link (map snd ys)\<rparr>))"
    using resort_ok [OF t(2)] layout_ascending [OF s(3)] t(3) by simp
  then have "add_module g names vars s = Some (Ret (0, ?t))"
    using s(1) fresh new t var_get_next_addr_layout [OF s(1,2,4)] el_items_ok [OF t(2)]
    by (simp add: add_module_def bindX_def var_has_ok [OF s(1)] check_names_ok [OF s(1)] then_resort_def varmanage_update_def)
  then show thesis by (rule that) (use t in simp_all)
qed

section \<open>Modules\<close>

definition known_module :: "int \<Rightarrow> int \<Rightarrow> bool" where
  "known_module t0 t1 \<longleftrightarrow> t0 = VAR_DEV_TYPE0_AI \<or> t0 = VAR_DEV_TYPE0_TTL \<and> t1 \<in> {0, 1, 2, 3}"

definition group_name :: "int \<Rightarrow> bytes \<Rightarrow> bytes" where
  "group_name t0 i = (if t0 = VAR_DEV_TYPE0_AI then ai_group i else ttl_group i)"

definition names_checked :: "int \<Rightarrow> int \<Rightarrow> bytes \<Rightarrow> bytes list" where
  "names_checked t0 t1 pf = map the (if t0 = VAR_DEV_TYPE0_AI then ai_check_names pf else ttl_check_names t1 pf)"

definition group_vars :: "int \<Rightarrow> int \<Rightarrow> bytes \<Rightarrow> bytes \<Rightarrow> int \<Rightarrow> int \<Rightarrow> int \<Rightarrow> u16 \<Rightarrow> ext_data list" where
  "group_vars t0 t1 i pf sa dev num addr =
     map the (if t0 = VAR_DEV_TYPE0_AI then ai_vars i pf sa dev num addr else ttl_vars t1 i pf sa dev num addr)"

definition module_regs :: "int \<Rightarrow> nat" where
  "module_regs t0 = (if t0 = VAR_DEV_TYPE0_AI then MB_DEV_AI_DATA_SZ else MB_DEV_TTL_DATA_SZ)"

lemma ttl_name_some: "t1 \<in> {0, 1, 2, 3} \<Longrightarrow> ttl_check_name t1 pf n \<noteq> None \<and> ttl_new_name t1 pf n \<noteq> None"
  by (auto simp: ttl_check_name_def ttl_new_name_def dev_types)

lemma map_Some_the: "None \<notin> set xs \<Longrightarrow> map Some (map the xs) = xs"
  by (induction xs) auto

lemma var_add_group_module:
  assumes "known_module t0 t1"
  obtains vars names where "var_add_group t0 t1 i pf sa dev num = add_module (group_name t0 i) names vars"
    "names = map Some (names_checked t0 t1 pf)" "\<And>a. vars a = map Some (group_vars t0 t1 i pf sa dev num a)"
proof (cases "t0 = VAR_DEV_TYPE0_AI")
  case True
  then show ?thesis
    by (intro that [of "ai_check_names pf" "ai_vars i pf sa dev num"])
      (auto simp: fun_eq_iff var_add_group_def var_add_ai_def group_name_def names_checked_def group_vars_def ai_check_names_def ai_vars_def)
next
  case False
  with assms have t: "t0 = VAR_DEV_TYPE0_TTL" "t1 \<in> {0, 1, 2, 3}" by (auto simp: known_module_def)
  have "None \<notin> set (ttl_check_names t1 pf)" "None \<notin> set (ttl_vars t1 i pf sa dev num a)" for a
    using ttl_name_some [OF t(2), of pf] by (auto simp: ttl_check_names_def ttl_vars_def simp del: not_None_eq)
  then show ?thesis using False t
    by (intro that [of "ttl_check_names t1 pf" "ttl_vars t1 i pf sa dev num"])
      (simp_all add: fun_eq_iff var_add_group_def var_add_ttl_def group_name_def names_checked_def group_vars_def map_Some_the
        del: map_map)
qed

lemma module_var_simps [simp]:
  "szName (module_var gr name attr t sa dev num a ea cfg) = name" "szGroup (module_var gr name attr t sa dev num a ea cfg) = gr"
  "usAddr (xIo (module_var gr name attr t sa dev num a ea cfg)) = a"
  "out_nregs (module_var gr name attr t sa dev num a ea cfg) = nregs_of (var_type_sz t)"
  "bEnable (module_var gr name attr t sa dev num a ea cfg)"
  by (simp_all add: module_var_def out_nregs_def)

lemma group_vars_nth:
  assumes "known_module t0 t1" "n < 8"
  shows "usAddr (xIo (group_vars t0 t1 i pf sa dev num a ! n)) = a + of_nat (n * module_regs t0)"
    "out_nregs (group_vars t0 t1 i pf sa dev num a ! n) = module_regs t0"
    "szGroup (group_vars t0 t1 i pf sa dev num a ! n) = group_name t0 i"
    "length (group_vars t0 t1 i pf sa dev num a) = 8"
proof -
  have "ttl_new_name t1 pf n \<noteq> None" if "t0 \<noteq> VAR_DEV_TYPE0_AI"
    using ttl_name_some assms(1) that by (auto simp: known_module_def)
  with assms show "usAddr (xIo (group_vars t0 t1 i pf sa dev num a ! n)) = a + of_nat (n * module_regs t0)"
    "out_nregs (group_vars t0 t1 i pf sa dev num a ! n) = module_regs t0"
    "szGroup (group_vars t0 t1 i pf sa dev num a ! n) = group_name t0 i"
    "length (group_vars t0 t1 i pf sa dev num a) = 8"
    by (auto simp: group_vars_def ai_vars_def ttl_vars_def module_regs_def mb_dev_consts nregs_of_def group_name_def)
qed

lemma layout_append:
  assumes "layout ds" "0 < w" "next_free ds + k * w \<le> USER_REG_EXT_DATA_END"
    and "\<And>n. n < k \<Longrightarrow> ext_addr (f n) = next_free ds + n * w \<and> out_nregs (f n) = w"
  shows "layout (ds @ map f [0 ..< k])"
  using assms(3,4)
proof (induction k)
  case (Suc k)
  then have IH: "layout (ds @ map f [0 ..< k])" and f: "ext_addr (f k) = next_free ds + k * w" "out_nregs (f k) = w"
    by simp_all
  have "ext_addr x + out_nregs x \<le> ext_addr (f k)" if "x \<in> set ds" for x
    using layout_before_next [OF assms(1) that] f by simp
  moreover have "ext_addr (f n) + out_nregs (f n) \<le> ext_addr (f k)" if "n < k" for n
  proof -
    have "Suc n * w \<le> k * w" using that by (intro mult_le_mono1) simp
    then show ?thesis using Suc.prems(2) [of n] f that by simp
  qed
  ultimately show ?case
    using IH f assms(2) Suc.prems(1) layout_next_bounds [OF assms(1)] layout_snoc [of "ds @ map f [0 ..< k]" "f k"]
    by (auto simp: add.commute)
qed (use assms(1) in simp)

lemma group_vars_addr:
  assumes "known_module t0 t1" "next_free ds + 16 \<le> USER_REG_EXT_DATA_END" "n < 8"
  shows "ext_addr (group_vars t0 t1 i pf sa dev num (of_nat (next_free ds)) ! n) = next_free ds + n * module_regs t0"
proof -
  have "module_regs t0 \<le> 2" by (simp add: module_regs_def mb_dev_consts)
  then have "n * module_regs t0 \<le> 16" using assms(3) mult_le_mono [of n 8 "module_regs t0" 2] by simp
  then have "next_free ds + n * module_regs t0 < 2 ^ LENGTH(16)" using assms(2) by (simp add: USER_REG_EXT_DATA_END_def)
  then show ?thesis using group_vars_nth(1) [OF assms(1,3)]
    by (simp add: unat_of_nat_small' flip: of_nat_add of_nat_mult del: of_nat_add of_nat_mult)
qed

text \<open>What a variable of a module asks for\<close>

lemma group_vars_asks:
  assumes "known_module t0 t1" "n < 8"
  shows "bEnable (group_vars t0 t1 i pf sa dev num a ! n)"
    "usDevType (xIo (group_vars t0 t1 i pf sa dev num a ! n)) = of_int dev"
    "usDevNum (xIo (group_vars t0 t1 i pf sa dev num a ! n)) = of_int num"
    "modbus_btSlaveAddr (io_param (xIo (group_vars t0 t1 i pf sa dev num a ! n))) = of_int sa"
    "unat (modbus_usExtAddr (io_param (xIo (group_vars t0 t1 i pf sa dev num a ! n)))) =
      (if t0 = 0x1000 then 50 else 70) + n * module_regs t0"
proof -
  have u: "unat (50 + of_nat (m * 2) :: u16) = 50 + m * 2" "unat (70 + of_nat m :: u16) = 70 + m" if "m < 8" for m
    using that unat_of_nat_small' [of "50 + m * 2", where 'a = 16] unat_of_nat_small' [of "70 + m", where 'a = 16] by simp_all
  have "ttl_new_name t1 pf n \<noteq> None" if "t0 \<noteq> VAR_DEV_TYPE0_AI"
    using ttl_name_some assms(1) that by (auto simp: known_module_def)
  with assms u [OF assms(2)] show "bEnable (group_vars t0 t1 i pf sa dev num a ! n)"
    "usDevType (xIo (group_vars t0 t1 i pf sa dev num a ! n)) = of_int dev"
    "usDevNum (xIo (group_vars t0 t1 i pf sa dev num a ! n)) = of_int num"
    "modbus_btSlaveAddr (io_param (xIo (group_vars t0 t1 i pf sa dev num a ! n))) = of_int sa"
    "unat (modbus_usExtAddr (io_param (xIo (group_vars t0 t1 i pf sa dev num a ! n)))) =
      (if t0 = 0x1000 then 50 else 70) + n * module_regs t0"
    by (auto simp: group_vars_def ai_vars_def ttl_vars_def module_regs_def mb_dev_consts module_var_def dev_types)
qed

lemma layout_group:
  assumes "known_module t0 t1" "layout ds" "next_free ds + 16 \<le> USER_REG_EXT_DATA_END"
  shows "layout (ds @ group_vars t0 t1 i pf sa dev num (of_nat (next_free ds)))" (is "layout (ds @ ?new)")
proof -
  have w: "0 < module_regs t0" "module_regs t0 \<le> 2" by (simp_all add: module_regs_def mb_dev_consts)
  have "ext_addr (?new ! n) = next_free ds + n * module_regs t0" if "n < 8" for n
    by (rule group_vars_addr [OF assms(1,3) that])
  then have "layout (ds @ map (\<lambda>n. ?new ! n) [0 ..< 8])"
    using group_vars_nth(2) [OF assms(1)] assms w by (intro layout_append [of _ "module_regs t0"]) simp_all
  also have "map (\<lambda>n. ?new ! n) [0 ..< 8] = ?new" using group_vars_nth(4) [OF assms(1), of 0] by (metis map_nth zero_less_numeral)
  finally show ?thesis .
qed

text \<open>
  What a module is to the user: its group, of the serial number, and the names of its eight variables, of the prefix.  The two
  kinds of module with eight equal channels number them from a number \<open>k\<close>.
\<close>

definition numbered :: "bytes \<Rightarrow> string \<Rightarrow> nat list \<Rightarrow> bytes list" where
  "numbered pf t ns = map (\<lambda>n. pf @ asc t @ [0x30 + of_nat n]) ns"

definition module_names :: "nat \<Rightarrow> int \<Rightarrow> int \<Rightarrow> bytes \<Rightarrow> bytes list" where
  "module_names k t0 t1 pf =
     (if t0 = 0x1000 then numbered pf ''_AI_'' [1, 2, 3, 4, 5, 6, 7, 8]
      else if t1 = 0 then numbered pf ''_TTL_DI_'' [1, 2, 3, 4] @ numbered pf ''_TTL_DO_'' [1, 2, 3, 4]
      else if t1 = 1 then numbered pf ''_TTL_DO_'' [1, 2, 3, 4] @ numbered pf ''_TTL_DI_'' [1, 2, 3, 4]
      else if t1 = 2 then numbered pf ''_TTL_DI_'' [k, k + 1, k + 2, k + 3, k + 4, k + 5, k + 6, k + 7]
      else numbered pf ''_TTL_DO_'' [k, k + 1, k + 2, k + 3, k + 4, k + 5, k + 6, k + 7])"

text \<open>The group of a module as the gateway names it: every digital kind counts as kind 0.\<close>

definition group_label :: "int \<Rightarrow> bytes \<Rightarrow> bytes" where
  "group_label t0 i = take 32 (asc (if t0 = 0x1000 then ''AI_'' else ''TTL_0_'') @ i)"

lemma group_label_code: "known_module t0 t1 \<Longrightarrow> group_name t0 i = group_label t0 i"
  by (auto simp: known_module_def group_name_def group_label_def ai_group_def ttl_group_def snprintf_n_def VAR_NAME_SIZE_def dev_types)

definition module_group :: "int \<Rightarrow> int \<Rightarrow> bytes \<Rightarrow> bytes" where
  "module_group t0 t1 i = (if t0 = 0x1000 then asc ''AI_'' @ i else asc ''TTL_'' @ dec_digits (nat t1) @ asc ''_'' @ i)"

lemma upt_8: "[0 ..< 8] = [0, 1, 2, 3, 4, 5, 6, 7 :: nat]"
  by (simp add: upt_conv_Cons)

lemma short_text: "length pf \<le> 22 \<Longrightarrow> length t \<le> 9 \<Longrightarrow>
    snprintf_n CHECK_NAME_SIZE (pf @ t) = pf @ t \<and> snprintf_n VAR_NAME_SIZE (pf @ t) = pf @ t"
  by (simp add: snprintf_n_def CHECK_NAME_SIZE_def VAR_NAME_SIZE_def)

lemma dec_digit: "n < 10 \<Longrightarrow> dec_digits n = [0x30 + of_nat n]"
  by (simp add: dec_digits.simps)

lemmas text_simps = ai_text_def di_text_def do_text_def dec_digit mb_dev_consts upt_8

text \<open>With a short prefix the code looks for the names numbered from 1 and gives those numbered from 0.\<close>

lemma module_names_code:
  assumes "known_module t0 t1" "length pf \<le> 22"
  shows "names_checked t0 t1 pf = module_names 1 t0 t1 pf"
    "map szName (group_vars t0 t1 i pf sa dev num a) = module_names 0 t0 t1 pf"
proof -
  consider "t0 = 0x1000" | "t0 = 0x1001" "t1 = 0" | "t0 = 0x1001" "t1 = 1" | "t0 = 0x1001" "t1 = 2" | "t0 = 0x1001" "t1 = 3"
    using assms(1) by (auto simp: known_module_def dev_types)
  note cases = this
  show "names_checked t0 t1 pf = module_names 1 t0 t1 pf"
    by (cases rule: cases)
      (simp_all add: names_checked_def module_names_def numbered_def ai_check_names_def ttl_check_names_def ttl_check_name_def dev_types
        text_simps short_text [OF assms(2)])
  show "map szName (group_vars t0 t1 i pf sa dev num a) = module_names 0 t0 t1 pf"
    by (cases rule: cases)
      (simp_all add: group_vars_def module_names_def numbered_def ai_vars_def ttl_vars_def ttl_new_name_def dev_types
        text_simps short_text [OF assms(2)])
qed

lemma module_names_distinct: "distinct (module_names 0 t0 t1 pf)" "[] \<notin> set (module_names k t0 t1 pf)"
  by (auto simp: module_names_def numbered_def asc_def)

text \<open>A table with room for a module, in which neither its group nor a name of it, from whichever number it counts, is taken\<close>

definition free_for :: "int \<Rightarrow> int \<Rightarrow> bytes \<Rightarrow> bytes \<Rightarrow> ext_data list \<Rightarrow> bool" where
  "free_for t0 t1 i pf ds \<longleftrightarrow> layout ds \<and> next_known ds \<and> next_free ds + 16 \<le> USER_REG_EXT_DATA_END \<and> distinct (map szName ds) \<and>
     (\<forall>d \<in> set ds. szGroup d \<noteq> group_label t0 i) \<and>
     szName ` set ds \<inter> (set (module_names 0 t0 t1 pf) \<union> set (module_names 1 t0 t1 pf)) = {}"

section \<open>Removing\<close>

lemma find_split:
  "find P xs = Some x \<Longrightarrow> \<exists>ys zs. xs = ys @ x # zs \<and> P x \<and> (\<forall>y \<in> set ys. \<not> P y)"
proof -
  assume f: "find P xs = Some x"
  then obtain zs where z: "dropWhile (Not \<circ> P) xs = x # zs" by (auto simp: find_dropWhile split: list.splits)
  then have "xs = takeWhile (Not \<circ> P) xs @ x # zs" by (metis takeWhile_dropWhile_id)
  moreover have "\<forall>y \<in> set (takeWhile (Not \<circ> P) xs). \<not> P y" using set_takeWhileD by fastforce
  moreover have "P x" using f by (auto simp: find_Some_iff)
  ultimately show ?thesis by blast
qed

lemma del_group_none:
  assumes "el_ok (gs_list s) xs" "\<forall>x \<in> set xs. szGroup (snd x) \<noteq> g"
  shows "\<exists>s'. del_group k del g s = Ret (\<exists>x \<in> set xs. szGroup (snd x) = g, s') \<and>
    el_ok (gs_list s') (filter (\<lambda>x. szGroup (snd x) \<noteq> g) xs) \<and> gs_flags s' = gs_flags s \<and> gs_sync s' = gs_sync s"
proof -
  have f: "filter (\<lambda>x. szGroup (snd x) \<noteq> g) xs = xs" using assms(2) by (simp only: filter_id_conv)
  have e: "(\<exists>x \<in> set xs. szGroup (snd x) = g) = False" using assms(2) by blast
  have "find (\<lambda>x. szGroup (snd x) = g) xs = None" using assms(2) find_None_iff [of "\<lambda>x. szGroup (snd x) = g" xs] by blast
  then have "del_group k del g s = Ret (False, s)"
    using el_first_data [OF assms(1), of "\<lambda>d. szGroup d = g"]
    by (subst del_group.simps) (simp only: option.map option.case bindO.simps)
  then show ?thesis unfolding f e using assms(1) by blast
qed

lemma del_group_ok:
  assumes "el_ok (gs_list s) xs" "distinct (map (\<lambda>x. szName (snd x)) xs)" "length (filter (\<lambda>x. szGroup (snd x) = g) xs) \<le> k"
    and "\<forall>x \<in> set xs. szGroup (snd x) = g \<longrightarrow> szName (snd x) \<noteq> [] \<and> del (szName (snd x))"
  shows "\<exists>s'. del_group k del g s = Ret (\<exists>x \<in> set xs. szGroup (snd x) = g, s') \<and>
    el_ok (gs_list s') (filter (\<lambda>x. szGroup (snd x) \<noteq> g) xs) \<and> gs_flags s' = gs_flags s \<and> gs_sync s' = gs_sync s"
  using assms
proof (induction k arbitrary: s xs)
  case (0 s xs)
  then have "\<forall>x \<in> set xs. szGroup (snd x) \<noteq> g" by (simp add: filter_empty_conv)
  with 0(1) show ?case by (rule del_group_none)
next
  case (Suc k s xs)
  show ?case
  proof (cases "find (\<lambda>x. szGroup (snd x) = g) xs")
    case None
    then have "\<forall>x \<in> set xs. szGroup (snd x) \<noteq> g" using find_None_iff [of "\<lambda>x. szGroup (snd x) = g" xs] by blast
    with Suc.prems(1) show ?thesis by (rule del_group_none)
  next
    case (Some x)
    then obtain ys zs where x: "xs = ys @ x # zs" "szGroup (snd x) = g" "\<forall>y \<in> set ys. szGroup (snd y) \<noteq> g"
      using find_split [OF Some] by blast
    let ?n = "szName (snd x)"
    have n: "?n \<noteq> []" "del ?n" using Suc.prems(4) x by auto
    have "\<forall>y \<in> set ys. szName (snd y) \<noteq> ?n" using Suc.prems(2) unfolding x(1) by (simp add: image_iff) metis
    then obtain l where l: "vVarManage_RemoveNodeWithName ?n (gs_list s) = Ret l" "el_ok l (ys @ zs)"
      using RemoveNode_ok [of "gs_list s" ys x zs ?n] Suc.prems(1) x(1) by auto
    have d: "deref (el_heap (gs_list s)) (Some (fst x)) = Ret \<lparr>c_data = snd x, c_next = hdp zs None, c_prev = lastp None ys\<rparr>"
      using Suc.prems(1) x(1) by (simp add: el_ok_def seg_append)
    let ?s = "s\<lparr>gs_list := l, gs_cfg := gs_cfg s @ [Cfg_del ?n]\<rparr>"
    have "\<exists>s'. del_group k del g ?s = Ret (\<exists>x \<in> set (ys @ zs). szGroup (snd x) = g, s') \<and>
        el_ok (gs_list s') (filter (\<lambda>x. szGroup (snd x) \<noteq> g) (ys @ zs)) \<and> gs_flags s' = gs_flags ?s \<and> gs_sync s' = gs_sync ?s"
      using Suc.prems x l by (intro Suc.IH) auto
    then obtain b s' where s': "del_group k del g ?s = Ret (b, s')" "el_ok (gs_list s') (filter (\<lambda>x. szGroup (snd x) \<noteq> g) (ys @ zs))"
      "gs_flags s' = gs_flags s" "gs_sync s' = gs_sync s" by auto
    have "del_group (Suc k) del g s = Ret (True, s')"
      using el_first_data [OF Suc.prems(1), of "\<lambda>d. szGroup d = g"] Some
      by (subst del_group.simps) (simp only: option.map bindO.simps option.case d ext_cell.select_convs Let_def n if_False if_True
          not_True_eq_False l(1) nat.case s'(1) snd_conv)
    with s' x show ?thesis by (intro exI [of _ s']) auto
  qed
qed

lemma delVarManageExtGroup_ok:
  assumes "el_ok (gs_list s) xs" "ascending (map snd xs)" "distinct (map szName (map snd xs))" "g \<noteq> []"
    and "\<forall>d \<in> set (map snd xs). szGroup d = g \<longrightarrow> szName d \<noteq> [] \<and> del (szName d)"
    and "gs_flags s = RefreshRegsFlag (map snd xs)" "gs_sync s = creat_sync_slave_link (map snd xs)"
  shows "\<exists>s' xs'. delVarManageExtGroup del g s = Some (Ret s') \<and> el_ok (gs_list s') xs' \<and>
    map snd xs' = filter (\<lambda>d. szGroup d \<noteq> g) (map snd xs) \<and>
    gs_flags s' = RefreshRegsFlag (map snd xs') \<and> gs_sync s' = creat_sync_slave_link (map snd xs')"
proof -
  have "length (filter (\<lambda>x. szGroup (snd x) = g) xs) \<le> length (el_heap (gs_list s))"
    using el_ok_length [OF assms(1)] length_filter_le le_trans by blast
  moreover have "distinct (map (\<lambda>x. szName (snd x)) xs)" using assms(3) by (simp add: comp_def)
  moreover have "\<forall>x \<in> set xs. szGroup (snd x) = g \<longrightarrow> szName (snd x) \<noteq> [] \<and> del (szName (snd x))"
    using assms(5) by (simp only: list.set_map ball_simps)
  ultimately obtain s' where s': "del_group (length (el_heap (gs_list s))) del g s = Ret (\<exists>x \<in> set xs. szGroup (snd x) = g, s')"
    "el_ok (gs_list s') (filter (\<lambda>x. szGroup (snd x) \<noteq> g) xs)" "gs_flags s' = gs_flags s" "gs_sync s' = gs_sync s"
    using del_group_ok [OF assms(1)] by blast
  have m: "map snd (filter (\<lambda>x. szGroup (snd x) \<noteq> g) xs) = filter (\<lambda>d. szGroup d \<noteq> g) (map snd xs)"
    by (simp add: filter_map comp_def)
  have a: "ascending (map snd (filter (\<lambda>x. szGroup (snd x) \<noteq> g) xs))"
    using sorted_wrt_filter [OF assms(2) [unfolded ascending_def sorted_wrt_map [of _ _ "map snd xs"]]]
    unfolding m ascending_def sorted_wrt_map [of _ _ "filter _ _"] by blast
  show ?thesis
  proof (cases "\<exists>x \<in> set xs. szGroup (snd x) = g")
    case True
    with s'(1) have "delVarManageExtGroup del g s = resort s'"
      using assms(4) by (simp only: delVarManageExtGroup_def bindX_def outcome.case prod.case if_True if_False)
    then show ?thesis using resort_ok [OF s'(2) a] s'(2) m by auto
  next
    case False
    then have eq: "filter (\<lambda>x. szGroup (snd x) \<noteq> g) xs = xs" by (simp only: filter_id_conv) blast
    have "delVarManageExtGroup del g s = Some (Ret s')" using False s'(1) assms(4)
      by (simp only: delVarManageExtGroup_def bindX_def outcome.case prod.case if_False)
    then show ?thesis using s'(2) m s'(3,4) assms(6,7) unfolding eq by (intro exI [of _ s'] exI [of _ xs] conjI) simp_all
  qed
qed

text \<open>Adding a module to a table with room for it, with what the list then is\<close>

definition room_for :: "int \<Rightarrow> int \<Rightarrow> bytes \<Rightarrow> bytes \<Rightarrow> ext_data list \<Rightarrow> bool" where
  "room_for t0 t1 i pf ds \<longleftrightarrow> layout ds \<and> next_known ds \<and> next_free ds + 16 \<le> USER_REG_EXT_DATA_END \<and> distinct (map szName ds) \<and>
     list_all (\<lambda>d. szGroup d \<noteq> group_name t0 i \<and> szName d \<notin> set (names_checked t0 t1 pf)) ds"

lemma var_add_group_ok:
  fixes sa dev num :: int
  assumes "known_module t0 t1" "el_ok (gs_list s) xs" "room_for t0 t1 i pf (map snd xs)"
  defines "new \<equiv> group_vars t0 t1 i pf sa dev num (of_nat (next_free (map snd xs)))"
  obtains s' xs' where "var_add_group t0 t1 i pf sa dev num s = Some (Ret (0, s'))" "el_ok (gs_list s') xs'"
    "map snd xs' = map snd xs @ new" "gs_flags s' = RefreshRegsFlag (map snd xs @ new)"
    "gs_sync s' = creat_sync_slave_link (map snd xs @ new)" "gs_cfg s' = gs_cfg s @ map Cfg_add new"
    "gs_runs s' = fold run_step (map snd xs @ new) (gs_runs s)"
proof (rule var_add_group_module [OF assms(1), of i pf sa dev num])
  fix vars names
  assume v: "var_add_group t0 t1 i pf sa dev num = add_module (group_name t0 i) names vars"
    "names = map Some (names_checked t0 t1 pf)" "\<And>a. vars a = map Some (group_vars t0 t1 i pf sa dev num a)"
  have l: "layout (map snd xs)" "layout (map snd xs @ new)" "next_known (map snd xs)"
    using layout_group assms by (auto simp: room_for_def new_def)
  have f: "group_name t0 i \<notin> szGroup ` snd ` set xs" "set (names_checked t0 t1 pf) \<inter> szName ` snd ` set xs = {}"
    using assms(3) by (fastforce simp: room_for_def list_all_iff)+
  have n: "vars (of_nat (next_free (map snd xs))) = map Some new" unfolding new_def by (rule v(3))
  obtain s' xs' where s': "add_module (group_name t0 i) names vars s = Some (Ret (0, s'))" "el_ok (gs_list s') xs'"
    "map snd xs' = map snd xs @ new" "gs_flags s' = RefreshRegsFlag (map snd xs @ new)"
    "gs_sync s' = creat_sync_slave_link (map snd xs @ new)" "gs_cfg s' = gs_cfg s @ map Cfg_add new"
    "gs_runs s' = fold run_step (map snd xs @ new) (gs_runs s)"
    by (rule add_module_ok [where vars = vars, OF assms(2) l n v(2) f])
  show thesis by (rule that [OF _ s'(2-7)]) (use s'(1) v(1) in simp)
qed

lemma free_room: "free_for t0 t1 i pf ds \<Longrightarrow> known_module t0 t1 \<Longrightarrow> length pf \<le> 22 \<Longrightarrow> room_for t0 t1 i pf ds"
  using module_names_code(1) [of t0 t1 pf] by (auto simp: free_for_def room_for_def list_all_iff group_label_code)

lemma free_distinct:
  assumes "free_for t0 t1 i pf ds" "map szName new = module_names 0 t0 t1 pf"
  shows "distinct (map szName (ds @ new))"
proof -
  have "szName ` set new = set (module_names 0 t0 t1 pf)" using arg_cong [OF assms(2), of set] by simp
  then show ?thesis using assms module_names_distinct(1) [of t0 t1 pf] by (auto simp: free_for_def)
qed

section \<open>Properties\<close>

text \<open>
  Claim C5.  Adding one of the four kinds of digital modules or an analog module.  Let the table be laid out in ascending order without
  overlap, with distinct names, at least 16 free registers at its end, and no variable of several registers alone at
  register 1024; let the prefix be short, and neither the group nor a name of the module be taken, for modules of eight inputs
  or eight outputs neither with numbers from 0 nor from 1.  Then the call answers 0 and eight variables are added: enabled, of the group, with
  the names of the module (numbers from 1, from 0 for modules of eight inputs or outputs), in the registers right behind the
  old ones, each asking the slave for its registers on the module; names stay distinct, nothing overlaps, and flags and requests are
  those of the new list.
\<close>

theorem vm_group_added:
  assumes "known_module t0 t1" "length pf \<le> 22" "el_wf (gs_list s)" "el_items (gs_list s) = Ret ds" "free_for t0 t1 i pf ds"
  defines "w \<equiv> (if t0 = 0x1000 then 2 else 1 :: nat)"
  shows "\<exists>s' new. var_add_group t0 t1 i pf sa dev num s = Some (Ret (0, s')) \<and> el_wf (gs_list s') \<and> el_items (gs_list s') = Ret (ds @ new) \<and>
    map szName new = module_names 0 t0 t1 pf \<and>
    (\<forall>n < 8. bEnable (new ! n) \<and> szGroup (new ! n) = group_label t0 i \<and>
       ext_addr (new ! n) = next_free ds + n * w \<and> out_nregs (new ! n) = w \<and>
       usDevType (xIo (new ! n)) = of_int dev \<and> usDevNum (xIo (new ! n)) = of_int num \<and>
       modbus_btSlaveAddr (io_param (xIo (new ! n))) = of_int sa \<and>
       unat (modbus_usExtAddr (io_param (xIo (new ! n)))) = (if t0 = 0x1000 then 50 else 70) + n * w) \<and>
    layout (ds @ new) \<and> distinct (map szName (ds @ new)) \<and>
    gs_flags s' = RefreshRegsFlag (ds @ new) \<and> gs_sync s' = creat_sync_slave_link (ds @ new)"
proof -
  obtain xs where xs: "el_ok (gs_list s) xs" "ds = map snd xs" using assms(3,4) el_items_ok by (auto simp: el_wf_def)
  note known = assms(1)
  let ?new = "group_vars t0 t1 i pf sa dev num (of_nat (next_free ds))"
  have names: "map szName ?new = module_names 0 t0 t1 pf" by (rule module_names_code(2) [OF known assms(2)])
  have room: "room_for t0 t1 i pf ds" by (rule free_room [OF assms(5) known assms(2)])
  then have l: "layout ds" "next_free ds + 16 \<le> USER_REG_EXT_DATA_END" by (simp_all add: room_for_def)
  have "layout (ds @ ?new)" by (rule layout_group [OF known l])
  moreover obtain s' xs' where s': "var_add_group t0 t1 i pf sa dev num s = Some (Ret (0, s'))" "el_ok (gs_list s') xs'"
    "map snd xs' = ds @ ?new" "gs_flags s' = RefreshRegsFlag (ds @ ?new)" "gs_sync s' = creat_sync_slave_link (ds @ ?new)"
    using room unfolding xs(2) by (rule var_add_group_ok [OF known xs(1), where sa = sa and dev = dev and num = num])
  moreover have "el_wf (gs_list s')" "el_items (gs_list s') = Ret (ds @ ?new)"
    using s'(2,3) el_items_ok [OF s'(2)] by (auto simp: el_wf_def)
  moreover have "bEnable (?new ! n) \<and> szGroup (?new ! n) = group_label t0 i \<and>
       ext_addr (?new ! n) = next_free ds + n * w \<and> out_nregs (?new ! n) = w \<and>
       usDevType (xIo (?new ! n)) = of_int dev \<and> usDevNum (xIo (?new ! n)) = of_int num \<and>
       modbus_btSlaveAddr (io_param (xIo (?new ! n))) = of_int sa \<and>
       unat (modbus_usExtAddr (io_param (xIo (?new ! n)))) = (if t0 = 0x1000 then 50 else 70) + n * w" if "n < 8" for n
  proof -
    have "w = module_regs t0" by (simp add: w_def module_regs_def mb_dev_consts dev_types)
    then show ?thesis
      using group_vars_nth [OF known that, of i pf sa dev num] group_vars_addr [OF known l(2) that, of i pf sa dev num]
        group_vars_asks [OF known that, of i pf sa dev num] group_label_code [OF known, of i] by simp
  qed
  ultimately show ?thesis using free_distinct [OF assms(5) names] names by blast
qed

text \<open>
  Claim C20.  Adding such a module to such a table and removing its group again, with a data base that removes every name,
  gives the old list of variables, with its flags and requests.
\<close>

theorem vm_group_undone:
  assumes "known_module t0 t1" "length pf \<le> 22" "el_wf (gs_list s)" "el_items (gs_list s) = Ret ds" "free_for t0 t1 i pf ds"
    and "\<And>n. del n"
  shows "\<exists>s' s''. var_add_group t0 t1 i pf sa dev num s = Some (Ret (0, s')) \<and>
    delVarManageExtGroup del (group_label t0 i) s' = Some (Ret s'') \<and> el_wf (gs_list s'') \<and> el_items (gs_list s'') = Ret ds \<and>
    gs_flags s'' = RefreshRegsFlag ds \<and> gs_sync s'' = creat_sync_slave_link ds"
proof -
  obtain xs where xs: "el_ok (gs_list s) xs" "ds = map snd xs" using assms(3,4) el_items_ok by (auto simp: el_wf_def)
  note known = assms(1)
  let ?new = "group_vars t0 t1 i pf sa dev num (of_nat (next_free ds))"
  have room: "room_for t0 t1 i pf ds" by (rule free_room [OF assms(5) known assms(2)])
  obtain s' xs' where s': "var_add_group t0 t1 i pf sa dev num s = Some (Ret (0, s'))" "el_ok (gs_list s') xs'"
    "map snd xs' = ds @ ?new" "gs_flags s' = RefreshRegsFlag (ds @ ?new)" "gs_sync s' = creat_sync_slave_link (ds @ ?new)"
    using room unfolding xs(2) by (rule var_add_group_ok [OF known xs(1), where sa = sa and dev = dev and num = num])
  have new: "\<forall>d \<in> set ?new. szGroup d = group_label t0 i"
    using group_vars_nth(3) [OF known] group_vars_nth(4) [OF known, of 0] by (auto simp: in_set_conv_nth group_label_code [OF known])
  have names: "map szName ?new = module_names 0 t0 t1 pf" by (rule module_names_code(2) [OF known assms(2)])
  have d: "distinct (map szName (map snd xs'))" unfolding s'(3) by (rule free_distinct [OF assms(5) names])
  have old: "\<forall>d \<in> set ds. szGroup d \<noteq> group_label t0 i" using assms(5) by (auto simp: free_for_def)
  have "\<forall>d \<in> set (map snd xs'). szGroup d = group_label t0 i \<longrightarrow> szName d \<noteq> []"
  proof -
    have "\<forall>d \<in> set ?new. szName d \<noteq> []" using names module_names_distinct(2) [of 0 t0 t1 pf] by (metis image_eqI list.set_map)
    then show ?thesis unfolding s'(3) using old by auto
  qed
  then have "\<forall>d \<in> set (map snd xs'). szGroup d = group_label t0 i \<longrightarrow> szName d \<noteq> [] \<and> del (szName d)" using assms(6) by blast
  moreover have "group_label t0 i \<noteq> []" by (simp add: group_label_def asc_def)
  moreover have "ascending (map snd xs')"
    unfolding s'(3) using layout_group [OF known] room by (intro layout_ascending) (simp add: room_for_def)
  ultimately obtain s'' ys where s'': "delVarManageExtGroup del (group_label t0 i) s' = Some (Ret s'')" "el_ok (gs_list s'') ys"
    "map snd ys = filter (\<lambda>d. szGroup d \<noteq> group_label t0 i) (map snd xs')"
    "gs_flags s'' = RefreshRegsFlag (map snd ys)" "gs_sync s'' = creat_sync_slave_link (map snd ys)"
    using delVarManageExtGroup_ok [OF s'(2) _ d, where g = "group_label t0 i" and del = del] s'(4,5) unfolding s'(3) by blast
  have "filter (\<lambda>d. szGroup d \<noteq> group_label t0 i) (map snd xs') = ds"
    unfolding s'(3) filter_append using old new by (simp add: filter_empty_conv filter_id_conv)
  then have "map snd ys = ds" using s''(3) by simp
  moreover have "el_wf (gs_list s'')" "el_items (gs_list s'') = Ret (map snd ys)"
    using s''(2) el_items_ok [OF s''(2)] by (auto simp: el_wf_def)
  ultimately show ?thesis using s'(1) s''(1,4,5) by blast
qed

text \<open>
  What the web interface is told of a module, in the numbers of its protocol: -1004 for one that does not exist, -1001 when
  its group is there already, -1002 when one of its names is taken
\<close>

definition group_verdict :: "int \<Rightarrow> int \<Rightarrow> bytes \<Rightarrow> bytes \<Rightarrow> ext_data list \<Rightarrow> int option" where
  "group_verdict t0 t1 i pf ds =
     (if \<not> (t0 = 0x1000 \<or> t0 = 0x1001 \<and> t1 \<in> {0, 1, 2, 3}) then Some (- 1004)
      else if module_group t0 t1 i \<in> szGroup ` set ds then Some (- 1001)
      else if set (module_names 1 t0 t1 pf) \<inter> szName ` set ds \<noteq> {} then Some (- 1002)
      else None)"

lemma ttl_check_names_unknown: "t1 \<notin> {0, 1, 2, 3} \<Longrightarrow> check_names (ttl_check_names t1 pf) l = Ret WEBNET_ERR_PARAM"
  by (simp add: ttl_check_names_def ttl_check_name_def dev_types mb_dev_consts upt_8)


text \<open>A table with one variable of two registers at 1030\<close>

definition sample_group_state :: group_state where
  "sample_group_state = \<lparr>gs_list = \<lparr>el_n = 1, el_pList = Some 0, el_heap = [cell (sample_var (asc ''flow'') E_VAR_FLOAT 1030) None None]\<rparr>,
     gs_flags = [], gs_sync = [], gs_runs = [], gs_cfg = []\<rparr>"

lemma sample_group_state:
  "el_wf (gs_list sample_group_state)" "el_items (gs_list sample_group_state) = Ret [sample_var (asc ''flow'') E_VAR_FLOAT 1030]"
proof -
  have "el_ok (gs_list sample_group_state) [(0, sample_var (asc ''flow'') E_VAR_FLOAT 1030)]"
    by (simp add: el_ok_def sample_group_state_def)
  then show "el_wf (gs_list sample_group_state)" "el_items (gs_list sample_group_state) = Ret [sample_var (asc ''flow'') E_VAR_FLOAT 1030]"
    by (auto simp: el_wf_def el_items_ok)
qed

lemma sample_free:
  "free_for 0x1000 0 (asc ''7'') (asc ''m'') [sample_var (asc ''flow'') E_VAR_FLOAT 1030]"
  by (simp add: free_for_def layout_def next_known_def next_free_def sample_var_def out_nregs_def nregs_of_def USER_REG_EXT_DATA_START_def
      USER_REG_EXT_DATA_END_def group_label_def asc_def
      module_names_def numbered_def)

lemma sample_known: "known_module 0x1000 0" "length (asc ''m'') \<le> 22"
  by (simp_all add: known_module_def dev_types asc_def)

lemma vm_group_added_witness:
  "\<exists>s' new. var_add_group 0x1000 0 (asc ''7'') (asc ''m'') 5 0 0 sample_group_state = Some (Ret (0, s')) \<and>
     el_items (gs_list s') = Ret (sample_var (asc ''flow'') E_VAR_FLOAT 1030 # new) \<and>
     map szName new = map (\<lambda>c. asc ''m_AI_'' @ [c]) [0x31, 0x32, 0x33, 0x34, 0x35, 0x36, 0x37, 0x38] \<and> ext_addr (new ! 7) = 1046"
proof -
  have n: "next_free [sample_var (asc ''flow'') E_VAR_FLOAT 1030] = 1032"
    by (simp add: next_free_def sample_var_def out_nregs_def nregs_of_def)
  have m: "module_names 0 0x1000 0 (asc ''m'') = map (\<lambda>c. asc ''m_AI_'' @ [c]) [0x31, 0x32, 0x33, 0x34, 0x35, 0x36, 0x37, 0x38]"
    by (simp add: module_names_def numbered_def asc_def)
  obtain s' new where s': "var_add_group 0x1000 0 (asc ''7'') (asc ''m'') 5 0 0 sample_group_state = Some (Ret (0, s'))"
    "el_items (gs_list s') = Ret ([sample_var (asc ''flow'') E_VAR_FLOAT 1030] @ new)" "map szName new = module_names 0 0x1000 0 (asc ''m'')"
    "\<forall>n < 8. ext_addr (new ! n) = 1032 + n * 2"
    using vm_group_added [OF sample_known sample_group_state sample_free, of 5 0 0] unfolding n by auto
  then show ?thesis unfolding m by (intro exI [of _ s'] exI [of _ new]) simp
qed

lemma vm_group_undone_witness:
  "\<exists>s' s''. var_add_group 0x1000 0 (asc ''7'') (asc ''m'') 5 0 0 sample_group_state = Some (Ret (0, s')) \<and>
     delVarManageExtGroup (\<lambda>n. True) (group_label 0x1000 (asc ''7'')) s' = Some (Ret s'') \<and>
     el_items (gs_list s'') = Ret [sample_var (asc ''flow'') E_VAR_FLOAT 1030]"
  using vm_group_undone [OF sample_known sample_group_state sample_free, of "\<lambda>n. True" 5 0 0] by blast


text \<open>
  Modules of eight inputs: the names looked for are numbered from 1, those given from 0.  A variable that has the first name
  does not stop the call, and the table then has two variables of that name.
\<close>

lemma vm_ttl8_duplicate:
  assumes "t1 \<in> {2, 3}" "el_ok (gs_list s) xs" "room_for VAR_DEV_TYPE0_TTL t1 i pf (map snd xs)" "length pf \<le> 22"
    and "x \<in> set xs" "szName (snd x) = (if t1 = 2 then di_text pf 0 else do_text pf 0)"
  shows "\<exists>s' ds. var_add_group VAR_DEV_TYPE0_TTL t1 i pf sa dev num s = Some (Ret (0, s')) \<and>
    el_items (gs_list s') = Ret ds \<and> \<not> distinct (map szName ds)"
proof -
  have known: "known_module VAR_DEV_TYPE0_TTL t1" using assms(1) by (auto simp: known_module_def)
  let ?new = "group_vars VAR_DEV_TYPE0_TTL t1 i pf sa dev num (of_nat (next_free (map snd xs)))"
  obtain s' xs' where s': "var_add_group VAR_DEV_TYPE0_TTL t1 i pf sa dev num s = Some (Ret (0, s'))" "el_ok (gs_list s') xs'"
    "map snd xs' = map snd xs @ ?new"
    by (rule var_add_group_ok [OF known assms(2,3), where sa = sa and dev = dev and num = num])
  have "length ?new = 8" by (rule group_vars_nth(4) [OF known, of 0]) simp
  then have "?new ! 0 \<in> set ?new" by (intro nth_mem) simp
  moreover have "szName (?new ! 0) = szName (snd x)"
    using assms(1) unfolding assms(6)
    by (elim insertE emptyE) (simp_all add: group_vars_def ttl_vars_def ttl_new_name_def dev_types mb_dev_consts di_text_def do_text_def
        dec_digit short_text [OF assms(4)])
  moreover have "snd x \<in> set (map snd xs)" using assms(5) by simp
  ultimately have "\<not> distinct (map szName (map snd xs @ ?new))"
    unfolding map_append distinct_append list.set_map by (metis disjoint_iff image_eqI)
  then show ?thesis using s'(1) el_items_ok [OF s'(2), unfolded s'(3)] by blast
qed

text \<open>
  The first address looks past register 1024 only by one: behind a variable of two registers at 1024 the next one would stand in
  the middle of it.
\<close>

lemma vm_next_addr_overlap:
  "el_ok l [(0, sample_var n E_VAR_FLOAT 1024)] \<Longrightarrow> var_get_next_addr l = Ret 1025"
  by (simp add: var_get_next_addr_def el_items_ok next_addr_step_def sample_var_def USER_REG_EXT_DATA_START_def)

end
