(* ===== verification/Name_Table.thy ===== *)
theory Name_Table
  imports C_Text
begin

text \<open>
  The three hash tables of names: tokens of the expression language (\<open>external/expression/ez_hash.c\<close>), its functions
  (\<open>ez_custom_function.c\<close>) and the rules (\<open>drivers/rule/rule.c\<close>).  All are arrays of chains that
  grow at the front, with the same hash.  A key is copied with \<open>strncpy\<close> into an array; a name that fills the
  array is stored without its final zero, and comparing with it may read on behind the array, a \<open>Fault\<close>.
  The contract they share is a locale: a name has a stack of values, of which the newest is found.
\<close>

section \<open>Chains\<close>

type_synonym 'v chain = "(bytes \<times> 'v) list"
type_synonym 'v table = "'v chain list"

text \<open>\<open>hash = hash * 131 + c\<close> in 32 bits over the (unsigned) characters\<close>

definition get_hash :: "nat \<Rightarrow> bytes \<Rightarrow> nat" where
  "get_hash limit key = unat (fold (\<lambda>c h. h * 131 + ucast c) key (0 :: u32)) mod limit"

text \<open>\<open>strncpy\<close> into an array of \<open>n\<close> bytes; \<open>strcmp\<close> of that array with a name\<close>

definition stored_key :: "nat \<Rightarrow> bytes \<Rightarrow> bytes" where
  "stored_key n key = take n key"

definition key_cmp :: "nat \<Rightarrow> bytes \<Rightarrow> bytes \<Rightarrow> bool outcome" where
  "key_cmp n stored key =
     (if length stored < n then Ret (stored = key)
      else if take n key = stored then Fault else Ret False)"

fun chain_get :: "nat \<Rightarrow> bytes \<Rightarrow> 'v chain \<Rightarrow> 'v option outcome" where
  "chain_get n key [] = Ret None"
| "chain_get n key ((k, v) # c) = bindO (key_cmp n k key) (\<lambda>b. if b then Ret (Some v) else chain_get n key c)"

text \<open>The chain without the first entry of a name, and that entry\<close>

fun chain_del :: "nat \<Rightarrow> bytes \<Rightarrow> 'v chain \<Rightarrow> ('v option \<times> 'v chain) outcome" where
  "chain_del n key [] = Ret (None, [])"
| "chain_del n key ((k, v) # c) =
     bindO (key_cmp n k key) (\<lambda>b.
       if b then Ret (Some v, c) else bindO (chain_del n key c) (\<lambda>(r, c). Ret (r, (k, v) # c)))"

definition table_new :: "nat \<Rightarrow> 'v table" where
  "table_new limit = replicate limit []"

definition table_get :: "nat \<Rightarrow> nat \<Rightarrow> bytes \<Rightarrow> 'v table \<Rightarrow> 'v option outcome" where
  "table_get n limit key t = chain_get n key (t ! get_hash limit key)"

definition table_set :: "nat \<Rightarrow> nat \<Rightarrow> bytes \<Rightarrow> 'v \<Rightarrow> 'v table \<Rightarrow> 'v table" where
  "table_set n limit key v t =
     (let pos = get_hash limit key in t[pos := (stored_key n key, v) # t ! pos])"

definition table_del :: "nat \<Rightarrow> nat \<Rightarrow> bytes \<Rightarrow> 'v table \<Rightarrow> ('v option \<times> 'v table) outcome" where
  "table_del n limit key t =
     (let pos = get_hash limit key in bindO (chain_del n key (t ! pos)) (\<lambda>(r, c). Ret (r, t[pos := c])))"

section \<open>The contract\<close>

text \<open>
  \<open>vals t k\<close> are the values of a name, newest first.  Setting pushes, deleting pops, finding looks at the top; other
  names are not touched.
\<close>

locale name_stack =
  fixes vals :: "'t \<Rightarrow> bytes \<Rightarrow> 'v list"
    and ok :: "'t \<Rightarrow> bool"
    and fits :: "bytes \<Rightarrow> bool"
    and look :: "bytes \<Rightarrow> 't \<Rightarrow> 'v option outcome"
    and push :: "bytes \<Rightarrow> 'v \<Rightarrow> 't \<Rightarrow> 't"
    and pop :: "bytes \<Rightarrow> 't \<Rightarrow> ('v option \<times> 't) outcome"
  assumes look_law: "ok t \<Longrightarrow> look k t = Ret (case vals t k of [] \<Rightarrow> None | v # _ \<Rightarrow> Some v)"
    and push_ok: "ok t \<Longrightarrow> fits k \<Longrightarrow> ok (push k v t)"
    and push_law: "ok t \<Longrightarrow> fits k \<Longrightarrow> vals (push k v t) = (vals t)(k := v # vals t k)"
    and pop_law: "ok t \<Longrightarrow> \<exists>t'. pop k t = Ret (case vals t k of [] \<Rightarrow> None | v # _ \<Rightarrow> Some v, t') \<and> ok t' \<and>
      vals t' = (vals t)(k := tl (vals t k))"
begin

lemma look_push: "ok t \<Longrightarrow> fits k \<Longrightarrow> look k' (push k v t) = (if k' = k then Ret (Some v) else look k' t)"
  by (simp add: look_law push_ok push_law)

lemma pop_push:
  assumes "ok t" "fits k"
  obtains t' where "pop k (push k v t) = Ret (Some v, t')" "ok t'" "vals t' = vals t"
  using pop_law [OF push_ok [OF assms, of v], of k] assms by (auto simp: push_law)

lemma pop_absent:
  assumes "ok t" "vals t k = []"
  obtains t' where "pop k t = Ret (None, t')" "ok t'" "vals t' = vals t"
  using pop_law [OF assms(1), of k] assms(2) by (auto simp: fun_upd_idem)

end

section \<open>Tables satisfy it\<close>

definition chain_vals :: "'v chain \<Rightarrow> bytes \<Rightarrow> 'v list" where
  "chain_vals c k = map snd (filter (\<lambda>e. fst e = k) c)"

definition table_vals :: "nat \<Rightarrow> 'v table \<Rightarrow> bytes \<Rightarrow> 'v list" where
  "table_vals limit t k = chain_vals (t ! get_hash limit k) k"

definition key_fits :: "nat \<Rightarrow> bytes \<Rightarrow> bool" where
  "key_fits n k \<longleftrightarrow> length k < n"

definition table_ok :: "nat \<Rightarrow> nat \<Rightarrow> 'v table \<Rightarrow> bool" where
  "table_ok n limit t \<longleftrightarrow> length t = limit \<and> list_all (list_all (\<lambda>e. key_fits n (fst e))) t"

lemma get_hash_less: "0 < limit \<Longrightarrow> get_hash limit k < limit"
  by (simp add: get_hash_def)

lemma chain_vals_simps [simp]:
  "chain_vals [] k = []" "chain_vals (e # c) k = (if fst e = k then snd e # chain_vals c k else chain_vals c k)"
  by (simp_all add: chain_vals_def)

lemma chain_get_vals:
  "list_all (\<lambda>e. key_fits n (fst e)) c \<Longrightarrow> chain_get n k c = Ret (case chain_vals c k of [] \<Rightarrow> None | v # _ \<Rightarrow> Some v)"
  by (induction c) (auto simp: key_cmp_def key_fits_def)

lemma chain_del_vals:
  assumes "list_all (\<lambda>e. key_fits n (fst e)) c"
  shows "\<exists>c'. chain_del n k c = Ret (case chain_vals c k of [] \<Rightarrow> None | v # _ \<Rightarrow> Some v, c') \<and>
    list_all (\<lambda>e. key_fits n (fst e)) c' \<and> (\<forall>k'. chain_vals c' k' = (if k' = k then tl (chain_vals c k) else chain_vals c k'))"
  using assms by (induction c) (auto simp: key_cmp_def key_fits_def)

lemma table_okD: "table_ok n limit t \<Longrightarrow> i < limit \<Longrightarrow> list_all (\<lambda>e. key_fits n (fst e)) (t ! i)"
  by (auto simp: table_ok_def list_all_length)

lemma table_ok_upd: "table_ok n limit t \<Longrightarrow> list_all (\<lambda>e. key_fits n (fst e)) c \<Longrightarrow> table_ok n limit (t[i := c])"
  unfolding table_ok_def using set_update_subset_insert [of t i c] by (fastforce simp: list_all_iff)

lemma table_new_ok [simp]: "table_ok n limit (table_new limit)"
  by (simp add: table_ok_def table_new_def list_all_iff)

lemma table_new_vals [simp]: "0 < limit \<Longrightarrow> table_vals limit (table_new limit) k = []"
  by (simp add: table_vals_def table_new_def get_hash_less)

lemma table_get_law:
  "0 < limit \<Longrightarrow> table_ok n limit t \<Longrightarrow> table_get n limit k t = Ret (case table_vals limit t k of [] \<Rightarrow> None | v # _ \<Rightarrow> Some v)"
  by (simp add: table_get_def table_vals_def chain_get_vals table_okD get_hash_less)

lemma table_set_ok: "0 < limit \<Longrightarrow> table_ok n limit t \<Longrightarrow> key_fits n k \<Longrightarrow> table_ok n limit (table_set n limit k v t)"
  unfolding table_set_def Let_def
  by (rule table_ok_upd) (simp_all add: table_okD [unfolded key_fits_def] get_hash_less stored_key_def key_fits_def)

lemma table_set_law:
  assumes "0 < limit" "table_ok n limit t" "key_fits n k"
  shows "table_vals limit (table_set n limit k v t) = (table_vals limit t)(k := v # table_vals limit t k)"
  using assms get_hash_less [of limit k]
  by (auto simp: fun_eq_iff table_vals_def table_set_def Let_def nth_list_update table_ok_def stored_key_def key_fits_def)

lemma table_del_law:
  assumes "0 < limit" "table_ok n limit t"
  shows "\<exists>t'. table_del n limit k t = Ret (case table_vals limit t k of [] \<Rightarrow> None | v # _ \<Rightarrow> Some v, t') \<and> table_ok n limit t' \<and>
    table_vals limit t' = (table_vals limit t)(k := tl (table_vals limit t k))"
proof -
  let ?p = "get_hash limit k"
  have p: "?p < length t" "?p < limit" using assms get_hash_less by (simp_all add: table_ok_def)
  obtain c' where c': "chain_del n k (t ! ?p) = Ret (case chain_vals (t ! ?p) k of [] \<Rightarrow> None | v # _ \<Rightarrow> Some v, c')"
    "list_all (\<lambda>e. key_fits n (fst e)) c'" "\<forall>k'. chain_vals c' k' = (if k' = k then tl (chain_vals (t ! ?p) k) else chain_vals (t ! ?p) k')"
    using chain_del_vals [OF table_okD [OF assms(2) p(2)]] by metis
  have "table_vals limit (t[?p := c']) = (table_vals limit t)(k := tl (table_vals limit t k))"
    using p c'(3) by (auto simp: fun_eq_iff table_vals_def nth_list_update)
  then show ?thesis
    using c'(1,2) table_ok_upd [OF assms(2)] by (simp add: table_del_def Let_def table_vals_def)
qed

end
