(* ===== verification/Ez_Tokenizer.thy ===== *)
theory Ez_Tokenizer
  imports Name_Table Ieee
begin

text \<open>
  The expression language of the gateway, first part: tokens and names, \<open>external/expression/ez_tokenizer.c\<close>,
  \<open>ez_hash.c\<close>, \<open>ez_custom_function.c\<close>.  A text is the list of its bytes without the final zero; the pointer of the
  tokenizer is a position in it, at most the position of that zero, and a pointer moved behind it is a \<open>Fault\<close>.
  Messages and line numbers are left out.
\<close>

section \<open>Tokens\<close>

text \<open>\<open>ez_token\<close>, as the numbers that the tables and the \<open>unsigned char\<close> fields of the parser hold\<close>

type_synonym ez_token = nat

abbreviation (input) T_NONE :: nat where "T_NONE \<equiv> 0"
abbreviation (input) T_RETURN :: nat where "T_RETURN \<equiv> 1"
abbreviation (input) T_PLUS :: nat where "T_PLUS \<equiv> 2"
abbreviation (input) T_MINUS :: nat where "T_MINUS \<equiv> 3"
abbreviation (input) T_LEFT_BANANA :: nat where "T_LEFT_BANANA \<equiv> 4"
abbreviation (input) T_RIGHT_BANANA :: nat where "T_RIGHT_BANANA \<equiv> 5"
abbreviation (input) T_LEFT_BRACKET :: nat where "T_LEFT_BRACKET \<equiv> 6"
abbreviation (input) T_RIGHT_BRACKET :: nat where "T_RIGHT_BRACKET \<equiv> 7"
abbreviation (input) T_LEFT_BRACES :: nat where "T_LEFT_BRACES \<equiv> 8"
abbreviation (input) T_RIGHT_BRACES :: nat where "T_RIGHT_BRACES \<equiv> 9"
abbreviation (input) T_DOT :: nat where "T_DOT \<equiv> 10"
abbreviation (input) T_SEMICOLON :: nat where "T_SEMICOLON \<equiv> 11"
abbreviation (input) T_STRING :: nat where "T_STRING \<equiv> 12"
abbreviation (input) T_NUMBER :: nat where "T_NUMBER \<equiv> 13"
abbreviation (input) T_BREAK :: nat where "T_BREAK \<equiv> 14"
abbreviation (input) T_CONTINUE :: nat where "T_CONTINUE \<equiv> 15"
abbreviation (input) T_FUNC_FLOOR :: nat where "T_FUNC_FLOOR \<equiv> 20"
abbreviation (input) T_FUNC_CEIL :: nat where "T_FUNC_CEIL \<equiv> 21"
abbreviation (input) T_FUNC_ABS :: nat where "T_FUNC_ABS \<equiv> 22"
abbreviation (input) T_FUNC_SIN :: nat where "T_FUNC_SIN \<equiv> 23"
abbreviation (input) T_FUNC_COS :: nat where "T_FUNC_COS \<equiv> 24"
abbreviation (input) T_FUNC_INT :: nat where "T_FUNC_INT \<equiv> 25"
abbreviation (input) T_FUNC_UINT :: nat where "T_FUNC_UINT \<equiv> 26"
abbreviation (input) T_FUNC_TAN :: nat where "T_FUNC_TAN \<equiv> 27"
abbreviation (input) T_FUNC_SQR :: nat where "T_FUNC_SQR \<equiv> 28"
abbreviation (input) T_FUNC_SGN :: nat where "T_FUNC_SGN \<equiv> 29"
abbreviation (input) T_FUNC_LOG :: nat where "T_FUNC_LOG \<equiv> 30"
abbreviation (input) T_FUNC_EXP :: nat where "T_FUNC_EXP \<equiv> 31"
abbreviation (input) T_FUNC_ATN :: nat where "T_FUNC_ATN \<equiv> 32"
abbreviation (input) T_FUNC_BCD2N :: nat where "T_FUNC_BCD2N \<equiv> 33"
abbreviation (input) T_FUNC_BNOT :: nat where "T_FUNC_BNOT \<equiv> 34"
abbreviation (input) T_FUNC_NOT :: nat where "T_FUNC_NOT \<equiv> 35"
abbreviation (input) T_FUNC_PRINT :: nat where "T_FUNC_PRINT \<equiv> 36"
abbreviation (input) T_FUNC_RAND :: nat where "T_FUNC_RAND \<equiv> 37"
abbreviation (input) T_FUNC_VAR :: nat where "T_FUNC_VAR \<equiv> 38"
abbreviation (input) T_FUNC_DI_GET :: nat where "T_FUNC_DI_GET \<equiv> 39"
abbreviation (input) T_FUNC_DO_SET :: nat where "T_FUNC_DO_SET \<equiv> 40"
abbreviation (input) T_FUNC_DO_GET :: nat where "T_FUNC_DO_GET \<equiv> 41"
abbreviation (input) T_FUNC_REBOOT :: nat where "T_FUNC_REBOOT \<equiv> 42"
abbreviation (input) T_FUNC_TIME :: nat where "T_FUNC_TIME \<equiv> 43"
abbreviation (input) T_FUNC_TIMEZONE :: nat where "T_FUNC_TIMEZONE \<equiv> 44"
abbreviation (input) T_FUNC_YEAR :: nat where "T_FUNC_YEAR \<equiv> 45"
abbreviation (input) T_FUNC_MONTH :: nat where "T_FUNC_MONTH \<equiv> 46"
abbreviation (input) T_FUNC_DAY :: nat where "T_FUNC_DAY \<equiv> 47"
abbreviation (input) T_FUNC_HOUR :: nat where "T_FUNC_HOUR \<equiv> 48"
abbreviation (input) T_FUNC_MINUTE :: nat where "T_FUNC_MINUTE \<equiv> 49"
abbreviation (input) T_FUNC_SECOND :: nat where "T_FUNC_SECOND \<equiv> 50"
abbreviation (input) T_FUNC_VAR_ALIAS :: nat where "T_FUNC_VAR_ALIAS \<equiv> 51"
abbreviation (input) T_FUNC_MIN :: nat where "T_FUNC_MIN \<equiv> 80"
abbreviation (input) T_FUNC_MAX :: nat where "T_FUNC_MAX \<equiv> 81"
abbreviation (input) T_FUNC3_IF :: nat where "T_FUNC3_IF \<equiv> 82"
abbreviation (input) T_FUNC_FOR :: nat where "T_FUNC_FOR \<equiv> 83"
abbreviation (input) T_IF_FUNC_IF :: nat where "T_IF_FUNC_IF \<equiv> 84"
abbreviation (input) T_IF_FUNC_ELSE :: nat where "T_IF_FUNC_ELSE \<equiv> 85"
abbreviation (input) T_FUNC_CUSTOM :: nat where "T_FUNC_CUSTOM \<equiv> 86"
abbreviation (input) T_FUNC_FUNCTION :: nat where "T_FUNC_FUNCTION \<equiv> 87"
abbreviation (input) T_SET_EQUAL :: nat where "T_SET_EQUAL \<equiv> 100"
abbreviation (input) T_SET_DPLUS :: nat where "T_SET_DPLUS \<equiv> 101"
abbreviation (input) T_SET_DMINUS :: nat where "T_SET_DMINUS \<equiv> 102"
abbreviation (input) T_SET_SHIFT_LEFT_NUM :: nat where "T_SET_SHIFT_LEFT_NUM \<equiv> 103"
abbreviation (input) T_SET_SHIFT_RIGHT_NUM :: nat where "T_SET_SHIFT_RIGHT_NUM \<equiv> 104"
abbreviation (input) T_SET_MULTIPLY_NUM :: nat where "T_SET_MULTIPLY_NUM \<equiv> 105"
abbreviation (input) T_SET_DIVIDE_NUM :: nat where "T_SET_DIVIDE_NUM \<equiv> 106"
abbreviation (input) T_SET_MOD_NUM :: nat where "T_SET_MOD_NUM \<equiv> 107"
abbreviation (input) T_SET_PLUS_NUM :: nat where "T_SET_PLUS_NUM \<equiv> 108"
abbreviation (input) T_SET_MINUS_NUM :: nat where "T_SET_MINUS_NUM \<equiv> 109"
abbreviation (input) T_SET_OR_NUM :: nat where "T_SET_OR_NUM \<equiv> 110"
abbreviation (input) T_SET_AND_NUM :: nat where "T_SET_AND_NUM \<equiv> 111"
abbreviation (input) T_SET_XOR_NUM :: nat where "T_SET_XOR_NUM \<equiv> 112"
abbreviation (input) T_OP_MULTIPLY :: nat where "T_OP_MULTIPLY \<equiv> 120"
abbreviation (input) T_OP_DIVIDE :: nat where "T_OP_DIVIDE \<equiv> 121"
abbreviation (input) T_OP_MOD :: nat where "T_OP_MOD \<equiv> 122"
abbreviation (input) T_OP_SHIFT_LEFT :: nat where "T_OP_SHIFT_LEFT \<equiv> 123"
abbreviation (input) T_OP_SHIFT_RIGHT :: nat where "T_OP_SHIFT_RIGHT \<equiv> 124"
abbreviation (input) T_OP_NOT_LESS :: nat where "T_OP_NOT_LESS \<equiv> 125"
abbreviation (input) T_OP_NOT_GREATER :: nat where "T_OP_NOT_GREATER \<equiv> 126"
abbreviation (input) T_OP_GREATER :: nat where "T_OP_GREATER \<equiv> 127"
abbreviation (input) T_OP_LESS :: nat where "T_OP_LESS \<equiv> 128"
abbreviation (input) T_OP_NOT_SAME :: nat where "T_OP_NOT_SAME \<equiv> 129"
abbreviation (input) T_OP_SAME :: nat where "T_OP_SAME \<equiv> 130"
abbreviation (input) T_OP_ANDAND :: nat where "T_OP_ANDAND \<equiv> 131"
abbreviation (input) T_OP_OROR :: nat where "T_OP_OROR \<equiv> 132"
abbreviation (input) T_OP_OR :: nat where "T_OP_OR \<equiv> 133"
abbreviation (input) T_OP_AND :: nat where "T_OP_AND \<equiv> 134"
abbreviation (input) T_OP_XOR :: nat where "T_OP_XOR \<equiv> 135"
abbreviation (input) T_REG_FIRST :: nat where "T_REG_FIRST \<equiv> 151"
abbreviation (input) T_REG_LAST :: nat where "T_REG_LAST \<equiv> 214"
abbreviation (input) T_LOAD_FUNCTION_ERROR :: nat where "T_LOAD_FUNCTION_ERROR \<equiv> 0xFD"
abbreviation (input) T_ERROR :: nat where "T_ERROR \<equiv> 0xFE"
abbreviation (input) T_EOF :: nat where "T_EOF \<equiv> 0xFF"

definition is_set_token :: "ez_token \<Rightarrow> bool" where "is_set_token t \<longleftrightarrow> T_SET_EQUAL \<le> t \<and> t \<le> T_SET_XOR_NUM"
definition is_op_token :: "ez_token \<Rightarrow> bool" where "is_op_token t \<longleftrightarrow> T_OP_MULTIPLY \<le> t \<and> t \<le> T_OP_XOR"
definition is_reg_token :: "ez_token \<Rightarrow> bool" where "is_reg_token t \<longleftrightarrow> T_REG_FIRST \<le> t \<and> t \<le> T_REG_LAST"

definition EZ_KEYWORD_SIZE :: nat where "EZ_KEYWORD_SIZE = 32"
definition EZ_EXP_REG_COUNT :: nat where "EZ_EXP_REG_COUNT = 64"
definition EZ_EXP_REG_NAME_LIMIT :: nat where "EZ_EXP_REG_NAME_LIMIT = 16"

section \<open>Names\<close>

datatype ez_vtype = VT_UNUSE | VT_NUMBER | VT_STRING

record ez_custom =
  cu_name :: bytes
  cu_regs :: "(bytes \<times> ez_vtype) list"
  cu_code :: "bytes option"

record ez_tables =
  z_tok :: "ez_token table"
  z_cust :: "ez_custom table"

definition HASH_LIMIT :: nat where "HASH_LIMIT = 727"
definition CUSTOM_HASH_LIMIT :: nat where "CUSTOM_HASH_LIMIT = 97"
definition KEY_ARRAY :: nat where "KEY_ARRAY = EZ_KEYWORD_SIZE + 1"

definition ez_hash_set :: "bytes \<Rightarrow> ez_token \<Rightarrow> ez_token table \<Rightarrow> ez_token table" where
  "ez_hash_set key tok t = table_set KEY_ARRAY HASH_LIMIT key tok t"

definition ez_hash_get :: "bytes \<Rightarrow> ez_token table \<Rightarrow> ez_token option outcome" where
  "ez_hash_get key t = table_get KEY_ARRAY HASH_LIMIT key t"

definition ez_hash_del :: "bytes \<Rightarrow> ez_token table \<Rightarrow> (ez_token option \<times> ez_token table) outcome" where
  "ez_hash_del key t = table_del KEY_ARRAY HASH_LIMIT key t"

definition keyword_to_tokens :: "(bytes \<times> ez_token) list" where
  "keyword_to_tokens = map (\<lambda>(s, t). (asc s, t))
     [(''return'', T_RETURN), (''floor'', T_FUNC_FLOOR), (''ceil'', T_FUNC_CEIL), (''abs'', T_FUNC_ABS), (''sin'', T_FUNC_SIN),
      (''cos'', T_FUNC_COS), (''uint'', T_FUNC_UINT), (''int'', T_FUNC_INT), (''tan'', T_FUNC_TAN), (''sqr'', T_FUNC_SQR),
      (''sgn'', T_FUNC_SGN), (''log'', T_FUNC_LOG), (''exp'', T_FUNC_EXP), (''atn'', T_FUNC_ATN), (''bcd2n'', T_FUNC_BCD2N),
      (''minute'', T_FUNC_MINUTE), (''min'', T_FUNC_MIN), (''max'', T_FUNC_MAX), (''ifelse'', T_FUNC3_IF),
      (''if'', T_IF_FUNC_IF), (''else'', T_IF_FUNC_ELSE), (''function'', T_FUNC_FUNCTION), (''for'', T_FUNC_FOR),
      (''break'', T_BREAK), (''continue'', T_CONTINUE), (''print'', T_FUNC_PRINT), (''rand'', T_FUNC_RAND), (''fvar'', T_FUNC_VAR),
      (''diget'', T_FUNC_DI_GET), (''doset'', T_FUNC_DO_SET), (''doget'', T_FUNC_DO_GET), (''reboot'', T_FUNC_REBOOT),
      (''time'', T_FUNC_TIME), (''timezone'', T_FUNC_TIMEZONE), (''year'', T_FUNC_YEAR), (''month'', T_FUNC_MONTH),
      (''day'', T_FUNC_DAY), (''hour'', T_FUNC_HOUR), (''second'', T_FUNC_SECOND)]"

definition ez_hash_init :: "(bytes \<times> ez_token) list \<Rightarrow> ez_token table" where
  "ez_hash_init ks = fold (\<lambda>(k, t). ez_hash_set k t) ks (table_new HASH_LIMIT)"

definition ez_tables_init :: ez_tables where
  "ez_tables_init = \<lparr>z_tok = ez_hash_init keyword_to_tokens, z_cust = table_new CUSTOM_HASH_LIMIT\<rparr>"

text \<open>A function enters both tables; its code gets a final semicolon.\<close>

definition custom_enter :: "bytes \<Rightarrow> ez_custom \<Rightarrow> ez_tables \<Rightarrow> ez_tables" where
  "custom_enter key c z = z\<lparr>z_cust := table_set KEY_ARRAY CUSTOM_HASH_LIMIT key c (z_cust z)\<rparr>"

definition ez_custom_new :: "bytes \<Rightarrow> bytes option \<Rightarrow> (bytes \<times> ez_vtype) list \<Rightarrow> ez_tables \<Rightarrow> ez_tables" where
  "ez_custom_new key code regs z =
     custom_enter key \<lparr>cu_name = stored_key KEY_ARRAY key, cu_regs = regs, cu_code = map_option (\<lambda>c. c @ [0x3B]) code\<rparr>
       (z\<lparr>z_tok := ez_hash_set key T_FUNC_CUSTOM (z_tok z)\<rparr>)"

definition ez_custom_get :: "bytes \<Rightarrow> ez_tables \<Rightarrow> ez_custom option outcome" where
  "ez_custom_get key z = table_get KEY_ARRAY CUSTOM_HASH_LIMIT key (z_cust z)"

definition ez_custom_del :: "bytes \<Rightarrow> ez_tables \<Rightarrow> (ez_custom option \<times> ez_tables) outcome" where
  "ez_custom_del key z =
     bindO (table_del KEY_ARRAY CUSTOM_HASH_LIMIT key (z_cust z)) (\<lambda>(r, t). Ret (r, z\<lparr>z_cust := t\<rparr>))"

text \<open>The tokens of words and the functions are stacks of names.\<close>

interpretation tokens: name_stack "table_vals HASH_LIMIT" "table_ok KEY_ARRAY HASH_LIMIT" "key_fits KEY_ARRAY"
  ez_hash_get ez_hash_set ez_hash_del
  by unfold_locales
    (simp_all add: ez_hash_get_def ez_hash_set_def ez_hash_del_def HASH_LIMIT_def table_get_law table_set_ok table_set_law table_del_law)

interpretation customs: name_stack "\<lambda>z :: ez_tables. table_vals CUSTOM_HASH_LIMIT (z_cust z)" "\<lambda>z :: ez_tables. table_ok KEY_ARRAY CUSTOM_HASH_LIMIT (z_cust z)"
  "key_fits KEY_ARRAY" ez_custom_get custom_enter ez_custom_del
proof unfold_locales
  fix z :: ez_tables and k
  assume ok: "table_ok KEY_ARRAY CUSTOM_HASH_LIMIT (z_cust z)"
  obtain t where t: "table_del KEY_ARRAY CUSTOM_HASH_LIMIT k (z_cust z) =
      Ret (case table_vals CUSTOM_HASH_LIMIT (z_cust z) k of [] \<Rightarrow> None | v # _ \<Rightarrow> Some v, t)" "table_ok KEY_ARRAY CUSTOM_HASH_LIMIT t"
    "table_vals CUSTOM_HASH_LIMIT t = (table_vals CUSTOM_HASH_LIMIT (z_cust z))(k := tl (table_vals CUSTOM_HASH_LIMIT (z_cust z) k))"
    using table_del_law [OF _ ok, of k] by (auto simp: CUSTOM_HASH_LIMIT_def)
  then show "\<exists>z'. ez_custom_del k z = Ret (case table_vals CUSTOM_HASH_LIMIT (z_cust z) k of [] \<Rightarrow> None | v # _ \<Rightarrow> Some v, z') \<and>
      table_ok KEY_ARRAY CUSTOM_HASH_LIMIT (z_cust z') \<and>
      table_vals CUSTOM_HASH_LIMIT (z_cust z') = (table_vals CUSTOM_HASH_LIMIT (z_cust z))(k := tl (table_vals CUSTOM_HASH_LIMIT (z_cust z) k))"
    by (intro exI [of _ "z\<lparr>z_cust := t\<rparr>"]) (simp add: ez_custom_del_def)
qed (simp_all add: ez_custom_get_def custom_enter_def table_get_law table_set_ok table_set_law CUSTOM_HASH_LIMIT_def)

text \<open>After the start every word has its token, the last one of the list\<close>

lemma ez_hash_fold:
  assumes "list_all (\<lambda>k. key_fits KEY_ARRAY (fst k)) ks" "table_ok KEY_ARRAY HASH_LIMIT t"
  shows "table_ok KEY_ARRAY HASH_LIMIT (fold (\<lambda>(k, t). ez_hash_set k t) ks t)"
    "ez_hash_get n (fold (\<lambda>(k, t). ez_hash_set k t) ks t) = (case map_of (rev ks) n of Some v \<Rightarrow> Ret (Some v) | None \<Rightarrow> ez_hash_get n t)"
proof -
  show "table_ok KEY_ARRAY HASH_LIMIT (fold (\<lambda>(k, t). ez_hash_set k t) ks t)"
    using assms by (induction ks arbitrary: t) (auto simp: tokens.push_ok)
  show "ez_hash_get n (fold (\<lambda>(k, t). ez_hash_set k t) ks t) = (case map_of (rev ks) n of Some v \<Rightarrow> Ret (Some v) | None \<Rightarrow> ez_hash_get n t)"
    using assms
  proof (induction ks arbitrary: t)
    case (Cons e ks)
    then show ?case
      by (cases e) (simp add: tokens.push_ok tokens.look_push map_add_def split: option.splits)
  qed simp
qed

lemma keywords_fit: "list_all (\<lambda>k. key_fits KEY_ARRAY (fst k)) keyword_to_tokens"
  by (simp add: keyword_to_tokens_def key_fits_def KEY_ARRAY_def EZ_KEYWORD_SIZE_def)

lemma ez_keywords:
  "ez_hash_get n (z_tok ez_tables_init) = Ret (map_of (rev keyword_to_tokens) n)"
proof -
  have "ez_hash_get n (table_new HASH_LIMIT) = Ret None" by (simp add: tokens.look_law HASH_LIMIT_def)
  then show ?thesis
    using ez_hash_fold(2) [OF keywords_fit, of "table_new HASH_LIMIT" n]
    by (simp add: ez_tables_init_def ez_hash_init_def split: option.splits)
qed

definition ez_custom_add_reg :: "bytes \<Rightarrow> ez_vtype \<Rightarrow> (bytes \<times> ez_vtype) list \<Rightarrow> (bytes \<times> ez_vtype) list" where
  "ez_custom_add_reg name t regs = (if length regs < EZ_EXP_REG_COUNT then regs @ [(name, t)] else regs)"

text \<open>A parameter \<open>$name\<close> or \<open>@name\<close>, collected into 17 bytes; with all of them taken its copy reads behind them.\<close>

definition add_param :: "bytes \<Rightarrow> (bytes \<times> ez_vtype) list \<Rightarrow> (bytes \<times> ez_vtype) list option outcome" where
  "add_param name regs =
     (case name of
        [] \<Rightarrow> Ret None
      | c # n \<Rightarrow>
          if c = 0x24 then (if EZ_EXP_REG_NAME_LIMIT < length name then Fault else Ret (Some (ez_custom_add_reg n VT_NUMBER regs)))
          else if c = 0x40 then (if EZ_EXP_REG_NAME_LIMIT < length name then Fault else Ret (Some (ez_custom_add_reg n VT_STRING regs)))
          else Ret None)"

text \<open>\<open>ez_exp_custom_new\<close>: a function from its head \<open>name(params)\<close>; parameters of no type are passed over.\<close>

definition head_key :: "bytes \<Rightarrow> bytes" where
  "head_key s = take KEY_ARRAY (takeWhile (\<lambda>c. \<not> is_space c \<and> c \<noteq> 0x28) (dropWhile is_space s))"

definition after_char :: "u8 \<Rightarrow> bytes \<Rightarrow> bytes" where
  "after_char c s = tl (dropWhile (\<lambda>d. d \<noteq> c) s)"

function custom_params :: "bytes \<Rightarrow> (bytes \<times> ez_vtype) list \<Rightarrow> (bytes \<times> ez_vtype) list outcome" where
  "custom_params s regs =
     (if s = [] then Ret regs
      else let name = take (EZ_EXP_REG_NAME_LIMIT + 1)
                 (takeWhile (\<lambda>c. \<not> is_space c \<and> c \<noteq> 0x2C \<and> c \<noteq> 0x29) (dropWhile is_space s));
               s' = after_char 0x2C (drop (length name) (dropWhile is_space s))
           in bindO (add_param name regs) (\<lambda>r. custom_params s' (case r of Some regs \<Rightarrow> regs | None \<Rightarrow> regs)))"
  by pat_completeness auto

lemma length_after_char: "length (after_char c s) \<le> length s"
  using length_dropWhile_le [of "\<lambda>d. d \<noteq> c" s] by (simp add: after_char_def)

lemma after_char_less: "s \<noteq> [] \<Longrightarrow> length (after_char c (drop n (dropWhile P s))) < length s"
proof -
  assume s: "s \<noteq> []"
  let ?r = "dropWhile (\<lambda>d. d \<noteq> c) (drop n (dropWhile P s))"
  have "length ?r \<le> length s"
    using length_dropWhile_le [of "\<lambda>d. d \<noteq> c" "drop n (dropWhile P s)"] length_dropWhile_le [of P s] by simp
  moreover have "0 < length s" using s by simp
  ultimately show ?thesis unfolding after_char_def length_tl by arith
qed

termination custom_params by (relation "measure (\<lambda>(s, regs). length s)") (auto simp: after_char_less)

declare custom_params.simps [simp del]

definition ez_exp_custom_new :: "bytes \<Rightarrow> bytes \<Rightarrow> ez_tables \<Rightarrow> ez_tables outcome" where
  "ez_exp_custom_new func code z =
     (let key = head_key func; s = dropWhile is_space (after_char 0x28 (drop (length key) (dropWhile is_space func))) in
      if key = [] then Ret z
      else if length key = KEY_ARRAY then Fault
      else bindO (if s \<noteq> [] \<and> hd s = 0x29 then Ret [] else custom_params s []) (\<lambda>regs. Ret (ez_custom_new key (Some code) regs z)))"

section \<open>The tokenizer\<close>

record tokenizer =
  tz_line :: bytes
  tz_p :: nat
  tz_num :: fp
  tz_str :: "nat option"
  tz_size :: nat
  tz_kw :: bytes
  tz_regs :: "(bytes \<times> ez_vtype) list"
  tz_err :: bool

definition rest :: "tokenizer \<Rightarrow> bytes" where
  "rest t = drop (tz_p t) (tz_line t)"

text \<open>To move the pointer to where the text \<open>s\<close> is left\<close>

definition move_to :: "bytes \<Rightarrow> tokenizer \<Rightarrow> tokenizer" where
  "move_to s t = t\<lparr>tz_p := length (tz_line t) - length s\<rparr>"

definition is_char_token :: "u8 \<Rightarrow> ez_token" where
  "is_char_token c =
     (if c = 0x3D then T_SET_EQUAL else if c = 0x2B then T_PLUS else if c = 0x2D then T_MINUS
      else if c = 0x2A then T_OP_MULTIPLY else if c = 0x2F then T_OP_DIVIDE else if c = 0x25 then T_OP_MOD
      else if c = 0x28 then T_LEFT_BANANA else if c = 0x29 then T_RIGHT_BANANA
      else if c = 0x3E then T_OP_GREATER else if c = 0x3C then T_OP_LESS
      else if c = 0x7E then T_FUNC_BNOT else if c = 0x26 then T_OP_AND else if c = 0x7C then T_OP_OR
      else if c = 0x5E then T_OP_XOR else if c = 0x21 then T_FUNC_NOT
      else if c = 0x5B then T_LEFT_BRACKET else if c = 0x5D then T_RIGHT_BRACKET
      else if c = 0x7B then T_LEFT_BRACES else if c = 0x7D then T_RIGHT_BRACES
      else if c = 0x2C then T_DOT else if c = 0x3B then T_SEMICOLON else if c = 0 then T_EOF else T_NONE)"

definition is_equal_char_token :: "u8 \<Rightarrow> u8 \<Rightarrow> ez_token" where
  "is_equal_char_token c e =
     (if e \<noteq> 0x3D then T_NONE
      else if c = 0x2A then T_SET_MULTIPLY_NUM else if c = 0x2F then T_SET_DIVIDE_NUM else if c = 0x25 then T_SET_MOD_NUM
      else if c = 0x2B then T_SET_PLUS_NUM else if c = 0x2D then T_SET_MINUS_NUM else if c = 0x7C then T_SET_OR_NUM
      else if c = 0x26 then T_SET_AND_NUM else if c = 0x5E then T_SET_XOR_NUM else if c = 0x3E then T_OP_NOT_LESS
      else if c = 0x3C then T_OP_NOT_GREATER else if c = 0x21 then T_OP_NOT_SAME else T_NONE)"

definition is_same_char_token :: "u8 \<Rightarrow> u8 \<Rightarrow> ez_token" where
  "is_same_char_token c s =
     (if s \<noteq> c then T_NONE
      else if c = 0x2B then T_SET_DPLUS else if c = 0x2D then T_SET_DMINUS else if c = 0x3C then T_OP_SHIFT_LEFT
      else if c = 0x3E then T_OP_SHIFT_RIGHT else if c = 0x26 then T_OP_ANDAND else if c = 0x7C then T_OP_OROR
      else if c = 0x3D then T_OP_SAME else T_NONE)"

definition is_shift_num_token :: "u8 \<Rightarrow> u8 \<Rightarrow> u8 \<Rightarrow> ez_token" where
  "is_shift_num_token c s e =
     (if e = 0x3D \<and> s = c \<and> (c = 0x3C \<or> c = 0x3E) then (if c = 0x3C then T_SET_SHIFT_LEFT_NUM else T_SET_SHIFT_RIGHT_NUM)
      else T_NONE)"

text \<open>\<open>keyword_chars\<close>: letters but for \<open>J\<close>, digits, underscore\<close>

definition keyword_char :: "u8 \<Rightarrow> bool" where
  "keyword_char c \<longleftrightarrow> (0x61 \<le> c \<and> c \<le> 0x7A) \<or> (0x41 \<le> c \<and> c \<le> 0x5A \<and> c \<noteq> 0x4A) \<or> (0x30 \<le> c \<and> c \<le> 0x39) \<or> c = 0x5F"

text \<open>The byte at an offset, the final zero behind the last one\<close>

definition peek :: "bytes \<Rightarrow> nat \<Rightarrow> u8" where
  "peek s i = (if i < length s then s ! i else 0)"

text \<open>Blanks and comments.  A comment that is not closed takes the pointer behind the final zero.\<close>

definition skip_line_comments :: "bytes \<Rightarrow> bytes option" where
  "skip_line_comments s = (if peek s 0 = 0x2F \<and> peek s 1 = 0x2F then Some (after_char 0x0A (drop 2 s)) else None)"

fun find_close :: "u8 \<Rightarrow> bytes \<Rightarrow> bytes option" where
  "find_close c (x # y # s) = (if c = x \<and> y = 0x2F then Some s else find_close c (y # s))"
| "find_close c _ = None"

definition skip_multiline_comments :: "bytes \<Rightarrow> bytes option outcome" where
  "skip_multiline_comments s =
     (if peek s 0 = 0x2F \<and> (peek s 1 = 0x2A \<or> peek s 1 = 0x2D)
      then (case find_close (peek s 1) (drop 2 s) of None \<Rightarrow> Fault | Some r \<Rightarrow> Ret (Some r))
      else Ret None)"

definition skip_comment :: "bytes \<Rightarrow> bytes option outcome" where
  "skip_comment s = (case skip_line_comments s of Some r \<Rightarrow> Ret (Some r) | None \<Rightarrow> skip_multiline_comments s)"

lemma find_close_length: "find_close c s = Some r \<Longrightarrow> length r < length s"
  by (induction c s rule: find_close.induct) (auto split: if_splits)

lemma skip_comment_length: "skip_comment s = Ret (Some r) \<Longrightarrow> length r < length s"
proof -
  have l: "2 \<le> length s" if "peek s 0 = 0x2F" "peek s 1 \<noteq> 0"
    using that by (cases s; cases "tl s") (auto simp: peek_def)
  assume "skip_comment s = Ret (Some r)"
  then show ?thesis
    using l length_after_char [of "0x0A" "drop 2 s"] find_close_length [of "peek s 1" "drop 2 s" r]
    by (fastforce simp: skip_comment_def skip_line_comments_def skip_multiline_comments_def split: if_splits option.splits)
qed

text \<open>To the next token: \<open>[]\<close> at the end of the text\<close>

function skip_blanks :: "bytes \<Rightarrow> bytes outcome" where
  "skip_blanks s =
     (let s1 = dropWhile is_space s in
      case skip_comment s1 of
        Ret (Some r) \<Rightarrow> skip_blanks r
      | Ret None \<Rightarrow> Ret s1
      | Fault \<Rightarrow> Fault
      | Blocked \<Rightarrow> Blocked)"
  by pat_completeness auto

lemma skip_comment_shorter: "skip_comment (dropWhile is_space s) = Ret (Some r) \<Longrightarrow> length r < length s"
  using skip_comment_length length_dropWhile_le [of is_space s] by fastforce

termination skip_blanks by (relation "measure length") (auto simp: skip_comment_shorter)

declare skip_blanks.simps [simp del]

text \<open>
  The body of a function, line by line from blank to line end with its braces counted, until as many are closed as
  opened: where the first brace was, whether the end was found, and what is left
\<close>

definition count_char :: "u8 \<Rightarrow> bytes \<Rightarrow> nat" where
  "count_char c s = length (filter (\<lambda>d. d = c) s)"

function body_scan :: "nat \<Rightarrow> nat \<Rightarrow> bytes option \<Rightarrow> bytes \<Rightarrow> (bytes option \<times> bool \<times> bytes) outcome" where
  "body_scan l r lp s =
     (if s = [] then Ret (lp, False, [])
      else case skip_blanks s of
        Fault \<Rightarrow> Fault
      | Blocked \<Rightarrow> Blocked
      | Ret s1 \<Rightarrow>
          (let seg = takeWhile (\<lambda>c. c \<noteq> 0x0A) s1; s2 = dropWhile (\<lambda>c. c \<noteq> 0x0A) s1;
               lp = (if l = 0 \<and> 0x7B \<in> set seg then Some (dropWhile (\<lambda>c. c \<noteq> 0x7B) s1) else lp);
               l = l + count_char 0x7B seg; r = r + count_char 0x7D seg
           in if 0 < l \<and> l = r then Ret (lp, True, s2)
              else if s1 = [] then Ret (lp, False, []) else body_scan l r lp s2))"
  by pat_completeness auto

lemma skip_blanks_props: "skip_blanks s = Ret s1 \<Longrightarrow> length s1 \<le> length s \<and> (s1 \<noteq> [] \<longrightarrow> \<not> is_space (hd s1))"
proof (induction s rule: skip_blanks.induct)
  case (1 s)
  let ?s = "dropWhile is_space s"
  have l: "length ?s \<le> length s" by (rule length_dropWhile_le)
  show ?case
  proof (cases "skip_comment ?s")
    case (Ret c)
    show ?thesis
    proof (cases c)
      case None
      then show ?thesis using 1(2) Ret l hd_dropWhile [of is_space s] by (subst (asm) skip_blanks.simps) auto
    next
      case (Some r)
      then have "skip_blanks r = Ret s1" using 1(2) Ret by (subst (asm) skip_blanks.simps) auto
      then have "length s1 \<le> length r \<and> (s1 \<noteq> [] \<longrightarrow> \<not> is_space (hd s1))" using 1(1) [OF refl] Ret Some by simp
      then show ?thesis using skip_comment_length [of ?s r] Ret Some l by auto
    qed
  qed (use 1(2) in \<open>subst (asm) skip_blanks.simps, simp\<close>)+
qed

lemma skip_line_shorter: "skip_blanks s = Ret s1 \<Longrightarrow> s1 \<noteq> [] \<Longrightarrow> length (dropWhile (\<lambda>c. c \<noteq> 0x0A) s1) < length s"
proof -
  assume s1: "skip_blanks s = Ret s1" "s1 \<noteq> []"
  then have "hd s1 \<noteq> 0x0A" using skip_blanks_props by (fastforce simp: is_space_def)
  then show ?thesis
    using s1 skip_blanks_props [of s s1] length_dropWhile_le [of "\<lambda>c. c \<noteq> 0x0A" "tl s1"] by (cases s1) auto
qed

termination body_scan by (relation "measure (\<lambda>(l, r, lp, s). length s)") (auto simp: skip_line_shorter)

declare body_scan.simps [simp del]

section \<open>Registers and numbers\<close>

definition name_char :: "u8 \<Rightarrow> bool" where
  "name_char c \<longleftrightarrow> \<not> is_space c \<and> is_char_token c = T_NONE"

definition find_index :: "('a \<Rightarrow> bool) \<Rightarrow> 'a list \<Rightarrow> nat option" where
  "find_index P xs = find (\<lambda>i. P (xs ! i)) [0 ..< length xs]"

text \<open>
  \<open>__parse_reg\<close> on a text that starts with \<open>$\<close> or \<open>@\<close>: the first register whose name the following text starts with, a new
  one if there is none.
\<close>

definition parse_reg :: "u8 \<Rightarrow> tokenizer \<Rightarrow> ez_token \<times> tokenizer" where
  "parse_reg pf t =
     (let s0 = tl (rest t); name = takeWhile name_char s0; s1 = drop (length name) s0; t1 = move_to s1 t
      in if s1 = [] \<or> EZ_EXP_REG_NAME_LIMIT < length name then (T_ERROR, t1\<lparr>tz_err := True\<rparr>)
         else case find_index (\<lambda>r. take (length (fst r)) s0 = fst r) (tz_regs t) of
                Some i \<Rightarrow> (T_REG_FIRST + i, t1)
              | None \<Rightarrow>
                  if length (tz_regs t) = EZ_EXP_REG_COUNT then (T_ERROR, t1\<lparr>tz_err := True\<rparr>)
                  else (T_REG_FIRST + length (tz_regs t),
                        t1\<lparr>tz_regs := tz_regs t @ [(name, if pf = 0x24 then VT_NUMBER else VT_STRING)]\<rparr>))"

definition is_xdigit :: "u8 \<Rightarrow> bool" where
  "is_xdigit c \<longleftrightarrow> is_dec c \<or> (0x61 \<le> c \<and> c \<le> 0x66) \<or> (0x41 \<le> c \<and> c \<le> 0x46)"

definition xdigit_val :: "u8 \<Rightarrow> nat" where
  "xdigit_val c = (if is_dec c then unat c - 0x30 else if 0x61 \<le> c then unat c - 0x57 else unat c - 0x37)"

definition digits_val :: "nat \<Rightarrow> bytes \<Rightarrow> nat" where
  "digits_val b s = fold (\<lambda>c n. b * n + xdigit_val c) s 0"

text \<open>
  The value that \<open>sscanf\<close> reads as \<open>%lf\<close> from text that starts with a digit, and what is left: digits with a point, and an
  exponent (\<open>e\<close> of ten, for hexadecimal digits \<open>p\<close> of two).  An exponent or \<open>0x\<close> without digits is no number.
\<close>

definition scan_exp :: "u8 \<Rightarrow> bytes \<Rightarrow> (int \<times> bytes) option" where
  "scan_exp e s =
     (if s \<noteq> [] \<and> (hd s = e \<or> hd s = e - 0x20)
      then let sig = tl s \<noteq> [] \<and> (hd (tl s) = 0x2B \<or> hd (tl s) = 0x2D); ds = (if sig then tl (tl s) else tl s);
               v = int (digits_val 10 (takeWhile is_dec ds))
           in if takeWhile is_dec ds = [] then None
              else Some (if sig \<and> hd (tl s) = 0x2D then - v else v, dropWhile is_dec ds)
      else Some (0, s))"

definition scan_digits :: "(u8 \<Rightarrow> bool) \<Rightarrow> bytes \<Rightarrow> bytes \<times> bytes \<times> bytes" where
  "scan_digits P s =
     (let i = takeWhile P s; r = dropWhile P s
      in if r \<noteq> [] \<and> hd r = 0x2E then (i, takeWhile P (tl r), dropWhile P (tl r)) else (i, [], r))"

definition scan_number :: "bytes \<Rightarrow> (fp \<times> bytes) option" where
  "scan_number s =
     (if peek s 0 = 0x30 \<and> (peek s 1 = 0x78 \<or> peek s 1 = 0x58)
      then (case scan_digits is_xdigit (drop 2 s) of (i, f, r) \<Rightarrow>
              if i = [] \<and> f = [] then None
              else map_option (\<lambda>(x, r). (fp_round 53 11 (of_nat (digits_val 16 (i @ f)) * 2 powi (x - 4 * int (length f))), r)) (scan_exp 0x70 r))
      else (case scan_digits is_dec s of (i, f, r) \<Rightarrow>
              map_option (\<lambda>(x, r). (fp_round 53 11 (of_nat (digits_val 10 (i @ f)) * 10 powi (x - int (length f))), r)) (scan_exp 0x65 r)))"

text \<open>
  The number at the start of a text.  The tokenizer passes over digits and points only, but reads the value from a
  copy of 32 bytes of the text; a number that fills the copy is read on behind it.
\<close>

definition lex_number :: "bytes \<Rightarrow> (fp \<times> bytes) outcome" where
  "lex_number s =
     (let s' = (if peek s 0 = 0x30 \<and> (peek s 1 = 0x78 \<or> peek s 1 = 0x58) then dropWhile is_xdigit (drop 2 s)
                else dropWhile (\<lambda>c. is_dec c \<or> c = 0x2E) s)
      in case scan_number (take 32 s) of
           None \<Rightarrow> Fault
         | Some (x, r) \<Rightarrow> if r = [] \<and> 32 \<le> length s then Fault else Ret (x, s'))"

section \<open>The next token\<close>

definition lex_char :: "bytes \<Rightarrow> (ez_token \<times> nat) option" where
  "lex_char s =
     (if 3 \<le> length s \<and> is_shift_num_token (peek s 0) (peek s 1) (peek s 2) \<noteq> T_NONE
      then Some (is_shift_num_token (peek s 0) (peek s 1) (peek s 2), 3)
      else if 2 \<le> length s \<and> is_same_char_token (peek s 0) (peek s 1) \<noteq> T_NONE then Some (is_same_char_token (peek s 0) (peek s 1), 2)
      else if is_equal_char_token (peek s 0) (peek s 1) \<noteq> T_NONE then Some (is_equal_char_token (peek s 0) (peek s 1), 2)
      else if is_char_token (peek s 0) \<noteq> T_NONE then Some (is_char_token (peek s 0), 1)
      else None)"

definition lex_string :: "bytes \<Rightarrow> tokenizer \<Rightarrow> tokenizer" where
  "lex_string s t =
     (let body = takeWhile (\<lambda>c. c \<noteq> hd s) (tl s); s1 = drop (length body) (tl s)
      in if s1 = [] then move_to [] t
         else move_to (tl s1) t\<lparr>tz_str := Some (length (tz_line t) - length (tl s)), tz_size := length body\<rparr>)"

definition lex_alias :: "bytes \<Rightarrow> tokenizer \<Rightarrow> tokenizer" where
  "lex_alias s t =
     (let name = takeWhile (\<lambda>c. name_char c \<and> c \<noteq> 0x40) (tl s); s1 = drop (length name) (tl s)
      in if s1 = [] then move_to [] t
         else move_to s1 t\<lparr>tz_str := Some (length (tz_line t) - length (tl s)), tz_size := length name\<rparr>)"

definition lex_keyword :: "bytes \<Rightarrow> bytes outcome" where
  "lex_keyword s =
     (let kw = take KEY_ARRAY (takeWhile (\<lambda>c. keyword_char c \<or> 0x80 \<le> c) s)
      in if length kw = KEY_ARRAY \<or> peek s (length kw) = 0x7F then Fault else Ret kw)"

text \<open>\<open>__load_function\<close>, the text behind the word \<open>function\<close>\<close>

function load_params :: "bytes \<Rightarrow> (bytes \<times> ez_vtype) list \<Rightarrow> ((bytes \<times> ez_vtype) list \<times> bool) outcome" where
  "load_params s regs =
     (if s = [] \<or> hd s = 0x7B then Ret (regs, True)
      else let s0 = dropWhile is_space s;
               name = take (EZ_EXP_REG_NAME_LIMIT + 1)
                 (takeWhile (\<lambda>c. c \<noteq> 0x7B \<and> \<not> is_space c \<and> c \<noteq> 0x2C \<and> c \<noteq> 0x29) s0);
               s1 = dropWhile (\<lambda>c. c \<noteq> 0x7B \<and> c \<noteq> 0x2C) (drop (length name) s0);
               s2 = (if s1 \<noteq> [] \<and> hd s1 = 0x2C then tl s1 else s1)
           in bindO (add_param name regs) (\<lambda>r.
                case r of None \<Rightarrow> Ret (regs, False)
                | Some regs \<Rightarrow> load_params s2 regs))"
  by pat_completeness auto

lemma load_params_shorter:
  fixes n :: nat
  assumes "s \<noteq> []" "hd s \<noteq> 0x7B"
  defines "s1 \<equiv> dropWhile (\<lambda>c. c \<noteq> 0x7B \<and> c \<noteq> 0x2C) (drop n (dropWhile is_space s))"
  shows "length (if s1 \<noteq> [] \<and> hd s1 = 0x2C then tl s1 else s1) < length s"
proof -
  have "suffix s1 s" unfolding s1_def
    by (rule suffix_order.trans [OF suffix_dropWhile suffix_order.trans [OF suffix_drop suffix_dropWhile]])
  then have l: "length s1 \<le> length s" "length s1 = length s \<Longrightarrow> s1 = s"
    by (auto simp: suffix_def)
  have "s1 \<noteq> [] \<Longrightarrow> hd s1 \<noteq> 0x2C \<Longrightarrow> hd s1 = 0x7B"
    using hd_dropWhile [of "\<lambda>c. c \<noteq> 0x7B \<and> c \<noteq> 0x2C" "drop n (dropWhile is_space s)"] by (auto simp: s1_def)
  then show ?thesis using l assms(1,2) by (cases s1) (auto simp: le_less)
qed

termination load_params
  by (relation "measure (\<lambda>(s, regs). length s)")
    (rule wf_measure, hypsubst, simp only: in_measure prod.case de_Morgan_disj, rule load_params_shorter, simp_all)

declare load_params.simps [simp del]

definition load_function :: "tokenizer \<Rightarrow> ez_tables \<Rightarrow> (tokenizer \<times> ez_tables) outcome" where
  "load_function t z =
     (let s = dropWhile is_space (rest t); key = head_key s; t = move_to s t in
      if s = [] \<or> key = [] then Ret (t, z)
      else if length key = KEY_ARRAY then Fault
      else bindO (load_params (after_char 0x28 (drop (length key) s)) []) (\<lambda>(regs, ok).
        if \<not> ok then Ret (t\<lparr>tz_err := True\<rparr>, ez_custom_new key None regs z)
        else bindO (body_scan 0 0 None s) (\<lambda>(lp, closed, s1).
          Ret (move_to s1 t,
               ez_custom_new key
                 (case lp of Some b \<Rightarrow> if closed then Some (take (length b - length s1) b) else None | None \<Rightarrow> None) regs z))))"

fun next_token_ex :: "nat \<Rightarrow> bool \<Rightarrow> tokenizer \<Rightarrow> ez_tables \<Rightarrow> (ez_token \<times> tokenizer \<times> ez_tables) outcome" where
  "next_token_ex k load t z =
     (if length (tz_line t) < tz_p t then Fault
      else bindO (skip_blanks (rest t)) (\<lambda>s.
        let t = move_to s t\<lparr>tz_str := None, tz_size := 0\<rparr> in
        if s = [] then Ret (T_EOF, t, z)
        else if hd s = 0x24 \<or> hd s = 0x40 then (case parse_reg (hd s) t of (tk, t) \<Rightarrow> Ret (tk, t, z))
        else case lex_char s of
          Some (tk, n) \<Rightarrow> Ret (tk, (if n = 1 then t\<lparr>tz_num := NaN\<rparr> else t)\<lparr>tz_p := tz_p t + n\<rparr>, z)
        | None \<Rightarrow>
            if hd s = 0x22 \<or> hd s = 0x27 then Ret (T_STRING, lex_string s t, z)
            else if hd s = 0x23 then Ret (T_FUNC_VAR_ALIAS, lex_alias s t, z)
            else if is_dec (hd s) then bindO (lex_number s) (\<lambda>(x, s1). Ret (T_NUMBER, (move_to s1 t)\<lparr>tz_num := x\<rparr>, z))
            else bindO (lex_keyword s) (\<lambda>kw.
              if kw = [] then Ret (T_ERROR, t, z)
              else bindO (ez_hash_get kw (z_tok z)) (\<lambda>r.
                let t = t\<lparr>tz_p := tz_p t + length kw\<rparr> in
                case r of
                  None \<Rightarrow> Ret (T_FUNC_FUNCTION, t, z)
                | Some tk \<Rightarrow>
                    if tk = T_FUNC_CUSTOM then Ret (tk, t\<lparr>tz_kw := kw\<rparr>, z)
                    else if tk \<noteq> T_FUNC_FUNCTION then Ret (tk, t, z)
                    else if load then bindO (load_function t z) (\<lambda>(t, z).
                      Ret (if tz_err t then T_LOAD_FUNCTION_ERROR else tk, t, z))
                    else bindO (body_scan 0 0 None (rest t)) (\<lambda>(_, _, s1).
                      case k of 0 \<Rightarrow> Blocked | Suc k \<Rightarrow> next_token_ex k load (move_to s1 t) z)))))"

declare next_token_ex.simps [simp del]

text \<open>Every recursive call is behind the word \<open>function\<close>, so as many as the text has bytes are enough.\<close>

definition ez_tokenizer_get_next_token :: "tokenizer \<Rightarrow> ez_tables \<Rightarrow> (ez_token \<times> tokenizer \<times> ez_tables) outcome" where
  "ez_tokenizer_get_next_token t z = next_token_ex (length (tz_line t)) False t z"

section \<open>Start and end\<close>

definition tokenizer_at :: "bytes \<Rightarrow> tokenizer" where
  "tokenizer_at line = \<lparr>tz_line = line, tz_p = 0, tz_num = Num 0, tz_str = None, tz_size = 0, tz_kw = [], tz_regs = [], tz_err = False\<rparr>"

text \<open>All tokens are read once to load the functions; an error of a register ends that silently, one of a function keeps it.\<close>

fun load_tokens :: "nat \<Rightarrow> tokenizer \<Rightarrow> ez_tables \<Rightarrow> (ez_token \<times> tokenizer \<times> ez_tables) outcome" where
  "load_tokens k t z =
     bindO (next_token_ex (length (tz_line t)) True t z) (\<lambda>(tk, t, z).
       if tk = T_EOF \<or> tk = T_ERROR \<or> tk = T_LOAD_FUNCTION_ERROR then Ret (tk, t, z)
       else case k of 0 \<Rightarrow> Blocked | Suc k \<Rightarrow> load_tokens k t z)"

declare load_tokens.simps [simp del]

definition ez_tokenizer_init :: "bytes \<Rightarrow> ez_tables \<Rightarrow> (tokenizer \<times> ez_tables) outcome" where
  "ez_tokenizer_init line z =
     bindO (load_tokens (length line) (tokenizer_at line) z) (\<lambda>(tk, t, z).
       Ret (if tk = T_LOAD_FUNCTION_ERROR then t else tokenizer_at line, z))"

text \<open>\<open>ez_tokenizer_return\<close>: to the last byte; the length is kept in 16 bits.\<close>

definition ez_tokenizer_return :: "tokenizer \<Rightarrow> tokenizer outcome" where
  "ez_tokenizer_return t =
     (let size = length (tz_line t) mod 2 ^ 16 in if size = 0 then Fault else Ret (t\<lparr>tz_p := size - 1\<rparr>))"

end
