(* ===== verification/Ez_Exp.thy ===== *)
theory Ez_Exp
  imports Ez_Tokenizer
begin

text \<open>
  The expression language of the gateway, second part: the parser that evaluates while it reads,
  \<open>external/expression/ez_expparser.c\<close>, \<open>_expressions.c\<close>, \<open>ez_function1.c\<close>.  Every routine is a function of the state
  \<open>struct ez_exp\<close> and is written over the routine \<open>_expression\<close> it calls; \<open>ez_expression k\<close> ties the knot with fuel
  \<open>k\<close>, and a call that needs more is \<open>Blocked\<close>.  The fuel also bounds the loops.  Numbers are
  doubles, \<open>unsigned long\<close> has 32 bits.  Arguments of the model are the functions of the mathematical library, the clock and random
  numbers (by the token and the number of calls so far), and the values of the variables.  What is
  printed and the text of an error message are left out.
\<close>

section \<open>State\<close>

text \<open>
  The value of a register: nothing yet, a number, a string, or the pointer to a string that was given back.  To read a
  pointer as a number, or what was given back, is a \<open>Fault\<close>.
\<close>

datatype ez_val = Zero | NumV fp | StrV bytes | Freed

record ez_env =
  v_math :: "ez_token \<Rightarrow> fp \<Rightarrow> fp"
  v_fun0 :: "ez_token \<Rightarrow> nat \<Rightarrow> fp"
  v_var :: "bytes \<Rightarrow> fp"

record ez_exp =
  x_last :: ez_token
  x_sym :: ez_token
  x_check :: bool
  x_return :: bool
  x_error :: bool
  x_brk :: bool
  x_cont :: bool
  x_tz :: tokenizer
  x_tabs :: ez_tables
  x_param :: "bytes option"
  x_retval :: fp
  x_num :: fp
  x_R :: "ez_val list"
  x_calls :: nat

abbreviation EZ_SKIP :: "ez_exp \<Rightarrow> bool" where "EZ_SKIP e \<equiv> x_brk e \<or> x_cont e"
abbreviation EZ_RETURN :: "ez_exp \<Rightarrow> bool" where "EZ_RETURN e \<equiv> x_return e \<or> x_error e"

type_synonym ez_routine = "ez_exp \<Rightarrow> (fp \<times> ez_exp) outcome"

definition ez_error :: "ez_exp \<Rightarrow> ez_exp" where
  "ez_error e = (if x_return e then e else e\<lparr>x_error := True\<rparr>)"

definition get_sym :: "ez_exp \<Rightarrow> ez_exp outcome" where
  "get_sym e =
     bindO (ez_tokenizer_get_next_token (x_tz e) (x_tabs e)) (\<lambda>(tk, t, z).
       let e = e\<lparr>x_last := x_sym e, x_sym := tk, x_tz := t, x_tabs := z\<rparr> in Ret (if tk = T_ERROR then ez_error e else e))"

definition ez_accept :: "ez_token \<Rightarrow> ez_exp \<Rightarrow> (bool \<times> ez_exp) outcome" where
  "ez_accept tk e = (if x_sym e = tk then bindO (get_sym e) (\<lambda>e. Ret (True, e)) else Ret (False, e))"

definition ez_expect :: "ez_token \<Rightarrow> ez_exp \<Rightarrow> ez_exp outcome" where
  "ez_expect tk e = bindO (ez_accept tk e) (\<lambda>(ok, e). Ret (if ok then e else ez_error e))"

text \<open>A string between two positions of the text\<close>

definition actual_string :: "ez_exp \<Rightarrow> bytes option" where
  "actual_string e =
     (case tz_str (x_tz e) of None \<Rightarrow> None
      | Some p \<Rightarrow> if tz_size (x_tz e) = 0 then None else Some (take (tz_size (x_tz e)) (drop p (tz_line (x_tz e)))))"

definition reg_number :: "nat \<Rightarrow> ez_exp \<Rightarrow> fp outcome" where
  "reg_number n e = (case x_R e ! n of Zero \<Rightarrow> Ret (Num 0) | NumV x \<Rightarrow> Ret x | _ \<Rightarrow> Fault)"

definition reg_string :: "nat \<Rightarrow> ez_exp \<Rightarrow> bytes option outcome" where
  "reg_string n e = (case x_R e ! n of Zero \<Rightarrow> Ret None | StrV s \<Rightarrow> Ret (Some s) | _ \<Rightarrow> Fault)"

definition set_reg :: "nat \<Rightarrow> ez_val \<Rightarrow> ez_exp \<Rightarrow> ez_exp" where
  "set_reg n v e = e\<lparr>x_R := (x_R e)[n := v]\<rparr>"

definition reg_type :: "nat \<Rightarrow> ez_exp \<Rightarrow> ez_vtype" where
  "reg_type n e = (if n < length (tz_regs (x_tz e)) then snd (tz_regs (x_tz e) ! n) else VT_UNUSE)"

section \<open>Operators and functions\<close>

definition ul :: "fp \<Rightarrow> int outcome" where
  "ul x = fp_to_int 0 0xFFFFFFFF x"

definition of_bool_fp :: "bool \<Rightarrow> fp" where "of_bool_fp b = Num (if b then 1 else 0)"
definition fp_true :: "fp \<Rightarrow> bool" where "fp_true x \<longleftrightarrow> fp_ne x (Num 0)"

definition ul2 :: "(int \<Rightarrow> int \<Rightarrow> int outcome) \<Rightarrow> fp \<Rightarrow> fp \<Rightarrow> fp outcome" where
  "ul2 f x y = bindO (ul x) (\<lambda>a. bindO (ul y) (\<lambda>b. bindO (f a b) (\<lambda>c. Ret (Num (of_int c)))))"

definition op_shl :: "int \<Rightarrow> int \<Rightarrow> int outcome" where
  "op_shl a b = (if b < 32 then Ret (uint (push_bit (nat b) (word_of_int a :: u32))) else Fault)"
definition op_shr :: "int \<Rightarrow> int \<Rightarrow> int outcome" where
  "op_shr a b = (if b < 32 then Ret (drop_bit (nat b) a) else Fault)"
definition op_mod :: "int \<Rightarrow> int \<Rightarrow> int outcome" where
  "op_mod a b = (if b = 0 then Fault else Ret (a mod b))"

text \<open>The operators between factors, all of one precedence\<close>

definition term_op :: "ez_token \<Rightarrow> fp \<Rightarrow> fp \<Rightarrow> fp outcome" where
  "term_op t x y =
     (if t = T_OP_SHIFT_LEFT then ul2 op_shl x y
      else if t = T_OP_SHIFT_RIGHT then ul2 op_shr x y
      else if t = T_OP_MOD then ul2 op_mod x y
      else if t = T_OP_AND then ul2 (\<lambda>a b. Ret (a AND b)) x y
      else if t = T_OP_XOR then ul2 (\<lambda>a b. Ret (a XOR b)) x y
      else if t = T_OP_OR then ul2 (\<lambda>a b. Ret (a OR b)) x y
      else if t = T_OP_NOT_LESS then Ret (of_bool_fp (fp_less y x \<or> fp_eq x y))
      else if t = T_OP_NOT_GREATER then Ret (of_bool_fp (fp_less x y \<or> fp_eq x y))
      else if t = T_OP_SAME then Ret (of_bool_fp (fp_eq x y))
      else if t = T_OP_NOT_SAME then Ret (of_bool_fp (\<not> fp_eq x y))
      else if t = T_OP_ANDAND then Ret (of_bool_fp (fp_true x \<and> fp_true y))
      else if t = T_OP_OROR then Ret (of_bool_fp (fp_true x \<or> fp_true y))
      else if t = T_OP_MULTIPLY then Ret (fp_mul 53 11 x y)
      else if t = T_OP_DIVIDE then Ret (fp_div 53 11 x y)
      else if t = T_OP_GREATER then Ret (of_bool_fp (fp_less y x))
      else Ret (of_bool_fp (fp_less x y)))"

text \<open>Assignments: the new value of the register and the value of the assignment, that of the register before unless it is \<open>=\<close>\<close>

definition set_op :: "ez_token \<Rightarrow> fp \<Rightarrow> fp \<Rightarrow> fp outcome" where
  "set_op t x y =
     (if t = T_SET_SHIFT_LEFT_NUM then ul2 op_shl x y
      else if t = T_SET_SHIFT_RIGHT_NUM then ul2 op_shr x y
      else if t = T_SET_MOD_NUM then ul2 op_mod x y
      else if t = T_SET_OR_NUM then ul2 (\<lambda>a b. Ret (a OR b)) x y
      else if t = T_SET_AND_NUM then ul2 (\<lambda>a b. Ret (a AND b)) x y
      else if t = T_SET_XOR_NUM then ul2 (\<lambda>a b. Ret (a XOR b)) x y
      else if t = T_SET_PLUS_NUM then Ret (fp_add 53 11 x y)
      else if t = T_SET_MINUS_NUM then Ret (fp_sub 53 11 x y)
      else if t = T_SET_MULTIPLY_NUM then Ret (fp_mul 53 11 x y)
      else if t = T_SET_DIVIDE_NUM then Ret (fp_div 53 11 x y)
      else Ret y)"

text \<open>\<open>ez_function0.c\<close>, \<open>ez_function1.c\<close>, \<open>ez_function2.c\<close>\<close>

definition is_function0_token :: "ez_token \<Rightarrow> bool" where
  "is_function0_token t \<longleftrightarrow> t = T_FUNC_RAND \<or> (T_FUNC_REBOOT \<le> t \<and> t \<le> T_FUNC_SECOND)"

definition is_function1_token :: "ez_token \<Rightarrow> bool" where
  "is_function1_token t \<longleftrightarrow> (T_FUNC_FLOOR \<le> t \<and> t \<le> T_FUNC_BCD2N) \<or> t = T_FUNC_DI_GET \<or> t = T_FUNC_DO_GET"

definition is_function2_token :: "ez_token \<Rightarrow> bool" where "is_function2_token t \<longleftrightarrow> t = T_FUNC_DO_SET"
definition is_functionstring_token :: "ez_token \<Rightarrow> bool" where "is_functionstring_token t \<longleftrightarrow> t = T_FUNC_VAR"

text \<open>Eight digits of four bits, the highest first\<close>

definition bcd_2_dec :: "u32 \<Rightarrow> u32" where
  "bcd_2_dec w = snd (((\<lambda>(b, d). (push_bit 4 b, d * 10 + (drop_bit 28 b AND 0x0F))) ^^ 8) (w, 0))"

definition function1 :: "ez_env \<Rightarrow> ez_token \<Rightarrow> fp \<Rightarrow> fp outcome" where
  "function1 env t x =
     (if t = T_FUNC_FLOOR then Ret (case x of Num r \<Rightarrow> Num (of_int \<lfloor>r\<rfloor>) | _ \<Rightarrow> x)
      else if t = T_FUNC_CEIL then Ret (case x of Num r \<Rightarrow> if - 1 < r \<and> r < 0 then NZero else Num (of_int \<lceil>r\<rceil>) | _ \<Rightarrow> x)
      else if t = T_FUNC_ABS then Ret (if fp_less x (Num 0) then fp_neg x else x)
      else if t = T_FUNC_INT then bindO (fp_to_int (- (2 ^ 63)) (2 ^ 63 - 1) x) (\<lambda>i. Ret (fp_round 53 11 (of_int i)))
      else if t = T_FUNC_UINT then bindO (fp_to_int 0 (2 ^ 64 - 1) x) (\<lambda>i. Ret (fp_round 53 11 (of_int i)))
      else if t = T_FUNC_SGN then Ret (if fp_less x (Num 0) then Num (- 1) else if fp_less (Num 0) x then Num 1 else Num 0)
      else if t = T_FUNC_BCD2N then bindO (ul x) (\<lambda>i. Ret (Num (of_int (uint (bcd_2_dec (word_of_int i))))))
      else if t = T_FUNC_DI_GET \<or> t = T_FUNC_DO_GET then Ret (Num (- 1))
      else Ret (v_math env t x))"

text \<open>\<open>_getvar\<close>: 0 without a name\<close>

definition getvar :: "ez_env \<Rightarrow> bytes option \<Rightarrow> fp" where
  "getvar env name = (case name of None \<Rightarrow> Num 0 | Some n \<Rightarrow> if n = [] then Num 0 else v_var env n)"

section \<open>Skipping\<close>

text \<open>To the closing token that was not opened since; the end of the text or an error ends the search.\<close>

fun skip_until :: "nat \<Rightarrow> ez_token \<Rightarrow> ez_token \<Rightarrow> nat \<Rightarrow> nat \<Rightarrow> ez_exp \<Rightarrow> ez_exp outcome" where
  "skip_until k lt rt l r e =
     (if l = r then Ret e
      else bindO (get_sym e) (\<lambda>e.
        let l = (if x_sym e = lt then Suc l else l); r = (if x_sym e = rt then Suc r else r)
        in if x_sym e = T_ERROR \<or> x_sym e = T_EOF then Ret e
           else case k of 0 \<Rightarrow> Blocked | Suc k \<Rightarrow> skip_until k lt rt l r e))"

declare skip_until.simps [simp del]

definition skip_until_right_banana :: "nat \<Rightarrow> ez_exp \<Rightarrow> ez_exp outcome" where
  "skip_until_right_banana k e =
     skip_until k T_LEFT_BANANA T_RIGHT_BANANA (if x_sym e = T_LEFT_BANANA then 2 else 1) 0 e"

definition skip_until_right_braces :: "nat \<Rightarrow> ez_exp \<Rightarrow> ez_exp outcome" where
  "skip_until_right_braces k e =
     skip_until k T_LEFT_BRACES T_RIGHT_BRACES (if x_sym e = T_LEFT_BRACES then 2 else 1) 0 e"

text \<open>A block in braces or a condition in brackets, skipped or evaluated\<close>

definition skip_block :: "nat \<Rightarrow> ez_exp \<Rightarrow> ez_exp outcome" where
  "skip_block k e =
     bindO (ez_expect T_LEFT_BRACES e) (\<lambda>e. bindO (skip_until_right_braces k e) (\<lambda>e. ez_expect T_RIGHT_BRACES e))"

definition skip_brackets :: "nat \<Rightarrow> ez_exp \<Rightarrow> ez_exp outcome" where
  "skip_brackets k e =
     bindO (ez_expect T_LEFT_BANANA e) (\<lambda>e. bindO (skip_until_right_banana k e) (\<lambda>e. ez_expect T_RIGHT_BANANA e))"

definition eval_block :: "ez_routine \<Rightarrow> ez_routine" where
  "eval_block comma e =
     bindO (ez_expect T_LEFT_BRACES e) (\<lambda>e. bindO (comma e) (\<lambda>(f, e). bindO (ez_expect T_RIGHT_BRACES e) (\<lambda>e. Ret (f, e))))"

definition eval_brackets :: "ez_routine \<Rightarrow> ez_routine" where
  "eval_brackets expr e =
     bindO (ez_expect T_LEFT_BANANA e) (\<lambda>e. bindO (expr e) (\<lambda>(f, e). bindO (ez_expect T_RIGHT_BANANA e) (\<lambda>e. Ret (f, e))))"

definition ez_store :: "ez_routine \<Rightarrow> ez_exp \<Rightarrow> ez_exp outcome" where
  "ez_store m e = bindO (m e) (\<lambda>(f, e). Ret (e\<lparr>x_num := f\<rparr>))"

text \<open>\<open>while (e->sym == T_DOT) { accept; m }\<close>\<close>

fun dot_loop :: "nat \<Rightarrow> ('a \<Rightarrow> ez_exp \<Rightarrow> ('a \<times> ez_exp) outcome) \<Rightarrow> 'a \<Rightarrow> ez_exp \<Rightarrow> ('a \<times> ez_exp) outcome" where
  "dot_loop k m a e =
     (if x_sym e = T_DOT
      then bindO (get_sym e) (\<lambda>e. bindO (m a e) (\<lambda>(a, e). case k of 0 \<Rightarrow> Blocked | Suc k \<Rightarrow> dot_loop k m a e))
      else Ret (a, e))"

declare dot_loop.simps [simp del]

section \<open>Assignments\<close>

definition expression_set_number :: "nat \<Rightarrow> ez_routine \<Rightarrow> ez_routine" where
  "expression_set_number n expr e =
     (let t = x_sym e in
      bindO (reg_number n e) (\<lambda>f1. bindO (get_sym e) (\<lambda>e.
      bindO (if t = T_SET_DPLUS then Ret (fp_add 53 11 f1 (Num 1), e)
             else if t = T_SET_DMINUS then Ret (fp_sub 53 11 f1 (Num 1), e)
             else bindO (expr e) (\<lambda>(f2, e). bindO (set_op t f1 f2) (\<lambda>f. Ret (f, e)))) (\<lambda>(f, e).
        Ret (if t = T_SET_EQUAL then f else f1, if EZ_SKIP e then e else set_reg n (NumV f) e)))))"

text \<open>The old string is given back in any case, the new one is stored unless statements are skipped.\<close>

definition free_reg :: "nat \<Rightarrow> ez_exp \<Rightarrow> ez_exp outcome" where
  "free_reg n e = (case x_R e ! n of Zero \<Rightarrow> Ret e | StrV s \<Rightarrow> Ret (set_reg n Freed e) | _ \<Rightarrow> Fault)"

definition str_val :: "bytes option \<Rightarrow> ez_val" where
  "str_val s = (case s of None \<Rightarrow> Zero | Some s \<Rightarrow> StrV s)"

definition expression_set_string :: "nat \<Rightarrow> ez_exp \<Rightarrow> ez_exp outcome" where
  "expression_set_string n e =
     bindO (free_reg n e) (\<lambda>e. bindO (ez_expect T_SET_EQUAL e) (\<lambda>e.
       ez_expect T_STRING (if x_sym e = T_STRING \<and> \<not> EZ_SKIP e then set_reg n (str_val (actual_string e)) e else e)))"

section \<open>Conditions\<close>

definition expression_check_ternary :: "ez_routine \<Rightarrow> ez_routine \<Rightarrow> ez_exp \<Rightarrow> ez_exp outcome" where
  "expression_check_ternary expr comma e =
     bindO (expr e) (\<lambda>(f, e). bindO (ez_expect T_DOT e) (\<lambda>e. bindO (eval_block comma e) (\<lambda>(f, e).
     bindO (ez_expect T_DOT e) (\<lambda>e. bindO (eval_block comma e) (\<lambda>(f, e). Ret e)))))"

definition expression_ternary :: "nat \<Rightarrow> ez_routine \<Rightarrow> ez_routine \<Rightarrow> ez_routine" where
  "expression_ternary k expr comma e =
     bindO (expr e) (\<lambda>(f1, e). bindO (ez_expect T_DOT e) (\<lambda>e.
       if x_check e then bindO (expression_check_ternary expr comma e) (\<lambda>e. Ret (f1, e))
       else if EZ_SKIP e \<or> EZ_RETURN e then bindO (skip_until_right_banana k e) (\<lambda>e. Ret (f1, e))
       else if fp_true f1
       then bindO (eval_block comma e) (\<lambda>(f, e). bindO (skip_until_right_banana k e) (\<lambda>e. Ret (f, e)))
       else bindO (skip_block k e) (\<lambda>e. bindO (ez_expect T_DOT e) (eval_block comma))))"

fun if_skip_else_remain :: "nat \<Rightarrow> ez_exp \<Rightarrow> ez_exp outcome" where
  "if_skip_else_remain k e =
     (if x_sym e \<noteq> T_IF_FUNC_ELSE then Ret e
      else bindO (get_sym e) (\<lambda>e.
        if x_sym e = T_IF_FUNC_IF
        then bindO (get_sym e) (\<lambda>e. bindO (skip_brackets k e) (\<lambda>e. bindO (skip_block k e) (\<lambda>e.
               case k of 0 \<Rightarrow> Blocked | Suc k \<Rightarrow> if_skip_else_remain k e)))
        else skip_block k e))"

declare if_skip_else_remain.simps [simp del]

definition if_skip_all :: "nat \<Rightarrow> ez_routine" where
  "if_skip_all k e =
     bindO (skip_brackets k e) (\<lambda>e. bindO (skip_block k e) (\<lambda>e. bindO (if_skip_else_remain k e) (\<lambda>e. Ret (Num 0, e))))"

fun if_check_else :: "nat \<Rightarrow> ez_routine \<Rightarrow> ez_routine \<Rightarrow> ez_exp \<Rightarrow> ez_exp outcome" where
  "if_check_else k expr comma e =
     (if x_sym e \<noteq> T_IF_FUNC_ELSE then Ret e
      else bindO (get_sym e) (\<lambda>e.
        if x_sym e = T_IF_FUNC_IF
        then bindO (get_sym e) (\<lambda>e. bindO (eval_brackets expr e) (\<lambda>(c, e). bindO (eval_block comma e) (\<lambda>(f, e).
               case k of 0 \<Rightarrow> Blocked | Suc k \<Rightarrow> if_check_else k expr comma e)))
        else bindO (eval_block comma e) (\<lambda>(f, e). Ret e)))"

declare if_check_else.simps [simp del]

definition if_check :: "nat \<Rightarrow> ez_routine \<Rightarrow> ez_routine \<Rightarrow> ez_routine" where
  "if_check k expr comma e =
     bindO (eval_brackets expr e) (\<lambda>(c, e). bindO (eval_block comma e) (\<lambda>(f, e).
       bindO (if_check_else k expr comma e) (\<lambda>e. Ret (Num 0, e))))"

fun if_do_else :: "nat \<Rightarrow> ez_routine \<Rightarrow> ez_routine \<Rightarrow> ez_routine" where
  "if_do_else k expr comma e =
     (if x_sym e \<noteq> T_IF_FUNC_ELSE then Ret (Num 0, e)
      else bindO (get_sym e) (\<lambda>e.
        if x_sym e = T_IF_FUNC_IF
        then bindO (get_sym e) (\<lambda>e. bindO (eval_brackets expr e) (\<lambda>(c, e).
               if fp_true c
               then bindO (eval_block comma e) (\<lambda>(f, e). bindO (if_skip_else_remain k e) (\<lambda>e. Ret (f, e)))
               else bindO (skip_block k e) (\<lambda>e. case k of 0 \<Rightarrow> Blocked | Suc k \<Rightarrow> if_do_else k expr comma e)))
        else eval_block comma e))"

declare if_do_else.simps [simp del]

definition if_do :: "nat \<Rightarrow> ez_routine \<Rightarrow> ez_routine \<Rightarrow> ez_routine" where
  "if_do k expr comma e =
     bindO (eval_brackets expr e) (\<lambda>(c, e).
       if fp_true c
       then bindO (eval_block comma e) (\<lambda>(f, e). bindO (if_skip_else_remain k e) (\<lambda>e. Ret (f, e)))
       else bindO (skip_block k e) (if_do_else k expr comma))"

definition expression_if :: "nat \<Rightarrow> ez_routine \<Rightarrow> ez_routine \<Rightarrow> ez_routine" where
  "expression_if k expr comma e =
     (if x_check e then if_check k expr comma e
      else if EZ_SKIP e \<or> EZ_RETURN e then if_skip_all k e
      else if_do k expr comma e)"

section \<open>Loops\<close>

text \<open>The tokenizer goes back to a place it remembered, one byte before where it was.\<close>

definition back_to :: "nat \<Rightarrow> ez_exp \<Rightarrow> ez_exp outcome" where
  "back_to p e = get_sym (e\<lparr>x_tz := x_tz e\<lparr>tz_p := p\<rparr>\<rparr>)"

definition here :: "ez_exp \<Rightarrow> nat" where
  "here e = tz_p (x_tz e) - 1"

definition for_exprs :: "nat \<Rightarrow> ez_routine \<Rightarrow> ez_exp \<Rightarrow> ez_exp outcome" where
  "for_exprs k expr e = bindO (expr e) (\<lambda>(f, e). bindO (dot_loop k (\<lambda>_. expr) f e) (\<lambda>(f, e). Ret e))"

definition for_get_cond :: "ez_routine \<Rightarrow> nat \<Rightarrow> ez_exp \<Rightarrow> (bool \<times> ez_exp) outcome" where
  "for_get_cond expr p e =
     bindO (back_to p e) (\<lambda>e. bindO (ez_expect T_SEMICOLON e) (\<lambda>e.
       if x_sym e \<noteq> T_SEMICOLON then bindO (expr e) (\<lambda>(f, e). Ret (fp_true f \<and> \<not> EZ_SKIP e, e))
       else Ret (\<not> EZ_SKIP e, e)))"

definition for_do_op :: "nat \<Rightarrow> ez_routine \<Rightarrow> nat \<Rightarrow> ez_exp \<Rightarrow> ez_exp outcome" where
  "for_do_op k expr p e =
     bindO (back_to p e) (\<lambda>e. bindO (ez_expect T_SEMICOLON e) (\<lambda>e.
       if x_sym e \<noteq> T_RIGHT_BANANA then for_exprs k expr e else Ret e))"

definition for_do_comma :: "ez_routine \<Rightarrow> nat \<Rightarrow> ez_exp \<Rightarrow> ez_exp outcome" where
  "for_do_comma comma p e =
     bindO (back_to p e) (\<lambda>e. bindO (ez_expect T_LEFT_BRACES e) (\<lambda>e. bindO (comma e) (\<lambda>(f, e). Ret e)))"

definition for_skip_comma :: "nat \<Rightarrow> nat \<Rightarrow> ez_exp \<Rightarrow> ez_exp outcome" where
  "for_skip_comma k p e = bindO (back_to p e) (skip_block k)"

definition for_init :: "nat \<Rightarrow> ez_routine \<Rightarrow> ez_exp \<Rightarrow> ez_exp outcome" where
  "for_init k expr e =
     bindO (ez_expect T_LEFT_BANANA e) (\<lambda>e. if x_sym e \<noteq> T_SEMICOLON then for_exprs k expr e else Ret e)"

definition expression_for_check :: "nat \<Rightarrow> ez_routine \<Rightarrow> ez_routine \<Rightarrow> ez_exp \<Rightarrow> ez_exp outcome" where
  "expression_for_check k expr comma e =
     bindO (for_init k expr e) (\<lambda>e. let p_cond = here e in
     bindO (ez_expect T_SEMICOLON e) (\<lambda>e. bindO (for_get_cond expr p_cond e) (\<lambda>(c, e). let p_op = here e in
     bindO (ez_expect T_SEMICOLON e) (\<lambda>e. bindO (for_do_op k expr p_op e) (\<lambda>e.
     bindO (ez_expect T_RIGHT_BANANA e) (\<lambda>e. let p_comma = here e in
     bindO (ez_expect T_LEFT_BRACES e) (\<lambda>e. bindO (for_do_comma comma p_comma e) (ez_expect T_RIGHT_BRACES))))))))"

definition expression_skip_for_all :: "nat \<Rightarrow> ez_exp \<Rightarrow> ez_exp outcome" where
  "expression_skip_for_all k e = bindO (skip_brackets k e) (skip_block k)"

fun for_loop :: "nat \<Rightarrow> ez_routine \<Rightarrow> ez_routine \<Rightarrow> nat \<Rightarrow> nat \<Rightarrow> nat \<Rightarrow> bool \<Rightarrow> ez_exp \<Rightarrow> ez_exp outcome" where
  "for_loop k expr comma p_cond p_op p_comma cond e =
     (if x_brk e \<or> x_return e \<or> x_error e \<or> \<not> cond then Ret e
      else bindO (for_get_cond expr p_cond e) (\<lambda>(cond, e).
        bindO (if cond
               then bindO (for_do_comma comma p_comma e) (\<lambda>e. let e = e\<lparr>x_cont := False\<rparr> in
                      if x_brk e then Ret e else for_do_op k expr p_op e)
               else Ret e)
          (\<lambda>e. case k of 0 \<Rightarrow> Blocked | Suc k \<Rightarrow> for_loop k expr comma p_cond p_op p_comma cond e)))"

declare for_loop.simps [simp del]

definition expression_for_do :: "nat \<Rightarrow> ez_routine \<Rightarrow> ez_routine \<Rightarrow> ez_exp \<Rightarrow> ez_exp outcome" where
  "expression_for_do k expr comma e =
     bindO (for_init k expr e) (\<lambda>e. let p_cond = here e in
     bindO (ez_expect T_SEMICOLON e) (\<lambda>e. bindO (for_get_cond expr p_cond e) (\<lambda>(cond, e). let p_op = here e in
     bindO (ez_expect T_SEMICOLON e) (\<lambda>e. bindO (skip_until_right_banana k e) (\<lambda>e.
     bindO (ez_expect T_RIGHT_BANANA e) (\<lambda>e. let p_comma = here e in
     bindO (ez_expect T_LEFT_BRACES e) (\<lambda>e.
     bindO (if cond then for_do_comma comma p_comma e else skip_until_right_braces k e) (\<lambda>e.
     bindO (ez_expect T_RIGHT_BRACES e) (\<lambda>e.
     bindO (if \<not> x_brk e \<and> \<not> x_return e \<and> \<not> x_error e \<and> cond
            then bindO (for_do_op k expr p_op e) (for_loop k expr comma p_cond p_op p_comma cond)
            else Ret e) (for_skip_comma k p_comma))))))))))"

text \<open>A loop has flags of its own, one that is skipped uses none.\<close>

definition own_flags :: "(ez_exp \<Rightarrow> ez_exp outcome) \<Rightarrow> ez_exp \<Rightarrow> ez_exp outcome" where
  "own_flags m e = bindO (m (e\<lparr>x_brk := False, x_cont := False\<rparr>)) (\<lambda>e'. Ret (e'\<lparr>x_brk := x_brk e, x_cont := x_cont e\<rparr>))"

definition expression_for :: "nat \<Rightarrow> ez_routine \<Rightarrow> ez_routine \<Rightarrow> ez_exp \<Rightarrow> ez_exp outcome" where
  "expression_for k expr comma e =
     (if x_check e then own_flags (expression_for_check k expr comma) e
      else if EZ_SKIP e \<or> EZ_RETURN e then expression_skip_for_all k e
      else own_flags (expression_for_do k expr comma) e)"

section \<open>Sequences and lists of arguments\<close>

fun comma_loop :: "nat \<Rightarrow> ez_routine \<Rightarrow> fp \<Rightarrow> ez_routine" where
  "comma_loop k expr f e =
     (if x_sym e = T_SEMICOLON \<or> x_last e = T_RIGHT_BRACES
      then bindO (if x_sym e = T_SEMICOLON then get_sym e else Ret e) (\<lambda>e.
        if x_sym e = T_SEMICOLON then (case k of 0 \<Rightarrow> Blocked | Suc k \<Rightarrow> comma_loop k expr f e)
        else if x_sym e = T_RIGHT_BRACES \<or> x_sym e = T_EOF then Ret (f, e)
        else bindO (expr e) (\<lambda>(f, e). case k of 0 \<Rightarrow> Blocked | Suc k \<Rightarrow> comma_loop k expr f e))
      else Ret (f, e))"

declare comma_loop.simps [simp del]

definition expression_comma :: "nat \<Rightarrow> ez_routine \<Rightarrow> ez_routine" where
  "expression_comma k expr e = bindO (expr e) (\<lambda>(f, e). comma_loop k expr f e)"

definition expression_max :: "nat \<Rightarrow> ez_routine \<Rightarrow> ez_routine" where
  "expression_max k expr e =
     bindO (expr e) (\<lambda>(f, e). dot_loop k (\<lambda>m e. bindO (expr e) (\<lambda>(f, e). Ret (if fp_less m f then f else m, e))) f e)"

definition expression_min :: "nat \<Rightarrow> ez_routine \<Rightarrow> ez_routine" where
  "expression_min k expr e =
     bindO (expr e) (\<lambda>(f, e). dot_loop k (\<lambda>m e. bindO (expr e) (\<lambda>(f, e). Ret (if fp_less f m then f else m, e))) f e)"

definition expression_print_value :: "ez_routine \<Rightarrow> ez_exp \<Rightarrow> ez_exp outcome" where
  "expression_print_value expr e =
     (if x_sym e = T_STRING then get_sym e
      else let sym = x_sym e in
        bindO (expr e) (\<lambda>(f, e).
          if is_reg_token sym \<and> reg_type (sym - T_REG_FIRST) e = VT_STRING
          then bindO (reg_string (sym - T_REG_FIRST) e) (\<lambda>_. Ret e) else Ret e))"

definition expression_print :: "nat \<Rightarrow> ez_routine \<Rightarrow> ez_routine" where
  "expression_print k expr e =
     bindO (expression_print_value expr e) (\<lambda>e.
       bindO (dot_loop k (\<lambda>n e. bindO (expression_print_value expr e) (\<lambda>e. Ret (Suc n, e))) 1 e) (\<lambda>(n, e).
         Ret (Num (of_nat n), e)))"

section \<open>Functions of the user\<close>

definition ez_exp_zero :: ez_exp where
  "ez_exp_zero = \<lparr>x_last = 0, x_sym = 0, x_check = False, x_return = False, x_error = False, x_brk = False, x_cont = False,
     x_tz = tokenizer_at [], x_tabs = ez_tables_init, x_param = None, x_retval = Num 0, x_num = Num 0,
     x_R = replicate EZ_EXP_REG_COUNT Zero, x_calls = 0\<rparr>"

text \<open>
  The arguments of a call, evaluated by the caller, as the registers of the called expression.  A parameter for which
  there is no argument gets a name, but no type.
\<close>

fun custom_args ::
  "ez_routine \<Rightarrow> (bytes \<times> ez_vtype) list \<Rightarrow> bool \<Rightarrow> ez_exp \<Rightarrow> (((bytes \<times> ez_vtype) \<times> ez_val) list \<times> ez_exp) outcome" where
  "custom_args expr [] first e = Ret ([], e)"
| "custom_args expr ((name, ty) # rs) first e =
     (if first \<or> x_sym e = T_DOT
      then bindO (if first then Ret e else get_sym e) (\<lambda>e.
        bindO (if ty = VT_NUMBER then bindO (expr e) (\<lambda>(f, e). Ret (NumV f, e))
               else let v = str_val (actual_string e) in bindO (get_sym e) (\<lambda>e. Ret (v, e)))
          (\<lambda>(v, e). bindO (custom_args expr rs False e) (\<lambda>(as, e). Ret (((name, ty), v) # as, e))))
      else bindO (custom_args expr rs False e) (\<lambda>(as, e). Ret (((name, VT_UNUSE), Zero) # as, e)))"

text \<open>What \<open>ez_exp_release\<close> does with the strings among the arguments\<close>

definition release_ok :: "(bytes \<times> ez_vtype) list \<Rightarrow> ez_exp \<Rightarrow> bool" where
  "release_ok args e \<longleftrightarrow>
     list_all (\<lambda>i. snd (args ! i) = VT_STRING \<longrightarrow> (case x_R e ! i of Zero \<Rightarrow> True | StrV _ \<Rightarrow> True | _ \<Rightarrow> False)) [0 ..< length args]"

definition run_custom :: "ez_routine \<Rightarrow> ez_exp \<Rightarrow> (bytes \<times> ez_vtype) list \<Rightarrow> ez_routine" where
  "run_custom comma e args main =
     bindO (get_sym e) (\<lambda>e. bindO (comma e) (\<lambda>(f, e).
     bindO (if x_return e then Ret (x_retval e, e) else bindO (ez_expect T_EOF e) (\<lambda>e. Ret (f, e))) (\<lambda>(f, e).
       if release_ok args e then Ret (f, main\<lparr>x_tabs := x_tabs e, x_calls := x_calls e\<rparr>) else Fault)))"

definition expression_custom :: "nat \<Rightarrow> ez_routine \<Rightarrow> ez_routine \<Rightarrow> ez_custom option \<Rightarrow> ez_routine" where
  "expression_custom k expr comma cu main =
     (case cu of
        None \<Rightarrow> Ret (Num 0, main)
      | Some cu \<Rightarrow>
          (case cu_code cu of
             None \<Rightarrow> Fault
           | Some code \<Rightarrow>
               bindO (ez_tokenizer_init code (x_tabs main)) (\<lambda>(t, z). let main = main\<lparr>x_tabs := z\<rparr> in
               bindO (if x_sym main = T_RIGHT_BANANA \<or> cu_regs cu = [] then Ret ([], main)
                      else bindO (custom_args expr (cu_regs cu) True main) (\<lambda>(as, main).
                        bindO (dot_loop k (\<lambda>_. expr) (Num 0) main) (\<lambda>(_, main). Ret (as, main)))) (\<lambda>(as, main).
                 let e = ez_exp_zero\<lparr>x_tz := t\<lparr>tz_regs := map fst as @ drop (length as) (tz_regs t)\<rparr>, x_tabs := x_tabs main,
                       x_param := x_param main, x_R := map snd as @ drop (length as) (x_R ez_exp_zero), x_calls := x_calls main\<rparr>
                 in run_custom comma e (map fst as) main))))"

section \<open>Factors\<close>

definition skipping :: "ez_exp \<Rightarrow> bool" where
  "skipping e \<longleftrightarrow> \<not> x_check e \<and> (EZ_SKIP e \<or> EZ_RETURN e)"

text \<open>\<open>f(...)\<close>: the name is read already\<close>

definition ez_call :: "nat \<Rightarrow> (ez_exp \<Rightarrow> ez_exp outcome) \<Rightarrow> ez_exp \<Rightarrow> ez_exp outcome" where
  "ez_call k body e =
     bindO (get_sym e) (\<lambda>e. bindO (ez_expect T_LEFT_BANANA e) (\<lambda>e.
     bindO (if skipping e then skip_until_right_banana k e else body e) (ez_expect T_RIGHT_BANANA)))"

definition factor_return :: "ez_routine \<Rightarrow> ez_exp \<Rightarrow> ez_exp outcome" where
  "factor_return expr e =
     bindO (get_sym e) (\<lambda>e. bindO (ez_store expr e) (\<lambda>e.
       if x_check e then Ret (if x_sym e \<noteq> T_SEMICOLON then ez_error e else e)
       else bindO (ez_expect T_SEMICOLON e) (\<lambda>e.
         if EZ_RETURN e then Ret e
         else bindO (ez_tokenizer_return (x_tz e)) (\<lambda>t.
           Ret (e\<lparr>x_retval := x_num e, x_return := True, x_sym := T_EOF, x_tz := t\<rparr>)))))"

definition factor_break :: "ez_exp \<Rightarrow> ez_exp outcome" where
  "factor_break e = bindO (get_sym e) (\<lambda>e. bindO (ez_expect T_SEMICOLON e) (\<lambda>e. Ret (e\<lparr>x_brk := True\<rparr>)))"

definition factor_continue :: "ez_exp \<Rightarrow> ez_exp outcome" where
  "factor_continue e = bindO (get_sym e) (\<lambda>e. bindO (ez_expect T_SEMICOLON e) (\<lambda>e. Ret (e\<lparr>x_cont := True\<rparr>)))"

definition factor_incr :: "ez_exp \<Rightarrow> ez_exp outcome" where
  "factor_incr e =
     (let t = x_sym e in bindO (get_sym e) (\<lambda>e.
        if is_reg_token (x_sym e)
        then let n = x_sym e - T_REG_FIRST in
          bindO (if EZ_SKIP e then Ret e
                 else bindO (reg_number n e) (\<lambda>x.
                   let y = (if t = T_SET_DPLUS then fp_add 53 11 x (Num 1) else fp_sub 53 11 x (Num 1))
                   in Ret (set_reg n (NumV y) e\<lparr>x_num := y\<rparr>))) get_sym
        else Ret e))"

definition factor_reg :: "ez_routine \<Rightarrow> ez_exp \<Rightarrow> ez_exp outcome" where
  "factor_reg expr e =
     (let n = x_sym e - T_REG_FIRST; vt = reg_type n e in
      bindO (get_sym e) (\<lambda>e.
        if is_set_token (x_sym e)
        then (case vt of
                VT_NUMBER \<Rightarrow> ez_store (expression_set_number n expr) e
              | VT_STRING \<Rightarrow> bindO (expression_set_string n e) (\<lambda>e. bindO (reg_string n e) (\<lambda>_. Ret e))
              | VT_UNUSE \<Rightarrow> Ret e)
        else (case vt of
                VT_NUMBER \<Rightarrow> bindO (reg_number n e) (\<lambda>x. Ret (e\<lparr>x_num := x\<rparr>))
              | VT_STRING \<Rightarrow> bindO (reg_string n e) (\<lambda>_. Ret e)
              | VT_UNUSE \<Rightarrow> Ret e)))"

definition factor_custom :: "nat \<Rightarrow> ez_routine \<Rightarrow> ez_routine \<Rightarrow> ez_exp \<Rightarrow> ez_exp outcome" where
  "factor_custom k expr comma e =
     bindO (ez_custom_get (tz_kw (x_tz e)) (x_tabs e)) (\<lambda>cu. ez_call k (ez_store (expression_custom k expr comma cu)) e)"

definition factor_bnot :: "ez_exp \<Rightarrow> ez_exp outcome" where
  "factor_bnot e =
     bindO (get_sym e) (\<lambda>e. bindO (ul (tz_num (x_tz e))) (\<lambda>i.
     bindO (ez_accept T_NUMBER (e\<lparr>x_num := Num (of_int (uint (NOT (word_of_int i :: u32))))\<rparr>)) (\<lambda>(_, e). Ret e)))"

definition factor_not :: "ez_routine \<Rightarrow> ez_exp \<Rightarrow> ez_exp outcome" where
  "factor_not expr e =
     bindO (get_sym e) (\<lambda>e. bindO (expr e) (\<lambda>(f, e). bindO (ul f) (\<lambda>i.
     bindO (ez_accept T_NUMBER (e\<lparr>x_num := of_bool_fp (i = 0)\<rparr>)) (\<lambda>(_, e). Ret e))))"

definition factor_function0 :: "ez_env \<Rightarrow> ez_exp \<Rightarrow> ez_exp outcome" where
  "factor_function0 env e =
     (let t = x_sym e in bindO (get_sym e) (\<lambda>e. bindO (ez_expect T_LEFT_BANANA e) (\<lambda>e.
        ez_expect T_RIGHT_BANANA (e\<lparr>x_num := v_fun0 env t (x_calls e), x_calls := Suc (x_calls e)\<rparr>))))"

definition factor_function1 :: "nat \<Rightarrow> ez_env \<Rightarrow> ez_routine \<Rightarrow> ez_exp \<Rightarrow> ez_exp outcome" where
  "factor_function1 k env expr e =
     (let t = x_sym e in
      ez_call k (ez_store (\<lambda>e. bindO (expr e) (\<lambda>(f, e). bindO (function1 env t f) (\<lambda>y. Ret (y, e))))) e)"

definition factor_function2 :: "nat \<Rightarrow> ez_routine \<Rightarrow> ez_exp \<Rightarrow> ez_exp outcome" where
  "factor_function2 k expr e =
     ez_call k (ez_store (\<lambda>e. bindO (expr e) (\<lambda>(_, e). bindO (ez_expect T_DOT e) (\<lambda>e. bindO (expr e) (\<lambda>(_, e).
       Ret (Num (- 1), e)))))) e"

text \<open>The name of a variable in a string register, or the parameter of the expression\<close>

definition reg_name :: "nat \<Rightarrow> ez_exp \<Rightarrow> bytes option outcome" where
  "reg_name n e = bindO (reg_string n e) (\<lambda>s. Ret (if s = None then x_param e else s))"

definition functionstring_body :: "ez_env \<Rightarrow> ez_exp \<Rightarrow> ez_exp outcome" where
  "functionstring_body env e =
     bindO (if is_reg_token (x_sym e)
            then (let n = x_sym e - T_REG_FIRST in
              if reg_type n e = VT_STRING then bindO (reg_name n e) (\<lambda>s. Ret (e\<lparr>x_num := getvar env s\<rparr>))
              else Ret (ez_error e))
            else if x_sym e = T_STRING \<and> actual_string e \<noteq> None then Ret (e\<lparr>x_num := getvar env (actual_string e)\<rparr>)
            else Ret (e\<lparr>x_num := getvar env (x_param e)\<rparr>))
       (\<lambda>e. if x_sym e \<noteq> T_RIGHT_BANANA
            then bindO (ez_tokenizer_get_next_token (x_tz e) (x_tabs e)) (\<lambda>(tk, t, z). Ret (e\<lparr>x_sym := tk, x_tz := t, x_tabs := z\<rparr>))
            else Ret e)"

definition factor_alias :: "ez_env \<Rightarrow> ez_exp \<Rightarrow> ez_exp outcome" where
  "factor_alias env e =
     (let name = actual_string e in bindO (get_sym e) (\<lambda>e.
        if name \<noteq> None then Ret (if is_set_token (x_sym e) then e else e\<lparr>x_num := getvar env name\<rparr>)
        else if is_reg_token (x_sym e)
        then (let n = x_sym e - T_REG_FIRST in
          bindO (if reg_type n e = VT_STRING then bindO (reg_name n e) (\<lambda>s. Ret (e\<lparr>x_num := getvar env s\<rparr>)) else Ret (ez_error e))
            get_sym)
        else Ret (e\<lparr>x_num := getvar env (x_param e)\<rparr>)))"

definition factor_group :: "nat \<Rightarrow> ez_routine \<Rightarrow> ez_exp \<Rightarrow> ez_exp outcome" where
  "factor_group k expr e =
     bindO (get_sym e) (\<lambda>e.
     bindO (if skipping e then skip_until_right_banana k e else ez_store expr e) (ez_expect T_RIGHT_BANANA))"

definition factor_block :: "nat \<Rightarrow> ez_routine \<Rightarrow> ez_exp \<Rightarrow> ez_exp outcome" where
  "factor_block k comma e =
     bindO (get_sym e) (\<lambda>e.
     bindO (if skipping e then skip_until_right_braces k e else ez_store comma e) (ez_expect T_RIGHT_BRACES))"

definition ez_factor :: "nat \<Rightarrow> ez_env \<Rightarrow> ez_routine \<Rightarrow> ez_routine" where
  "ez_factor k env expr e =
     (let comma = expression_comma k expr; s = x_sym e in
      bindO
        (if s = T_RETURN then factor_return expr e
         else if s = T_BREAK then factor_break e
         else if s = T_CONTINUE then factor_continue e
         else if s = T_FUNC_FOR then bindO (get_sym e) (expression_for k expr comma)
         else if s = T_IF_FUNC_IF then bindO (get_sym e) (ez_store (expression_if k expr comma))
         else if s = T_SET_DPLUS \<or> s = T_SET_DMINUS then factor_incr e
         else if is_reg_token s then factor_reg expr e
         else if s = T_FUNC3_IF then ez_call k (ez_store (expression_ternary k expr comma)) e
         else if s = T_FUNC_CUSTOM then factor_custom k expr comma e
         else if s = T_FUNC_FUNCTION then Ret e
         else if s = T_FUNC_MIN then ez_call k (ez_store (expression_min k expr)) e
         else if s = T_FUNC_MAX then ez_call k (ez_store (expression_max k expr)) e
         else if s = T_FUNC_PRINT then ez_call k (ez_store (expression_print k expr)) e
         else if s = T_FUNC_BNOT then factor_bnot e
         else if s = T_FUNC_NOT then factor_not expr e
         else if is_function0_token s then factor_function0 env e
         else if is_function1_token s then factor_function1 k env expr e
         else if is_function2_token s then factor_function2 k expr e
         else if is_functionstring_token s then ez_call k (functionstring_body env) e
         else if s = T_FUNC_VAR_ALIAS then factor_alias env e
         else if s = T_NUMBER then get_sym (e\<lparr>x_num := tz_num (x_tz e)\<rparr>)
         else if s = T_SEMICOLON then get_sym e
         else if s = T_LEFT_BANANA then factor_group k expr e
         else if s = T_LEFT_BRACES then factor_block k comma e
         else if s = T_EOF then Ret e
         else get_sym (ez_error e))
        (\<lambda>e. Ret (x_num e, e)))"

section \<open>Terms and expressions\<close>

fun term_loop :: "nat \<Rightarrow> ez_routine \<Rightarrow> fp \<Rightarrow> ez_routine" where
  "term_loop k factor f1 e =
     (if is_op_token (x_sym e)
      then let t = x_sym e in
        bindO (get_sym e) (\<lambda>e. bindO (factor e) (\<lambda>(f2, e).
        bindO (if \<not> EZ_SKIP e \<and> \<not> EZ_RETURN e then term_op t f1 f2 else Ret f1) (\<lambda>f1.
          if EZ_RETURN e then Ret (f1, e) else (case k of 0 \<Rightarrow> Blocked | Suc k \<Rightarrow> term_loop k factor f1 e))))
      else Ret (f1, e))"

declare term_loop.simps [simp del]

definition ez_term :: "nat \<Rightarrow> ez_routine \<Rightarrow> ez_routine" where
  "ez_term k factor e = bindO (factor e) (\<lambda>(f, e). term_loop k factor f e)"

fun sum_loop :: "nat \<Rightarrow> ez_routine \<Rightarrow> fp \<Rightarrow> ez_routine" where
  "sum_loop k trm f1 e =
     (if x_sym e = T_PLUS \<or> x_sym e = T_MINUS
      then let t = x_sym e in
        bindO (get_sym e) (\<lambda>e. bindO (trm e) (\<lambda>(f2, e).
          let f1 = (if EZ_SKIP e then f1 else if t = T_PLUS then fp_add 53 11 f1 f2 else fp_sub 53 11 f1 f2)
          in if x_return e then Ret (f1, e) else (case k of 0 \<Rightarrow> Blocked | Suc k \<Rightarrow> sum_loop k trm f1 e)))
      else Ret (f1, e))"

declare sum_loop.simps [simp del]

definition expression_body :: "nat \<Rightarrow> ez_routine \<Rightarrow> ez_routine" where
  "expression_body k trm e =
     (let t = x_sym e in
      bindO (if t = T_PLUS \<or> t = T_MINUS then get_sym e else Ret e) (\<lambda>e. bindO (trm e) (\<lambda>(f1, e).
        sum_loop k trm (if t = T_MINUS then fp_mul 53 11 (Num (- 1)) f1 else f1) e)))"

fun ez_expression :: "nat \<Rightarrow> ez_env \<Rightarrow> ez_routine" where
  "ez_expression 0 env e = Blocked"
| "ez_expression (Suc k) env e = expression_body k (ez_term k (ez_factor k env (ez_expression k env))) e"

section \<open>Running an expression\<close>

definition ez_start :: "bytes \<Rightarrow> bytes option \<Rightarrow> ez_tables \<Rightarrow> ez_exp outcome" where
  "ez_start text param z =
     bindO (ez_tokenizer_init text z) (\<lambda>(t, z). Ret (ez_exp_zero\<lparr>x_tz := t, x_tabs := z, x_param := param\<rparr>))"

definition ez_exp_run :: "nat \<Rightarrow> ez_env \<Rightarrow> bytes \<Rightarrow> bytes option \<Rightarrow> ez_tables \<Rightarrow> (fp \<times> ez_exp) outcome" where
  "ez_exp_run k env text param z =
     bindO (ez_start text param z) (\<lambda>e.
       if tz_err (x_tz e) then Ret (Num 0, e)
       else bindO (get_sym e) (\<lambda>e. bindO (expression_comma k (ez_expression k env) e) (\<lambda>(f, e).
         if x_return e then Ret (x_retval e, e) else bindO (ez_expect T_EOF e) (\<lambda>e. Ret (f, e)))))"

definition ez_exp_check :: "nat \<Rightarrow> ez_env \<Rightarrow> bytes \<Rightarrow> ez_tables \<Rightarrow> (bool \<times> ez_exp) outcome" where
  "ez_exp_check k env text z =
     bindO (ez_start text None z) (\<lambda>e. bindO (get_sym (e\<lparr>x_check := True\<rparr>)) (\<lambda>e.
     bindO (expression_comma k (ez_expression k env) e) (\<lambda>(f, e). bindO (ez_expect T_EOF e) (\<lambda>e. Ret (\<not> x_error e, e)))))"

text \<open>\<open>evaluate\<close>: the value, whether there was an error, and the tables of names\<close>

definition ez_evaluate :: "nat \<Rightarrow> ez_env \<Rightarrow> bytes \<Rightarrow> bytes \<Rightarrow> ez_tables \<Rightarrow> (fp \<times> bool \<times> ez_tables) outcome" where
  "ez_evaluate k env text name z =
     bindO (ez_exp_run k env text (Some name) z) (\<lambda>(f, e). Ret (f, x_error e, x_tabs e))"

end
