(* ===== verification/Ez_Spec.thy ===== *)
theory Ez_Spec
  imports Ez_Exp
begin

text \<open>
  What arithmetic expressions mean: a grammar of sums, terms and factors, its texts and its values, and the
  proof that tokenizer and parser compute the value of every text of the grammar.  All operators but
  plus and minus have one precedence and associate to the left.
\<close>

section \<open>Grammar\<close>

datatype ez_op = Mul | Div | Mod | Shl | Shr | Geq | Leq | Gt | Lt | Neq | Eq | And | Or | BitOr | BitAnd | BitXor

datatype ez_fac = FNat nat | FVar bytes | FGroup ez_sum
  and ez_trm = Trm ez_fac "(ez_op \<times> ez_fac) list"
  and ez_sum = Sum bool ez_trm "(bool \<times> ez_trm) list"

fun op_text :: "ez_op \<Rightarrow> bytes" where
  "op_text Mul = [0x2A]" | "op_text Div = [0x2F]" | "op_text Mod = [0x25]"
| "op_text Shl = [0x3C, 0x3C]" | "op_text Shr = [0x3E, 0x3E]"
| "op_text Geq = [0x3E, 0x3D]" | "op_text Leq = [0x3C, 0x3D]" | "op_text Gt = [0x3E]" | "op_text Lt = [0x3C]"
| "op_text Neq = [0x21, 0x3D]" | "op_text Eq = [0x3D, 0x3D]"
| "op_text And = [0x26, 0x26]" | "op_text Or = [0x7C, 0x7C]"
| "op_text BitOr = [0x7C]" | "op_text BitAnd = [0x26]" | "op_text BitXor = [0x5E]"

text \<open>
  What the operators mean, by the sign that stands for them in the text: arithmetic on doubles; comparisons and
  logic, 1 for true and 0 for false; the rest on whole numbers of 32 bits, where an operand whose integral part does not fit, a
  remainder by 0 and a shift by 32 or more are undefined.
\<close>

definition truth :: "bool \<Rightarrow> fp outcome" where
  "truth b = Ret (if b then Num 1 else Num 0)"

definition nonzero :: "fp \<Rightarrow> bool" where
  "nonzero x \<longleftrightarrow> fp_rat x \<noteq> Some 0"

definition unsigned_arg :: "fp \<Rightarrow> nat option" where
  "unsigned_arg x = (case fp_rat x of None \<Rightarrow> None | Some a \<Rightarrow> if - 1 < a \<and> a < 2 ^ 32 then Some (nat \<lfloor>a\<rfloor>) else None)"

definition on_unsigned :: "(nat \<Rightarrow> nat \<Rightarrow> nat option) \<Rightarrow> fp \<Rightarrow> fp \<Rightarrow> fp outcome" where
  "on_unsigned g x y =
     (case (unsigned_arg x, unsigned_arg y) of
        (Some a, Some b) \<Rightarrow> (case g a b of None \<Rightarrow> Fault | Some c \<Rightarrow> Ret (Num (of_nat c)))
      | _ \<Rightarrow> Fault)"

fun op_value :: "ez_op \<Rightarrow> fp \<Rightarrow> fp \<Rightarrow> fp outcome" where
  "op_value Mul x y = Ret (fp_mul 53 11 x y)"
| "op_value Div x y = Ret (fp_div 53 11 x y)"
| "op_value Mod x y = on_unsigned (\<lambda>a b. if b = 0 then None else Some (a mod b)) x y"
| "op_value Shl x y = on_unsigned (\<lambda>a b. if b < 32 then Some (a * 2 ^ b mod 2 ^ 32) else None) x y"
| "op_value Shr x y = on_unsigned (\<lambda>a b. if b < 32 then Some (a div 2 ^ b) else None) x y"
| "op_value Geq x y = truth (fp_less y x \<or> fp_eq y x)"
| "op_value Leq x y = truth (fp_less x y \<or> fp_eq x y)"
| "op_value Gt x y = truth (fp_less y x)"
| "op_value Lt x y = truth (fp_less x y)"
| "op_value Neq x y = truth (\<not> fp_eq x y)"
| "op_value Eq x y = truth (fp_eq x y)"
| "op_value And x y = truth (nonzero x \<and> nonzero y)"
| "op_value Or x y = truth (nonzero x \<or> nonzero y)"
| "op_value BitOr x y = on_unsigned (\<lambda>a b. Some (a OR b)) x y"
| "op_value BitAnd x y = on_unsigned (\<lambda>a b. Some (a AND b)) x y"
| "op_value BitXor x y = on_unsigned (\<lambda>a b. Some (a XOR b)) x y"

definition sign_text :: "bool \<Rightarrow> bytes" where
  "sign_text neg = [if neg then 0x2D else 0x2B]"

primrec fac_text :: "ez_fac \<Rightarrow> bytes" and trm_text :: "ez_trm \<Rightarrow> bytes" and sum_text :: "ez_sum \<Rightarrow> bytes" where
  "fac_text (FNat n) = dec_digits n"
| "fac_text (FVar v) = 0x23 # v"
| "fac_text (FGroup s) = 0x28 # sum_text s @ [0x29]"
| "trm_text (Trm f ofs) = fac_text f @ concat (map (\<lambda>(t, f). op_text t @ f) (map (map_prod id fac_text) ofs))"
| "sum_text (Sum neg t ts) =
     (if neg then [0x2D] else []) @ trm_text t @ concat (map (\<lambda>(neg, t). sign_text neg @ t) (map (map_prod id trm_text) ts))"

text \<open>Values, from left to right\<close>

fun trm_fold :: "fp \<Rightarrow> (ez_op \<times> fp outcome) list \<Rightarrow> fp outcome" where
  "trm_fold x [] = Ret x"
| "trm_fold x ((t, v) # vs) = bindO v (\<lambda>y. bindO (op_value t x y) (\<lambda>x. trm_fold x vs))"

fun sum_fold :: "fp \<Rightarrow> (bool \<times> fp outcome) list \<Rightarrow> fp outcome" where
  "sum_fold x [] = Ret x"
| "sum_fold x ((neg, v) # vs) = bindO v (\<lambda>y. sum_fold (if neg then fp_sub 53 11 x y else fp_add 53 11 x y) vs)"

primrec fac_val :: "ez_env \<Rightarrow> ez_fac \<Rightarrow> fp outcome" and trm_val :: "ez_env \<Rightarrow> ez_trm \<Rightarrow> fp outcome"
  and sum_val :: "ez_env \<Rightarrow> ez_sum \<Rightarrow> fp outcome" where
  "fac_val env (FNat n) = Ret (Num (of_nat n))"
| "fac_val env (FVar v) = Ret (v_var env v)"
| "fac_val env (FGroup s) = sum_val env s"
| "trm_val env (Trm f ofs) = bindO (fac_val env f) (\<lambda>x. trm_fold x (map (map_prod id (fac_val env)) ofs))"
| "sum_val env (Sum neg t ts) =
     bindO (trm_val env t) (\<lambda>x. sum_fold (if neg then fp_mul 53 11 (Num (- 1)) x else x) (map (map_prod id (trm_val env)) ts))"

text \<open>Numbers have at most 15 digits, names are not empty and hold no blank, operator or \<open>@\<close>.\<close>

primrec fac_wf :: "ez_fac \<Rightarrow> bool" and trm_wf :: "ez_trm \<Rightarrow> bool" and sum_wf :: "ez_sum \<Rightarrow> bool" where
  "fac_wf (FNat n) \<longleftrightarrow> n < 10 ^ 15"
| "fac_wf (FVar v) \<longleftrightarrow> v \<noteq> [] \<and> list_all (\<lambda>c. name_char c \<and> c \<noteq> 0x40) v"
| "fac_wf (FGroup s) \<longleftrightarrow> sum_wf s"
| "trm_wf (Trm f ofs) \<longleftrightarrow> fac_wf f \<and> list_all snd (map (map_prod id fac_wf) ofs)"
| "sum_wf (Sum neg t ts) \<longleftrightarrow> trm_wf t \<and> list_all snd (map (map_prod id trm_wf) ts)"

text \<open>Whole numbers below \<open>2 ^ 53\<close> are doubles\<close>

lemma fp_round_int: "\<bar>m\<bar> < 2 ^ 53 \<Longrightarrow> fp_round 53 11 (of_int m) = Num (of_int m)"
  by (rule fp_round_id) (rule is_fp_int)

lemma fp_round_nat: "n < 2 ^ 53 \<Longrightarrow> fp_round 53 11 (of_nat n) = Num (of_nat n)"
  using fp_round_int [of "int n"] by simp

section \<open>Operators of the parser\<close>

fun op_token :: "ez_op \<Rightarrow> ez_token" where
  "op_token Mul = T_OP_MULTIPLY" | "op_token Div = T_OP_DIVIDE" | "op_token Mod = T_OP_MOD"
| "op_token Shl = T_OP_SHIFT_LEFT" | "op_token Shr = T_OP_SHIFT_RIGHT"
| "op_token Geq = T_OP_NOT_LESS" | "op_token Leq = T_OP_NOT_GREATER" | "op_token Gt = T_OP_GREATER" | "op_token Lt = T_OP_LESS"
| "op_token Neq = T_OP_NOT_SAME" | "op_token Eq = T_OP_SAME"
| "op_token And = T_OP_ANDAND" | "op_token Or = T_OP_OROR"
| "op_token BitOr = T_OP_OR" | "op_token BitAnd = T_OP_AND" | "op_token BitXor = T_OP_XOR"

lemma op_token_op [simp]: "is_op_token (op_token t)"
  by (cases t) (simp_all add: is_op_token_def)

lemma ul_unsigned: "ul x = (case unsigned_arg x of None \<Rightarrow> Fault | Some n \<Rightarrow> Ret (int n))"
proof -
  have n: "- \<lfloor>- a\<rfloor> = (if - 1 < a then 0 else - \<lfloor>- a\<rfloor>)" if "a < 0" for a :: rat
    using that by (auto simp: floor_eq_iff)
  show ?thesis
    by (auto simp: ul_def unsigned_arg_def fp_to_int_def Let_def floor_less_iff le_floor_iff floor_le_iff dest: n split: option.splits)
qed

lemma ul2_unsigned:
  assumes "\<And>a b. f (int a) (int b) = (case g a b of None \<Rightarrow> Fault | Some c \<Rightarrow> Ret (int c))"
  shows "ul2 f x y = on_unsigned g x y"
  by (cases "unsigned_arg x"; cases "unsigned_arg y") (simp_all add: ul2_def on_unsigned_def ul_unsigned assms split: option.splits)

text \<open>The parser applies the operators of the text.\<close>

lemma term_op_value: "term_op (op_token t) x y = op_value t x y"
proof -
  have shl: "uint (push_bit b (word_of_nat a :: u32)) = int a * 2 ^ b mod 4294967296" for a b :: nat
  proof -
    have "push_bit b (word_of_nat a :: u32) = of_nat (a * 2 ^ b)" by (simp add: push_bit_eq_mult)
    then show ?thesis by (simp only: unsigned_of_nat take_bit_eq_mod) (simp add: zmod_int)
  qed
  have bits: "int a AND int b = int (a AND b)" "int a OR int b = int (a OR b)" "int a XOR int b = int (a XOR b)" for a b :: nat
    by (simp_all add: of_nat_and_eq of_nat_or_eq of_nat_xor_eq)
  have t: "fp_true x = nonzero x" for x by (auto simp: fp_true_def nonzero_def fp_ne_def fp_eq_def)
  have e: "fp_eq x y = fp_eq y x" by (auto simp: fp_eq_def)
  show ?thesis
    by (cases t)
      (auto simp: term_op_def truth_def of_bool_fp_def t e op_shl_def op_shr_def op_mod_def shl bits zmod_int drop_bit_eq_div zdiv_int
        intro!: ul2_unsigned)
qed

section \<open>Single tokens\<close>

text \<open>A tokenizer at the text \<open>s\<close> of a line\<close>

definition tz_at :: "bytes \<Rightarrow> bytes \<Rightarrow> tokenizer \<Rightarrow> bool" where
  "tz_at line s t \<longleftrightarrow> tz_line t = line \<and> (\<exists>u. line = u @ s \<and> tz_p t = length u) \<and> \<not> tz_err t"

lemma tz_at_rest: "tz_at line s t \<Longrightarrow> rest t = s \<and> tz_p t \<le> length (tz_line t)"
  by (auto simp: tz_at_def rest_def)

lemma tz_at_move: "tz_at line (u @ r) t \<Longrightarrow> tz_at line r (move_to r t)"
  unfolding tz_at_def move_to_def by (auto intro: exI [of _ "_ @ u"])

lemma tz_at_skip: "tz_at line (u @ r) t \<Longrightarrow> tz_at line r (t\<lparr>tz_p := tz_p t + length u\<rparr>)"
  unfolding tz_at_def by (auto intro: exI [of _ "_ @ u"])

lemma tz_at_same [simp]: "tz_at line s t \<Longrightarrow> move_to s t = t"
  by (auto simp: tz_at_def move_to_def)

lemma tz_at_upd [simp]:
  "tz_at line s (t\<lparr>tz_str := x\<rparr>) = tz_at line s t" "tz_at line s (t\<lparr>tz_size := n\<rparr>) = tz_at line s t"
  "tz_at line s (t\<lparr>tz_num := y\<rparr>) = tz_at line s t" "tz_at line s (t\<lparr>tz_regs := rs\<rparr>) = tz_at line s t"
  by (simp_all add: tz_at_def)

text \<open>Texts that start with no blank and no comment\<close>

definition starts :: "bytes \<Rightarrow> bool" where
  "starts s \<longleftrightarrow> s \<noteq> [] \<and> \<not> is_space (hd s) \<and> skip_comment s = Ret None"

lemma skip_blanks_starts: "starts s \<Longrightarrow> skip_blanks s = Ret s"
proof -
  assume s: "starts s"
  then have "dropWhile is_space s = s" by (cases s) (simp_all add: starts_def)
  with s show ?thesis by (subst skip_blanks.simps) (simp add: starts_def)
qed

lemma skip_blanks_Nil [simp]: "skip_blanks [] = Ret []"
  by (subst skip_blanks.simps) (simp add: skip_comment_def skip_line_comments_def skip_multiline_comments_def peek_def)

lemma starts_not_slash: "s \<noteq> [] \<Longrightarrow> \<not> is_space (hd s) \<Longrightarrow> hd s \<noteq> 0x2F \<Longrightarrow> starts s"
  by (cases s) (simp_all add: starts_def skip_comment_def skip_line_comments_def skip_multiline_comments_def peek_def)

lemma next_token_starts:
  assumes "tz_at line s t" "starts s"
  shows "next_token_ex k load t z = (let t = t\<lparr>tz_str := None, tz_size := 0\<rparr> in
    if hd s = 0x24 \<or> hd s = 0x40 then (case parse_reg (hd s) t of (tk, t) \<Rightarrow> Ret (tk, t, z))
    else case lex_char s of
      Some (tk, n) \<Rightarrow> Ret (tk, (if n = 1 then t\<lparr>tz_num := NaN\<rparr> else t)\<lparr>tz_p := tz_p t + n\<rparr>, z)
    | None \<Rightarrow>
        if hd s = 0x22 \<or> hd s = 0x27 then Ret (T_STRING, lex_string s t, z)
        else if hd s = 0x23 then Ret (T_FUNC_VAR_ALIAS, lex_alias s t, z)
        else if is_dec (hd s) then bindO (lex_number s) (\<lambda>(x, s1). Ret (T_NUMBER, (move_to s1 t)\<lparr>tz_num := x\<rparr>, z))
        else bindO (lex_keyword s) (\<lambda>kw.
          if kw = [] then Ret (T_ERROR, t, z)
          else bindO (ez_hash_get kw (z_tok z)) (\<lambda>r.
            let t = t\<lparr>tz_p := tz_p t + length kw\<rparr> in
            case r of
              None \<Rightarrow> Ret (T_FUNC_FUNCTION, t, z)
            | Some tk \<Rightarrow>
                if tk = T_FUNC_CUSTOM then Ret (tk, t\<lparr>tz_kw := kw\<rparr>, z)
                else if tk \<noteq> T_FUNC_FUNCTION then Ret (tk, t, z)
                else if load then bindO (load_function t z) (\<lambda>(t, z).
                  Ret (if tz_err t then T_LOAD_FUNCTION_ERROR else tk, t, z))
                else bindO (body_scan 0 0 None (rest t)) (\<lambda>(_, _, s1).
                  case k of 0 \<Rightarrow> Blocked | Suc k \<Rightarrow> next_token_ex k load (move_to s1 t) z))))"
  using assms tz_at_rest [OF assms(1)]
  by (subst next_token_ex.simps) (simp add: skip_blanks_starts starts_def)

lemma next_token_end: "tz_at line [] t \<Longrightarrow> \<exists>t'. next_token_ex k load t z = Ret (T_EOF, t', z) \<and> tz_at line [] t'"
  using tz_at_rest [of line "[]" t] by (subst next_token_ex.simps) simp

lemma next_token_char:
  assumes "tz_at line (u @ r) t" "starts (u @ r)" "hd (u @ r) \<noteq> 0x24" "hd (u @ r) \<noteq> 0x40" "lex_char (u @ r) = Some (tk, length u)"
  shows "\<exists>t'. next_token_ex k load t z = Ret (tk, t', z) \<and> tz_at line r t'"
  using tz_at_skip [of line u r "t\<lparr>tz_str := None, tz_size := 0\<rparr>"] tz_at_skip [of line u r "t\<lparr>tz_str := None, tz_size := 0, tz_num := NaN\<rparr>"] assms
  by (cases "length u = 1") (simp_all add: next_token_starts [OF assms(1,2)] Let_def)

text \<open>What may follow a factor: an operator, a sign, a closing bracket or the end of the statement\<close>

definition follow :: "bytes \<Rightarrow> bool" where
  "follow r \<longleftrightarrow> r \<noteq> [] \<and> hd r \<in> {0x29, 0x3B, 0x2B, 0x2D, 0x2A, 0x2F, 0x25, 0x3C, 0x3E, 0x21, 0x3D, 0x26, 0x7C, 0x5E}"

lemma follow_props: "follow r \<Longrightarrow> r \<noteq> [] \<and> \<not> name_char (hd r) \<and> \<not> is_dec (hd r) \<and> hd r \<noteq> 0x2E \<and> hd r \<noteq> 0x65 \<and> hd r \<noteq> 0x45 \<and>
    hd r \<noteq> 0x78 \<and> hd r \<noteq> 0x58"
  unfolding follow_def by (auto simp: name_char_def is_char_token_def is_dec_def)

text \<open>Numbers\<close>

lemma unat_digit: "k < 10 \<Longrightarrow> unat (0x30 + of_nat k :: u8) = 48 + k"
  by (simp add: unat_word_ariths unat_of_nat_small')

lemma dec_digits_dec: "list_all is_dec (dec_digits n)"
proof (induction n rule: dec_digits.induct)
  case (1 n)
  have d: "is_dec (0x30 + of_nat k)" if "k < 10" for k :: nat
    using unat_digit [OF that] that unfolding is_dec_def word_le_nat_alt by simp
  show ?case
    using 1 d [of n] d [of "n mod 10"] by (subst dec_digits.simps) simp
qed

lemma dec_digits_not_Nil [simp]: "dec_digits n \<noteq> []"
  by (subst dec_digits.simps) simp

lemma xdigit_dec: "k < 10 \<Longrightarrow> xdigit_val (0x30 + of_nat k) = k"
  using unat_digit [of k] by (simp add: xdigit_val_def is_dec_def word_le_nat_alt)

lemma digits_val_append [simp]: "digits_val b (s @ [c]) = b * digits_val b s + xdigit_val c"
  by (simp add: digits_val_def)

lemma digits_val_dec: "digits_val 10 (dec_digits n) = n"
proof (induction n rule: dec_digits.induct)
  case (1 n)
  then show ?case
    by (subst dec_digits.simps) (auto simp: xdigit_dec digits_val_def [of _ "[_]"])
qed

lemma takeWhile_follow: "list_all P s \<Longrightarrow> r \<noteq> [] \<Longrightarrow> \<not> P (hd r) \<Longrightarrow> takeWhile P (s @ r) = s \<and> dropWhile P (s @ r) = r"
  by (induction s) (cases r; simp)+

lemma lex_number_dec:
  assumes "n < 10 ^ 15" "follow r"
  shows "lex_number (dec_digits n @ r) = Ret (fp_round 53 11 (of_nat n), r)"
proof -
  let ?d = "dec_digits n"
  note f = follow_props [OF assms(2)]
  have l: "length ?d \<le> 15" using length_dec_digits [of n 14] assms(1) by simp
  obtain c r' where r: "r = c # r'" using f by (cases r) auto
  have t: "take 32 (?d @ r) = ?d @ take (32 - length ?d) r" using l by simp
  have r32: "take (32 - length ?d) r \<noteq> []" "hd (take (32 - length ?d) r) = hd r" using l r by (simp_all add: take_Cons')
  have hex: "\<not> (peek (?d @ s) 0 = 0x30 \<and> (peek (?d @ s) 1 = 0x78 \<or> peek (?d @ s) 1 = 0x58))" if "s \<noteq> []" "hd s = hd r" for s
  proof -
    have "is_dec (peek (?d @ s) 1) \<or> peek (?d @ s) 1 = hd r"
      using dec_digits_dec [of n] that by (cases ?d; cases "tl ?d"; cases s) (auto simp: peek_def)
    then show ?thesis using f by (auto simp: is_dec_def)
  qed
  have "scan_number (?d @ take (32 - length ?d) r) = Some (fp_round 53 11 (of_nat n), take (32 - length ?d) r)"
    using f takeWhile_follow [OF dec_digits_dec r32(1), of n] r32
    unfolding scan_number_def if_not_P [OF hex [OF r32]] scan_digits_def Let_def by (simp add: scan_exp_def digits_val_dec)
  moreover have "dropWhile (\<lambda>c. is_dec c \<or> c = 0x2E) (?d @ r) = r"
    using takeWhile_follow [of "\<lambda>c. is_dec c \<or> c = 0x2E" ?d r] dec_digits_dec [of n] f by (auto simp: list_all_iff)
  moreover have h: "\<not> (peek (?d @ r) 0 = 0x30 \<and> (peek (?d @ r) 1 = 0x78 \<or> peek (?d @ r) 1 = 0x58))" using hex [of r] f by blast
  ultimately show ?thesis
    using r32(1) unfolding lex_number_def t Let_def if_not_P [OF h] by simp
qed

lemma next_token_number:
  assumes "tz_at line (dec_digits n @ r) t" "n < 10 ^ 15" "follow r"
  shows "\<exists>t'. next_token_ex k load t z = Ret (T_NUMBER, t', z) \<and> tz_at line r t' \<and> tz_num t' = fp_round 53 11 (of_nat n)"
proof -
  obtain c d where d: "dec_digits n = c # d" "is_dec c" using dec_digits_dec [of n] by (cases "dec_digits n") auto
  then have c: "0x30 \<le> c" "c \<le> 0x39" by (simp_all add: is_dec_def)
  then have "c \<noteq> 0x24" "c \<noteq> 0x40" "c \<noteq> 0x2F" "c \<noteq> 0x22" "c \<noteq> 0x27" "c \<noteq> 0x23" "\<not> is_space c"
    by (auto simp: is_space_def word_le_nat_alt)
  moreover have "lex_char (c # d @ r) = None"
    using c by (auto simp: lex_char_def peek_def is_shift_num_token_def is_same_char_token_def is_equal_char_token_def is_char_token_def)
  moreover have "starts (c # d @ r)" using calculation by (intro starts_not_slash) simp_all
  moreover have "lex_number (c # d @ r) = Ret (fp_round 53 11 (of_nat n), r)" using lex_number_dec [OF assms(2,3)] d by simp
  ultimately show ?thesis
    using next_token_starts [of line "c # d @ r" t k load z] assms(1) d tz_at_move [of line "c # d" r "t\<lparr>tz_str := None, tz_size := 0\<rparr>"]
    by (simp add: Let_def)
qed

text \<open>Names of variables\<close>

definition str_at :: "bytes \<Rightarrow> bytes \<Rightarrow> tokenizer \<Rightarrow> bool" where
  "str_at line v t \<longleftrightarrow> (\<exists>p. tz_str t = Some p \<and> tz_size t = length v \<and> take (length v) (drop p line) = v)"

lemma next_token_alias:
  assumes "tz_at line (0x23 # v @ r) t" "list_all (\<lambda>c. name_char c \<and> c \<noteq> 0x40) v" "follow r"
  shows "\<exists>t'. next_token_ex k load t z = Ret (T_FUNC_VAR_ALIAS, t', z) \<and> tz_at line r t' \<and> str_at line v t'"
proof -
  let ?t = "t\<lparr>tz_str := None, tz_size := 0\<rparr>"
  note f = follow_props [OF assms(3)]
  have "starts (0x23 # v @ r)" by (intro starts_not_slash) (simp_all add: is_space_def)
  moreover have "lex_char (0x23 # v @ r) = None"
    by (simp add: lex_char_def peek_def is_shift_num_token_def is_same_char_token_def is_equal_char_token_def is_char_token_def)
  moreover have "takeWhile (\<lambda>c. name_char c \<and> c \<noteq> 0x40) (v @ r) = v"
    using takeWhile_follow [OF assms(2), of r] f by simp
  then have "lex_alias (0x23 # v @ r) ?t = move_to r ?t\<lparr>tz_str := Some (length line - length (v @ r)), tz_size := length v\<rparr>"
    using f assms(1) by (simp add: lex_alias_def Let_def tz_at_def)
  moreover have "tz_at line r (move_to r ?t\<lparr>tz_str := Some (length line - length (v @ r)), tz_size := length v\<rparr>)"
    using tz_at_move [of line "0x23 # v" r ?t] assms(1) by simp
  moreover have "str_at line v (move_to r ?t\<lparr>tz_str := Some (length line - length (v @ r)), tz_size := length v\<rparr>)"
    using assms(1) by (auto simp: str_at_def move_to_def tz_at_def)
  ultimately show ?thesis using next_token_starts [of line "0x23 # v @ r" t k load z] assms(1) by (simp add: Let_def)
qed

text \<open>Operators, before a factor\<close>

definition fac_start :: "bytes \<Rightarrow> bool" where
  "fac_start s \<longleftrightarrow> s \<noteq> [] \<and> (is_dec (hd s) \<or> hd s = 0x23 \<or> hd s = 0x28)"

lemma fac_start_chars: "fac_start (c # s) \<Longrightarrow> c \<notin> {0x3D, 0x2F, 0x2A, 0x2D, 0x2B, 0x3C, 0x3E, 0x26, 0x7C}"
  by (auto simp: fac_start_def is_dec_def)

lemma op_follow: "follow (op_text t @ s)"
  by (cases t) (simp_all add: follow_def)

lemma next_token_op:
  assumes "tz_at line (op_text tk @ s) t" "fac_start s"
  shows "\<exists>t'. next_token_ex k load t z = Ret (op_token tk, t', z) \<and> tz_at line s t'"
proof -
  obtain c s' where s: "s = c # s'" using assms(2) by (cases s) (auto simp: fac_start_def)
  have c: "c \<notin> {0x3D, 0x2F, 0x2A, 0x2D, 0x2B, 0x3C, 0x3E, 0x26, 0x7C}" using fac_start_chars assms(2) s by blast
  then have "lex_char (op_text tk @ s) = Some (op_token tk, length (op_text tk)) \<and> starts (op_text tk @ s)"
    unfolding s
    by (cases tk) (simp_all add: lex_char_def peek_def is_shift_num_token_def is_same_char_token_def
        is_equal_char_token_def is_char_token_def starts_def is_space_def skip_comment_def skip_line_comments_def
        skip_multiline_comments_def nth_Cons')
  moreover have "hd (op_text tk @ s) \<noteq> 0x24" "hd (op_text tk @ s) \<noteq> 0x40" by (cases tk; simp)+
  ultimately show ?thesis using next_token_char [OF assms(1)] by simp
qed

text \<open>Brackets, signs and the end of the statement\<close>

definition single_char :: "u8 \<Rightarrow> ez_token" where
  "single_char c = (if c = 0x28 then T_LEFT_BANANA else if c = 0x29 then T_RIGHT_BANANA else if c = 0x3B then T_SEMICOLON
     else if c = 0x2B then T_PLUS else T_MINUS)"

lemma next_token_single:
  assumes "tz_at line (c # s) t" "c \<in> {0x28, 0x29, 0x3B} \<or> c \<in> {0x2B, 0x2D} \<and> fac_start s"
  shows "\<exists>t'. next_token_ex k load t z = Ret (single_char c, t', z) \<and> tz_at line s t'"
proof -
  have "lex_char (c # s) = Some (single_char c, 1)"
  proof (cases s)
    case Nil
    then show ?thesis using assms(2)
      by (auto simp: lex_char_def peek_def is_equal_char_token_def is_char_token_def single_char_def fac_start_def)
  next
    case (Cons d s')
    then have "c \<in> {0x2B, 0x2D} \<Longrightarrow> d \<notin> {0x3D, 0x2D, 0x2B}" using assms(2) fac_start_chars [of d s'] by auto
    then show ?thesis using assms(2) Cons
      by (auto simp: lex_char_def peek_def is_shift_num_token_def is_same_char_token_def is_equal_char_token_def is_char_token_def
          single_char_def)
  qed
  moreover have "starts (c # s)" "c \<noteq> 0x24" "c \<noteq> 0x40"
    using assms(2) by (auto simp: is_space_def intro!: starts_not_slash)
  ultimately show ?thesis using next_token_char [of line "[c]" s t] assms(1) by simp
qed

section \<open>Parsing what is left of a text\<close>

text \<open>A parser that stands before the text \<open>s\<close>, and one that has read the first token of it\<close>

definition ex_at :: "bytes \<Rightarrow> ez_tables \<Rightarrow> bytes \<Rightarrow> ez_exp \<Rightarrow> bool" where
  "ex_at line z s e \<longleftrightarrow> tz_at line s (x_tz e) \<and> x_tabs e = z \<and> \<not> x_check e \<and> \<not> x_return e \<and> \<not> x_error e \<and> \<not> x_brk e \<and> \<not> x_cont e"

definition ahead :: "bytes \<Rightarrow> ez_tables \<Rightarrow> bytes \<Rightarrow> ez_exp \<Rightarrow> bool" where
  "ahead line z s e \<longleftrightarrow> (\<exists>e0. ex_at line z s e0 \<and> get_sym e0 = Ret e)"

lemma ex_at_num [simp]: "ex_at line z s (e\<lparr>x_num := f\<rparr>) = ex_at line z s e"
  by (simp add: ex_at_def)

lemma get_sym_num: "get_sym (e\<lparr>x_num := f\<rparr>) = bindO (get_sym e) (\<lambda>e. Ret (e\<lparr>x_num := f\<rparr>))"
  by (cases "ez_tokenizer_get_next_token (x_tz e) (x_tabs e)") (auto simp: get_sym_def ez_error_def Let_def)

lemma ahead_num [simp]: "ahead line z s (e\<lparr>x_num := f\<rparr>) = ahead line z s e"
proof -
  have "ahead line z s (e\<lparr>x_num := f\<rparr>)" if a: "ahead line z s e" for e f
  proof -
    obtain e0 where "ex_at line z s e0" "get_sym e0 = Ret e" using a by (auto simp: ahead_def)
    then have "ex_at line z s (e0\<lparr>x_num := f\<rparr>) \<and> get_sym (e0\<lparr>x_num := f\<rparr>) = Ret (e\<lparr>x_num := f\<rparr>)"
      by (simp only: ex_at_num get_sym_num bindO.simps simp_thms)
    then show ?thesis unfolding ahead_def by blast
  qed
  from this [of e f] this [of "e\<lparr>x_num := f\<rparr>" "x_num e"] show ?thesis by auto
qed

text \<open>\<open>reads\<close>: from every place before the text one token is read, with the text \<open>r\<close> left\<close>

definition reads :: "bytes \<Rightarrow> ez_token \<Rightarrow> bytes \<Rightarrow> (tokenizer \<Rightarrow> bool) \<Rightarrow> bool" where
  "reads s tk r Q \<longleftrightarrow> tk \<noteq> T_ERROR \<and>
     (\<forall>line t k load z. tz_at line s t \<longrightarrow> (\<exists>t'. next_token_ex k load t z = Ret (tk, t', z) \<and> tz_at line r t' \<and> Q t'))"

text \<open>\<open>first\<close>: the first token of a text\<close>

definition first :: "bytes \<Rightarrow> ez_token \<Rightarrow> bool" where
  "first s tk \<longleftrightarrow> (\<exists>r Q. reads s tk r Q)"

lemma firstI: "reads s tk r Q \<Longrightarrow> first s tk"
  by (auto simp: first_def)

lemma get_sym_reads:
  assumes "ex_at line z s e" "reads s tk r Q"
  shows "\<exists>e'. get_sym e = Ret e' \<and> x_sym e' = tk \<and> x_last e' = x_sym e \<and> ex_at line z r e' \<and> Q (x_tz e') \<and> x_num e' = x_num e \<and>
    x_param e' = x_param e"
proof -
  obtain t' where "next_token_ex (length (tz_line (x_tz e))) False (x_tz e) z = Ret (tk, t', z)" "tz_at line r t'" "Q t'"
    using assms unfolding reads_def ex_at_def by meson
  moreover have "tk \<noteq> T_ERROR" using assms(2) by (simp add: reads_def)
  ultimately show ?thesis
    using assms(1) by (simp add: get_sym_def ez_tokenizer_get_next_token_def ex_at_def Let_def)
qed

lemma ahead_reads:
  assumes "ahead line z s e" "reads s tk r Q"
  shows "x_sym e = tk \<and> ex_at line z r e \<and> Q (x_tz e)"
proof -
  obtain e0 where e0: "ex_at line z s e0" "get_sym e0 = Ret e" using assms(1) by (auto simp: ahead_def)
  show ?thesis using get_sym_reads [OF e0(1) assms(2)] unfolding e0(2) by blast
qed

lemma ahead_next:
  assumes "ahead line z s e" "reads s tk r Q" "first r tk'"
  obtains e' where "get_sym e = Ret e'" "ahead line z r e'" "x_num e' = x_num e" "x_last e' = tk" "x_sym e' = tk'"
proof -
  have e: "x_sym e = tk" "ex_at line z r e" using ahead_reads [OF assms(1,2)] by simp_all
  obtain r' Q' where "reads r tk' r' Q'" using assms(3) by (auto simp: first_def)
  from get_sym_reads [OF e(2) this] e that show ?thesis unfolding ahead_def by blast
qed

lemma reads_end: "reads [] T_EOF [] (\<lambda>t. True)"
  using next_token_end by (auto simp: reads_def)

lemma reads_number: "n < 10 ^ 15 \<Longrightarrow> follow r \<Longrightarrow> reads (dec_digits n @ r) T_NUMBER r (\<lambda>t. tz_num t = fp_round 53 11 (of_nat n))"
  using next_token_number by (auto simp: reads_def)

lemma reads_alias: "list_all (\<lambda>c. name_char c \<and> c \<noteq> 0x40) v \<Longrightarrow> follow r \<Longrightarrow>
    reads (0x23 # v @ r) T_FUNC_VAR_ALIAS r (\<lambda>t. \<forall>line. tz_line t = line \<longrightarrow> str_at line v t)"
  using next_token_alias unfolding reads_def by (fastforce simp: tz_at_def)

lemma reads_op: "fac_start s \<Longrightarrow> reads (op_text t @ s) (op_token t) s (\<lambda>t. True)"
  using next_token_op op_token_op [of t] by (auto simp: reads_def is_op_token_def)

lemma reads_single: "c \<in> {0x28, 0x29, 0x3B} \<or> c \<in> {0x2B, 0x2D} \<and> fac_start s \<Longrightarrow> reads (c # s) (single_char c) s (\<lambda>t. True)"
  using next_token_single by (auto simp: reads_def single_char_def)

text \<open>Results of the parser against values\<close>

definition yields :: "bytes \<Rightarrow> ez_tables \<Rightarrow> bytes \<Rightarrow> (fp \<times> ez_exp) outcome \<Rightarrow> fp outcome \<Rightarrow> bool" where
  "yields line z r m v \<longleftrightarrow>
     (case v of Ret x \<Rightarrow> \<exists>e. m = Ret (x, e) \<and> ahead line z r e | Fault \<Rightarrow> m = Fault | Blocked \<Rightarrow> m = Blocked)"

lemma yields_Ret [intro]: "ahead line z r e \<Longrightarrow> yields line z r (Ret (x, e)) (Ret x)"
  by (simp add: yields_def)

lemma yields_bind:
  "yields line z r m v \<Longrightarrow> (\<And>x e. ahead line z r e \<Longrightarrow> yields line z s (f (x, e)) (g x)) \<Longrightarrow> yields line z s (bindO m f) (bindO v g)"
proof (cases v)
  case (Ret x)
  assume "yields line z r m v" and f: "\<And>x e. ahead line z r e \<Longrightarrow> yields line z s (f (x, e)) (g x)"
  then obtain e where "m = Ret (x, e)" "ahead line z r e" using Ret by (auto simp: yields_def)
  then show ?thesis using f [of e x] Ret by simp
qed (simp_all add: yields_def)

lemma yields_map: "yields line z r m v \<Longrightarrow> (\<And>x e. ahead line z r e \<Longrightarrow> \<exists>e'. f (x, e) = Ret (x, e') \<and> ahead line z s e') \<Longrightarrow>
    yields line z s (bindO m f) v"
  using yields_bind [of line z r m v s f Ret] by (cases v) (fastforce simp: yields_def)+

section \<open>Texts of the grammar\<close>

text \<open>What ends a sum, a term and a factor\<close>

definition sum_ends :: "ez_token set" where "sum_ends = {T_RIGHT_BANANA, T_SEMICOLON}"
definition trm_ends :: "ez_token set" where "trm_ends = {T_RIGHT_BANANA, T_SEMICOLON, T_PLUS, T_MINUS}"
definition fac_ends :: "ez_token set" where "fac_ends = trm_ends \<union> Collect is_op_token"

definition before :: "ez_token set \<Rightarrow> bytes \<Rightarrow> bool" where
  "before K r \<longleftrightarrow> follow r \<and> (\<exists>tk\<in>K. first r tk)"

lemma before_mono: "before K r \<Longrightarrow> K \<subseteq> L \<Longrightarrow> before L r"
  by (auto simp: before_def)

fun ops_text :: "(ez_op \<times> ez_fac) list \<Rightarrow> bytes" where
  "ops_text [] = []"
| "ops_text ((t, f) # ofs) = op_text t @ fac_text f @ ops_text ofs"

fun signs_text :: "(bool \<times> ez_trm) list \<Rightarrow> bytes" where
  "signs_text [] = []"
| "signs_text ((neg, t) # ts) = sign_text neg @ trm_text t @ signs_text ts"

lemma trm_text_ops: "trm_text (Trm f ofs) = fac_text f @ ops_text ofs"
  by (induction ofs rule: ops_text.induct) simp_all

lemma sum_text_signs: "sum_text (Sum neg t ts) = (if neg then [0x2D] else []) @ trm_text t @ signs_text ts"
  by (induction ts rule: signs_text.induct) simp_all

declare trm_text.simps [simp del] sum_text.simps [simp del]
declare trm_text_ops [simp] sum_text_signs [simp]

lemma fac_first: "fac_wf f \<Longrightarrow> follow r \<Longrightarrow> fac_start (fac_text f @ r) \<and> (\<exists>tk\<in>{T_NUMBER, T_FUNC_VAR_ALIAS, T_LEFT_BANANA}. first (fac_text f @ r) tk)"
proof (cases f)
  case (FNat n)
  assume "fac_wf f" "follow r"
  then show ?thesis using FNat reads_number [of n r] dec_digits_dec [of n]
    by (cases "dec_digits n") (auto simp: fac_start_def intro: firstI)
next
  case (FVar v)
  assume "fac_wf f" "follow r"
  then show ?thesis using FVar reads_alias [of v r] by (auto simp: fac_start_def intro: firstI)
next
  case (FGroup s)
  then show ?thesis using reads_single [of "0x28" "sum_text s @ 0x29 # r"] by (auto simp: fac_start_def single_char_def intro: firstI)
qed

lemma ops_before: "list_all (\<lambda>(_, f). fac_wf f) ofs \<Longrightarrow> before trm_ends r \<Longrightarrow> before fac_ends (ops_text ofs @ r)"
proof (induction ofs rule: ops_text.induct)
  case 1
  then show ?case by (auto simp: fac_ends_def intro: before_mono)
next
  case (2 t f ofs)
  then have "before fac_ends (ops_text ofs @ r)" by simp
  then have "fac_start (fac_text f @ ops_text ofs @ r)" using 2 fac_first by (simp add: before_def)
  then have "first (op_text t @ fac_text f @ ops_text ofs @ r) (op_token t)" using 2 reads_op by (auto intro: firstI)
  then show ?case using 2 op_follow by (auto simp: before_def fac_ends_def)
qed

lemma trm_wf_simp [simp]: "trm_wf (Trm f ofs) \<longleftrightarrow> fac_wf f \<and> list_all (\<lambda>(_, f). fac_wf f) ofs"
  by (auto simp: list_all_iff)

lemma sum_wf_simp [simp]: "sum_wf (Sum neg t ts) \<longleftrightarrow> trm_wf t \<and> list_all (\<lambda>(_, t). trm_wf t) ts"
  by (auto simp: list_all_iff)

declare trm_wf.simps [simp del] sum_wf.simps [simp del]

lemma trm_first: "trm_wf t \<Longrightarrow> before trm_ends r \<Longrightarrow> fac_start (trm_text t @ r) \<and> (\<exists>tk\<in>{T_NUMBER, T_FUNC_VAR_ALIAS, T_LEFT_BANANA}. first (trm_text t @ r) tk)"
  using fac_first ops_before by (cases t) (simp add: before_def)

lemma signs_before: "list_all (\<lambda>(_, t). trm_wf t) ts \<Longrightarrow> before sum_ends r \<Longrightarrow> before trm_ends (signs_text ts @ r)"
proof (induction ts rule: signs_text.induct)
  case 1
  then show ?case by (auto simp: trm_ends_def sum_ends_def intro: before_mono)
next
  case (2 neg t ts)
  then have "fac_start (trm_text t @ signs_text ts @ r)" using trm_first by simp
  then have "first (sign_text neg @ trm_text t @ signs_text ts @ r) (if neg then T_MINUS else T_PLUS)"
    using reads_single [of "if neg then 0x2D else 0x2B" "trm_text t @ signs_text ts @ r"]
    by (auto simp: sign_text_def single_char_def intro: firstI split: if_splits)
  then show ?case by (auto simp: before_def trm_ends_def follow_def sign_text_def)
qed

lemma sum_first: "sum_wf s \<Longrightarrow> before sum_ends r \<Longrightarrow>
    \<exists>tk\<in>{T_MINUS, T_NUMBER, T_FUNC_VAR_ALIAS, T_LEFT_BANANA}. first (sum_text s @ r) tk"
proof (cases s)
  case (Sum neg t ts)
  assume "sum_wf s" "before sum_ends r"
  then have t: "fac_start (trm_text t @ signs_text ts @ r) \<and> (\<exists>tk\<in>{T_NUMBER, T_FUNC_VAR_ALIAS, T_LEFT_BANANA}. first (trm_text t @ signs_text ts @ r) tk)"
    using Sum trm_first signs_before by simp
  then have "first (0x2D # trm_text t @ signs_text ts @ r) T_MINUS"
    using reads_single [of "0x2D" "trm_text t @ signs_text ts @ r"] by (auto simp: single_char_def intro: firstI)
  then show ?thesis using Sum t by auto
qed

section \<open>The parser computes the value\<close>

lemma yields_val: "(\<And>x. yields line z s (f x) (g x)) \<Longrightarrow> yields line z s (bindO v f) (bindO v g)"
  by (cases v) (simp_all add: yields_def)

lemma before_first: "before K r \<Longrightarrow> \<exists>tk\<in>K. first r tk"
  by (simp add: before_def)

lemma ahead_first:
  assumes "ahead line z s e" "first s tk"
  shows "x_sym e = tk \<and> \<not> x_check e \<and> \<not> x_return e \<and> \<not> x_error e \<and> \<not> x_brk e \<and> \<not> x_cont e"
  using assms ahead_reads unfolding first_def ex_at_def by blast

lemma first_fun: "first s tk \<Longrightarrow> ahead line z s e \<Longrightarrow> x_sym e = tk"
  using ahead_first by blast

lemma map_fac: "map (map_prod id g) ((t, f) # ofs) = (t, g f) # map (map_prod id g) ofs"
  by simp

lemma term_loop_fold:
  assumes "list_all (\<lambda>(_, f). fac_wf f) ofs" "before trm_ends r" "length ofs \<le> k" "ahead line z (ops_text ofs @ r) e"
    and fac: "\<And>t f r e. (t, f) \<in> set ofs \<Longrightarrow> before fac_ends r \<Longrightarrow> ahead line z (fac_text f @ r) e \<Longrightarrow>
      yields line z r (factor e) (fac_val env f)"
  shows "yields line z r (term_loop k factor x e) (trm_fold x (map (map_prod id (fac_val env)) ofs))"
  using assms
proof (induction ofs arbitrary: k e x rule: ops_text.induct)
  case 1
  then obtain tk where "tk \<in> trm_ends" "x_sym e = tk" using before_first first_fun by fastforce
  then have "\<not> is_op_token (x_sym e)" by (auto simp: trm_ends_def is_op_token_def)
  then show ?case using 1 by (subst term_loop.simps) auto
next
  case (2 t f ofs)
  let ?r = "ops_text ofs @ r"
  have r: "before fac_ends ?r" using ops_before 2 by simp
  obtain tk where f: "fac_start (fac_text f @ ?r)" "first (fac_text f @ ?r) tk" using fac_first [of f ?r] r 2 by (auto simp: before_def)
  have rd: "reads (op_text t @ fac_text f @ ?r) (op_token t) (fac_text f @ ?r) (\<lambda>_. True)" using reads_op f(1) by simp
  have a: "ahead line z (op_text t @ fac_text f @ ?r) e" using 2(5) by simp
  obtain e1 where e1: "get_sym e = Ret e1" "ahead line z (fac_text f @ ?r) e1"
    by (rule ahead_next [OF a rd f(2)]) (rule that)
  have t: "x_sym e = op_token t" "is_op_token (op_token t)" using ahead_reads [OF a rd] by simp_all
  obtain k' where k: "k = Suc k'" "length ofs \<le> k'" using 2(4) by (cases k) auto
  have "yields line z ?r (factor e1) (fac_val env f)" by (rule 2(6) [of t, OF _ r e1(2)]) simp
  then have "yields line z r
      (bindO (factor e1) (\<lambda>(f2, e).
        bindO (if \<not> EZ_SKIP e \<and> \<not> EZ_RETURN e then term_op (op_token t) x f2 else Ret x)
          (\<lambda>f1. if EZ_RETURN e then Ret (f1, e) else (case k of 0 \<Rightarrow> Blocked | Suc k \<Rightarrow> term_loop k factor f1 e))))
      (bindO (fac_val env f) (\<lambda>y. bindO (op_value t x y) (\<lambda>x. trm_fold x (map (map_prod id (fac_val env)) ofs))))"
  proof (rule yields_bind)
    fix y e2
    assume e2: "ahead line z ?r e2"
    then have fl: "\<not> EZ_SKIP e2" "\<not> EZ_RETURN e2" using before_first [OF r] ahead_first by blast+
    have IH: "yields line z r (term_loop k' factor x e2) (trm_fold x (map (map_prod id (fac_val env)) ofs))" for x
      by (rule 2(1) [OF _ 2(3) k(2) e2], use 2(2) in simp) (rule 2(6), erule list.set_intros(2))
    show "yields line z r
        (case (y, e2) of (f2, e) \<Rightarrow>
          bindO (if \<not> EZ_SKIP e \<and> \<not> EZ_RETURN e then term_op (op_token t) x f2 else Ret x)
            (\<lambda>f1. if EZ_RETURN e then Ret (f1, e) else (case k of 0 \<Rightarrow> Blocked | Suc k \<Rightarrow> term_loop k factor f1 e)))
        (bindO (op_value t x y) (\<lambda>x. trm_fold x (map (map_prod id (fac_val env)) ofs)))"
      using fl k IH by (auto simp: term_op_value intro: yields_val)
  qed
  then show ?case
    by (simp only: term_loop.simps [of k factor x e] t e1(1) bindO.simps trm_fold.simps map_fac Let_def if_True)
qed

lemma sum_loop_fold:
  assumes "list_all (\<lambda>(_, t). trm_wf t) ts" "before sum_ends r" "length ts \<le> k" "ahead line z (signs_text ts @ r) e"
    and trm: "\<And>n t r e. (n, t) \<in> set ts \<Longrightarrow> before trm_ends r \<Longrightarrow> ahead line z (trm_text t @ r) e \<Longrightarrow>
      yields line z r (trm e) (trm_val env t)"
  shows "yields line z r (sum_loop k trm x e) (sum_fold x (map (map_prod id (trm_val env)) ts))"
  using assms
proof (induction ts arbitrary: k e x rule: signs_text.induct)
  case 1
  then obtain tk where "tk \<in> sum_ends" "x_sym e = tk" using before_first first_fun by fastforce
  then have "x_sym e \<noteq> T_PLUS" "x_sym e \<noteq> T_MINUS" by (auto simp: sum_ends_def)
  then show ?case using 1 by (subst sum_loop.simps) auto
next
  case (2 neg t ts)
  let ?r = "signs_text ts @ r" and ?c = "if neg then 0x2D else 0x2B :: u8" and ?tk = "if neg then T_MINUS else T_PLUS"
  have r: "before trm_ends ?r" using signs_before 2 by simp
  obtain tk where f: "fac_start (trm_text t @ ?r)" "first (trm_text t @ ?r) tk" using trm_first [of t ?r] r 2 by auto
  have rd: "reads (sign_text neg @ trm_text t @ ?r) ?tk (trm_text t @ ?r) (\<lambda>_. True)"
    using reads_single [of ?c "trm_text t @ ?r"] f(1) by (cases neg) (simp_all add: sign_text_def single_char_def)
  have a: "ahead line z (sign_text neg @ trm_text t @ ?r) e" using 2(5) by simp
  obtain e1 where e1: "get_sym e = Ret e1" "ahead line z (trm_text t @ ?r) e1"
    by (rule ahead_next [OF a rd f(2)]) (rule that)
  have t: "x_sym e = ?tk" using ahead_reads [OF a rd] by simp
  obtain k' where k: "k = Suc k'" "length ts \<le> k'" using 2(4) by (cases k) auto
  have "yields line z ?r (trm e1) (trm_val env t)" by (rule 2(6) [of neg, OF _ r e1(2)]) simp
  then have "yields line z r
      (bindO (trm e1) (\<lambda>(f2, e). let f1 = (if EZ_SKIP e then x else if ?tk = T_PLUS then fp_add 53 11 x f2 else fp_sub 53 11 x f2)
          in if x_return e then Ret (f1, e) else (case k of 0 \<Rightarrow> Blocked | Suc k \<Rightarrow> sum_loop k trm f1 e)))
      (bindO (trm_val env t) (\<lambda>y. sum_fold (if neg then fp_sub 53 11 x y else fp_add 53 11 x y) (map (map_prod id (trm_val env)) ts)))"
  proof (rule yields_bind)
    fix y e2
    assume e2: "ahead line z ?r e2"
    then have fl: "\<not> EZ_SKIP e2" "\<not> EZ_RETURN e2" using before_first [OF r] ahead_first by blast+
    have IH: "yields line z r (sum_loop k' trm x e2) (sum_fold x (map (map_prod id (trm_val env)) ts))" for x
      by (rule 2(1) [OF _ 2(3) k(2) e2], use 2(2) in simp) (rule 2(6), erule list.set_intros(2))
    show "yields line z r
      (case (y, e2) of (f2, e) \<Rightarrow> let f1 = (if EZ_SKIP e then x else if ?tk = T_PLUS then fp_add 53 11 x f2 else fp_sub 53 11 x f2)
          in if x_return e then Ret (f1, e) else (case k of 0 \<Rightarrow> Blocked | Suc k \<Rightarrow> sum_loop k trm f1 e))
      (sum_fold (if neg then fp_sub 53 11 x y else fp_add 53 11 x y) (map (map_prod id (trm_val env)) ts))"
      using fl k IH by (cases neg) (simp_all add: Let_def)
  qed
  moreover have c: "(?tk = T_PLUS \<or> ?tk = T_MINUS) = True" by simp
  ultimately show ?case
    by (simp only: sum_loop.simps [of k trm x e] t c if_True e1(1) bindO.simps sum_fold.simps map_fac Let_def)
qed

text \<open>The three routines on a factor, a term and a sum; the fuel is at least the length of the text.\<close>

definition fac_parses :: "ez_env \<Rightarrow> bytes \<Rightarrow> ez_tables \<Rightarrow> ez_fac \<Rightarrow> bool" where
  "fac_parses env line z f \<longleftrightarrow> (\<forall>k r e. fac_wf f \<longrightarrow> length (fac_text f) \<le> k \<longrightarrow> before fac_ends r \<longrightarrow> ahead line z (fac_text f @ r) e \<longrightarrow>
     yields line z r (ez_factor k env (ez_expression k env) e) (fac_val env f))"

definition trm_parses :: "ez_env \<Rightarrow> bytes \<Rightarrow> ez_tables \<Rightarrow> ez_trm \<Rightarrow> bool" where
  "trm_parses env line z t \<longleftrightarrow> (\<forall>k r e. trm_wf t \<longrightarrow> length (trm_text t) \<le> k \<longrightarrow> before trm_ends r \<longrightarrow> ahead line z (trm_text t @ r) e \<longrightarrow>
     yields line z r (ez_term k (ez_factor k env (ez_expression k env)) e) (trm_val env t))"

definition sum_parses :: "ez_env \<Rightarrow> bytes \<Rightarrow> ez_tables \<Rightarrow> ez_sum \<Rightarrow> bool" where
  "sum_parses env line z s \<longleftrightarrow> (\<forall>k r e. sum_wf s \<longrightarrow> length (sum_text s) < k \<longrightarrow> before sum_ends r \<longrightarrow> ahead line z (sum_text s @ r) e \<longrightarrow>
     yields line z r (ez_expression k env e) (sum_val env s))"

lemma fac_parses_number: "fac_parses env line z (FNat n)"
  unfolding fac_parses_def
proof (intro allI impI)
  fix k r e
  assume wf: "fac_wf (FNat n)" and r: "before fac_ends r" and e: "ahead line z (fac_text (FNat n) @ r) e"
  have rd: "reads (fac_text (FNat n) @ r) T_NUMBER r (\<lambda>t. tz_num t = fp_round 53 11 (of_nat n))"
    using reads_number [of n r] wf r by (simp add: before_def)
  obtain tk where tk: "first r tk" using r by (auto simp: before_def)
  obtain e1 where e1: "get_sym e = Ret e1" "ahead line z r e1" by (rule ahead_next [OF e rd tk]) (rule that)
  have "x_sym e = T_NUMBER" "tz_num (x_tz e) = Num (of_nat n)" using ahead_reads [OF e rd] fp_round_nat [of n] wf by simp_all
  then show "yields line z r (ez_factor k env (ez_expression k env) e) (fac_val env (FNat n))"
    using e1 by (auto simp: ez_factor_def Let_def is_reg_token_def is_function0_token_def is_function1_token_def is_function2_token_def
        is_functionstring_token_def get_sym_num)
qed

lemma fac_ends_not_set: "tk \<in> fac_ends \<Longrightarrow> \<not> is_set_token tk"
  by (auto simp: fac_ends_def trm_ends_def is_set_token_def is_op_token_def)

lemma fac_parses_var: "fac_parses env line z (FVar v)"
  unfolding fac_parses_def
proof (intro allI impI)
  fix k r e
  assume wf: "fac_wf (FVar v)" and r: "before fac_ends r" and e: "ahead line z (fac_text (FVar v) @ r) e"
  have rd: "reads (fac_text (FVar v) @ r) T_FUNC_VAR_ALIAS r (\<lambda>t. \<forall>line. tz_line t = line \<longrightarrow> str_at line v t)"
    using reads_alias [of v r] wf r by (simp add: before_def)
  obtain tk where tk: "tk \<in> fac_ends" "first r tk" using r by (auto simp: before_def)
  obtain e1 where e1: "get_sym e = Ret e1" "ahead line z r e1" by (rule ahead_next [OF e rd tk(2)]) (rule that)
  have e': "x_sym e = T_FUNC_VAR_ALIAS" "str_at (tz_line (x_tz e)) v (x_tz e)" using ahead_reads [OF e rd] by simp_all
  then have "actual_string e = Some v" using wf by (auto simp: str_at_def actual_string_def)
  moreover have "\<not> is_set_token (x_sym e1)" using first_fun [OF tk(2) e1(2)] fac_ends_not_set [OF tk(1)] by simp
  ultimately show "yields line z r (ez_factor k env (ez_expression k env) e) (fac_val env (FVar v))"
    using e1 e' wf by (auto simp: ez_factor_def Let_def is_reg_token_def is_function0_token_def is_function1_token_def is_function2_token_def
        is_functionstring_token_def factor_alias_def getvar_def)
qed

lemma fac_parses_group: "sum_parses env line z s \<Longrightarrow> fac_parses env line z (FGroup s)"
  unfolding fac_parses_def
proof (intro allI impI)
  fix k r e
  assume s: "sum_parses env line z s" and wf: "fac_wf (FGroup s)" and k: "length (fac_text (FGroup s)) \<le> k"
    and r: "before fac_ends r" and e: "ahead line z (fac_text (FGroup s) @ r) e"
  let ?r = "0x29 # r"
  have rd: "reads (fac_text (FGroup s) @ r) T_LEFT_BANANA (sum_text s @ ?r) (\<lambda>_. True)"
    using reads_single [of "0x28" "sum_text s @ ?r"] by (simp add: single_char_def)
  have rd2: "reads ?r T_RIGHT_BANANA r (\<lambda>_. True)" using reads_single [of "0x29" r] by (simp add: single_char_def)
  then have r2: "before sum_ends ?r" by (auto simp: before_def sum_ends_def follow_def intro: firstI)
  obtain tk where tk: "first (sum_text s @ ?r) tk" using sum_first [of s ?r] wf r2 by auto
  obtain e1 where e1: "get_sym e = Ret e1" "ahead line z (sum_text s @ ?r) e1" by (rule ahead_next [OF e rd tk]) (rule that)
  have y: "yields line z ?r (ez_expression k env e1) (sum_val env s)" using s wf k r2 e1(2) by (simp add: sum_parses_def)
  obtain tk' where tk': "first r tk'" using r by (auto simp: before_def)
  have sk: "\<not> skipping e1" using ahead_first [OF e1(2) tk] by (simp add: skipping_def)
  have sym: "x_sym e = T_LEFT_BANANA" using ahead_reads [OF e rd] by simp
  have "yields line z r (bindO (ez_expression k env e1) (\<lambda>(f, e). bindO (ez_expect T_RIGHT_BANANA (e\<lparr>x_num := f\<rparr>)) (\<lambda>e. Ret (x_num e, e))))
      (sum_val env s)"
  proof (rule yields_map [OF y])
    fix x e2
    assume e2: "ahead line z ?r e2"
    then have sym: "x_sym e2 = T_RIGHT_BANANA" using ahead_reads [OF _ rd2] by simp
    obtain e3 where "get_sym (e2\<lparr>x_num := x\<rparr>) = Ret e3" "ahead line z r e3" "x_num e3 = x"
      by (rule ahead_next [OF _ rd2 tk', of line z "e2\<lparr>x_num := x\<rparr>"]) (use e2 that in simp_all)
    then show "\<exists>e'. (case (x, e2) of (f, e) \<Rightarrow> bindO (ez_expect T_RIGHT_BANANA (e\<lparr>x_num := f\<rparr>)) (\<lambda>e. Ret (x_num e, e))) = Ret (x, e') \<and> ahead line z r e'"
      using sym by (simp add: ez_expect_def ez_accept_def)
  qed
  moreover have "ez_factor k env (ez_expression k env) e = bindO (ez_expression k env e1) (\<lambda>(f, e). bindO (ez_expect T_RIGHT_BANANA (e\<lparr>x_num := f\<rparr>)) (\<lambda>e. Ret (x_num e, e)))"
    using sym e1(1) sk by (cases "ez_expression k env e1")
      (auto simp: ez_factor_def Let_def is_reg_token_def is_function0_token_def is_function1_token_def is_function2_token_def
        is_functionstring_token_def factor_group_def ez_store_def)
  ultimately show "yields line z r (ez_factor k env (ez_expression k env) e) (fac_val env (FGroup s))" by simp
qed

lemma op_text_length: "0 < length (op_text t)"
  by (cases t) simp_all

lemma ops_text_length: "length ofs \<le> length (ops_text ofs)" "(t, f) \<in> set ofs \<Longrightarrow> length (fac_text f) \<le> length (ops_text ofs)"
proof -
  show "length ofs \<le> length (ops_text ofs)"
  proof (induction ofs rule: ops_text.induct)
    case (2 t f ofs)
    then show ?case using op_text_length [of t] unfolding ops_text.simps length_append list.size by arith
  qed simp
  show "(t, f) \<in> set ofs \<Longrightarrow> length (fac_text f) \<le> length (ops_text ofs)"
    by (induction ofs rule: ops_text.induct) auto
qed

lemma signs_text_length: "length ts \<le> length (signs_text ts)" "(n, t) \<in> set ts \<Longrightarrow> length (trm_text t) \<le> length (signs_text ts)"
proof -
  show "length ts \<le> length (signs_text ts)"
    by (induction ts rule: signs_text.induct) (simp_all add: sign_text_def)
  show "(n, t) \<in> set ts \<Longrightarrow> length (trm_text t) \<le> length (signs_text ts)"
    by (induction ts rule: signs_text.induct) auto
qed

lemma trm_parses_ops:
  assumes f: "fac_parses env line z f" and fs: "\<And>t g. (t, g) \<in> set ofs \<Longrightarrow> fac_parses env line z g"
  shows "trm_parses env line z (Trm f ofs)"
  unfolding trm_parses_def
proof (intro allI impI)
  fix k r e
  let ?fac = "ez_factor k env (ez_expression k env)"
  assume wf: "trm_wf (Trm f ofs)" and k: "length (trm_text (Trm f ofs)) \<le> k" and r: "before trm_ends r"
    and e: "ahead line z (trm_text (Trm f ofs) @ r) e"
  have y: "yields line z (ops_text ofs @ r) (?fac e) (fac_val env f)"
    using f wf k ops_before r e unfolding fac_parses_def by simp
  have fac: "yields line z r (?fac e) (fac_val env g)"
    if "(t, g) \<in> set ofs" "before fac_ends r" "ahead line z (fac_text g @ r) e" for t g r e
  proof -
    have "fac_wf g" using wf that(1) by (auto simp: list_all_iff)
    then show ?thesis using fs [OF that(1)] k that ops_text_length(2) [OF that(1)] by (simp add: fac_parses_def)
  qed
  have "yields line z r (bindO (?fac e) (\<lambda>(f, e). term_loop k ?fac f e)) (trm_val env (Trm f ofs))"
    unfolding trm_val.simps
    by (rule yields_bind [OF y], simp only: prod.case, rule term_loop_fold [OF _ r])
      (use wf k ops_text_length(1) [of ofs] fac in simp_all)
  then show "yields line z r (ez_term k ?fac e) (trm_val env (Trm f ofs))" by (simp only: ez_term_def)
qed

lemma sum_parses_signs:
  assumes t: "trm_parses env line z t" and ts: "\<And>n t. (n, t) \<in> set ts \<Longrightarrow> trm_parses env line z t"
  shows "sum_parses env line z (Sum neg t ts)"
  unfolding sum_parses_def
proof (intro allI impI)
  fix k0 r e
  assume wf: "sum_wf (Sum neg t ts)" and k0: "length (sum_text (Sum neg t ts)) < k0" and r: "before sum_ends r"
    and e: "ahead line z (sum_text (Sum neg t ts) @ r) e"
  obtain k where k: "k0 = Suc k" using k0 by (cases k0) auto
  let ?trm = "ez_term k (ez_factor k env (ez_expression k env))" and ?r = "signs_text ts @ r"
  have r2: "before trm_ends ?r" using signs_before r wf by simp
  obtain tk where tk: "tk \<in> {T_NUMBER, T_FUNC_VAR_ALIAS, T_LEFT_BANANA}" "first (trm_text t @ ?r) tk" "fac_start (trm_text t @ ?r)"
    using trm_first [of t ?r] wf r2 by auto
  obtain e1 where e1: "(if x_sym e = T_PLUS \<or> x_sym e = T_MINUS then get_sym e else Ret e) = Ret e1" "ahead line z (trm_text t @ ?r) e1"
    "x_sym e = T_MINUS \<longleftrightarrow> neg"
  proof (cases neg)
    case True
    then have rd: "reads (sum_text (Sum neg t ts) @ r) T_MINUS (trm_text t @ ?r) (\<lambda>_. True)"
      using reads_single [of "0x2D" "trm_text t @ ?r"] tk(3) by (simp add: single_char_def)
    obtain e1 where "get_sym e = Ret e1" "ahead line z (trm_text t @ ?r) e1" by (rule ahead_next [OF e rd tk(2)]) (rule that)
    then show ?thesis using that True ahead_reads [OF e rd] by simp
  next
    case False
    then show ?thesis using that [of e] e first_fun [OF tk(2)] tk(1) by auto
  qed
  have y: "yields line z ?r (?trm e1) (trm_val env t)"
    using t wf k0 k r2 e1(2) unfolding trm_parses_def by simp
  have trm: "yields line z r (?trm e) (trm_val env t)"
    if "(n, t) \<in> set ts" "before trm_ends r" "ahead line z (trm_text t @ r) e" for n t r e
  proof -
    have "trm_wf t" using wf that(1) by (auto simp: list_all_iff)
    then show ?thesis using ts [OF that(1)] k0 k that signs_text_length(2) [OF that(1)] by (simp add: trm_parses_def)
  qed
  have "yields line z r (bindO (?trm e1) (\<lambda>(f1, e). sum_loop k ?trm (if neg then fp_mul 53 11 (Num (- 1)) f1 else f1) e))
      (sum_val env (Sum neg t ts))"
    unfolding sum_val.simps
    by (rule yields_bind [OF y], simp only: prod.case, rule sum_loop_fold [OF _ r])
      (use wf k0 k signs_text_length(1) [of ts] trm in simp_all)
  then show "yields line z r (ez_expression k0 env e) (sum_val env (Sum neg t ts))"
    using e1(1,3) by (simp add: k expression_body_def Let_def)
qed

lemma sum_parses_all: "sum_parses env line z s"
proof -
  have "(\<forall>f::ez_fac. fac_parses env line z f) \<and> (\<forall>t. trm_parses env line z t) \<and> (\<forall>s. sum_parses env line z s)"
  proof (intro conjI allI)
    fix f :: ez_fac and t and s
    show "fac_parses env line z f" "trm_parses env line z t" "sum_parses env line z s"
      by (induction f and t and s)
        (auto intro!: fac_parses_number fac_parses_var fac_parses_group trm_parses_ops sum_parses_signs)
  qed
  then show ?thesis by blast
qed

section \<open>The pass that loads functions\<close>

text \<open>\<open>loads\<close>: the pass goes over the text to its end and enters nothing\<close>

definition loads :: "bytes \<Rightarrow> bytes \<Rightarrow> ez_tables \<Rightarrow> bool" where
  "loads s line z \<longleftrightarrow> (\<forall>k t. length s \<le> k \<longrightarrow> tz_at line s t \<longrightarrow> (\<exists>t'. load_tokens k t z = Ret (T_EOF, t', z)))"

lemma loads_Nil: "loads [] line z"
  unfolding loads_def
proof (intro allI impI)
  fix k t
  assume "tz_at line [] t"
  then obtain t' where "next_token_ex (length (tz_line t)) True t z = Ret (T_EOF, t', z)"
    using reads_end unfolding reads_def by meson
  then show "\<exists>t'. load_tokens k t z = Ret (T_EOF, t', z)" by (subst load_tokens.simps) simp
qed

lemma loads_reads:
  assumes "reads s tk r Q" "tk < 0xFD" "length r < length s" "loads r line z"
  shows "loads s line z"
  unfolding loads_def
proof (intro allI impI)
  fix k t
  assume k: "length s \<le> k" and t: "tz_at line s t"
  obtain t' where t': "next_token_ex (length (tz_line t)) True t z = Ret (tk, t', z)" "tz_at line r t'"
    using assms(1) t unfolding reads_def by meson
  obtain k' where k': "k = Suc k'" "length r \<le> k'" using k assms(3) by (cases k) auto
  then obtain t2 where "load_tokens k' t' z = Ret (T_EOF, t2, z)" using assms(4) t'(2) by (auto simp: loads_def)
  then show "\<exists>t'. load_tokens k t z = Ret (T_EOF, t', z)"
    using t'(1) k'(1) assms(2) by (subst load_tokens.simps) simp
qed

definition fac_loads :: "ez_fac \<Rightarrow> bool" where
  "fac_loads f \<longleftrightarrow> (\<forall>r line z. fac_wf f \<longrightarrow> before fac_ends r \<longrightarrow> loads r line z \<longrightarrow> loads (fac_text f @ r) line z)"

definition trm_loads :: "ez_trm \<Rightarrow> bool" where
  "trm_loads t \<longleftrightarrow> (\<forall>r line z. trm_wf t \<longrightarrow> before trm_ends r \<longrightarrow> loads r line z \<longrightarrow> loads (trm_text t @ r) line z)"

definition sum_loads :: "ez_sum \<Rightarrow> bool" where
  "sum_loads s \<longleftrightarrow> (\<forall>r line z. sum_wf s \<longrightarrow> before sum_ends r \<longrightarrow> loads r line z \<longrightarrow> loads (sum_text s @ r) line z)"

lemma fac_loads_group: "sum_loads s \<Longrightarrow> fac_loads (FGroup s)"
  unfolding fac_loads_def
proof (intro allI impI)
  fix r line z
  assume s: "sum_loads s" "fac_wf (FGroup s)" "before fac_ends r" "loads r line z"
  let ?r = "0x29 # r"
  have rd: "reads ?r T_RIGHT_BANANA r (\<lambda>_. True)" using reads_single [of "0x29" r] by (simp add: single_char_def)
  then have r: "before sum_ends ?r" by (auto simp: before_def sum_ends_def follow_def intro: firstI)
  have "loads ?r line z" by (rule loads_reads [OF rd]) (use s(4) in simp_all)
  then have l: "loads (sum_text s @ ?r) line z" using s(1,2) r by (simp add: sum_loads_def)
  have rd2: "reads (0x28 # sum_text s @ ?r) T_LEFT_BANANA (sum_text s @ ?r) (\<lambda>_. True)"
    using reads_single [of "0x28" "sum_text s @ ?r"] by (simp add: single_char_def)
  have "loads (0x28 # sum_text s @ ?r) line z" by (rule loads_reads [OF rd2 _ _ l]) simp_all
  then show "loads (fac_text (FGroup s) @ r) line z" by simp
qed

lemma ops_loads:
  assumes "list_all (\<lambda>(_, f). fac_wf f) ofs" "before trm_ends r" "loads r line z" "\<And>t f. (t, f) \<in> set ofs \<Longrightarrow> fac_loads f"
  shows "loads (ops_text ofs @ r) line z"
  using assms
proof (induction ofs rule: ops_text.induct)
  case (2 t f ofs)
  let ?r = "ops_text ofs @ r"
  have r: "before fac_ends ?r" using ops_before 2 by simp
  have "loads ?r line z" by (rule 2(1)) (use 2 in auto)
  moreover have "fac_loads f" by (rule 2(5) [of t]) simp
  ultimately have l: "loads (fac_text f @ ?r) line z" using r 2(2) by (simp add: fac_loads_def)
  have rd: "reads (op_text t @ fac_text f @ ?r) (op_token t) (fac_text f @ ?r) (\<lambda>_. True)"
    using reads_op [of "fac_text f @ ?r" t] fac_first [of f ?r] r 2(2) by (simp add: before_def)
  have "loads (op_text t @ fac_text f @ ?r) line z"
    by (rule loads_reads [OF rd _ _ l]) (use op_token_op [of t] op_text_length [of t] in \<open>simp_all add: is_op_token_def\<close>)
  then show ?case by simp
qed simp

lemma signs_loads:
  assumes "list_all (\<lambda>(_, t). trm_wf t) ts" "before sum_ends r" "loads r line z" "\<And>n t. (n, t) \<in> set ts \<Longrightarrow> trm_loads t"
  shows "loads (signs_text ts @ r) line z"
  using assms
proof (induction ts rule: signs_text.induct)
  case (2 neg t ts)
  let ?r = "signs_text ts @ r" and ?c = "if neg then 0x2D else 0x2B :: u8" and ?tk = "if neg then T_MINUS else T_PLUS"
  have r: "before trm_ends ?r" using signs_before 2 by simp
  have "loads ?r line z" by (rule 2(1)) (use 2 in auto)
  moreover have "trm_loads t" by (rule 2(5) [of neg]) simp
  ultimately have l: "loads (trm_text t @ ?r) line z" using r 2(2) by (simp add: trm_loads_def)
  have rd: "reads (sign_text neg @ trm_text t @ ?r) ?tk (trm_text t @ ?r) (\<lambda>_. True)"
    using reads_single [of ?c "trm_text t @ ?r"] trm_first [of t ?r] r 2(2) by (cases neg) (simp_all add: sign_text_def single_char_def)
  have "loads (sign_text neg @ trm_text t @ ?r) line z"
    by (rule loads_reads [OF rd _ _ l]) (simp_all add: sign_text_def)
  then show ?case by simp
qed simp

lemma sum_loads_all: "sum_loads s"
proof -
  have n: "fac_loads (FNat n)" for n
    unfolding fac_loads_def before_def fac_text.simps fac_wf.simps
    using loads_reads [OF reads_number] by simp
  have v: "fac_loads (FVar v)" for v
    unfolding fac_loads_def before_def fac_text.simps fac_wf.simps
    using loads_reads [OF reads_alias] by simp
  have t: "trm_loads (Trm f ofs)" if "fac_loads f" "\<And>t g. (t, g) \<in> set ofs \<Longrightarrow> fac_loads g" for f ofs
    using that ops_before ops_loads [of ofs _ _ _ ] unfolding trm_loads_def fac_loads_def by simp
  have s: "sum_loads (Sum neg t ts)" if t: "trm_loads t" and ts: "\<And>n t. (n, t) \<in> set ts \<Longrightarrow> trm_loads t" for neg t ts
    unfolding sum_loads_def
  proof (intro allI impI)
    fix r line z
    assume wf: "sum_wf (Sum neg t ts)" and r: "before sum_ends r" "loads r line z"
    have "loads (signs_text ts @ r) line z" by (rule signs_loads) (use wf r ts in auto)
    moreover have r2: "before trm_ends (signs_text ts @ r)" using signs_before wf r by simp
    ultimately have l: "loads (trm_text t @ signs_text ts @ r) line z" using t wf by (simp add: trm_loads_def)
    have "reads (0x2D # trm_text t @ signs_text ts @ r) T_MINUS (trm_text t @ signs_text ts @ r) (\<lambda>_. True)"
      using reads_single [of "0x2D"] trm_first [OF _ r2, of t] wf by (simp add: single_char_def)
    then have "loads (0x2D # trm_text t @ signs_text ts @ r) line z" by (rule loads_reads) (use l in simp_all)
    then show "loads (sum_text (Sum neg t ts) @ r) line z" using l by simp
  qed
  have "(\<forall>f::ez_fac. fac_loads f) \<and> (\<forall>t. trm_loads t) \<and> (\<forall>s. sum_loads s)"
  proof (intro conjI allI)
    fix f :: ez_fac and u and s
    show "fac_loads f" "trm_loads u" "sum_loads s"
      by (induction f and u and s) (auto intro!: n v t s fac_loads_group)
  qed
  then show ?thesis by blast
qed

section \<open>Evaluation\<close>

lemma tz_at_start [simp]: "tz_at line line (tokenizer_at line)"
  by (simp add: tz_at_def tokenizer_at_def)

definition ez_first :: "bytes \<Rightarrow> bytes \<Rightarrow> ez_tables \<Rightarrow> ez_exp" where
  "ez_first line name z = ez_exp_zero\<lparr>x_tz := tokenizer_at line, x_tabs := z, x_param := Some name\<rparr>"

lemma ez_start_loads: "loads line line z \<Longrightarrow> ez_start line (Some name) z = Ret (ez_first line name z)"
proof -
  assume "loads line line z"
  then obtain t where "load_tokens (length line) (tokenizer_at line) z = Ret (T_EOF, t, z)"
    unfolding loads_def using tz_at_start by blast
  then show ?thesis by (simp add: ez_start_def ez_tokenizer_init_def ez_first_def)
qed

lemma ez_first_props: "ex_at line z line (ez_first line name z)" "\<not> tz_err (x_tz (ez_first line name z))" "x_param (ez_first line name z) = Some name"
  by (simp_all add: ez_first_def ex_at_def ez_exp_zero_def tokenizer_at_def tz_at_def)

lemma ez_evaluate_text:
  assumes wf: "sum_wf s" and k: "length (sum_text s) < k"
  shows "ez_evaluate k env (sum_text s @ [0x3B]) name z = bindO (sum_val env s) (\<lambda>v. Ret (v, False, z))"
proof -
  let ?l = "sum_text s @ [0x3B]"
  have semi: "reads [0x3B] T_SEMICOLON [] (\<lambda>_. True)" using reads_single [of "0x3B" "[]"] by (simp add: single_char_def)
  then have b: "before sum_ends [0x3B]" by (auto simp: before_def sum_ends_def follow_def intro: firstI)
  have "loads [0x3B] ?l z" by (rule loads_reads [OF semi _ _ loads_Nil]) simp_all
  then have "loads ?l ?l z" using sum_loads_all [of s] wf b by (simp add: sum_loads_def)
  then have start: "ez_start ?l (Some name) z = Ret (ez_first ?l name z)" by (rule ez_start_loads)
  let ?e = "ez_first ?l name z"
  note e0 = ez_first_props(1) [of ?l z name]
  obtain tk r Q where rd: "reads ?l tk r Q" using sum_first [OF wf b] by (auto simp: first_def)
  obtain e1 where e1: "get_sym ?e = Ret e1" using get_sym_reads [OF e0 rd] by blast
  then have a: "ahead ?l z ?l e1" using e0 by (auto simp: ahead_def)
  have y: "yields ?l z [0x3B] (ez_expression k env e1) (sum_val env s)"
    using sum_parses_all [of env ?l z s] wf k b a unfolding sum_parses_def by blast
  note err = ez_first_props(2) [of ?l name z]
  show ?thesis
  proof (cases "sum_val env s")
    case (Ret v)
    then obtain e2 where e2: "ez_expression k env e1 = Ret (v, e2)" "ahead ?l z [0x3B] e2" using y by (auto simp: yields_def)
    obtain e3 where e3: "get_sym e2 = Ret e3" "ahead ?l z [] e3" "x_sym e3 = T_EOF"
      by (rule ahead_next [OF e2(2) semi firstI [OF reads_end]]) (rule that)
    have e2': "x_sym e2 = T_SEMICOLON" using ahead_reads [OF e2(2) semi] by simp
    have e3': "\<not> x_return e3" "ex_at ?l z [] e3" using ahead_reads [OF e3(2) reads_end] by (simp_all add: ex_at_def)
    obtain e4 where e4: "get_sym e3 = Ret e4" "ex_at ?l z [] e4" using get_sym_reads [OF e3'(2) reads_end] by blast
    have "ez_exp_run k env ?l (Some name) z = Ret (v, e4)"
      unfolding ez_exp_run_def start using err e1 e2 e3 e3' e4 e2'
      by (simp add: expression_comma_def comma_loop.simps [of k] ez_expect_def ez_accept_def)
    then show ?thesis using Ret e4(2) by (simp add: ez_evaluate_def ex_at_def)
  qed (use y start err e1 in \<open>simp_all add: ez_evaluate_def ez_exp_run_def yields_def expression_comma_def\<close>)
qed

text \<open>
  Claim C4.  Parsing is evaluation.  Take any expression of the grammar: sums of terms, terms of factors with the sixteen operators,
  factors that are whole numbers of at most 15 digits, names \<open>#name\<close> of variables or sums in brackets, to any
  depth, and its text, which has no blanks.  Then \<open>evaluate\<close> of the text followed by a semicolon gives the value of the expression without an
  error and leaves the tables of names as they were; where an operator is undefined for its operands, so is the call.  The value goes from left
  to right with one precedence for all operators but plus and minus, and what each operator means is said
  by the sign that stands for it in the text, apart from the code.  Fuel of the length of the text is enough.
\<close>

theorem ez_evaluate_sum:
  assumes wf: "sum_wf s" and k: "length (sum_text s) < k"
  shows "ez_evaluate k env (sum_text s @ [0x3B]) name z = bindO (sum_val env s) (\<lambda>v. Ret (v, False, z))"
  using assms by (rule ez_evaluate_text)

theorem ez_evaluate_sum_witness:
  "ez_evaluate 20 \<lparr>v_math = \<lambda>t x. x, v_fun0 = \<lambda>t n. Num 0, v_var = \<lambda>n. Num 7\<rparr> (asc ''-2+#x*(3-1);'') [] ez_tables_init =
     Ret (Num 12, False, ez_tables_init)"
proof -
  let ?s = "Sum True (Trm (FNat 2) []) [(False, Trm (FVar (asc ''x'')) [(Mul, FGroup (Sum False (Trm (FNat 3) []) [(True, Trm (FNat 1) [])]))])]"
  have t: "sum_text ?s @ [0x3B] = asc ''-2+#x*(3-1);''" by code_simp
  have x: "list_all (\<lambda>c. name_char c \<and> c \<noteq> 0x40) (asc ''x'') \<and> asc ''x'' \<noteq> []" by code_simp
  then have wf: "sum_wf ?s" by simp
  have l: "length (sum_text ?s) < 20" by code_simp
  have "fp_round 53 11 2 = Num 2" "fp_round 53 11 14 = Num 14" "fp_round 53 11 (- 2) = Num (- 2)" "fp_round 53 11 12 = Num 12"
    using fp_round_int [of 2] fp_round_int [of 14] fp_round_int [of "- 2"] fp_round_int [of 12] by simp_all
  then have v: "sum_val \<lparr>v_math = \<lambda>t x. x, v_fun0 = \<lambda>t n. Num 0, v_var = \<lambda>n. Num 7\<rparr> ?s = Ret (Num 12)"
    by (simp add: fp_sub_def)
  show ?thesis using ez_evaluate_sum [OF wf l, of _ "[]" ez_tables_init] unfolding t by (simp only: v bindO.simps)
qed

end
