(* ===== verification/Ez_Vars.thy ===== *)
theory Ez_Vars
  imports Ez_Spec Ext_Refresh
begin

text \<open>
  The expression language inside the gateway: expressions of variables, \<open>drivers/varmanage/varmanage.c\<close>, are evaluated over
  the list of variables.  The evaluator that the refresh of a variable takes as an argument is here the interpreter.
\<close>

section \<open>Expressions of variables\<close>

text \<open>The value of the first variable of a name, enabled or not\<close>

definition bVarManage_GetExtValueWithName :: "bytes \<Rightarrow> ext_data list \<Rightarrow> fp option" where
  "bVarManage_GetExtValueWithName name ds =
     (case find (\<lambda>d. szName d = name) ds of
        None \<Rightarrow> None
      | Some d \<Rightarrow> bVarManage_GetExtValue d (btOutVarType (xIo d)))"

text \<open>\<open>_getvar\<close>: what is not found, or has no value, counts as 0\<close>

definition var_value :: "ext_data list \<Rightarrow> bytes \<Rightarrow> fp" where
  "var_value ds name = (case bVarManage_GetExtValueWithName name ds of None \<Rightarrow> Num 0 | Some x \<Rightarrow> x)"

text \<open>\<open>evaluate\<close> as the refresh of a variable calls it: the value, or nothing when the call reports an error.  The tables of names are those
  before the call: what a text would add to them is not carried on.\<close>

definition ez_evaluator ::
  "nat \<Rightarrow> (ez_token \<Rightarrow> fp \<Rightarrow> fp) \<Rightarrow> (ez_token \<Rightarrow> nat \<Rightarrow> fp) \<Rightarrow> ez_tables \<Rightarrow> evaluator" where
  "ez_evaluator k m f z ds text name =
     bindO (ez_evaluate k \<lparr>v_math = m, v_fun0 = f, v_var = var_value ds\<rparr> text name z) (\<lambda>(x, err, _).
       Ret (if err then None else Some x))"

section \<open>Values of expressions are doubles\<close>

lemma on_unsigned_in:
  assumes "on_unsigned g x y = Ret z" "\<And>a b c. a < 2 ^ 32 \<Longrightarrow> b < 2 ^ 32 \<Longrightarrow> g a b = Some c \<Longrightarrow> c < 2 ^ 32"
  shows "fp_in 53 11 z"
proof -
  obtain a b c where c: "unsigned_arg x = Some a" "unsigned_arg y = Some b" "g a b = Some c" "z = Num (of_nat c)"
    using assms(1) by (auto simp: on_unsigned_def split: option.splits)
  have f: "nat \<lfloor>r\<rfloor> < 2 ^ 32" if "r < 2 ^ 32" for r :: rat
  proof -
    have "\<lfloor>r\<rfloor> < 2 ^ 32" using that by (simp add: floor_less_iff)
    then show ?thesis by (cases "0 \<le> \<lfloor>r\<rfloor>") (simp_all only: nat_less_iff, simp_all)
  qed
  have l: "n < 2 ^ 32" if "unsigned_arg v = Some n" for v n
    using that f by (fastforce simp: unsigned_arg_def split: option.splits if_splits)
  have "a < 2 ^ 32" "b < 2 ^ 32" using l c(1,2) by blast+
  then have "c < 2 ^ 32" using assms(2) c(3) by blast
  then show ?thesis using is_fp_int [of "int c"] by (simp add: c(4))
qed

lemma bits_32:
  fixes a b :: nat
  assumes "a < 2 ^ 32" "b < 2 ^ 32"
  shows "a OR b < 2 ^ 32" "a AND b < 2 ^ 32" "a XOR b < 2 ^ 32"
proof -
  have t: "take_bit 32 a = a" "take_bit 32 b = b" using assms by (simp_all add: take_bit_nat_eq_self)
  then have "take_bit 32 (a OR b) = a OR b" "take_bit 32 (a AND b) = a AND b" "take_bit 32 (a XOR b) = a XOR b" by simp_all
  then show "a OR b < 2 ^ 32" "a AND b < 2 ^ 32" "a XOR b < 2 ^ 32" using take_bit_nat_less_exp by metis+
qed

lemma op_value_in: "op_value t x y = Ret z \<Longrightarrow> fp_in 53 11 z"
proof -
  assume z: "op_value t x y = Ret z"
  have b: "is_fp 53 11 1" using is_fp_int [of 1] by simp
  have d: "a div 2 ^ n \<le> a" for a n :: nat by simp
  show ?thesis using z
    by (cases t) (auto simp: truth_def b fp_in_arith split: if_splits dest!: on_unsigned_in intro: le_less_trans [OF d] le_less_trans [OF mod_less_eq_dividend] bits_32)
qed

lemma trm_fold_in:
  "trm_fold x vs = Ret z \<Longrightarrow> fp_in 53 11 x \<Longrightarrow> fp_in 53 11 z"
  by (induction x vs rule: trm_fold.induct) (auto dest: op_value_in)

lemma sum_fold_in:
  "sum_fold x vs = Ret z \<Longrightarrow> fp_in 53 11 x \<Longrightarrow> fp_in 53 11 z"
  by (induction x vs rule: sum_fold.induct) (auto simp: fp_in_arith)

lemma sum_val_in:
  assumes env: "\<And>n. fp_in 53 11 (v_var env n)"
  shows "(fac_wf f \<longrightarrow> fac_val env f = Ret z \<longrightarrow> fp_in 53 11 z) \<and>
    (trm_wf t \<longrightarrow> trm_val env t = Ret z \<longrightarrow> fp_in 53 11 z) \<and> (sum_wf s \<longrightarrow> sum_val env s = Ret z \<longrightarrow> fp_in 53 11 z)"
proof -
  have nat: "is_fp 53 11 (of_nat n)" if "n < 1000000000000000" for n using is_fp_int [of "int n"] that by simp
  have "\<And>z. fac_wf f \<Longrightarrow> fac_val env f = Ret z \<Longrightarrow> fp_in 53 11 z" "\<And>z. trm_wf t \<Longrightarrow> trm_val env t = Ret z \<Longrightarrow> fp_in 53 11 z"
      "\<And>z. sum_wf s \<Longrightarrow> sum_val env s = Ret z \<Longrightarrow> fp_in 53 11 z"
    by (induction f and t and s) (auto simp: env nat fp_in_arith dest: trm_fold_in sum_fold_in split: if_splits)
  then show ?thesis by blast
qed

lemma var_value_in: "fp_in 53 11 (var_value ds n)"
  by (auto simp: var_value_def bVarManage_GetExtValueWithName_def bVarManage_GetExtValue_def split: option.splits dest: fp_in_get)

section \<open>What an expression does to its variable\<close>



end
