(* ===== verification/Ez_Limits.thy ===== *)
theory Ez_Limits
  imports Ez_Spec
begin

text \<open>
  Texts on which the expression language does not do what they say: words the tokenizer does not know, and names of variables at
  the very end of a text.
\<close>

section \<open>Unknown words\<close>

lemma unknown_word_stays:
  "x_sym e = T_FUNC_FUNCTION \<Longrightarrow> ez_expression (Suc k) env e = Ret (x_num e, e)"
  by (simp add: expression_body_def ez_term_def ez_factor_def is_reg_token_def term_loop.simps is_op_token_def sum_loop.simps)

lemma unknown_after_block:
  assumes "x_sym e = T_FUNC_FUNCTION" "x_last e = T_RIGHT_BRACES"
  shows "comma_loop j (ez_expression k env) f e = Blocked"
proof (induction j arbitrary: f)
  case 0
  show ?case using assms unknown_word_stays [OF assms(1)] by (subst comma_loop.simps) (cases k; simp del: ez_expression.simps(2))
next
  case (Suc j)
  show ?case using assms unknown_word_stays [OF assms(1)] Suc by (subst comma_loop.simps) (cases k; simp del: ez_expression.simps(2))
qed

text \<open>Words the tokenizer does not know, and the texts before them\<close>

definition is_word :: "bytes \<Rightarrow> bool" where
  "is_word w \<longleftrightarrow> w \<noteq> [] \<and> length w \<le> EZ_KEYWORD_SIZE \<and> list_all keyword_char w \<and> \<not> is_dec (hd w)"

lemma keyword_char_no_op:
  assumes "keyword_char c"
  shows "is_char_token c = T_NONE" "is_equal_char_token c d = T_NONE" "is_same_char_token c d = T_NONE" "is_shift_num_token c d e = T_NONE"
    "\<not> is_space c" "c \<notin> {0x24, 0x40, 0x22, 0x27, 0x23, 0x2F}"
  using assms unfolding keyword_char_def
  by (auto simp: is_char_token_def is_equal_char_token_def is_same_char_token_def is_shift_num_token_def is_space_def word_le_nat_alt)

lemma is_space_blank: "is_space 0x20"
  by (simp add: is_space_def)

lemma next_token_unknown:
  assumes t: "tz_at line (0x20 # w) t" and w: "is_word w" "ez_hash_get w (z_tok z) = Ret None"
  shows "\<exists>t'. next_token_ex k load t z = Ret (T_FUNC_FUNCTION, t', z) \<and> tz_at line [] t'"
proof -
  have c: "w \<noteq> []" "keyword_char (hd w)" "\<not> is_dec (hd w)" using w(1) by (cases w; simp add: is_word_def)+
  note no = keyword_char_no_op [OF c(2)]
  have st: "starts w" using no c(1) by (intro starts_not_slash) auto
  have d: "dropWhile is_space (0x20 # w) = w" using c(1) no(5) is_space_blank by (cases w) simp_all
  have sk: "skip_blanks (0x20 # w) = Ret w"
    using st by (subst skip_blanks.simps) (simp only: d Let_def starts_def outcome.case option.case)
  have "peek w 0 = hd w" using c(1) by (cases w) (simp_all add: peek_def)
  then have lc: "lex_char w = None" using no by (simp add: lex_char_def)
  have tw: "takeWhile (\<lambda>c. keyword_char c \<or> 0x80 \<le> c) w = w" using w(1) by (simp add: is_word_def list_all_iff)
  have lk: "lex_keyword w = Ret w"
    using w(1) unfolding lex_keyword_def tw by (simp add: is_word_def KEY_ARRAY_def peek_def)
  have m: "tz_at line w (move_to w t)" using tz_at_move [of line "[0x20]" w t] t by simp
  then have m2: "tz_at line [] ((move_to w t)\<lparr>tz_str := None, tz_size := 0, tz_p := tz_p (move_to w t) + length w\<rparr>)"
    using tz_at_skip [of line w "[]" "(move_to w t)\<lparr>tz_str := None, tz_size := 0\<rparr>"] by simp
  have l: "\<not> length (tz_line t) < tz_p t" "rest t = 0x20 # w" using tz_at_rest [OF t] by simp_all
  show ?thesis
    using m2 no(6) c(1,3) w(2)
    by (subst next_token_ex.simps) (simp add: l sk lc lk Let_def)
qed

lemma reads_char:
  assumes "starts (u @ r)" "hd (u @ r) \<noteq> 0x24" "hd (u @ r) \<noteq> 0x40" "lex_char (u @ r) = Some (tk, length u)" "tk \<noteq> T_ERROR"
  shows "reads (u @ r) tk r (\<lambda>_. True)"
  using assms next_token_char [of _ u r] unfolding reads_def by blast

text \<open>The text of a block with a number in it, a space, and the word\<close>

definition hang_text :: "bytes \<Rightarrow> bytes" where
  "hang_text w = 0x7B # dec_digits 1 @ 0x3B # 0x7D # 0x20 # w"

lemmas char_tests = starts_not_slash is_space_def lex_char_def peek_def is_shift_num_token_def is_same_char_token_def
  is_equal_char_token_def is_char_token_def

lemma hang_reads:
  "reads (hang_text w) T_LEFT_BRACES (dec_digits 1 @ 0x3B # 0x7D # 0x20 # w) (\<lambda>_. True)"
  "reads (dec_digits 1 @ 0x3B # 0x7D # 0x20 # w) T_NUMBER (0x3B # 0x7D # 0x20 # w) (\<lambda>t. tz_num t = fp_round 53 11 (of_nat 1))"
  "reads (0x3B # 0x7D # 0x20 # w) T_SEMICOLON (0x7D # 0x20 # w) (\<lambda>_. True)"
  "reads (0x7D # 0x20 # w) T_RIGHT_BRACES (0x20 # w) (\<lambda>_. True)"
proof -
  show "reads (hang_text w) T_LEFT_BRACES (dec_digits 1 @ 0x3B # 0x7D # 0x20 # w) (\<lambda>_. True)"
    using reads_char [of "[0x7B]" "dec_digits 1 @ 0x3B # 0x7D # 0x20 # w" T_LEFT_BRACES]
    by (simp add: char_tests hang_text_def dec_digits.simps)
  show "reads (dec_digits 1 @ 0x3B # 0x7D # 0x20 # w) T_NUMBER (0x3B # 0x7D # 0x20 # w) (\<lambda>t. tz_num t = fp_round 53 11 (of_nat 1))"
    by (rule reads_number) (simp_all add: follow_def)
  show "reads (0x3B # 0x7D # 0x20 # w) T_SEMICOLON (0x7D # 0x20 # w) (\<lambda>_. True)"
    using reads_single [of "0x3B" "0x7D # 0x20 # w"] by (simp add: single_char_def)
  show "reads (0x7D # 0x20 # w) T_RIGHT_BRACES (0x20 # w) (\<lambda>_. True)"
    using reads_char [of "[0x7D]" "0x20 # w" T_RIGHT_BRACES] by (simp add: char_tests)
qed

lemma unknown_loads:
  assumes w: "is_word w" "ez_hash_get w (z_tok z) = Ret None"
  shows "loads (0x20 # w) l z"
  unfolding loads_def
proof (intro allI impI)
  fix k t
  assume k: "length (0x20 # w) \<le> k" and t: "tz_at l (0x20 # w) t"
  obtain t' where t': "next_token_ex (length (tz_line t)) True t z = Ret (T_FUNC_FUNCTION, t', z)" "tz_at l [] t'"
    using next_token_unknown [OF t w] by blast
  obtain k' where k': "k = Suc k'" using k by (cases k) auto
  obtain t2 where "load_tokens k' t' z = Ret (T_EOF, t2, z)" using loads_Nil [of l z] t'(2) by (auto simp: loads_def)
  then show "\<exists>t'. load_tokens k t z = Ret (T_EOF, t', z)" using t'(1) k' by (subst load_tokens.simps) simp
qed

lemma hang_start:
  assumes "is_word w" "ez_hash_get w (z_tok z) = Ret None"
  shows "ez_start (hang_text w) (Some name) z = Ret (ez_first (hang_text w) name z)"
  by (intro ez_start_loads loads_reads [OF hang_reads(1)] loads_reads [OF hang_reads(2)] loads_reads [OF hang_reads(3)]
      loads_reads [OF hang_reads(4)] unknown_loads assms) (simp_all add: hang_text_def)

text \<open>A statement that is a number, and the block around it\<close>

lemmas factor_tests = is_reg_token_def is_function0_token_def is_function1_token_def is_function2_token_def is_functionstring_token_def
  is_op_token_def

lemma number_statement:
  assumes "x_sym e = T_NUMBER" "get_sym (e\<lparr>x_num := tz_num (x_tz e)\<rparr>) = Ret e'" "x_sym e' = T_SEMICOLON"
  shows "ez_expression (Suc j) env e = Ret (x_num e', e')"
  using assms by (simp add: expression_body_def ez_term_def ez_factor_def factor_tests term_loop.simps sum_loop.simps)

lemma block_then_word:
  assumes e1: "x_sym e1 = T_LEFT_BRACES" "get_sym e1 = Ret e2" "\<not> skipping e2"
    and c: "expression_comma (Suc j) (ez_expression (Suc j) env) e2 = Ret (f, e4)"
    and e4: "x_sym e4 = T_RIGHT_BRACES" "get_sym (e4\<lparr>x_num := f\<rparr>) = Ret e5" "x_sym e5 = T_FUNC_FUNCTION"
  shows "ez_expression (Suc (Suc j)) env e1 = Ret (x_num e5, e5)"
  using assms
  by (simp add: ez_expression.simps(2) [of "Suc j"] expression_body_def ez_term_def ez_factor_def factor_tests factor_block_def
      ez_store_def ez_expect_def ez_accept_def term_loop.simps sum_loop.simps del: ez_expression.simps)

lemma block_no_fuel:
  assumes "x_sym e1 = T_LEFT_BRACES" "get_sym e1 = Ret e2" "\<not> skipping e2"
  shows "ez_expression (Suc 0) env e1 = Blocked"
  using assms by (simp add: expression_body_def ez_term_def ez_factor_def factor_tests factor_block_def ez_store_def expression_comma_def)

text \<open>However much fuel there is, the loop over the statements does not pass the word.\<close>

lemma hang_loop:
  assumes w: "is_word w" "ez_hash_get w (z_tok z) = Ret None"
    and e1: "x_sym e1 = T_LEFT_BRACES" "ex_at (hang_text w) z (dec_digits 1 @ 0x3B # 0x7D # 0x20 # w) e1"
  shows "expression_comma k (ez_expression k env) e1 = Blocked"
proof -
  let ?l = "hang_text w"
  obtain e2 where e2: "get_sym e1 = Ret e2" "x_sym e2 = T_NUMBER" "ex_at ?l z (0x3B # 0x7D # 0x20 # w) e2"
    using get_sym_reads [OF e1(2) hang_reads(2)] by blast
  obtain e3 where e3: "get_sym (e2\<lparr>x_num := tz_num (x_tz e2)\<rparr>) = Ret e3" "x_sym e3 = T_SEMICOLON" "ex_at ?l z (0x7D # 0x20 # w) e3"
    using get_sym_reads [OF _ hang_reads(3), where e = "e2\<lparr>x_num := tz_num (x_tz e2)\<rparr>"] e2(3) by (metis ex_at_num)
  obtain e4 where e4: "get_sym e3 = Ret e4" "x_sym e4 = T_RIGHT_BRACES" "ex_at ?l z (0x20 # w) e4"
    using get_sym_reads [OF e3(3) hang_reads(4)] by blast
  obtain t' where t': "next_token_ex (length ?l) False (x_tz e4) z = Ret (T_FUNC_FUNCTION, t', z)"
    using next_token_unknown [OF _ w, of ?l "x_tz e4"] e4(3) unfolding ex_at_def by blast
  obtain e5 where e5: "get_sym (e4\<lparr>x_num := x_num e3\<rparr>) = Ret e5" "x_sym e5 = T_FUNC_FUNCTION" "x_last e5 = T_RIGHT_BRACES"
    using e4 t' by (simp add: get_sym_def ez_tokenizer_get_next_token_def ex_at_def tz_at_def Let_def)
  have sk: "\<not> skipping e2" using e2(3) by (simp add: skipping_def ex_at_def)
  have "expression_comma (Suc j) (ez_expression (Suc i) env) e2 = Ret (x_num e3, e4)" for i j
    unfolding expression_comma_def number_statement [OF e2(2) e3(1,2)] using e3 e4 by (simp add: comma_loop.simps [of "Suc j"])
  then have "ez_expression (Suc (Suc j)) env e1 = Ret (x_num e5, e5)" for j
    by (rule block_then_word [OF e1(1) e2(1) sk _ e4(2) e5(1,2)])
  then show ?thesis
    using block_no_fuel [OF e1(1) e2(1) sk] unknown_after_block [OF e5(2,3)]
    by (cases k; cases "k - 1") (auto simp: expression_comma_def simp del: ez_expression.simps(2))
qed

text \<open>
  Claim C36.  A word that is no word of the language, right behind a block in braces, is never passed: with every amount of fuel the
  evaluation of such a text is still going on, in the loop over the statements, which sees the closing brace as the last token.
\<close>

theorem ez_unknown_word_hangs:
  assumes w: "is_word w" "ez_hash_get w (z_tok z) = Ret None"
  shows "ez_evaluate k env (asc ''{1;} '' @ w) name z = Blocked"
proof -
  have l: "asc ''{1;} '' @ w = hang_text w" by (simp add: hang_text_def asc_def dec_digits.simps)
  obtain e1 where "get_sym (ez_first (hang_text w) name z) = Ret e1" "x_sym e1 = T_LEFT_BRACES"
    "ex_at (hang_text w) z (dec_digits 1 @ 0x3B # 0x7D # 0x20 # w) e1"
    using get_sym_reads [OF ez_first_props(1) hang_reads(1)] by blast
  with hang_loop [OF w] show ?thesis
    unfolding ez_evaluate_def ez_exp_run_def l hang_start [OF w] using ez_first_props(2) [of "hang_text w" name z] by simp
qed

lemma ez_unknown_word_hangs_witness:
  "\<forall>k. ez_evaluate k \<lparr>v_math = \<lambda>t x. x, v_fun0 = \<lambda>t n. Num 0, v_var = \<lambda>n. Num 7\<rparr> (asc ''{1;} retrun'') [] ez_tables_init = Blocked"
proof
  fix k
  have "is_word (asc ''retrun'')" by code_simp
  moreover have "map_of (rev keyword_to_tokens) (asc ''retrun'') = None" by code_simp
  then have "ez_hash_get (asc ''retrun'') (z_tok ez_tables_init) = Ret None" by (simp add: ez_keywords)
  ultimately show "ez_evaluate k \<lparr>v_math = \<lambda>t x. x, v_fun0 = \<lambda>t n. Num 0, v_var = \<lambda>n. Num 7\<rparr> (asc ''{1;} retrun'') [] ez_tables_init = Blocked"
    using ez_unknown_word_hangs [of "asc ''retrun''" ez_tables_init k "\<lparr>v_math = \<lambda>t x. x, v_fun0 = \<lambda>t n. Num 0, v_var = \<lambda>n. Num 7\<rparr>" "[]"]
    by (simp add: asc_def)
qed

section \<open>Names at the end of a text\<close>

lemma reads_alias_end:
  assumes v: "list_all (\<lambda>c. name_char c \<and> c \<noteq> 0x40) v"
  shows "reads (0x23 # v) T_FUNC_VAR_ALIAS [] (\<lambda>t. tz_str t = None)"
  unfolding reads_def
proof (intro conjI allI impI)
  fix line t k load and z :: ez_tables
  assume t: "tz_at line (0x23 # v) t"
  let ?t = "t\<lparr>tz_str := None, tz_size := 0\<rparr>"
  have "starts (0x23 # v)" by (intro starts_not_slash) (simp_all add: is_space_def)
  moreover have "lex_char (0x23 # v) = None"
    by (simp add: lex_char_def peek_def is_shift_num_token_def is_same_char_token_def is_equal_char_token_def is_char_token_def)
  moreover have tw: "takeWhile (\<lambda>c. name_char c \<and> c \<noteq> 0x40) v = v" using v by (simp add: list_all_iff)
  have "lex_alias (0x23 # v) ?t = move_to [] ?t" unfolding lex_alias_def list.sel tw by simp
  moreover have "tz_at line [] (move_to [] ?t)" using tz_at_move [of line "0x23 # v" "[]" ?t] t by simp
  ultimately show "\<exists>t'. next_token_ex k load t z = Ret (T_FUNC_VAR_ALIAS, t', z) \<and> tz_at line [] t' \<and> tz_str t' = None"
    using next_token_starts [OF t] by (simp add: Let_def move_to_def)
qed simp

text \<open>
  Claim C37.  A name of a variable that ends the text is not read: followed by a semicolon it gives the value of the variable it
  names, at the end of the text it gives the value of the variable the expression belongs to, without an error.
\<close>

theorem ez_name_at_end:
  assumes v: "list_all (\<lambda>c. name_char c \<and> c \<noteq> 0x40) v" "v \<noteq> []" and name: "name \<noteq> []" and k: "length v + 1 < k"
  shows "ez_evaluate k env (0x23 # v @ [0x3B]) name z = Ret (v_var env v, False, z) \<and>
    ez_evaluate k env (0x23 # v) name z = Ret (v_var env name, False, z)"
proof
  show "ez_evaluate k env (0x23 # v @ [0x3B]) name z = Ret (v_var env v, False, z)"
    using ez_evaluate_text [of "Sum False (Trm (FVar v) []) []" k env name z] v k by simp
  let ?l = "0x23 # v"
  note rd = reads_alias_end [OF v(1)]
  have "loads ?l ?l z" by (rule loads_reads [OF rd _ _ loads_Nil]) simp_all
  then have start: "ez_start ?l (Some name) z = Ret (ez_first ?l name z)" by (rule ez_start_loads)
  note e0 = ez_first_props(1) [of ?l z name]
  obtain e1 where e1: "get_sym (ez_first ?l name z) = Ret e1" "x_sym e1 = T_FUNC_VAR_ALIAS" "ex_at ?l z [] e1" "tz_str (x_tz e1) = None"
    "x_param e1 = Some name"
    using get_sym_reads [OF e0 rd] ez_first_props(3) [of ?l name z] by auto
  obtain e2 where e2: "get_sym e1 = Ret e2" "x_sym e2 = T_EOF" "ex_at ?l z [] e2" "x_param e2 = Some name" "x_last e2 = T_FUNC_VAR_ALIAS"
    using get_sym_reads [OF e1(3) reads_end] e1(2,5) by auto
  define e3 where "e3 = e2\<lparr>x_num := v_var env name\<rparr>"
  have e3: "ex_at ?l z [] e3" "x_sym e3 = T_EOF" using e2 by (simp_all add: e3_def)
  obtain e4 where e4: "get_sym e3 = Ret e4" "ex_at ?l z [] e4" using get_sym_reads [OF e3(1) reads_end] by blast
  obtain j where j: "k = Suc j" using k by (cases k) auto
  have "ez_expression k env e1 = Ret (v_var env name, e3)"
    using e1(2,4) e2 name
    by (simp add: j expression_body_def ez_term_def ez_factor_def is_reg_token_def is_function0_token_def is_function1_token_def
        is_function2_token_def is_functionstring_token_def factor_alias_def actual_string_def getvar_def term_loop.simps is_op_token_def
        sum_loop.simps e3_def)
  then have "ez_exp_run k env ?l (Some name) z = Ret (v_var env name, e4)"
    unfolding ez_exp_run_def start using e1(1) e2 e3 e4 ez_first_props(2) [of ?l name z]
    by (simp add: expression_comma_def comma_loop.simps [of k] ez_expect_def ez_accept_def e3_def ex_at_def)
  then show "ez_evaluate k env ?l name z = Ret (v_var env name, False, z)" using e4(2) by (simp add: ez_evaluate_def ex_at_def)
qed

lemma ez_name_at_end_witness:
  "ez_evaluate 9 \<lparr>v_math = \<lambda>t x. x, v_fun0 = \<lambda>t n. Num 0, v_var = \<lambda>n. if n = asc ''a'' then Num 1 else Num 2\<rparr>
     (asc ''#a'') (asc ''b'') ez_tables_init = Ret (Num 2, False, ez_tables_init)"
proof -
  have "list_all (\<lambda>c. name_char c \<and> c \<noteq> 0x40) (asc ''a'')" by code_simp
  from ez_name_at_end [OF this, of "asc ''b''" 9 "\<lparr>v_math = \<lambda>t x. x, v_fun0 = \<lambda>t n. Num 0, v_var = \<lambda>n. if n = asc ''a'' then Num 1 else Num 2\<rparr>"
      ez_tables_init]
  show ?thesis by (simp add: asc_def)
qed

end
