(* ===== verification/Rule.thy ===== *)
theory Rule
  imports Ez_Exp
begin

text \<open>
  The rules of the gateway, \<open>drivers/rule/rule.c\<close>: a table of named rules, each of which defines up to two functions of the
  expression language, \<open>name\<close> and \<open>name_o\<close>, from its parameters and its code.  A rule that is set replaces the
  one of its name.  The text of a rule in the data base of the configuration and its JSON form are left out.
\<close>

section \<open>State\<close>

record rule =
  ru_enable :: int
  ru_name :: bytes
  ru_type :: int
  ru_p_in :: "bytes option"
  ru_c_in :: "bytes option"
  ru_p_out :: "bytes option"
  ru_c_out :: "bytes option"
  ru_sys :: int

record rule_state =
  rs_table :: "rule table"
  rs_count :: int
  rs_ez :: ez_tables

definition RULE_NAME_SIZE :: nat where "RULE_NAME_SIZE = EZ_KEYWORD_SIZE - 2"
definition RULE_HASH_LIMIT :: nat where "RULE_HASH_LIMIT = 97"
definition RULE_KEY :: nat where "RULE_KEY = RULE_NAME_SIZE + 1"

definition rule_cfg_default :: "rule_state \<Rightarrow> rule_state" where
  "rule_cfg_default s = s\<lparr>rs_table := table_new RULE_HASH_LIMIT, rs_count := 0\<rparr>"

section \<open>Operations\<close>

text \<open>The functions of a rule; the length of a name that fills its array is read behind it.\<close>

definition rule_func :: "bytes \<Rightarrow> bytes option \<Rightarrow> bytes option \<Rightarrow> ez_tables \<Rightarrow> ez_tables outcome" where
  "rule_func name p c z =
     (case c of None \<Rightarrow> Ret z
      | Some c \<Rightarrow> ez_exp_custom_new (name @ 0x28 # (case p of None \<Rightarrow> [] | Some p \<Rightarrow> p) @ [0x29]) c z)"

definition out_name :: "bytes \<Rightarrow> bytes" where
  "out_name name = name @ asc ''_o''"

definition add_custom_exp :: "rule \<Rightarrow> ez_tables \<Rightarrow> ez_tables outcome" where
  "add_custom_exp r z =
     (if length (ru_name r) = RULE_KEY then Fault
      else bindO (rule_func (ru_name r) (ru_p_in r) (ru_c_in r) z) (rule_func (out_name (ru_name r)) (ru_p_out r) (ru_c_out r)))"

definition del_custom_exp :: "rule \<Rightarrow> ez_tables \<Rightarrow> ez_tables outcome" where
  "del_custom_exp r z =
     (if length (ru_name r) = RULE_KEY then Fault
      else bindO (ez_custom_del (ru_name r) z) (\<lambda>(_, z). bindO (ez_custom_del (out_name (ru_name r)) z) (\<lambda>(_, z). Ret z)))"

text \<open>A new rule goes before an old one of the same name.\<close>

definition rule_new :: "rule \<Rightarrow> rule_state \<Rightarrow> rule_state outcome" where
  "rule_new r s =
     (let r = r\<lparr>ru_name := stored_key RULE_KEY (ru_name r)\<rparr> in
      bindO (add_custom_exp r (rs_ez s)) (\<lambda>z.
        Ret \<lparr>rs_table = table_set RULE_KEY RULE_HASH_LIMIT (ru_name r) r (rs_table s), rs_count = rs_count s + 1, rs_ez = z\<rparr>))"

definition rule_del :: "bytes \<Rightarrow> rule_state \<Rightarrow> (int \<times> rule_state) outcome" where
  "rule_del name s =
     bindO (table_del RULE_KEY RULE_HASH_LIMIT name (rs_table s)) (\<lambda>(r, t).
       case r of None \<Rightarrow> Ret (- 1, s)
       | Some r \<Rightarrow> bindO (del_custom_exp r (rs_ez s)) (\<lambda>z. Ret (0, \<lparr>rs_table = t, rs_count = rs_count s - 1, rs_ez = z\<rparr>)))"

definition rule_get :: "bytes \<Rightarrow> rule_state \<Rightarrow> rule option outcome" where
  "rule_get name s = (if name = [] then Ret None else table_get RULE_KEY RULE_HASH_LIMIT name (rs_table s))"

text \<open>\<open>setRuleWithJson\<close>: the name is copied into the array of the rule, the rule of the whole name is replaced.\<close>

definition setRule :: "rule \<Rightarrow> rule_state \<Rightarrow> rule_state outcome" where
  "setRule r s = bindO (rule_del (ru_name r) s) (\<lambda>(_, s). rule_new r s)"

text \<open>The type of a rule by its name, as the variable manager asks for it\<close>

definition rule_type_of :: "rule_state \<Rightarrow> bytes \<Rightarrow> int option outcome" where
  "rule_type_of s name = bindO (rule_get name s) (\<lambda>r. Ret (map_option ru_type r))"

section \<open>The table of rules as a stack of names\<close>

interpretation rules: name_stack "table_vals RULE_HASH_LIMIT" "table_ok RULE_KEY RULE_HASH_LIMIT" "key_fits RULE_KEY"
  "table_get RULE_KEY RULE_HASH_LIMIT" "table_set RULE_KEY RULE_HASH_LIMIT" "table_del RULE_KEY RULE_HASH_LIMIT"
  by unfold_locales (simp_all add: RULE_HASH_LIMIT_def table_get_law table_set_ok table_set_law table_del_law)

section \<open>Lists of parameters\<close>

definition param_text :: "bytes \<times> ez_vtype \<Rightarrow> bytes" where
  "param_text p = (if snd p = VT_STRING then 0x40 else 0x24) # fst p"

fun params_text :: "(bytes \<times> ez_vtype) list \<Rightarrow> bytes" where
  "params_text [] = []"
| "params_text [p] = param_text p"
| "params_text (p # ps) = param_text p @ 0x2C # params_text ps"

definition param_char :: "u8 \<Rightarrow> bool" where
  "param_char c \<longleftrightarrow> \<not> is_space c \<and> c \<noteq> 0x2C \<and> c \<noteq> 0x29"

definition params_wf :: "(bytes \<times> ez_vtype) list \<Rightarrow> bool" where
  "params_wf ps \<longleftrightarrow> length ps \<le> EZ_EXP_REG_COUNT \<and>
     list_all (\<lambda>p. list_all param_char (fst p) \<and> length (fst p) < EZ_EXP_REG_NAME_LIMIT \<and> snd p \<noteq> VT_UNUSE) ps"

lemma takeWhile_stop: "list_all P s \<Longrightarrow> \<not> P c \<Longrightarrow> takeWhile P (s @ c # r) = s"
  by (induction s) simp_all

lemma param_start: "param_text p = c # s \<Longrightarrow> c = 0x24 \<or> c = 0x40"
  by (auto simp: param_text_def split: if_splits)

lemma custom_params_step:
  assumes p: "list_all param_char (fst p)" "length (fst p) < EZ_EXP_REG_NAME_LIMIT" "snd p \<noteq> VT_UNUSE"
    and c: "c = 0x2C \<or> c = 0x29" and n: "length regs < EZ_EXP_REG_COUNT"
  shows "custom_params (param_text p @ c # r) regs = custom_params (after_char 0x2C (c # r)) (regs @ [p])"
proof -
  let ?s = "param_text p @ c # r"
  have sp: "dropWhile is_space ?s = ?s" by (simp add: param_text_def is_space_def)
  have "list_all (\<lambda>c. \<not> is_space c \<and> c \<noteq> 0x2C \<and> c \<noteq> 0x29) (param_text p)"
    using p(1) by (simp add: param_text_def param_char_def is_space_def list_all_iff)
  then have name: "takeWhile (\<lambda>c. \<not> is_space c \<and> c \<noteq> 0x2C \<and> c \<noteq> 0x29) ?s = param_text p"
    using c by (intro takeWhile_stop) auto
  have l: "length (param_text p) \<le> EZ_EXP_REG_NAME_LIMIT" using p(2) by (simp add: param_text_def)
  have "add_param (param_text p) regs = Ret (Some (regs @ [p]))"
    using p n l by (cases p; cases "snd p") (auto simp: param_text_def add_param_def ez_custom_add_reg_def)
  then show ?thesis
    using l by (subst custom_params.simps) (simp add: Let_def sp name)
qed

lemma custom_params_text:
  assumes "ps \<noteq> []" "params_wf ps" "length regs + length ps \<le> EZ_EXP_REG_COUNT"
  shows "custom_params (params_text ps @ [0x29]) regs = Ret (regs @ ps)"
  using assms
proof (induction ps arbitrary: regs rule: params_text.induct)
  case (2 p)
  then show ?case
    using custom_params_step [of p "0x29" regs "[]"] by (simp add: params_wf_def after_char_def) (simp add: custom_params.simps)
next
  case (3 p q ps)
  have "custom_params (params_text (q # ps) @ [0x29]) (regs @ [p]) = Ret ((regs @ [p]) @ q # ps)"
    using 3 by (intro 3(1)) (simp_all add: params_wf_def)
  then show ?case
    using 3 custom_params_step [of p "0x2C" regs "params_text (q # ps) @ [0x29]"] by (simp add: params_wf_def after_char_def)
qed simp

section \<open>What a rule enters\<close>

definition name_wf :: "bytes \<Rightarrow> bool" where
  "name_wf n \<longleftrightarrow> n \<noteq> [] \<and> length n \<le> RULE_NAME_SIZE \<and> list_all (\<lambda>c. \<not> is_space c \<and> c \<noteq> 0x28) n"

definition takes :: "bytes option \<Rightarrow> (bytes \<times> ez_vtype) list \<Rightarrow> bool" where
  "takes p ps \<longleftrightarrow> params_wf ps \<and> (case p of None \<Rightarrow> ps = [] | Some t \<Rightarrow> t = params_text ps)"

lemma head_key_name:
  assumes "list_all (\<lambda>c. \<not> is_space c \<and> c \<noteq> 0x28) n" "n \<noteq> []" "length n < KEY_ARRAY"
  shows "dropWhile is_space (n @ 0x28 # r) = n @ 0x28 # r \<and> head_key (n @ 0x28 # r) = n"
proof -
  have d: "dropWhile is_space (n @ 0x28 # r) = n @ 0x28 # r" using assms by (cases n) simp_all
  then show ?thesis using assms by (simp add: head_key_def takeWhile_stop)
qed

lemma ez_exp_custom_new_text:
  assumes n: "list_all (\<lambda>c. \<not> is_space c \<and> c \<noteq> 0x28) n" "n \<noteq> []" "length n < KEY_ARRAY" and p: "params_wf ps"
  shows "ez_exp_custom_new (n @ 0x28 # params_text ps @ [0x29]) c z = Ret (ez_custom_new n (Some c) ps z)"
proof -
  note h = head_key_name [OF n, of "params_text ps @ [0x29]"]
  have a: "after_char 0x28 (0x28 # params_text ps @ [0x29]) = params_text ps @ [0x29]" by (simp add: after_char_def)
  show ?thesis
  proof (cases ps)
    case Nil
    then show ?thesis using n h a by (simp add: ez_exp_custom_new_def Let_def is_space_def)
  next
    case (Cons p qs)
    have "\<exists>c t. params_text ps = c # t \<and> (c = 0x24 \<or> c = 0x40)"
      using Cons by (cases qs) (auto simp: param_text_def)
    then have "dropWhile is_space (params_text ps @ [0x29]) = params_text ps @ [0x29]" "hd (params_text ps @ [0x29]) \<noteq> 0x29"
      by (auto simp: is_space_def)
    moreover have "custom_params (params_text ps @ [0x29]) [] = Ret ps"
      using custom_params_text [of ps "[]"] Cons p by (simp add: params_wf_def)
    ultimately show ?thesis using n h a by (simp add: ez_exp_custom_new_def Let_def)
  qed
qed

lemma rule_func_text:
  assumes "list_all (\<lambda>c. \<not> is_space c \<and> c \<noteq> 0x28) n" "n \<noteq> []" "length n < KEY_ARRAY" "takes p ps"
  shows "rule_func n p c z = Ret (case c of None \<Rightarrow> z | Some c \<Rightarrow> ez_custom_new n (Some c) ps z)"
  using ez_exp_custom_new_text [OF assms(1-3), of ps] assms(4)
  by (cases p) (auto simp: rule_func_def takes_def split: option.splits)

section \<open>Invariant\<close>

definition table_size :: "'v table \<Rightarrow> nat" where
  "table_size t = sum_list (map length t)"

text \<open>The tables are well formed, the rules are counted and stand under their names.\<close>

definition named :: "rule table \<Rightarrow> bool" where
  "named t \<longleftrightarrow> list_all (list_all (\<lambda>(k, r). ru_name r = k)) t"

definition ez_ok :: "ez_tables \<Rightarrow> bool" where
  "ez_ok z \<longleftrightarrow> table_ok KEY_ARRAY HASH_LIMIT (z_tok z) \<and> table_ok KEY_ARRAY CUSTOM_HASH_LIMIT (z_cust z)"

definition rule_ok :: "rule_state \<Rightarrow> bool" where
  "rule_ok s \<longleftrightarrow> table_ok RULE_KEY RULE_HASH_LIMIT (rs_table s) \<and> rs_count s = int (table_size (rs_table s)) \<and> named (rs_table s) \<and> ez_ok (rs_ez s)"

lemma table_size_upd: "i < length t \<Longrightarrow> table_size (t[i := c]) + length (t ! i) = table_size t + length c"
proof (induction t arbitrary: i)
  case (Cons d t)
  then show ?case by (cases i) (simp_all add: table_size_def)
qed simp

lemma named_upd: "named t \<Longrightarrow> list_all (\<lambda>(k, r). ru_name r = k) c \<Longrightarrow> named (t[i := c])"
  unfolding named_def using set_update_subset_insert [of t i c] by (fastforce simp: list_all_iff)

lemma named_nth: "named t \<Longrightarrow> i < length t \<Longrightarrow> list_all (\<lambda>(k, r). ru_name r = k) (t ! i)"
  unfolding named_def list_all_iff using nth_mem by blast

lemma chain_del_shape:
  assumes "chain_del n k c = Ret (r, c')"
  shows "length c = length c' + (if r = None then 0 else 1) \<and> set c' \<subseteq> set c \<and> (\<forall>v. r = Some v \<longrightarrow> v \<in> snd ` set c)"
  using assms
proof (induction n k c arbitrary: c' rule: chain_del.induct)
  case (2 n key k v c)
  show ?case
  proof (cases "key_cmp n k key")
    case (Ret b)
    show ?thesis
    proof (cases b)
      case False
      then obtain c1 where c1: "chain_del n key c = Ret (r, c1)" "c' = (k, v) # c1"
        using 2(2) Ret by (cases "chain_del n key c") auto
      show ?thesis using 2(1) [OF Ret False c1(1)] c1(2) by (auto simp: subset_iff)
    qed (use 2(2) Ret in \<open>auto simp: subset_iff\<close>)
  qed (use 2(2) in simp_all)
qed simp

lemma table_set_size: "0 < limit \<Longrightarrow> length t = limit \<Longrightarrow> table_size (table_set n limit k v t) = Suc (table_size t)"
  using table_size_upd [of "get_hash limit k" t "(stored_key n k, v) # t ! get_hash limit k"] get_hash_less [of limit k]
  by (simp add: table_set_def Let_def)

lemma table_set_named:
  assumes "named t" "ru_name r = stored_key n k" "get_hash limit k < length t"
  shows "named (table_set n limit k r t)"
  unfolding table_set_def Let_def
  by (rule named_upd [OF assms(1)]) (use assms named_nth in simp)

lemma table_del_shape:
  assumes "table_del n limit k t = Ret (r, t')" "get_hash limit k < length t"
  shows "table_size t = table_size t' + (if r = None then 0 else 1) \<and> (named t \<longrightarrow> named t') \<and> length t' = length t"
proof -
  let ?p = "get_hash limit k"
  obtain c where c: "chain_del n k (t ! ?p) = Ret (r, c)" "t' = t[?p := c]"
    using assms(1) by (cases "chain_del n k (t ! ?p)") (auto simp: table_del_def Let_def)
  note sh = chain_del_shape [OF c(1)]
  have "named t \<Longrightarrow> named t'"
    unfolding c(2) using named_nth [OF _ assms(2)] sh by (intro named_upd) (assumption, unfold list_all_iff, blast)
  then show ?thesis using table_size_upd [OF assms(2), of c] sh c(2) by auto
qed

lemma ez_custom_new_ok:
  assumes "ez_ok z" "key_fits KEY_ARRAY k"
  shows "ez_ok (ez_custom_new k c ps z)"
    "ez_custom_get n (ez_custom_new k c ps z) =
      (if n = k then Ret (Some \<lparr>cu_name = k, cu_regs = ps, cu_code = map_option (\<lambda>c. c @ [0x3B]) c\<rparr>) else ez_custom_get n z)"
    "ez_hash_get n (z_tok (ez_custom_new k c ps z)) = (if n = k then Ret (Some T_FUNC_CUSTOM) else ez_hash_get n (z_tok z))"
proof -
  let ?z = "z\<lparr>z_tok := ez_hash_set k T_FUNC_CUSTOM (z_tok z)\<rparr>"
  have z: "table_ok KEY_ARRAY HASH_LIMIT (z_tok z)" "table_ok KEY_ARRAY CUSTOM_HASH_LIMIT (z_cust ?z)"
    using assms(1) by (simp_all add: ez_ok_def)
  have k: "stored_key KEY_ARRAY k = k" using assms(2) by (simp add: stored_key_def key_fits_def)
  have tok: "z_tok (custom_enter k v z') = z_tok z'" for v and z' :: ez_tables by (simp add: custom_enter_def)
  show "ez_ok (ez_custom_new k c ps z)"
    using tokens.push_ok [OF z(1) assms(2)] customs.push_ok [OF z(2) assms(2)] by (simp add: ez_ok_def ez_custom_new_def tok)
  show "ez_custom_get n (ez_custom_new k c ps z) =
      (if n = k then Ret (Some \<lparr>cu_name = k, cu_regs = ps, cu_code = map_option (\<lambda>c. c @ [0x3B]) c\<rparr>) else ez_custom_get n z)"
    using customs.look_push [OF z(2) assms(2)] by (simp add: ez_custom_new_def k) (simp add: ez_custom_get_def)
  show "ez_hash_get n (z_tok (ez_custom_new k c ps z)) = (if n = k then Ret (Some T_FUNC_CUSTOM) else ez_hash_get n (z_tok z))"
    using tokens.look_push [OF z(1) assms(2)] by (simp add: ez_custom_new_def tok)
qed

text \<open>What a rule does to the functions and the tokens\<close>

abbreviation customs_at :: "ez_tables \<Rightarrow> bytes \<Rightarrow> ez_custom list" where
  "customs_at z \<equiv> table_vals CUSTOM_HASH_LIMIT (z_cust z)"

definition func_of :: "bytes \<Rightarrow> bytes option \<Rightarrow> (bytes \<times> ez_vtype) list \<Rightarrow> ez_tables \<Rightarrow> ez_tables" where
  "func_of n c ps z = (case c of None \<Rightarrow> z | Some c \<Rightarrow> ez_custom_new n (Some c) ps z)"

lemma out_name_fits: "name_wf n \<Longrightarrow> key_fits KEY_ARRAY n \<and> key_fits KEY_ARRAY (out_name n) \<and> n \<noteq> out_name n \<and> key_fits RULE_KEY n"
  by (simp add: name_wf_def key_fits_def out_name_def asc_def KEY_ARRAY_def RULE_KEY_def RULE_NAME_SIZE_def EZ_KEYWORD_SIZE_def)

lemma out_name_chars: "name_wf n \<Longrightarrow> list_all (\<lambda>c. \<not> is_space c \<and> c \<noteq> 0x28) n \<and> list_all (\<lambda>c. \<not> is_space c \<and> c \<noteq> 0x28) (out_name n) \<and>
    n \<noteq> [] \<and> out_name n \<noteq> []"
  by (simp add: name_wf_def out_name_def asc_def is_space_def)

lemma add_custom_exp_funcs:
  assumes "name_wf (ru_name r)" "takes (ru_p_in r) ps" "takes (ru_p_out r) qs"
  shows "add_custom_exp r z = Ret (func_of (out_name (ru_name r)) (ru_c_out r) qs (func_of (ru_name r) (ru_c_in r) ps z))"
proof -
  have l: "length (ru_name r) \<noteq> RULE_KEY" using assms(1) by (simp add: name_wf_def RULE_KEY_def)
  note n = out_name_fits [OF assms(1), unfolded key_fits_def] out_name_chars [OF assms(1)]
  show ?thesis
    using l n rule_func_text [of "ru_name r" "ru_p_in r" ps "ru_c_in r"] rule_func_text [of "out_name (ru_name r)" "ru_p_out r" qs "ru_c_out r"] assms
    by (simp add: add_custom_exp_def func_of_def)
qed

lemma func_of_ok:
  assumes "ez_ok z" "key_fits KEY_ARRAY k"
  shows "ez_ok (func_of k c ps z)"
    "ez_custom_get n (func_of k c ps z) = (if n = k \<and> c \<noteq> None
       then Ret (Some \<lparr>cu_name = k, cu_regs = ps, cu_code = Some (the c @ [0x3B])\<rparr>) else ez_custom_get n z)"
    "ez_hash_get n (z_tok (func_of k c ps z)) = (if n = k \<and> c \<noteq> None then Ret (Some T_FUNC_CUSTOM) else ez_hash_get n (z_tok z))"
  using ez_custom_new_ok [OF assms] assms(1) by (auto simp: func_of_def split: option.splits)

lemma customs_at_func_of:
  assumes "ez_ok z" "key_fits KEY_ARRAY k"
  shows "\<exists>f. customs_at (func_of k c ps z) = (customs_at z)(k := (case c of None \<Rightarrow> [] | Some c \<Rightarrow> [f c]) @ customs_at z k)"
proof (cases c)
  case (Some d)
  let ?z = "z\<lparr>z_tok := ez_hash_set k T_FUNC_CUSTOM (z_tok z)\<rparr>"
  have "table_ok KEY_ARRAY CUSTOM_HASH_LIMIT (z_cust ?z)" using assms(1) by (simp add: ez_ok_def)
  from customs.push_law [OF this assms(2)] show ?thesis
    using Some by (intro exI [of _ "\<lambda>_. \<lparr>cu_name = stored_key KEY_ARRAY k, cu_regs = ps, cu_code = Some (d @ [0x3B])\<rparr>"])
      (simp add: func_of_def ez_custom_new_def)
qed (simp add: func_of_def fun_upd_idem)

lemma del_custom_exp_ok:
  assumes "ez_ok z" "length (ru_name r) < RULE_KEY"
  shows "\<exists>z'. del_custom_exp r z = Ret z' \<and> ez_ok z' \<and> z_tok z' = z_tok z \<and>
    customs_at z' = (customs_at z)(ru_name r := tl (customs_at z (ru_name r)), out_name (ru_name r) := tl (customs_at z (out_name (ru_name r))))"
proof -
  have tok: "z_tok z2 = z_tok z1" if "ez_custom_del k z1 = Ret (c, z2)" for k z1 c z2
    using that by (cases "table_del KEY_ARRAY CUSTOM_HASH_LIMIT k (z_cust z1)") (auto simp: ez_custom_del_def)
  obtain c1 z1 where z1: "ez_custom_del (ru_name r) z = Ret (c1, z1)" "table_ok KEY_ARRAY CUSTOM_HASH_LIMIT (z_cust z1)"
    "customs_at z1 = (customs_at z)(ru_name r := tl (customs_at z (ru_name r)))"
    using customs.pop_law [of z "ru_name r"] assms(1) unfolding ez_ok_def by blast
  obtain c2 z2 where z2: "ez_custom_del (out_name (ru_name r)) z1 = Ret (c2, z2)" "table_ok KEY_ARRAY CUSTOM_HASH_LIMIT (z_cust z2)"
    "customs_at z2 = (customs_at z1)(out_name (ru_name r) := tl (customs_at z1 (out_name (ru_name r))))"
    using customs.pop_law [OF z1(2), of "out_name (ru_name r)"] by blast
  have "length (ru_name r) \<noteq> RULE_KEY" "ru_name r \<noteq> out_name (ru_name r)" using assms(2) by (auto simp: out_name_def asc_def)
  then show ?thesis
    using z1 z2 tok [OF z1(1)] tok [OF z2(1)] assms(1) by (simp add: del_custom_exp_def ez_ok_def)
qed

abbreviation rules_at :: "rule_state \<Rightarrow> bytes \<Rightarrow> rule list" where
  "rules_at s \<equiv> table_vals RULE_HASH_LIMIT (rs_table s)"

lemma rules_at_named:
  assumes "rule_ok s" "rules_at s n = r # rs"
  shows "ru_name r = n \<and> length n < RULE_KEY"
proof -
  let ?c = "rs_table s ! get_hash RULE_HASH_LIMIT n"
  have p: "get_hash RULE_HASH_LIMIT n < length (rs_table s)" "get_hash RULE_HASH_LIMIT n < RULE_HASH_LIMIT"
    using assms(1) get_hash_less [of RULE_HASH_LIMIT n] by (simp_all add: rule_ok_def table_ok_def RULE_HASH_LIMIT_def)
  have "r \<in> set (chain_vals ?c n)" using assms(2) by (simp add: table_vals_def)
  then have "(n, r) \<in> set ?c" by (auto simp: chain_vals_def)
  moreover have "list_all (\<lambda>(k, r). ru_name r = k) ?c" "list_all (\<lambda>e. key_fits RULE_KEY (fst e)) ?c"
    using assms(1) named_nth [OF _ p(1)] table_okD [OF _ p(2), of RULE_KEY "rs_table s"] by (simp_all add: rule_ok_def)
  ultimately show ?thesis unfolding list_all_iff key_fits_def by fastforce
qed

lemma rule_del_ok:
  assumes "rule_ok s"
  obtains s' where "rule_del n s = Ret (if rules_at s n = [] then - 1 else 0, s')" "rule_ok s'"
    "rules_at s' = (rules_at s)(n := tl (rules_at s n))" "z_tok (rs_ez s') = z_tok (rs_ez s)"
    "rules_at s n = [] \<Longrightarrow> s' = s"
    "rules_at s n \<noteq> [] \<Longrightarrow> rs_count s' = rs_count s - 1 \<and> customs_at (rs_ez s') =
       (customs_at (rs_ez s))(n := tl (customs_at (rs_ez s) n), out_name n := tl (customs_at (rs_ez s) (out_name n)))"
proof -
  have ok: "table_ok RULE_KEY RULE_HASH_LIMIT (rs_table s)" and p: "get_hash RULE_HASH_LIMIT n < length (rs_table s)"
    using assms get_hash_less [of RULE_HASH_LIMIT n] by (simp_all add: rule_ok_def table_ok_def RULE_HASH_LIMIT_def)
  obtain t where t: "table_del RULE_KEY RULE_HASH_LIMIT n (rs_table s) = Ret (case rules_at s n of [] \<Rightarrow> None | r # _ \<Rightarrow> Some r, t)"
    "table_ok RULE_KEY RULE_HASH_LIMIT t" "table_vals RULE_HASH_LIMIT t = (rules_at s)(n := tl (rules_at s n))"
    using rules.pop_law [OF ok, of n] by blast
  show ?thesis
  proof (cases "rules_at s n")
    case Nil
    then show ?thesis using that [of s] t(1) assms by (simp add: rule_del_def fun_upd_idem)
  next
    case (Cons r rs)
    have n: "length (ru_name r) < RULE_KEY" "ru_name r = n" using rules_at_named [OF assms Cons] by simp_all
    obtain z where z: "del_custom_exp r (rs_ez s) = Ret z" "ez_ok z" "z_tok z = z_tok (rs_ez s)" "customs_at z =
       (customs_at (rs_ez s))(n := tl (customs_at (rs_ez s) n), out_name n := tl (customs_at (rs_ez s) (out_name n)))"
      using del_custom_exp_ok [OF _ n(1), of "rs_ez s"] assms unfolding rule_ok_def n(2) by blast
    have d: "table_del RULE_KEY RULE_HASH_LIMIT n (rs_table s) = Ret (Some r, t)" using t(1) Cons by simp
    show ?thesis
      using that [of "\<lparr>rs_table = t, rs_count = rs_count s - 1, rs_ez = z\<rparr>"] table_del_shape [OF d p] t(2,3) z assms Cons
      by (simp add: rule_del_def d rule_ok_def)
  qed
qed

lemma rule_new_ok:
  assumes "rule_ok s" "name_wf (ru_name r)" "takes (ru_p_in r) ps" "takes (ru_p_out r) qs"
  obtains s' where "rule_new r s = Ret s'" "rule_ok s'" "rules_at s' = (rules_at s)(ru_name r := r # rules_at s (ru_name r))"
    "rs_ez s' = func_of (out_name (ru_name r)) (ru_c_out r) qs (func_of (ru_name r) (ru_c_in r) ps (rs_ez s))"
    "rs_count s' = rs_count s + 1"
proof -
  note n = out_name_fits [OF assms(2)]
  have st: "r\<lparr>ru_name := stored_key RULE_KEY (ru_name r)\<rparr> = r" "stored_key RULE_KEY (ru_name r) = ru_name r"
    using n by (simp_all add: stored_key_def key_fits_def)
  have ok: "table_ok RULE_KEY RULE_HASH_LIMIT (rs_table s)" and len: "length (rs_table s) = RULE_HASH_LIMIT" "0 < RULE_HASH_LIMIT"
    using assms(1) by (simp_all add: rule_ok_def table_ok_def RULE_HASH_LIMIT_def)
  let ?t = "table_set RULE_KEY RULE_HASH_LIMIT (ru_name r) r (rs_table s)"
  let ?z = "func_of (out_name (ru_name r)) (ru_c_out r) qs (func_of (ru_name r) (ru_c_in r) ps (rs_ez s))"
  have "ez_ok ?z" using n assms(1) by (auto simp: rule_ok_def intro!: func_of_ok(1))
  moreover have "named ?t" using table_set_named [of "rs_table s" r RULE_KEY "ru_name r" RULE_HASH_LIMIT] st len get_hash_less assms(1)
    by (simp add: rule_ok_def)
  ultimately show ?thesis
    using that [of "\<lparr>rs_table = ?t, rs_count = rs_count s + 1, rs_ez = ?z\<rparr>"] rules.push_ok [OF ok, of "ru_name r" r]
      rules.push_law [OF ok, of "ru_name r" r] table_set_size [OF len(2,1)] n st assms(1)
      add_custom_exp_funcs [OF assms(2-4)]
    by (simp add: rule_new_def rule_ok_def)
qed

lemma ez_tables_init_ok: "ez_ok ez_tables_init"
  using ez_hash_fold(1) [OF keywords_fit] by (simp add: ez_ok_def ez_tables_init_def ez_hash_init_def)

lemma rule_init_ok: "ez_ok (rs_ez s) \<Longrightarrow> rule_ok (rule_cfg_default s)"
  by (simp add: rule_ok_def rule_cfg_default_def named_def table_size_def table_new_def list_all_iff table_ok_def)

lemma rule_get_vals: "rule_ok s \<Longrightarrow> n \<noteq> [] \<Longrightarrow> rule_get n s = Ret (case rules_at s n of [] \<Rightarrow> None | r # _ \<Rightarrow> Some r)"
  by (simp add: rules.look_law rule_get_def rule_ok_def)

section \<open>Properties\<close>

text \<open>A state and a rule for the examples: the rule takes the name of a word of the language\<close>

definition sample_rules :: rule_state where
  "sample_rules = rule_cfg_default \<lparr>rs_table = [], rs_count = 0, rs_ez = ez_tables_init\<rparr>"

definition sample_rule :: rule where
  "sample_rule = \<lparr>ru_enable = 1, ru_name = asc ''max'', ru_type = 1, ru_p_in = Some (asc ''$a,@b''), ru_c_in = Some (asc ''return $a''),
     ru_p_out = None, ru_c_out = Some (asc ''return 1''), ru_sys = - 1\<rparr>"

lemma sample_rules_ok: "rule_ok sample_rules"
  by (simp add: sample_rules_def rule_init_ok ez_tables_init_ok)

lemma sample_rule_wf:
  "name_wf (ru_name sample_rule)" "takes (ru_p_in sample_rule) [(asc ''a'', VT_NUMBER), (asc ''b'', VT_STRING)]" "takes (ru_p_out sample_rule) []"
  by code_simp+

lemma sample_rules_fresh:
  "rule_get (ru_name sample_rule) sample_rules = Ret None" "ez_custom_get k (rs_ez sample_rules) = Ret None"
proof -
  have "customs_at (rs_ez sample_rules) k = []"
    by (simp add: sample_rules_def rule_cfg_default_def ez_tables_init_def CUSTOM_HASH_LIMIT_def)
  then show "ez_custom_get k (rs_ez sample_rules) = Ret None"
    using customs.look_law [of "rs_ez sample_rules" k] ez_tables_init_ok by (simp add: sample_rules_def rule_cfg_default_def ez_ok_def)
  have "rules_at sample_rules (ru_name sample_rule) = []"
    by (simp add: sample_rules_def rule_cfg_default_def RULE_HASH_LIMIT_def)
  then show "rule_get (ru_name sample_rule) sample_rules = Ret None"
    using rule_get_vals [OF sample_rules_ok, of "ru_name sample_rule"] sample_rule_wf(1) by (simp add: name_wf_def)
qed

text \<open>
  Claim C7.  Setting a rule keeps the tables and the count in order; the rule is then found under its name and every other
  rule as before, and the functions it defines have its parameters and its code, closed by a semicolon, and are known to
  the tokenizer.
\<close>

theorem rule_set_get:
  assumes ok: "rule_ok s" and n: "name_wf (ru_name r)" and p: "takes (ru_p_in r) ps" "takes (ru_p_out r) qs"
  shows "\<exists>s'. setRule r s = Ret s' \<and> rule_ok s' \<and> (\<forall>k. rule_get k s' = (if k = ru_name r then Ret (Some r) else rule_get k s)) \<and>
    list_all (\<lambda>(k, c, ps). ez_custom_get k (rs_ez s') = Ret (Some \<lparr>cu_name = k, cu_regs = ps, cu_code = Some (c @ [0x3B])\<rparr>) \<and>
        ez_hash_get k (z_tok (rs_ez s')) = Ret (Some T_FUNC_CUSTOM))
      ((case ru_c_in r of None \<Rightarrow> [] | Some c \<Rightarrow> [(ru_name r, c, ps)]) @ (case ru_c_out r of None \<Rightarrow> [] | Some c \<Rightarrow> [(out_name (ru_name r), c, qs)]))"
proof -
  obtain s1 where s1: "rule_del (ru_name r) s = Ret (if rules_at s (ru_name r) = [] then - 1 else 0, s1)" "rule_ok s1"
    "rules_at s1 = (rules_at s)(ru_name r := tl (rules_at s (ru_name r)))"
    by (rule rule_del_ok [OF ok, of "ru_name r"]) (rule that)
  obtain s2 where s2: "rule_new r s1 = Ret s2" "rule_ok s2" "rules_at s2 = (rules_at s1)(ru_name r := r # rules_at s1 (ru_name r))"
    "rs_ez s2 = func_of (out_name (ru_name r)) (ru_c_out r) qs (func_of (ru_name r) (ru_c_in r) ps (rs_ez s1))"
    by (rule rule_new_ok [OF s1(2) n p]) (rule that)
  have ez: "ez_ok (rs_ez s1)" using s1(2) by (simp add: rule_ok_def)
  note f = out_name_fits [OF n] func_of_ok [OF ez] func_of_ok [OF func_of_ok(1) [OF ez]]
  have "rule_get k s2 = (if k = ru_name r then Ret (Some r) else rule_get k s)" for k
  proof (cases "k = []")
    case True
    then show ?thesis using n by (auto simp: rule_get_def name_wf_def)
  next
    case False
    then show ?thesis using rule_get_vals [OF s2(2) False] rule_get_vals [OF ok False] s1(3) s2(3) by simp
  qed
  then show ?thesis
    using s1(1) s2(1,2,4) f by (auto simp: setRule_def split: option.splits)
qed

lemma rule_set_get_witness:
  "\<exists>s'. setRule sample_rule sample_rules = Ret s' \<and> rule_get (asc ''max'') s' = Ret (Some sample_rule) \<and>
     ez_custom_get (asc ''max_o'') (rs_ez s') = Ret (Some \<lparr>cu_name = asc ''max_o'', cu_regs = [], cu_code = Some (asc ''return 1;'')\<rparr>)"
  using rule_set_get [OF sample_rules_ok sample_rule_wf]
  by (auto simp: sample_rule_def out_name_def asc_def)

text \<open>
  Claim C21.  Removing a rule takes back what setting it did to the table of rules and to the functions, but not what it did to
  the tokens: its names stay words for functions that no longer exist, also where such a name was a word of the language before.
\<close>

theorem rule_undone:
  assumes ok: "rule_ok s" and n: "name_wf (ru_name r)" and p: "takes (ru_p_in r) ps" "takes (ru_p_out r) qs"
    and fresh: "rule_get (ru_name r) s = Ret None" "ez_custom_get (ru_name r) (rs_ez s) = Ret None"
      "ez_custom_get (out_name (ru_name r)) (rs_ez s) = Ret None"
  shows "\<exists>s1 s2. setRule r s = Ret s1 \<and> rule_del (ru_name r) s1 = Ret (0, s2) \<and> rule_ok s2 \<and> rs_count s2 = rs_count s \<and>
    (\<forall>k. rule_get k s2 = rule_get k s \<and> ez_custom_get k (rs_ez s2) = ez_custom_get k (rs_ez s) \<and>
       ez_hash_get k (z_tok (rs_ez s2)) =
         (if k = ru_name r \<and> ru_c_in r \<noteq> None \<or> k = out_name (ru_name r) \<and> ru_c_out r \<noteq> None then Ret (Some T_FUNC_CUSTOM)
          else ez_hash_get k (z_tok (rs_ez s))))"
proof -
  let ?n = "ru_name r"
  have ez: "ez_ok (rs_ez s)" and ne: "?n \<noteq> []" using ok n by (simp_all add: rule_ok_def name_wf_def)
  have r0: "rules_at s ?n = []" using fresh(1) rule_get_vals [OF ok ne] by (simp split: list.splits)
  have c0: "customs_at (rs_ez s) ?n = []" "customs_at (rs_ez s) (out_name ?n) = []"
    using fresh(2,3) customs.look_law [of "rs_ez s"] ez by (simp_all add: ez_ok_def split: list.splits)
  obtain s0 where s0: "rule_del ?n s = Ret (- 1, s)"
    by (rule rule_del_ok [OF ok, of ?n]) (use r0 that in simp)
  obtain s1 where s1: "rule_new r s = Ret s1" "rule_ok s1" "rules_at s1 = (rules_at s)(?n := r # rules_at s ?n)"
    "rs_ez s1 = func_of (out_name ?n) (ru_c_out r) qs (func_of ?n (ru_c_in r) ps (rs_ez s))" "rs_count s1 = rs_count s + 1"
    by (rule rule_new_ok [OF ok n p]) (rule that)
  obtain s2 where s2: "rule_del ?n s1 = Ret (0, s2)" "rule_ok s2" "rules_at s2 = rules_at s" "z_tok (rs_ez s2) = z_tok (rs_ez s1)"
    "rs_count s2 = rs_count s1 - 1" "customs_at (rs_ez s2) =
       (customs_at (rs_ez s1))(?n := tl (customs_at (rs_ez s1) ?n), out_name ?n := tl (customs_at (rs_ez s1) (out_name ?n)))"
    by (rule rule_del_ok [OF s1(2), of ?n]) (use s1(3) r0 that in \<open>simp add: fun_upd_idem\<close>)
  note o = out_name_fits [OF n]
  let ?z = "func_of ?n (ru_c_in r) ps (rs_ez s)"
  have z: "ez_ok ?z" using func_of_ok(1) [OF ez] o by blast
  obtain f where f: "customs_at ?z = (customs_at (rs_ez s))(?n := (case ru_c_in r of None \<Rightarrow> [] | Some c \<Rightarrow> [f c]) @ [])"
    using customs_at_func_of [OF ez, of ?n "ru_c_in r" ps] o c0(1) by auto
  obtain g where "customs_at (rs_ez s1) = (customs_at ?z)(out_name ?n := (case ru_c_out r of None \<Rightarrow> [] | Some c \<Rightarrow> [g c]) @ [])"
    using customs_at_func_of [OF z, of "out_name ?n" "ru_c_out r" qs] o c0(2) f s1(4) by auto
  then have "customs_at (rs_ez s2) = customs_at (rs_ez s)"
    using s2(6) f c0 o by (cases "ru_c_in r"; cases "ru_c_out r") (auto simp: fun_eq_iff)
  then have "ez_custom_get k (rs_ez s2) = ez_custom_get k (rs_ez s)" for k
    using customs.look_law [of "rs_ez s"] customs.look_law [of "rs_ez s2"] ez s2(2) by (simp add: rule_ok_def ez_ok_def)
  moreover have "rule_get k s2 = rule_get k s" for k
    using rule_get_vals [OF ok, of k] rule_get_vals [OF s2(2), of k] s2(3) by (cases "k = []") (simp_all add: rule_get_def)
  moreover have "ez_hash_get k (z_tok (rs_ez s2)) =
      (if k = ?n \<and> ru_c_in r \<noteq> None \<or> k = out_name ?n \<and> ru_c_out r \<noteq> None then Ret (Some T_FUNC_CUSTOM)
       else ez_hash_get k (z_tok (rs_ez s)))" for k
    using func_of_ok(3) [OF ez] func_of_ok(3) [OF z] o s2(4) s1(4) by auto
  ultimately show ?thesis
    using s0 s1(1,5) s2(1,2,5) by (auto simp: setRule_def)
qed

lemma rule_undone_witness:
  "\<exists>s1 s2. setRule sample_rule sample_rules = Ret s1 \<and> rule_del (asc ''max'') s1 = Ret (0, s2) \<and>
     ez_hash_get (asc ''max'') (z_tok (rs_ez s2)) = Ret (Some T_FUNC_CUSTOM) \<and> ez_custom_get (asc ''max'') (rs_ez s2) = Ret None"
proof -
  have "ru_name sample_rule = asc ''max''" "ru_c_in sample_rule \<noteq> None" by (simp_all add: sample_rule_def)
  then show ?thesis
    using rule_undone [OF sample_rules_ok sample_rule_wf sample_rules_fresh(1) sample_rules_fresh(2) sample_rules_fresh(2)]
      sample_rules_fresh(2) by auto
qed

lemma max_was_a_word: "ez_hash_get (asc ''max'') (z_tok (rs_ez sample_rules)) = Ret (Some T_FUNC_MAX)"
proof -
  have "map_of (rev keyword_to_tokens) (asc ''max'') = Some T_FUNC_MAX" by code_simp
  then show ?thesis by (simp add: sample_rules_def rule_cfg_default_def ez_keywords)
qed

end
