(* ===== verification/Spec2Isabelle.thy ===== *)
theory Spec2Isabelle
  imports Bfifo_Fd Block_Msg_Queue Threaddog Crc Aes Md5 Dlt645_1997 Mbus603 Dust Hjt212 Cc_bjdc Ext_Typing Ext_Group Sync_List
    Ez_Vars Ez_Limits Rule
begin

text \<open>
  This library verifies parts of the firmware of a data acquisition gateway (NUC977, ARM926), which lies in
  \<open>src/software/das\<close>.  The gateway reads meters and sensors over serial lines, keeps the values in a
  table of variables that modbus masters read and write, computes values with expressions and rules, and reports to
  platforms over TCP.  Its parts, and how they hang together:

  \<^item> Threads exchange bytes and messages through queues of their own: the byte fifo \<open>sdccp/bfifo.c\<close>,
    simulated file descriptors on pairs of fifos (second half of \<open>bfifo.c\<close>), the message queue
    \<open>block_msg_queue.c\<close>.  The watchdog table \<open>threaddog/threaddog.c\<close> finds threads that hang.
  \<^item> Meter drivers turn bytes of a serial line into readings: DL/T 645 in two versions
    (\<open>sdccp/dlt645.c\<close>, \<open>sdccp/dlt645_1997.c\<close>), M-Bus heat meters (\<open>sdccp/mbus_603.c\<close>), a dust sensor
    (\<open>sdccp/sdccp_dust.c\<close>).  Each has a receiver that is called with the serial buffer, and requests
    that wait for the receiver through a queue of one message.
  \<^item> The variable manager \<open>drivers/varmanage/varmanage.c\<close> keeps a linked list of variables and the array of
    modbus registers.  It plans the requests to the devices, takes readings and answers into values
    and registers, counts errors, and adds and deletes whole modules of inputs and outputs.
  \<^item> A variable may have an expression, which \<open>external/expression\<close> evaluates while it parses it; the
    expression may use other variables by name.  A rule (\<open>drivers/rule/rule.c\<close>) is a named pair of functions of
    that language.
  \<^item> Upload protocols frame, check and partly encrypt what is sent to a platform and parse what
    comes back: HJ/T 212 (\<open>sdccp/hjt212.c\<close>) and BJDC (\<open>sdccp/cc_bjdc.c\<close>).
  \<^item> They rest on checksums (five CRC routines), AES-128 (\<open>external/aes/aes.c\<close> and its copy
    \<open>sdccp/dm101/dm_aes.c\<close>) and MD5 (\<open>sdccp/cc_md5.c\<close>).

  How C is modelled.  A call is a function from arguments and state to an \<open>outcome\<close>: \<open>Ret\<close> with the
  result and the new state, \<open>Fault\<close> for an access outside an object or another undefined
  behaviour, \<open>Blocked\<close> for a call that never comes back.  Integers are words of their width; a
  \<open>char\<close> is unsigned, \<open>long\<close> has 32 bits, integers lie in memory least significant byte first (ARM).  Memory is a list of
  bytes of the length of the object; cells of linked lists are numbered, and a cell that was given back faults when it is used.
  What another thread or the clock does during a wait is an argument of the call.  Allocations succeed.

  \<^bold>\<open>Theories.\<close>

  \<^item> \<open>Prelude\<close>: word types, \<open>outcome\<close>, bounded copies, little-endian integers.  \<open>Ring\<close>: lists as rings.
    \<open>C_Text\<close>: the string functions of the C library.  \<open>Meter_Memory\<close>: in place decoding of a
    receive buffer and the queue of one message of the drivers.
  \<^item> \<open>Queue_Interface\<close>: the contract of a bounded first-in first-out queue, as a locale: what is taken out
    is what was put in, in order, and nothing is lost.  \<open>Bfifo\<close> and \<open>Block_Msg_Queue\<close> interpret it.
  \<^item> \<open>Bfifo\<close>: \<open>struct bfifo\<close> with its mutex, two free running 32 bit counters and every operation of
    \<open>bfifo.c\<close>; refinement of a lossless queue, each operation on every branch, what goes wrong on \<open>peek\<close>
    and for sizes that do not divide 2^32.  \<open>Bfifo_Fd\<close>: the table of descriptors and its operations.
  \<^item> \<open>Block_Msg_Queue\<close>: \<open>struct block_msg_queue\<close>, refinement, error codes, spurious wake-ups.
  \<^item> \<open>Threaddog\<close>: the watchdog table, its invariant, what a scan finds.
  \<^item> \<open>Crc\<close>: the tables and loops of the five CRC routines equal their bitwise definitions; residue;
    detection of single wrong bytes.  \<open>Aes\<close>: the cipher step by step; every step inverted; CBC mode and
    padding; the published example.  \<open>Md5\<close>: the context, \<open>Transform\<close> with its 64 lines; equal to RFC
    1321 for a message in any pieces.
  \<^item> \<open>Cfloat\<close>: numbers of decimal readings as rationals that are rounded, \<open>atof\<close> on decimal text.  \<open>Ieee\<close>: the formats
    of single and double precision, with rounding, denormals, overflow, infinities and their bits in memory.
  \<^item> \<open>Dlt645\<close>, \<open>Dlt645_1997\<close>, \<open>Mbus603\<close>, \<open>Dust\<close>: records, requests, parsers of the four drivers; frames are decoded to
    the readings they carry; receivers stay in their buffers, or when they do not.
  \<^item> \<open>Framing\<close>: the contract of a byte by byte receiver with start and end mark, as a locale: a frame is
    handed over whole; after a wrong start nothing ever is; with a handler that comes back the
    receiver comes back.  \<open>Hjt212\<close> and \<open>Cc_bjdc\<close> interpret it on \<open>HJT212_PutBytes\<close> and \<open>CC_BJDC_PutBytes\<close>.
  \<^item> \<open>Hjt212\<close>: encoder, messages, command parser.  Round trip from encoder to receiver, commands and answers,
    what a wrong length field, a wrong first byte and old bytes in the buffer do.
  \<^item> \<open>Cc_bjdc\<close>: sender and receiver of encrypted frames, documents, login.  Round trip, safety for every
    stream, what an end mark in encrypted bytes does, the login as a state machine.
  \<^item> \<open>Ext_Data\<close>: \<open>ExtData_t\<close> and its members.  \<open>Ext_List\<close>: the doubly linked list of variables with its end pointers, insertion,
    deletion, search and the sort by address; refinement of a plain list, and the sort that breaks the list.
  \<^item> \<open>Ext_Value\<close>: values of every type read and written as numbers, byte orders and their names.  \<open>Ext_Refresh\<close>: the registers, which of
    them belong to variables, limits, expressions, analog inputs and the refresh of a variable from its registers.  \<open>Ext_Sources\<close>: answers of
    modbus slaves, writes of modbus masters, readings of the meters, devices that do not answer.  \<open>Ext_Typing\<close>: all of
    these as one step relation, and what every sequence of steps keeps.
  \<^item> \<open>Sync_List\<close>: the list of requests of the collecting thread: how it is built, merged and walked.
  \<^item> \<open>Ext_Group\<close>: adding and deleting modules of eight inputs and outputs, with the checks before and the error codes.
  \<^item> \<open>Name_Table\<close>: chained hash tables, and their contract, a stack of bindings, as a locale.  It is interpreted for the words and
    the functions of the expression language (\<open>Ez_Tokenizer\<close>, \<open>ez_hash.c\<close>, \<open>ez_custom_function.c\<close>) and for the rules (\<open>Rule\<close>).
  \<^item> \<open>Ez_Tokenizer\<close> and \<open>Ez_Exp\<close>: \<open>ez_tokenizer.c\<close>, \<open>ez_expparser.c\<close>, \<open>_expressions.c\<close> and the built-in functions, routine by routine.
    \<open>Ez_Spec\<close>: a grammar of arithmetic expressions with variables and its value, and that parsing its text gives this
    value.  \<open>Ez_Vars\<close>: the evaluator of \<open>Ext_Refresh\<close> is this parser.  \<open>Ez_Limits\<close>: texts on which it hangs or reads
    another variable.
  \<^item> \<open>Rule\<close>: the table of rules and the functions they define, its invariant, and what deleting a rule leaves.

  \<^bold>\<open>Bounds.\<close>  Loops are structural recursion, folds over the bytes, or recursion on what is left of a text, so that
  definitions are total and most use no fuel.  Walks over the linked list are bounded by the number of its cells, which is enough for
  every list that is one; the sort, which may never end, is a \<open>partial_function\<close> whose value \<open>None\<close> is just that, and is
  proved to end for the lists that modules are added to.  The parser of expressions has fuel, which bounds its
  depth and its loops; more than the length of the text is proved to be enough for arithmetic expressions, and with any amount
  the text of \<open>ez_unknown_word_hangs\<close> does not end.  Waits are bounded by the list of events given to the call, and a
  call whose wait never ends is \<open>Blocked\<close>.  Numbers of \<open>Cfloat\<close> have no overflow and no denormals; the
  readings, of at most eight decimal digits and scaled by powers of ten, are far from both.  In \<open>Ieee\<close> there is one zero: the
  sign of a zero is lost.

  \<^bold>\<open>Parameters.\<close>  The XML library of \<open>cc_bjdc.c\<close> (only its header is there) is an argument: the view that
  the code takes of the document it makes of a text.  The serial and network drivers are lists of
  what was sent; the clock is a function of the number of readings.  The refresh of variables has the evaluator of expressions, the types
  of rules, the open ports and the bytes of its local value before it is written as arguments, the evaluator has the mathematical library, the clock and
  random numbers, and the data base of the configuration answers by a function of the name.

  \<^bold>\<open>Not modelled.\<close>  Sockets, threads, files, the web server and the start-up (\<open>das.c\<close>, \<open>board\<close>), radio modules
  (\<open>drivers/lora\<close>, \<open>drivers/zigbee\<close>) and the MQTT client are dialogues with the operating system
  and with devices.  \<open>sdccp/mqtt\<close>, \<open>drivers/cjson\<close> and \<open>external\<close> but for AES and the expressions are libraries of others.  Of the
  variable manager and the rules the web handlers and the conversion to and from JSON are left out, and
  the thread that works through the requests.  The periodic
  reports of the two upload protocols, the SMF instrument (\<open>sdccp/sdccp_smf.c\<close>, whose parser is one call of \<open>sscanf\<close>), the environment
  monitor (\<open>sdccp/sdccp_dh.c\<close>, HTTP and JSON), the
  DM101 protocol (\<open>sdccp/dm101/dm_lib.c\<close>) and the string helpers of \<open>das_util.c\<close> are left out.  Debug output is left out everywhere.
\<close>

end
